(* ===== verification/Prelude.thy ===== *)
theory Prelude
  imports Complex_Main "HOL-Library.AList"
begin

text \<open>
  Shared vocabulary of the development: machine integers written out over the
  unbounded integers, Rust's saturating arithmetic, hash maps as association
  lists with distinct keys, and the named collections the component theories
  add their facts to.
\<close>

named_theorems consts_defs \<open>unfolding of the constants of src/constants.rs\<close>
named_theorems state_simps \<open>how an operation acts on the fields of its state\<close>

section \<open>Machine integers\<close>

text \<open>
  A Rust \<open>i32\<close> is an \<open>int\<close> in the range \<open>in_i32\<close>. The release profile of the
  crate does not enable overflow checks, so an addition or multiplication that can leave the
  range is written with \<open>wrap_i32\<close>, which is the identity inside it.
\<close>

type_synonym i32 = int

definition i32_max :: int where
  "i32_max = 2147483647"

definition i32_min :: int where
  "i32_min = - 2147483648"

definition in_i32 :: "int \<Rightarrow> bool" where
  "in_i32 x \<longleftrightarrow> i32_min \<le> x \<and> x \<le> i32_max"

definition wrap_i32 :: "int \<Rightarrow> int" where
  "wrap_i32 x = (x + 2147483648) mod 4294967296 - 2147483648"

lemma wrap_i32_id [simp]: "in_i32 x \<Longrightarrow> wrap_i32 x = x"
  by (simp add: in_i32_def wrap_i32_def i32_min_def i32_max_def)

lemma wrap_i32_range [simp]: "in_i32 (wrap_i32 x)"
proof -
  have "0 \<le> (x + 2147483648) mod 4294967296" by simp
  moreover have "(x + 2147483648) mod 4294967296 < 4294967296" by simp
  ultimately show ?thesis
    unfolding in_i32_def wrap_i32_def i32_min_def i32_max_def by linarith
qed

lemma wrap_i32_cong: "wrap_i32 (wrap_i32 a + b) = wrap_i32 (a + b)"
proof -
  have "wrap_i32 (wrap_i32 a + b) = ((a + 2147483648) mod 4294967296 + b) mod 4294967296 - 2147483648"
    by (simp add: wrap_i32_def)
  also have "\<dots> = (a + 2147483648 + b) mod 4294967296 - 2147483648" by (simp add: mod_add_left_eq)
  finally show ?thesis by (simp add: wrap_i32_def ac_simps)
qed

lemma wrap_i32_cong_diff: "wrap_i32 (wrap_i32 a - b) = wrap_i32 (a - b)"
  using wrap_i32_cong [of a "- b"] by simp

lemma wrap_i32_eqD:
  assumes "wrap_i32 a = wrap_i32 b" "- 4294967296 < a - b" "a - b < 4294967296"
  shows "a = b"
proof -
  from assms(1) have "(a + 2147483648) mod 4294967296 = (b + 2147483648) mod 4294967296"
    by (simp add: wrap_i32_def)
  then have "4294967296 dvd (a + 2147483648) - (b + 2147483648)" by (simp add: mod_eq_dvd_iff)
  then have "4294967296 dvd a - b" by simp
  then obtain c where c: "a - b = 4294967296 * c" by (elim dvdE)
  with assms(2,3) have "c = 0" by linarith
  with c have "a - b = 0" by simp
  then show ?thesis by simp
qed

text \<open>\<open>i32::saturating_add\<close> and \<open>u32::saturating_add\<close>.\<close>

definition sat_add_i32 :: "int \<Rightarrow> int \<Rightarrow> int" where
  "sat_add_i32 x y = max i32_min (min i32_max (x + y))"

definition u32_max :: nat where
  "u32_max = 4294967295"

definition sat_add_u32 :: "nat \<Rightarrow> nat \<Rightarrow> nat" where
  "sat_add_u32 x y = min u32_max (x + y)"

definition u64_max :: nat where
  "u64_max = 18446744073709551615"

definition sat_mul_u64 :: "nat \<Rightarrow> nat \<Rightarrow> nat" where
  "sat_mul_u64 x y = min u64_max (x * y)"

lemma sat_add_i32_exact: "in_i32 (x + y) \<Longrightarrow> sat_add_i32 x y = x + y"
  by (simp add: sat_add_i32_def in_i32_def)

lemma sat_add_u32_le: "sat_add_u32 x y \<le> u32_max"
  by (simp add: sat_add_u32_def)

section \<open>Hash maps\<close>

text \<open>
  A \<open>HashMap<K, V>\<close> is an association list whose keys are distinct; \<open>map_of\<close> is
  \<open>get\<close>, \<open>AList.update\<close> is \<open>insert\<close> and \<open>filter\<close> is \<open>retain\<close>. No modelled code
  depends on the iteration order.
\<close>

type_synonym ('k, 'v) hmap = "('k \<times> 'v) list"

definition hmap_ok :: "('k, 'v) hmap \<Rightarrow> bool" where
  "hmap_ok m \<longleftrightarrow> distinct (map fst m)"

abbreviation hget :: "('k, 'v) hmap \<Rightarrow> 'k \<Rightarrow> 'v option" where
  "hget m k \<equiv> map_of m k"

abbreviation hput :: "('k, 'v) hmap \<Rightarrow> 'k \<Rightarrow> 'v \<Rightarrow> ('k, 'v) hmap" where
  "hput m k v \<equiv> AList.update k v m"

definition has_key :: "('k, 'v) hmap \<Rightarrow> 'k \<Rightarrow> bool" where
  "has_key m k \<longleftrightarrow> hget m k \<noteq> None"

lemma hmap_ok_Nil [simp]: "hmap_ok []"
  by (simp add: hmap_ok_def)

lemma hmap_ok_put [simp]: "hmap_ok m \<Longrightarrow> hmap_ok (hput m k v)"
  by (simp add: hmap_ok_def distinct_update)

lemma hmap_ok_filter [simp]: "hmap_ok m \<Longrightarrow> hmap_ok (filter p m)"
  by (simp add: hmap_ok_def distinct_map_filter)

lemma hget_put [simp]: "hget (hput m k v) k' = (if k' = k then Some v else hget m k')"
  by (simp add: update_conv')

lemma has_key_put [simp]: "has_key (hput m k v) k' \<longleftrightarrow> k' = k \<or> has_key m k'"
  by (simp add: has_key_def)

lemma length_put: "length (hput m k v) = (if has_key m k then length m else Suc (length m))"
  by (induction m) (auto simp: has_key_def)

lemma hget_filter:
  "hmap_ok m \<Longrightarrow> hget (filter (\<lambda>(k, v). p k v) m) k =
     (case hget m k of None \<Rightarrow> None | Some v \<Rightarrow> if p k v then Some v else None)"
proof (induction m)
  case (Cons a m)
  obtain k' v' where a: "a = (k', v')" by force
  have fresh: "hget m k' = None"
    using Cons.prems a by (simp add: hmap_ok_def map_of_eq_None_iff)
  from Cons.prems have ok: "hmap_ok m" by (simp add: hmap_ok_def)
  show ?case
    using Cons.IH [OF ok] a fresh by (auto split: option.splits)
qed simp

section \<open>Decimal numbers\<close>

text \<open>The \<open>Display\<close> form of an unsigned integer.\<close>

fun dec :: "nat \<Rightarrow> string" where
  "dec n = (if n < 10 then [char_of (48 + n)] else dec (n div 10) @ [char_of (48 + n mod 10)])"

declare dec.simps [simp del]

section \<open>Lists\<close>

lemma sum_list_nonneg_int: "(\<And>x. x \<in> set xs \<Longrightarrow> 0 \<le> (x::int)) \<Longrightarrow> 0 \<le> sum_list xs"
  by (induction xs) auto

lemma sum_list_update_int:
  "i < length xs \<Longrightarrow> sum_list (xs[i := (v::int)]) = sum_list xs + v - xs ! i"
proof (induction xs arbitrary: i)
  case (Cons x xs)
  then show ?case by (cases i) auto
qed simp

section \<open>Invariants of step relations\<close>

text \<open>
  A component whose state changes by steps interprets this locale on its step relation and its
  invariant; the invariant then holds in every reachable state.
\<close>

locale step_invariant =
  fixes step :: "'s \<Rightarrow> 's \<Rightarrow> bool"
    and inv :: "'s \<Rightarrow> bool"
  assumes step_inv: "inv s \<Longrightarrow> step s s' \<Longrightarrow> inv s'"
begin

lemma reachable_inv: "step\<^sup>*\<^sup>* s s' \<Longrightarrow> inv s \<Longrightarrow> inv s'"
  by (induction rule: rtranclp_induct) (auto intro: step_inv)

end

end
