(* ===== verification/Float64.thy ===== *)
theory Float64
  imports Prelude "HOL-Library.Log_Nat"
begin

text \<open>
  The IEEE-754 binary64 values and operations that Rust's \<open>f64\<close> uses, with rounding to
  nearest, ties to even. A finite value is the rational number it denotes; the sign of a zero
  is not kept (the modelled code compares, adds, multiplies and divides by non-zero values
  only, so it cannot observe it). Every operation computes the exact rational result and
  rounds it once, so results overflow to an infinity and underflow to a subnormal or zero as
  the hardware's do.
\<close>

section \<open>Values and rounding\<close>

datatype f64 = NaN | PosInf | NegInf | Fin rat

definition pow2 :: "int \<Rightarrow> rat" where
  "pow2 e = 2 powi e"

definition round_half_even :: "rat \<Rightarrow> int" where
  "round_half_even x =
     (let f = \<lfloor>x\<rfloor>; d = x - of_int f
      in if d < 1 / 2 then f else if 1 / 2 < d then f + 1
         else if even f then f else f + 1)"

text \<open>The exponent \<open>e\<close> with \<open>2\<^sup>e \<le> \<bar>x\<bar> < 2\<^sup>e\<^sup>+\<^sup>1\<close>, for \<open>x \<noteq> 0\<close>.\<close>

definition exponent2 :: "rat \<Rightarrow> int" where
  "exponent2 x =
     (let (n, d) = quotient_of \<bar>x\<bar>; e = bitlen n - bitlen d
      in if pow2 e \<le> \<bar>x\<bar> then e else e - 1)"

text \<open>Spacing of the values around \<open>x\<close>: 53 significant bits, exponents down to -1022.\<close>

definition ulp_exp :: "rat \<Rightarrow> int" where
  "ulp_exp x = max (exponent2 x) (- 1022) - 52"

definition rnd :: "rat \<Rightarrow> rat" where
  "rnd x = (if x = 0 then 0
            else of_int (round_half_even (x / pow2 (ulp_exp x))) * pow2 (ulp_exp x))"

text \<open>A rounded value of magnitude \<open>2\<^sup>1\<^sup>0\<^sup>2\<^sup>4\<close> or more overflows.\<close>

definition overflows :: "rat \<Rightarrow> bool" where
  "overflows r \<longleftrightarrow> r \<noteq> 0 \<and> 1024 \<le> exponent2 r"

definition to_f64 :: "rat \<Rightarrow> f64" where
  "to_f64 x = (let r = rnd x
               in if overflows r then if 0 < r then PosInf else NegInf else Fin r)"

definition representable :: "rat \<Rightarrow> bool" where
  "representable r \<longleftrightarrow> rnd r = r \<and> \<not> overflows r"

fun f64_ok :: "f64 \<Rightarrow> bool" where
  "f64_ok (Fin r) = representable r"
| "f64_ok _ = True"

section \<open>Operations\<close>

fun f_is_finite :: "f64 \<Rightarrow> bool" where
  "f_is_finite (Fin _) = True"
| "f_is_finite _ = False"

fun f_lt :: "f64 \<Rightarrow> f64 \<Rightarrow> bool" where
  "f_lt (Fin a) (Fin b) = (a < b)"
| "f_lt (Fin _) PosInf = True"
| "f_lt NegInf (Fin _) = True"
| "f_lt NegInf PosInf = True"
| "f_lt _ _ = False"

fun f_le :: "f64 \<Rightarrow> f64 \<Rightarrow> bool" where
  "f_le (Fin a) (Fin b) = (a \<le> b)"
| "f_le (Fin _) PosInf = True"
| "f_le NegInf (Fin _) = True"
| "f_le NegInf PosInf = True"
| "f_le NegInf NegInf = True"
| "f_le PosInf PosInf = True"
| "f_le _ _ = False"

fun f_neg :: "f64 \<Rightarrow> f64" where
  "f_neg NaN = NaN"
| "f_neg PosInf = NegInf"
| "f_neg NegInf = PosInf"
| "f_neg (Fin a) = Fin (- a)"

fun f_add :: "f64 \<Rightarrow> f64 \<Rightarrow> f64" where
  "f_add (Fin a) (Fin b) = to_f64 (a + b)"
| "f_add NaN _ = NaN"
| "f_add _ NaN = NaN"
| "f_add PosInf NegInf = NaN"
| "f_add NegInf PosInf = NaN"
| "f_add PosInf _ = PosInf"
| "f_add _ PosInf = PosInf"
| "f_add NegInf _ = NegInf"
| "f_add _ NegInf = NegInf"

definition f_sub :: "f64 \<Rightarrow> f64 \<Rightarrow> f64" where
  "f_sub a b = f_add a (f_neg b)"

fun inf_of_sign :: "rat \<Rightarrow> f64" where
  "inf_of_sign s = (if 0 < s then PosInf else if s < 0 then NegInf else NaN)"

fun f_sign :: "f64 \<Rightarrow> rat" where
  "f_sign (Fin a) = sgn a"
| "f_sign PosInf = 1"
| "f_sign NegInf = - 1"
| "f_sign NaN = 0"

fun f_mul :: "f64 \<Rightarrow> f64 \<Rightarrow> f64" where
  "f_mul (Fin a) (Fin b) = to_f64 (a * b)"
| "f_mul NaN _ = NaN"
| "f_mul _ NaN = NaN"
| "f_mul a b = inf_of_sign (f_sign a * f_sign b)"

fun f_div :: "f64 \<Rightarrow> f64 \<Rightarrow> f64" where
  "f_div (Fin a) (Fin b) = (if b = 0 then inf_of_sign (sgn a) else to_f64 (a / b))"
| "f_div NaN _ = NaN"
| "f_div _ NaN = NaN"
| "f_div (Fin a) _ = Fin 0"
| "f_div PosInf (Fin b) = (if b < 0 then NegInf else PosInf)"
| "f_div NegInf (Fin b) = (if b < 0 then PosInf else NegInf)"
| "f_div _ _ = NaN"

text \<open>\<open>f64::min\<close> and \<open>f64::max\<close> ignore a NaN operand.\<close>

fun f_min :: "f64 \<Rightarrow> f64 \<Rightarrow> f64" where
  "f_min NaN b = b"
| "f_min a NaN = a"
| "f_min a b = (if f_le a b then a else b)"

fun f_max :: "f64 \<Rightarrow> f64 \<Rightarrow> f64" where
  "f_max NaN b = b"
| "f_max a NaN = a"
| "f_max a b = (if f_le a b then b else a)"

fun f_floor :: "f64 \<Rightarrow> f64" where
  "f_floor (Fin a) = Fin (of_int \<lfloor>a\<rfloor>)"
| "f_floor x = x"

fun f_ceil :: "f64 \<Rightarrow> f64" where
  "f_ceil (Fin a) = Fin (of_int \<lceil>a\<rceil>)"
| "f_ceil x = x"

text \<open>\<open>n as f64\<close>, and \<open>x as i32\<close>, which truncates towards zero and saturates.\<close>

definition f_of_int :: "int \<Rightarrow> f64" where
  "f_of_int n = to_f64 (of_int n)"

definition trunc_rat :: "rat \<Rightarrow> int" where
  "trunc_rat a = (if 0 \<le> a then \<lfloor>a\<rfloor> else \<lceil>a\<rceil>)"

fun f_to_i32 :: "f64 \<Rightarrow> i32" where
  "f_to_i32 (Fin a) = max i32_min (min i32_max (trunc_rat a))"
| "f_to_i32 PosInf = i32_max"
| "f_to_i32 NegInf = i32_min"
| "f_to_i32 NaN = 0"

section \<open>Powers of two\<close>

lemma pow2_pos [simp]: "0 < pow2 e"
  by (simp add: pow2_def)

lemma pow2_nonzero [simp]: "pow2 e \<noteq> 0"
  using pow2_pos [of e] by linarith

lemma pow2_nonneg [simp]: "0 \<le> pow2 e"
  by (rule less_imp_le) simp

lemma pow2_not_nonpos [simp]: "\<not> pow2 e \<le> 0"
  by (simp add: not_le)

lemma pow2_abs [simp]: "\<bar>pow2 e\<bar> = pow2 e"
  by simp

lemma pow2_0 [simp]: "pow2 0 = 1"
  by (simp add: pow2_def)

lemma pow2_add: "pow2 (a + b) = pow2 a * pow2 b"
  by (simp add: pow2_def power_int_add)

lemma pow2_Suc: "pow2 (e + 1) = 2 * pow2 e"
  using pow2_add [of e 1] by (simp add: pow2_def)

lemma pow2_diff: "pow2 (a - b) = pow2 a / pow2 b"
  by (simp add: pow2_def power_int_diff)

lemma pow2_less_iff [simp]: "pow2 a < pow2 b \<longleftrightarrow> a < b"
proof
  show "a < b \<Longrightarrow> pow2 a < pow2 b"
    by (simp add: pow2_def power_int_strict_increasing)
  show "pow2 a < pow2 b \<Longrightarrow> a < b"
    using power_int_increasing [of b a "2::rat"] by (force simp: pow2_def not_less)
qed

lemma pow2_le_iff [simp]: "pow2 a \<le> pow2 b \<longleftrightarrow> a \<le> b"
  by (simp add: not_less [symmetric])

lemma pow2_nat: "pow2 (int n) = of_int (2 ^ n)"
  by (simp add: pow2_def)

lemma pow2_integral: "0 \<le> e \<Longrightarrow> pow2 e = of_int (2 ^ nat e)"
  using pow2_nat [of "nat e"] by simp

lemma pow2_numeral: "pow2 (numeral k) = 2 ^ numeral k"
  by (simp add: pow2_def)

lemma pow2_53: "pow2 53 = of_int (2 ^ 53)"
  by (simp add: pow2_numeral)

section \<open>Rounding to an integer\<close>

lemma round_half_even_cases:
  "round_half_even x = \<lfloor>x\<rfloor> \<and> x - of_int \<lfloor>x\<rfloor> \<le> 1 / 2 \<or>
   round_half_even x = \<lfloor>x\<rfloor> + 1 \<and> 1 / 2 \<le> x - of_int \<lfloor>x\<rfloor>"
  by (auto simp: round_half_even_def Let_def)

lemma round_half_even_of_int [simp]: "round_half_even (of_int n) = n"
  by (simp add: round_half_even_def)

lemma round_half_even_error: "\<bar>of_int (round_half_even x) - x\<bar> \<le> 1 / 2"
  using round_half_even_cases [of x] by (auto simp: abs_if) linarith+

lemma round_half_even_floor: "\<lfloor>x\<rfloor> \<le> round_half_even x \<and> round_half_even x \<le> \<lfloor>x\<rfloor> + 1"
  using round_half_even_cases [of x] by auto

lemma round_half_even_mono:
  assumes "x \<le> y"
  shows "round_half_even x \<le> round_half_even y"
proof (cases "\<lfloor>x\<rfloor> = \<lfloor>y\<rfloor>")
  case True
  then show ?thesis using assms by (auto simp: round_half_even_def Let_def)
next
  case False
  then have "\<lfloor>x\<rfloor> + 1 \<le> \<lfloor>y\<rfloor>" using floor_mono [OF assms] by linarith
  then show ?thesis
    using round_half_even_floor [of x] round_half_even_floor [of y] by linarith
qed

lemma round_half_even_neg: "round_half_even (- x) = - round_half_even x"
proof (cases "x = of_int \<lfloor>x\<rfloor>")
  case True
  then show ?thesis
    by (metis of_int_minus round_half_even_of_int)
next
  case False
  then have frac: "of_int \<lfloor>x\<rfloor> < x" using of_int_floor_le [of x] by linarith
  have fl: "\<lfloor>- x\<rfloor> = - \<lfloor>x\<rfloor> - 1"
    using frac by (intro floor_unique) (auto intro: less_imp_le, linarith)
  show ?thesis
    unfolding round_half_even_def Let_def fl by (auto simp: field_simps)
qed

lemma round_half_even_ge: "of_int n \<le> x \<Longrightarrow> n \<le> round_half_even x"
  using round_half_even_mono [of "of_int n" x] by simp

lemma round_half_even_le: "x \<le> of_int n \<Longrightarrow> round_half_even x \<le> n"
  using round_half_even_mono [of x "of_int n"] by simp

section \<open>Exponents\<close>

lemma exponent2_bounds:
  assumes "x \<noteq> 0"
  shows "pow2 (exponent2 x) \<le> \<bar>x\<bar> \<and> \<bar>x\<bar> < pow2 (exponent2 x + 1)"
proof -
  obtain n d where q: "quotient_of \<bar>x\<bar> = (n, d)" by force
  have d: "0 < d" using quotient_of_denom_pos [OF q] .
  have xq: "\<bar>x\<bar> = of_int n / of_int d" using quotient_of_div [OF q] .
  have n: "0 < n" using assms xq d by (metis abs_of_nonneg linorder_not_less
      nle_le of_int_0_less_iff of_int_le_0_iff zero_less_abs_iff divide_le_0_iff)
  let ?e = "bitlen n - bitlen d"
  have bn: "pow2 (bitlen n - 1) \<le> of_int n" "of_int n < pow2 (bitlen n)"
    using bitlen_bounds [OF n] bitlen_nonneg [of n] n
    by (auto simp: pow2_integral bitlen_alt_def simp del: of_int_power)
  have bd: "pow2 (bitlen d - 1) \<le> of_int d" "of_int d < pow2 (bitlen d)"
    using bitlen_bounds [OF d] bitlen_nonneg [of d] d
    by (auto simp: pow2_integral bitlen_alt_def simp del: of_int_power)
  have dpos: "(0::rat) < of_int d" using d by simp
  have "pow2 (?e - 1) * of_int d \<le> pow2 (?e - 1) * pow2 (bitlen d)"
    using bd(2) by (intro mult_left_mono) auto
  also have "\<dots> = pow2 (bitlen n - 1)" by (simp add: pow2_add [symmetric])
  finally have lo: "pow2 (?e - 1) \<le> \<bar>x\<bar>"
    using bn(1) dpos by (simp add: xq pos_le_divide_eq)
  have "pow2 (bitlen n) = pow2 (?e + 1) * pow2 (bitlen d - 1)"
    by (simp add: pow2_add [symmetric])
  also have "\<dots> \<le> pow2 (?e + 1) * of_int d"
    using bd(1) by (intro mult_left_mono) (auto intro: less_imp_le)
  finally have hi: "\<bar>x\<bar> < pow2 (?e + 1)"
    using bn(2) dpos by (simp add: xq pos_divide_less_eq)
  show ?thesis
    using lo hi by (simp add: exponent2_def q Let_def)
qed

lemma exponent2_unique:
  assumes "pow2 e \<le> \<bar>x\<bar>" "\<bar>x\<bar> < pow2 (e + 1)"
  shows "exponent2 x = e"
proof -
  have "x \<noteq> 0" using assms(1) pow2_pos [of e] by auto
  from exponent2_bounds [OF this] assms have "pow2 e < pow2 (exponent2 x + 1)"
    "pow2 (exponent2 x) < pow2 (e + 1)" by linarith+
  then show ?thesis by simp
qed

lemma exponent2_neg [simp]: "exponent2 (- x) = exponent2 x"
  by (simp add: exponent2_def)

lemma exponent2_mono:
  assumes "x \<noteq> 0" "\<bar>x\<bar> \<le> \<bar>y\<bar>"
  shows "exponent2 x \<le> exponent2 y"
proof -
  have "y \<noteq> 0" using assms by auto
  from exponent2_bounds [OF this] exponent2_bounds [OF assms(1)] assms(2)
  have "pow2 (exponent2 x) < pow2 (exponent2 y + 1)" by linarith
  then show ?thesis by simp
qed

lemma exponent2_less_iff: "x \<noteq> 0 \<Longrightarrow> exponent2 x < e \<longleftrightarrow> \<bar>x\<bar> < pow2 e"
proof -
  assume x: "x \<noteq> 0"
  note b = exponent2_bounds [OF x]
  show ?thesis
  proof
    assume "exponent2 x < e"
    then have "pow2 (exponent2 x + 1) \<le> pow2 e" by simp
    with b show "\<bar>x\<bar> < pow2 e" by linarith
  next
    assume "\<bar>x\<bar> < pow2 e"
    with b have "pow2 (exponent2 x) < pow2 e" by linarith
    then show "exponent2 x < e" by simp
  qed
qed

lemma overflows_iff: "overflows r \<longleftrightarrow> pow2 1024 \<le> \<bar>r\<bar>"
proof (cases "r = 0")
  case True
  then show ?thesis using pow2_pos [of 1024] by (simp add: overflows_def not_le)
next
  case False
  then show ?thesis
    using exponent2_less_iff [of r 1024] by (auto simp: overflows_def not_le [symmetric])
qed

lemma ulp_exp_neg [simp]: "ulp_exp (- x) = ulp_exp x"
  by (simp add: ulp_exp_def)

lemma ulp_exp_mono: "x \<noteq> 0 \<Longrightarrow> \<bar>x\<bar> \<le> \<bar>y\<bar> \<Longrightarrow> ulp_exp x \<le> ulp_exp y"
  using exponent2_mono [of x y] by (auto simp: ulp_exp_def)

lemma scaled_bound:
  assumes "x \<noteq> 0"
  shows "\<bar>x / pow2 (ulp_exp x)\<bar> < pow2 53"
proof -
  have "\<bar>x\<bar> < pow2 (exponent2 x + 1)" using exponent2_bounds [OF assms] by simp
  also have "\<dots> \<le> pow2 (ulp_exp x + 53)" by (simp add: ulp_exp_def)
  also have "\<dots> = pow2 53 * pow2 (ulp_exp x)" by (simp add: pow2_add)
  finally show ?thesis by (simp add: abs_divide pos_divide_less_eq)
qed

section \<open>Rounding to a binary64 value\<close>

lemma rnd_0 [simp]: "rnd 0 = 0"
  by (simp add: rnd_def)

lemma rnd_neg: "rnd (- x) = - rnd x"
  by (simp add: rnd_def round_half_even_neg)

text \<open>A multiple of a power of two with at most 53 significant bits is not changed.\<close>

lemma rnd_exact:
  assumes k: "\<bar>k\<bar> \<le> 2 ^ 53" and j: "- 1074 \<le> j"
  shows "rnd (of_int k * pow2 j) = of_int k * pow2 j"
proof -
  have step: "rnd (of_int k * pow2 j) = of_int k * pow2 j"
    if k: "\<bar>k\<bar> < 2 ^ 53" and j: "- 1074 \<le> j" for k j
  proof (cases "k = 0")
    case False
    let ?r = "of_int k * pow2 j"
    let ?u = "ulp_exp ?r"
    have nz: "?r \<noteq> 0" using False by simp
    have "(of_int \<bar>k\<bar> :: rat) < of_int (2 ^ 53)" using k by (simp only: of_int_less_iff)
    then have "\<bar>?r\<bar> < pow2 53 * pow2 j"
      by (simp add: abs_mult pow2_integral)
    then have "\<bar>?r\<bar> < pow2 (53 + j)" by (simp add: pow2_add)
    then have "exponent2 ?r < 53 + j" using exponent2_less_iff [OF nz] by blast
    then have u: "?u \<le> j" using j by (simp add: ulp_exp_def)
    have "?r / pow2 ?u = of_int k * pow2 (j - ?u)" by (simp add: pow2_diff)
    also have "\<dots> = of_int (k * 2 ^ nat (j - ?u))" using u by (simp add: pow2_integral)
    finally have q: "?r / pow2 ?u = of_int (k * 2 ^ nat (j - ?u))" .
    have "rnd ?r = (?r / pow2 ?u) * pow2 ?u"
      using nz unfolding rnd_def q round_half_even_of_int by simp
    then show ?thesis by simp
  qed simp
  show ?thesis
  proof (cases "\<bar>k\<bar> < 2 ^ 53")
    case True
    then show ?thesis using j by (rule step)
  next
    case False
    with k have "k = 2 ^ 53 \<or> k = - (2 ^ 53)" by auto
    then have "k = 2 * (k div 2)" "\<bar>k div 2\<bar> < 2 ^ 53" by auto
    moreover have "of_int (2 * (k div 2)) * pow2 j = of_int (k div 2) * pow2 (j + 1)"
      by (simp add: pow2_Suc)
    ultimately show ?thesis using step [of "k div 2" "j + 1"] j by simp
  qed
qed

lemma rnd_form:
  obtains k j where "rnd x = of_int k * pow2 j" "\<bar>k\<bar> \<le> 2 ^ 53" "- 1074 \<le> j"
proof (cases "x = 0")
  case True
  then show ?thesis using that [of 0 0] by simp
next
  case False
  let ?u = "ulp_exp x" and ?k = "round_half_even (x / pow2 (ulp_exp x))"
  obtain q where q: "q = x / pow2 ?u" by simp
  have "\<bar>q\<bar> < of_int (2 ^ 53)" using scaled_bound [OF False] by (simp only: q pow2_53)
  then have "q \<le> of_int (2 ^ 53)" "of_int (- (2 ^ 53)) \<le> q" by auto
  then have "?k \<le> 2 ^ 53" "- (2 ^ 53) \<le> ?k"
    unfolding q by (blast intro: round_half_even_le round_half_even_ge)+
  moreover have "- 1074 \<le> ?u" by (simp add: ulp_exp_def)
  moreover have "rnd x = of_int ?k * pow2 ?u" using False by (simp add: rnd_def)
  ultimately show ?thesis using that [of ?k ?u] by simp
qed

lemma rnd_idem [simp]: "rnd (rnd x) = rnd x"
proof -
  obtain k j where "rnd x = of_int k * pow2 j" "\<bar>k\<bar> \<le> 2 ^ 53" "- 1074 \<le> j"
    by (rule rnd_form)
  then show ?thesis by (simp add: rnd_exact)
qed

lemma rnd_of_int: "\<bar>n\<bar> \<le> 2 ^ 53 \<Longrightarrow> rnd (of_int n) = of_int n"
  using rnd_exact [of n 0] by simp

text \<open>Rounding is monotone, so no rounded value passes a representable bound.\<close>

lemma rnd_nonneg: "0 \<le> x \<Longrightarrow> 0 \<le> rnd x"
  using round_half_even_ge [of 0 "x / pow2 (ulp_exp x)"] by (simp add: rnd_def)

lemma rnd_le_mult:
  assumes "x \<noteq> 0" "ulp_exp x \<le> e" "x \<le> of_int m * pow2 e"
  shows "rnd x \<le> of_int m * pow2 e"
proof -
  let ?u = "ulp_exp x"
  have split: "of_int m * pow2 e = of_int (m * 2 ^ nat (e - ?u)) * pow2 ?u"
    using assms(2) pow2_add [of "e - ?u" ?u] by (simp add: pow2_integral)
  have "x / pow2 ?u \<le> of_int (m * 2 ^ nat (e - ?u))"
    using assms(3) unfolding split by (simp add: pos_divide_le_eq)
  then have "round_half_even (x / pow2 ?u) \<le> m * 2 ^ nat (e - ?u)"
    by (rule round_half_even_le)
  then have "of_int (round_half_even (x / pow2 ?u)) \<le> (of_int (m * 2 ^ nat (e - ?u)) :: rat)"
    by (simp only: of_int_le_iff)
  then show ?thesis
    unfolding split using assms(1) by (simp add: rnd_def)
qed

lemma rnd_ge_mult:
  assumes "x \<noteq> 0" "ulp_exp x \<le> e" "of_int m * pow2 e \<le> x"
  shows "of_int m * pow2 e \<le> rnd x"
  using rnd_le_mult [of "- x" e "- m"] assms by (simp add: rnd_neg)

lemma rnd_mono_pos:
  assumes "0 < x" "x \<le> y"
  shows "rnd x \<le> rnd y"
proof (cases "ulp_exp x = ulp_exp y")
  case True
  have "x / pow2 (ulp_exp x) \<le> y / pow2 (ulp_exp x)"
    using assms(2) by (simp add: divide_right_mono)
  then have "round_half_even (x / pow2 (ulp_exp x)) \<le> round_half_even (y / pow2 (ulp_exp x))"
    by (rule round_half_even_mono)
  then have "(of_int (round_half_even (x / pow2 (ulp_exp x))) :: rat)
      \<le> of_int (round_half_even (y / pow2 (ulp_exp x)))"
    by (simp only: of_int_le_iff)
  then show ?thesis using assms True by (simp add: rnd_def)
next
  case False
  have xy: "x \<noteq> 0" "y \<noteq> 0" using assms by auto
  have lt: "ulp_exp x < ulp_exp y" using False ulp_exp_mono [of x y] assms by auto
  let ?e = "exponent2 y"
  have ey: "ulp_exp y = ?e - 52" "exponent2 x < ?e" using lt by (auto simp: ulp_exp_def)
  have mid: "x \<le> pow2 ?e" "pow2 ?e \<le> y"
    using exponent2_bounds [OF xy(1)] exponent2_bounds [OF xy(2)] assms ey(2)
      pow2_le_iff [of "exponent2 x + 1" ?e] by linarith+
  have "ulp_exp x \<le> ?e" "ulp_exp y \<le> ?e" using lt ey by auto
  then have "rnd x \<le> of_int 1 * pow2 ?e" "of_int 1 * pow2 ?e \<le> rnd y"
    using rnd_le_mult [of x ?e 1] rnd_ge_mult [of y ?e 1] xy mid by simp_all
  then show ?thesis by linarith
qed

lemma rnd_mono:
  assumes "x \<le> y"
  shows "rnd x \<le> rnd y"
proof -
  consider "0 < x" | "x \<le> 0" "0 \<le> y" | "y < 0" by linarith
  then show ?thesis
  proof cases
    case 1
    then show ?thesis using assms by (rule rnd_mono_pos)
  next
    case 2
    then show ?thesis using rnd_nonneg [of y] rnd_nonneg [of "- x"] by (simp add: rnd_neg)
  next
    case 3
    then show ?thesis using rnd_mono_pos [of "- y" "- x"] assms by (simp add: rnd_neg)
  qed
qed

lemma rnd_le_rep: "x \<le> r \<Longrightarrow> rnd r = r \<Longrightarrow> rnd x \<le> r"
  using rnd_mono [of x r] by simp

lemma rnd_ge_rep: "r \<le> x \<Longrightarrow> rnd r = r \<Longrightarrow> r \<le> rnd x"
  using rnd_mono [of r x] by simp

text \<open>The relative error of one rounding in the normal range is at most \<open>2\<^sup>-\<^sup>5\<^sup>3\<close>.\<close>

lemma rnd_error:
  assumes "pow2 (- 1022) \<le> \<bar>x\<bar>"
  shows "\<bar>rnd x - x\<bar> \<le> \<bar>x\<bar> * pow2 (- 53)"
proof -
  have x: "x \<noteq> 0" using assms pow2_pos [of "- 1022"] by auto
  have e: "- 1022 \<le> exponent2 x"
    using exponent2_less_iff [OF x, of "- 1022"] assms by linarith
  let ?u = "ulp_exp x"
  have u: "pow2 ?u \<le> \<bar>x\<bar> * pow2 (- 52)"
  proof -
    have "pow2 ?u = pow2 (exponent2 x) * pow2 (- 52)"
      using e by (simp add: ulp_exp_def pow2_add [symmetric])
    also have "\<dots> \<le> \<bar>x\<bar> * pow2 (- 52)"
      using exponent2_bounds [OF x] by (intro mult_right_mono) auto
    finally show ?thesis .
  qed
  obtain q where q: "q = x / pow2 ?u" by simp
  then have xq: "x = q * pow2 ?u" by simp
  have "rnd x - x = (of_int (round_half_even q) - q) * pow2 ?u"
    using x xq by (simp add: rnd_def q [symmetric] left_diff_distrib)
  then have "\<bar>rnd x - x\<bar> = \<bar>of_int (round_half_even q) - q\<bar> * pow2 ?u"
    by (simp add: abs_mult)
  also have "\<dots> \<le> 1 / 2 * pow2 ?u"
    using round_half_even_error [of q] by (intro mult_right_mono) auto
  also have "\<dots> \<le> 1 / 2 * (\<bar>x\<bar> * pow2 (- 52))" using u by simp
  also have "\<dots> = \<bar>x\<bar> * pow2 (- 53)"
    using pow2_Suc [of "- 53"] by simp
  finally show ?thesis .
qed

section \<open>Well-formed values and how the operations act on them\<close>

lemma to_f64_ok [simp]: "f64_ok (to_f64 x)"
  by (simp add: to_f64_def Let_def representable_def)

lemma to_f64_Fin: "to_f64 x = Fin r \<longleftrightarrow> r = rnd x \<and> \<not> overflows r"
  by (auto simp: to_f64_def Let_def)

lemma to_f64_representable: "representable r \<Longrightarrow> to_f64 r = Fin r"
  by (simp add: to_f64_Fin representable_def)

lemma to_f64_not_NaN [simp]: "to_f64 x \<noteq> NaN"
  by (simp add: to_f64_def Let_def)

lemma representable_0 [simp]: "representable 0"
  by (simp add: representable_def overflows_def)

lemma representable_neg [simp]: "representable (- r) \<longleftrightarrow> representable r"
  by (auto simp: representable_def rnd_neg overflows_def)

lemma representable_of_int:
  assumes "\<bar>n\<bar> \<le> 2 ^ 53"
  shows "representable (of_int n)"
proof -
  have "\<bar>of_int n :: rat\<bar> = of_int \<bar>n\<bar>" by simp
  also have "\<dots> \<le> of_int (2 ^ 53)" using assms by (simp only: of_int_le_iff)
  also have "\<dots> < pow2 1024" unfolding pow2_53 [symmetric] by simp
  finally show ?thesis using assms by (simp add: representable_def rnd_of_int overflows_iff)
qed

lemma f_of_int_exact: "\<bar>n\<bar> \<le> 2 ^ 53 \<Longrightarrow> f_of_int n = Fin (of_int n)"
  by (simp add: f_of_int_def to_f64_representable representable_of_int)

lemma f_of_int_i32 [simp]: "in_i32 n \<Longrightarrow> f_of_int n = Fin (of_int n)"
  by (rule f_of_int_exact) (auto simp: in_i32_def i32_min_def i32_max_def)

lemma overflows_mono: "overflows x \<Longrightarrow> \<bar>x\<bar> \<le> \<bar>y\<bar> \<Longrightarrow> overflows y"
  by (simp add: overflows_iff)

lemma to_f64_mono: "x \<le> y \<Longrightarrow> f_le (to_f64 x) (to_f64 y)"
  using rnd_mono [of x y] overflows_mono [of "rnd x" "rnd y"] overflows_mono [of "rnd y" "rnd x"]
  by (auto simp: to_f64_def Let_def)

lemma to_f64_sandwich:
  "0 \<le> x \<Longrightarrow> x \<le> r \<Longrightarrow> representable r \<Longrightarrow> to_f64 x = Fin (rnd x) \<and> 0 \<le> rnd x \<and> rnd x \<le> r"
proof -
  assume h: "0 \<le> x" "x \<le> r" "representable r"
  then have b: "0 \<le> rnd x" "rnd x \<le> r"
    by (auto intro: rnd_nonneg rnd_le_rep simp: representable_def)
  then have "\<not> overflows (rnd x)"
    using h overflows_mono [of "rnd x" r] by (auto simp: representable_def)
  with b show ?thesis by (simp add: to_f64_Fin)
qed

lemma to_f64_neg: "to_f64 (- x) = f_neg (to_f64 x)"
  by (auto simp: to_f64_def Let_def rnd_neg overflows_def)

lemma f64_ok_neg [simp]: "f64_ok (f_neg x) \<longleftrightarrow> f64_ok x"
  by (cases x) simp_all

lemma f64_ok_inf [simp]: "f64_ok (inf_of_sign s)"
  by simp

lemma f64_ok_add [simp]: "f64_ok (f_add x y)"
  by (cases x; cases y) simp_all

lemma f64_ok_sub [simp]: "f64_ok (f_sub x y)"
  by (simp add: f_sub_def)

lemma f64_ok_mul [simp]: "f64_ok (f_mul x y)"
  by (cases x; cases y) simp_all

lemma f64_ok_div [simp]: "f64_ok (f_div x y)"
  by (cases x; cases y) simp_all

lemma f64_ok_min [simp]: "f64_ok x \<Longrightarrow> f64_ok y \<Longrightarrow> f64_ok (f_min x y)"
  by (cases x; cases y) auto

lemma f64_ok_max [simp]: "f64_ok x \<Longrightarrow> f64_ok y \<Longrightarrow> f64_ok (f_max x y)"
  by (cases x; cases y) auto

lemma f_sub_Fin [simp]: "f_sub (Fin a) (Fin b) = to_f64 (a - b)"
  by (simp add: f_sub_def)

lemma f_is_finite_iff: "f_is_finite x \<longleftrightarrow> (\<exists>r. x = Fin r)"
  by (cases x) auto

lemma f_le_trans: "f_le x y \<Longrightarrow> f_le y z \<Longrightarrow> f_le x z"
  by (cases x; cases y; cases z) auto

lemma f_lt_le_trans: "f_lt x y \<Longrightarrow> f_le y z \<Longrightarrow> f_lt x z"
  by (cases x; cases y; cases z) auto

text \<open>The whole part of a representable number is representable.\<close>

lemma representable_floor:
  assumes r: "representable r"
  shows "representable (of_int \<lfloor>r\<rfloor>)"
proof -
  obtain k j where f: "rnd r = of_int k * pow2 j" "\<bar>k\<bar> \<le> 2 ^ 53" "- 1074 \<le> j"
    by (rule rnd_form)
  have eq: "r = of_int k * pow2 j" using r f(1) by (simp add: representable_def)
  show ?thesis
  proof (cases "0 \<le> j")
    case True
    then have "r = of_int (k * 2 ^ nat j)" using eq by (simp add: pow2_integral)
    then show ?thesis using r by (metis floor_of_int)
  next
    case False
    then have "pow2 j \<le> 1" using pow2_le_iff [of j 0] by simp
    then have "\<bar>r\<bar> \<le> \<bar>of_int k\<bar>"
      using mult_left_mono [of "pow2 j" 1 "\<bar>of_int k\<bar> :: rat"] by (simp add: eq abs_mult)
    moreover have "\<bar>of_int k :: rat\<bar> = of_int \<bar>k\<bar>" by simp
    ultimately have "\<bar>r\<bar> \<le> of_int (2 ^ 53)" using f(2) by (metis of_int_le_iff order_trans)
    then have "r \<le> of_int (2 ^ 53)" "of_int (- (2 ^ 53)) \<le> r" by auto
    then have "\<lfloor>r\<rfloor> \<le> 2 ^ 53" "- (2 ^ 53) \<le> \<lfloor>r\<rfloor>"
      by (metis floor_mono floor_of_int)+
    then show ?thesis by (intro representable_of_int abs_leI) linarith+
  qed
qed

lemma representable_ceil: "representable r \<Longrightarrow> representable (of_int \<lceil>r\<rceil>)"
  using representable_floor [of "- r"] by (simp add: ceiling_def)

lemma f64_ok_floor [simp]: "f64_ok x \<Longrightarrow> f64_ok (f_floor x)"
  by (cases x) (simp_all add: representable_floor)

lemma f64_ok_ceil [simp]: "f64_ok x \<Longrightarrow> f64_ok (f_ceil x)"
  by (cases x) (simp_all add: representable_ceil)

lemma f64_ok_of_int [simp]: "f64_ok (f_of_int n)"
  by (simp add: f_of_int_def)

lemma f_to_i32_range [simp]: "in_i32 (f_to_i32 x)"
  by (cases x) (auto simp: in_i32_def i32_min_def i32_max_def)

end
