(* ===== verification/Constants.thy ===== *)
theory Constants
  imports Float64
begin

text \<open>
  The constants of \<^verbatim>\<open>src/constants.rs\<close> that the modelled components read, and its two
  retry-delay functions.
\<close>

definition DOUBLE_CHEST_SLOTS :: nat where [consts_defs]: "DOUBLE_CHEST_SLOTS = 54"
definition SHULKER_BOX_SLOTS :: nat where [consts_defs]: "SHULKER_BOX_SLOTS = 27"
definition CHESTS_PER_NODE :: nat where [consts_defs]: "CHESTS_PER_NODE = 4"
definition NODE_SPACING :: i32 where [consts_defs]: "NODE_SPACING = 3"

definition CHEST_OP_TIMEOUT_SECS :: nat where [consts_defs]: "CHEST_OP_TIMEOUT_SECS = 90"

definition FEE_MIN :: f64 where [consts_defs]: "FEE_MIN = Fin 0"
definition FEE_MAX :: f64 where [consts_defs]: "FEE_MAX = Fin 1"
definition MIN_RESERVE_FOR_PRICE :: f64 where
  [consts_defs]: "MIN_RESERVE_FOR_PRICE = to_f64 (1 / 1000)"

definition TRADE_OFFER_SLOTS_PER_SIDE :: i32 where
  [consts_defs]: "TRADE_OFFER_SLOTS_PER_SIDE = 12"

definition MAX_TRADE_DIAMONDS :: i32 where
  [consts_defs]: "MAX_TRADE_DIAMONDS = TRADE_OFFER_SLOTS_PER_SIDE * 64"
definition MAX_TRANSACTION_QUANTITY :: i32 where
  [consts_defs]: "MAX_TRANSACTION_QUANTITY = 1000000"

definition DIAMOND_CHEST_ID :: i32 where [consts_defs]: "DIAMOND_CHEST_ID = 0"
definition OVERFLOW_CHEST_ID :: i32 where [consts_defs]: "OVERFLOW_CHEST_ID = 1"

definition MAX_ORDERS_PER_USER :: nat where [consts_defs]: "MAX_ORDERS_PER_USER = 8"
definition MAX_QUEUE_SIZE :: nat where [consts_defs]: "MAX_QUEUE_SIZE = 128"

definition RATE_LIMIT_BASE_COOLDOWN_MS :: nat where
  [consts_defs]: "RATE_LIMIT_BASE_COOLDOWN_MS = 2000"
definition RATE_LIMIT_MAX_COOLDOWN_MS :: nat where
  [consts_defs]: "RATE_LIMIT_MAX_COOLDOWN_MS = 60000"
definition RATE_LIMIT_RESET_AFTER_MS :: nat where
  [consts_defs]: "RATE_LIMIT_RESET_AFTER_MS = 90000"

definition BASE_CURRENCY_ITEM :: string where "BASE_CURRENCY_ITEM = ''diamond''"
definition OVERFLOW_CHEST_ITEM :: string where "OVERFLOW_CHEST_ITEM = ''overflow''"

section \<open>Retry delays\<close>

definition exponential_backoff_delay :: "nat \<Rightarrow> nat \<Rightarrow> nat \<Rightarrow> nat" where
  "exponential_backoff_delay attempt base_ms max_ms =
     (let delay = sat_mul_u64 base_ms (2 ^ min attempt 10) in min delay max_ms)"

text \<open>
  The random byte is the environment's: \<open>None\<close> when the generator fails. The product
  \<open>byte * half\<close> is a \<open>u64\<close> and wraps.
\<close>

definition exponential_backoff_delay_jittered ::
    "nat option \<Rightarrow> nat \<Rightarrow> nat \<Rightarrow> nat \<Rightarrow> nat" where
  "exponential_backoff_delay_jittered byte attempt base_ms max_ms =
     (let delay = exponential_backoff_delay attempt base_ms max_ms;
          half = delay div 2;
          rand_extra = (case byte of Some b \<Rightarrow> (b * half) mod (u64_max + 1) div 255
                                   | None \<Rightarrow> half div 2)
      in half + rand_extra)"

lemma backoff_le_max: "exponential_backoff_delay a b m \<le> m"
  by (simp add: exponential_backoff_delay_def Let_def)

lemma backoff_mono: "a \<le> a' \<Longrightarrow> exponential_backoff_delay a b m \<le> exponential_backoff_delay a' b m"
proof -
  assume "a \<le> a'"
  then have "(2::nat) ^ min a 10 \<le> 2 ^ min a' 10" by (intro power_increasing) auto
  then have "b * 2 ^ min a 10 \<le> b * 2 ^ min a' 10" by simp
  then show ?thesis
    unfolding exponential_backoff_delay_def sat_mul_u64_def Let_def
    by (intro min.mono) auto
qed

lemma jitter_bounds:
  assumes byte: "\<And>b. byte = Some b \<Longrightarrow> b \<le> 255" and m: "255 * m \<le> u64_max"
  shows "exponential_backoff_delay a bs m div 2 \<le> exponential_backoff_delay_jittered byte a bs m
    \<and> exponential_backoff_delay_jittered byte a bs m \<le> exponential_backoff_delay a bs m"
proof -
  let ?d = "exponential_backoff_delay a bs m"
  have d: "?d \<le> m" by (rule backoff_le_max)
  have extra: "(b * (?d div 2)) mod (u64_max + 1) div 255 \<le> ?d div 2" if "byte = Some b" for b
  proof -
    have b: "b \<le> 255" using byte that by blast
    have "?d div 2 \<le> m" using d by linarith
    then have "b * (?d div 2) \<le> 255 * m" using b by (intro mult_le_mono)
    then have "(b * (?d div 2)) mod (u64_max + 1) = b * (?d div 2)" using m by simp
    moreover have "b * (?d div 2) \<le> 255 * (?d div 2)" using b by (intro mult_le_mono) auto
    ultimately show ?thesis by (metis div_le_mono nonzero_mult_div_cancel_left numeral_eq_iff
          semiring_norm(83) zero_neq_numeral)
  qed
  show ?thesis
    using extra by (auto simp: exponential_backoff_delay_jittered_def Let_def split: option.split)
qed

end
