(* ===== verification/Pricing.thy ===== *)
theory Pricing
  imports Constants
begin

text \<open>
  The constant-product market maker of \<^verbatim>\<open>src/store/pricing.rs\<close>, computed in binary64
  exactly as the code does: three roundings for the curve and the fee factor, one for the
  factor itself.
\<close>

section \<open>Quotes\<close>

definition validate_fee :: "f64 \<Rightarrow> bool" where
  "validate_fee fee \<longleftrightarrow> (f_le FEE_MIN fee \<and> f_le fee FEE_MAX) \<and> f_is_finite fee"

definition reserves_sufficient :: "i32 \<Rightarrow> f64 \<Rightarrow> bool" where
  "reserves_sufficient item_stock currency_stock \<longleftrightarrow>
     0 < item_stock \<and> f_lt MIN_RESERVE_FOR_PRICE currency_stock"

definition buy_cost_pure :: "i32 \<Rightarrow> f64 \<Rightarrow> i32 \<Rightarrow> f64 \<Rightarrow> f64 option" where
  "buy_cost_pure item_stock currency_stock amount fee =
     (if \<not> validate_fee fee then None
      else if \<not> reserves_sufficient item_stock currency_stock then None
      else if amount \<le> 0 \<or> item_stock \<le> amount then None
      else
        let x = f_of_int item_stock;
            y = currency_stock;
            dx = f_of_int amount;
            base_cost = f_div (f_mul y dx) (f_sub x dx);
            cost = f_mul base_cost (f_add (Fin 1) fee)
        in if f_is_finite cost \<and> f_lt (Fin 0) cost then Some cost else None)"

definition sell_payout_pure :: "i32 \<Rightarrow> f64 \<Rightarrow> i32 \<Rightarrow> f64 \<Rightarrow> f64 option" where
  "sell_payout_pure item_stock currency_stock amount fee =
     (if \<not> validate_fee fee then None
      else if \<not> reserves_sufficient item_stock currency_stock then None
      else if amount \<le> 0 then None
      else
        let x = f_of_int item_stock;
            y = currency_stock;
            dx = f_of_int amount;
            base_payout = f_div (f_mul y dx) (f_add x dx);
            payout = f_mul base_payout (f_sub (Fin 1) fee)
        in if f_is_finite payout \<and> f_lt (Fin 0) payout then Some payout else None)"

definition indicative_spot_buy_price :: "i32 \<Rightarrow> f64 \<Rightarrow> f64 \<Rightarrow> f64 option" where
  "indicative_spot_buy_price item_stock currency_stock fee =
     buy_cost_pure item_stock currency_stock 1 fee"

definition indicative_spot_sell_price :: "i32 \<Rightarrow> f64 \<Rightarrow> f64 \<Rightarrow> f64 option" where
  "indicative_spot_sell_price item_stock currency_stock fee =
     sell_payout_pure item_stock currency_stock 1 fee"

section \<open>The quotes as rational expressions\<close>

definition buy_raw :: "int \<Rightarrow> rat \<Rightarrow> int \<Rightarrow> rat \<Rightarrow> rat" where
  "buy_raw x y a f = rnd (rnd (rnd (y * of_int a) / of_int (x - a)) * rnd (1 + f))"

definition sell_raw :: "int \<Rightarrow> rat \<Rightarrow> int \<Rightarrow> rat \<Rightarrow> rat" where
  "sell_raw x y a f = rnd (rnd (rnd (y * of_int a) / of_int (x + a)) * rnd (1 - f))"

lemma rnd_1 [simp]: "rnd 1 = 1"
  using rnd_of_int [of 1] by simp

lemma rnd_2 [simp]: "rnd 2 = 2"
  using rnd_of_int [of 2] by simp

lemma rnd_pow2: "- 1074 \<le> j \<Longrightarrow> rnd (pow2 j) = pow2 j"
  using rnd_exact [of 1 j] by simp

lemma min_reserve_Fin: "MIN_RESERVE_FOR_PRICE = Fin (rnd (1 / 1000))"
proof -
  have "representable 1" using representable_of_int [of 1] by simp
  then show ?thesis
    using to_f64_sandwich [of "1 / 1000" 1] by (simp add: MIN_RESERVE_FOR_PRICE_def)
qed

lemma min_reserve_ge: "pow2 (- 10) \<le> rnd (1 / 1000)"
proof -
  have "pow2 (- 10) \<le> (1 / 1000 :: rat)" by (simp add: pow2_def power_int_minus)
  then show ?thesis by (rule rnd_ge_rep) (simp add: rnd_pow2)
qed

lemma validate_fee_Fin: "validate_fee fee \<longleftrightarrow> (\<exists>f. fee = Fin f \<and> 0 \<le> f \<and> f \<le> 1)"
  by (cases fee) (auto simp: validate_fee_def FEE_MIN_def FEE_MAX_def)

lemma reserves_sufficient_iff:
  "reserves_sufficient x y \<longleftrightarrow>
     0 < x \<and> (y = PosInf \<or> (\<exists>y'. y = Fin y' \<and> rnd (1 / 1000) < y'))"
  by (cases y) (auto simp: reserves_sufficient_def min_reserve_Fin)

lemma fee_factor_buy:
  "0 \<le> f \<Longrightarrow> f \<le> 1 \<Longrightarrow> to_f64 (1 + f) = Fin (rnd (1 + f)) \<and> 1 \<le> rnd (1 + f) \<and> rnd (1 + f) \<le> 2"
  using to_f64_sandwich [of "1 + f" 2] representable_of_int [of 2] rnd_ge_rep [of 1 "1 + f"]
  by simp

lemma fee_factor_sell:
  "0 \<le> f \<Longrightarrow> f \<le> 1 \<Longrightarrow> to_f64 (1 - f) = Fin (rnd (1 - f)) \<and> 0 \<le> rnd (1 - f) \<and> rnd (1 - f) \<le> 1"
  using to_f64_sandwich [of "1 - f" 1] representable_of_int [of 1] by simp

lemma int_diff_exact:
  "in_i32 x \<Longrightarrow> in_i32 a \<Longrightarrow> to_f64 (of_int x - of_int a) = Fin (of_int (x - a))"
  using to_f64_representable [OF representable_of_int [of "x - a"]]
  by (auto simp: in_i32_def i32_min_def i32_max_def)

lemma int_sum_exact:
  "in_i32 x \<Longrightarrow> in_i32 a \<Longrightarrow> to_f64 (of_int x + of_int a) = Fin (of_int (x + a))"
  using to_f64_representable [OF representable_of_int [of "x + a"]]
  by (auto simp: in_i32_def i32_min_def i32_max_def)

lemma f_mul_FinD: "f_mul u (Fin v) = Fin c \<Longrightarrow> 0 < c \<Longrightarrow> \<exists>w. u = Fin w \<and> c = rnd (w * v)"
  by (cases u) (auto simp: to_f64_Fin split: if_splits)

lemma f_div_FinD: "f_div u (Fin v) = Fin c \<Longrightarrow> v \<noteq> 0 \<Longrightarrow> \<exists>w. u = Fin w \<and> c = rnd (w / v)"
  by (cases u) (auto simp: to_f64_Fin split: if_splits)

lemma buy_cost_SomeD:
  assumes q: "buy_cost_pure x y a fee = Some c" and i: "in_i32 x" "in_i32 a"
  obtains y' f where "y = Fin y'" "fee = Fin f" "0 \<le> f" "f \<le> 1" "rnd (1 / 1000) < y'"
    "0 < a" "a < x" "c = Fin (buy_raw x y' a f)" "0 < buy_raw x y' a f" "f64_ok c"
proof -
  from q have v: "validate_fee fee" "reserves_sufficient x y" "0 < a" "a < x"
    by (auto simp: buy_cost_pure_def split: if_splits)
  obtain f where f: "fee = Fin f" "0 \<le> f" "f \<le> 1" using v(1) by (auto simp: validate_fee_Fin)
  have c: "c = f_mul (f_div (f_mul y (Fin (of_int a))) (Fin (of_int (x - a)))) (Fin (rnd (1 + f)))"
    "f_is_finite c" "f_lt (Fin 0) c"
    using q v f i fee_factor_buy [of f]
    by (auto simp: buy_cost_pure_def Let_def int_diff_exact split: if_splits)
  then have ok: "f64_ok c" by (metis f64_ok_mul)
  obtain r where r: "c = Fin r" "0 < r" using c(2,3) by (cases c) auto
  obtain b where b: "f_div (f_mul y (Fin (of_int a))) (Fin (of_int (x - a))) = Fin b"
      "r = rnd (b * rnd (1 + f))"
    using f_mul_FinD c(1) r by metis
  have nz: "(of_int (x - a) :: rat) \<noteq> 0" using v(4) by simp
  obtain m where m: "f_mul y (Fin (of_int a)) = Fin m" "b = rnd (m / of_int (x - a))"
    using f_div_FinD [OF b(1) nz] by blast
  obtain y' where y': "y = Fin y'" "rnd (1 / 1000) < y'"
    using v(2) m(1) v(3) by (auto simp: reserves_sufficient_iff)
  have "m = rnd (y' * of_int a)" using m(1) y'(1) by (simp add: to_f64_Fin)
  then have "r = buy_raw x y' a f" using b(2) m(2) by (simp add: buy_raw_def)
  with that show ?thesis using f v y' r ok by simp
qed

lemma sell_payout_SomeD:
  assumes q: "sell_payout_pure x y a fee = Some c" and i: "in_i32 x" "in_i32 a"
  obtains y' f where "y = Fin y'" "fee = Fin f" "0 \<le> f" "f \<le> 1" "rnd (1 / 1000) < y'"
    "0 < a" "0 < x" "c = Fin (sell_raw x y' a f)" "0 < sell_raw x y' a f" "f64_ok c"
proof -
  from q have v: "validate_fee fee" "reserves_sufficient x y" "0 < a"
    by (auto simp: sell_payout_pure_def split: if_splits)
  then have x: "0 < x" by (simp add: reserves_sufficient_def)
  obtain f where f: "fee = Fin f" "0 \<le> f" "f \<le> 1" using v(1) by (auto simp: validate_fee_Fin)
  have c: "c = f_mul (f_div (f_mul y (Fin (of_int a))) (Fin (of_int (x + a)))) (Fin (rnd (1 - f)))"
    "f_is_finite c" "f_lt (Fin 0) c"
    using q v f i fee_factor_sell [of f]
    by (auto simp: sell_payout_pure_def Let_def int_sum_exact split: if_splits)
  then have ok: "f64_ok c" by (metis f64_ok_mul)
  obtain r where r: "c = Fin r" "0 < r" using c(2,3) by (cases c) auto
  obtain b where b: "f_div (f_mul y (Fin (of_int a))) (Fin (of_int (x + a))) = Fin b"
      "r = rnd (b * rnd (1 - f))"
    using f_mul_FinD c(1) r by metis
  have nz: "(of_int (x + a) :: rat) \<noteq> 0" using v(3) x by (simp only: of_int_eq_0_iff)
  obtain m where m: "f_mul y (Fin (of_int a)) = Fin m" "b = rnd (m / of_int (x + a))"
    using f_div_FinD [OF b(1) nz] by blast
  obtain y' where y': "y = Fin y'" "rnd (1 / 1000) < y'"
    using v(2) m(1) v(3) by (auto simp: reserves_sufficient_iff)
  have "m = rnd (y' * of_int a)" using m(1) y'(1) by (simp add: to_f64_Fin)
  then have "r = sell_raw x y' a f" using b(2) m(2) by (simp add: sell_raw_def)
  with that show ?thesis using f v x y' r ok by simp
qed

lemma buy_cost_raw:
  assumes "buy_cost_pure x (Fin y) a (Fin f) = Some c" "in_i32 x" "in_i32 a"
  shows "c = Fin (buy_raw x y a f) \<and> 0 < a \<and> a < x \<and> 0 \<le> f \<and> f \<le> 1 \<and>
    0 < buy_raw x y a f \<and> rnd (1 / 1000) < y"
  by (rule buy_cost_SomeD [OF assms]) auto

lemma sell_payout_raw:
  assumes "sell_payout_pure x (Fin y) a (Fin f) = Some c" "in_i32 x" "in_i32 a"
  shows "c = Fin (sell_raw x y a f) \<and> 0 < a \<and> 0 < x \<and> 0 \<le> f \<and> f \<le> 1 \<and>
    0 < sell_raw x y a f \<and> rnd (1 / 1000) < y"
  by (rule sell_payout_SomeD [OF assms]) auto

section \<open>Error analysis of the quotes\<close>

lemma rnd_bounds:
  assumes "pow2 (- 1022) \<le> x"
  shows "x * (1 - pow2 (- 53)) \<le> rnd x \<and> rnd x \<le> x * (1 + pow2 (- 53))"
proof -
  have x: "0 \<le> x" using assms pow2_pos [of "- 1022"] by linarith
  then have "\<bar>rnd x - x\<bar> \<le> x * pow2 (- 53)" using rnd_error [of x] assms by simp
  then show ?thesis by (simp add: abs_le_iff algebra_simps)
qed

lemma pow2_m53: "pow2 (- 53) = 1 / 9007199254740992"
  by (simp add: pow2_def power_int_minus)

lemma pow2_m50: "pow2 (- 50) = 1 / 1125899906842624"
  by (simp add: pow2_def power_int_minus)

lemma pow2_m10: "pow2 (- 10) = 1 / 1024"
  by (simp add: pow2_def power_int_minus)

lemma pow2_31: "pow2 31 = 2147483648"
  by (simp add: pow2_def)

text \<open>What the guards of both quotes establish before any arithmetic is done.\<close>

definition quotable :: "int \<Rightarrow> rat \<Rightarrow> int \<Rightarrow> bool" where
  "quotable x y a \<longleftrightarrow> in_i32 x \<and> in_i32 a \<and> 0 < a \<and> rnd (1 / 1000) < y"

lemma quotable_y: "quotable x y a \<Longrightarrow> 1 / 1024 \<le> y"
  using min_reserve_ge unfolding pow2_m10 quotable_def by linarith

lemma prod_ge:
  assumes "quotable x y a"
  shows "pow2 (- 10) \<le> y * of_int a"
proof -
  have "(1::rat) \<le> of_int a" using assms by (simp add: quotable_def)
  then have "1 / 1024 * 1 \<le> y * of_int a" using quotable_y [OF assms] by (intro mult_mono) auto
  then show ?thesis by (simp add: pow2_m10)
qed

lemma rnd_prod_ge: "quotable x y a \<Longrightarrow> pow2 (- 10) \<le> rnd (y * of_int a)"
  using prod_ge by (rule rnd_ge_rep) (simp_all add: rnd_pow2)

lemma prod_pos: "quotable x y a \<Longrightarrow> 0 < y * of_int a"
  using prod_ge [of x y a] pow2_pos [of "- 10"] by linarith

lemma rnd_prod_pos: "quotable x y a \<Longrightarrow> 0 < rnd (y * of_int a)"
  using rnd_prod_ge [of x y a] pow2_pos [of "- 10"] by linarith

lemma quot_ge:
  assumes h: "quotable x y a" and "0 < d" "d \<le> 2 * i32_max"
  shows "pow2 (- 42) \<le> rnd (y * of_int a) / of_int d"
proof -
  have "(of_int d :: rat) \<le> of_int (2 ^ 32)"
    using assms(3) by (simp only: of_int_le_iff) (simp add: i32_max_def)
  then have d: "(of_int d :: rat) \<le> pow2 32" by (simp add: pow2_integral)
  have "pow2 (- 42) * of_int d \<le> pow2 (- 42) * pow2 32" using d by (intro mult_left_mono) auto
  also have "\<dots> = pow2 (- 10)" by (simp add: pow2_add [symmetric])
  also have "\<dots> \<le> rnd (y * of_int a)" by (rule rnd_prod_ge [OF h])
  finally show ?thesis using assms(2) by (simp add: pos_le_divide_eq)
qed

lemma rnd_quot_ge:
  "quotable x y a \<Longrightarrow> 0 < d \<Longrightarrow> d \<le> 2 * i32_max \<Longrightarrow>
    pow2 (- 42) \<le> rnd (rnd (y * of_int a) / of_int d)"
  using quot_ge by (rule rnd_ge_rep) (simp_all add: rnd_pow2)

text \<open>The quotient is off the exact one by at most two roundings.\<close>

lemma quot_lower:
  assumes h: "quotable x y a" and d: "0 < d" "d \<le> 2 * i32_max"
  shows "y * of_int a / of_int d * (1 - pow2 (- 53)) ^ 2 \<le> rnd (rnd (y * of_int a) / of_int d)"
proof -
  let ?e = "1 - pow2 (- 53)"
  have e: "0 \<le> ?e" by (simp add: pow2_m53)
  have "pow2 (- 1022) \<le> y * of_int a" using prod_ge [OF h] pow2_le_iff [of "- 1022" "- 10"] by linarith
  then have "y * of_int a * ?e \<le> rnd (y * of_int a)" using rnd_bounds by blast
  then have "y * of_int a * ?e / of_int d \<le> rnd (y * of_int a) / of_int d"
    using d by (intro divide_right_mono) auto
  then have "(y * of_int a * ?e / of_int d) * ?e \<le> (rnd (y * of_int a) / of_int d) * ?e"
    using e by (rule mult_right_mono)
  also have "\<dots> \<le> rnd (rnd (y * of_int a) / of_int d)"
    using quot_ge [OF h d] pow2_le_iff [of "- 1022" "- 42"] rnd_bounds [of "rnd (y * of_int a) / of_int d"]
    by linarith
  finally show ?thesis by (simp add: power2_eq_square field_simps)
qed

lemma quot_upper:
  assumes h: "quotable x y a" and d: "0 < d" "d \<le> 2 * i32_max"
  shows "rnd (rnd (y * of_int a) / of_int d) \<le> y * of_int a / of_int d * (1 + pow2 (- 53)) ^ 2"
proof -
  let ?e = "1 + pow2 (- 53)"
  have e: "0 \<le> ?e" by (simp add: pow2_m53)
  have "pow2 (- 1022) \<le> y * of_int a" using prod_ge [OF h] pow2_le_iff [of "- 1022" "- 10"] by linarith
  then have "rnd (y * of_int a) \<le> y * of_int a * ?e" using rnd_bounds by blast
  then have "rnd (y * of_int a) / of_int d \<le> y * of_int a * ?e / of_int d"
    using d by (intro divide_right_mono) auto
  then have le: "(rnd (y * of_int a) / of_int d) * ?e \<le> (y * of_int a * ?e / of_int d) * ?e"
    using e by (rule mult_right_mono)
  have "rnd (rnd (y * of_int a) / of_int d) \<le> (rnd (y * of_int a) / of_int d) * ?e"
    using quot_ge [OF h d] pow2_le_iff [of "- 1022" "- 42"] rnd_bounds [of "rnd (y * of_int a) / of_int d"]
    by linarith
  with le show ?thesis by (simp add: power2_eq_square field_simps)
qed

section \<open>Market properties\<close>

lemma quot_nonneg: "0 \<le> p \<Longrightarrow> 0 < d \<Longrightarrow> 0 \<le> rnd (p / of_int d)"
  by (rule rnd_nonneg) simp

lemma quot_mono: "p \<le> q \<Longrightarrow> 0 < d \<Longrightarrow> rnd (p / of_int d) \<le> rnd (q / of_int d)"
  by (rule rnd_mono) (simp add: divide_right_mono)

lemma quot_antimono:
  assumes "0 \<le> p" "0 < (d::int)" "d \<le> d'"
  shows "rnd (p / of_int d') \<le> rnd (p / of_int d)"
proof -
  have "(of_int d :: rat) \<le> of_int d'" using assms(3) by simp
  then have "p / of_int d' \<le> p / of_int d" using assms by (intro divide_left_mono) auto
  then show ?thesis by (rule rnd_mono)
qed

lemma rnd_mult_mono:
  "p \<le> p' \<Longrightarrow> q \<le> q' \<Longrightarrow> 0 \<le> p' \<Longrightarrow> 0 \<le> q \<Longrightarrow> rnd (p * q) \<le> rnd (p' * q')"
  by (rule rnd_mono) (rule mult_mono)

lemma raw_spread:
  assumes h: "quotable x y a" and x: "0 < x" "a < x" and f: "0 \<le> f" "f \<le> 1"
  shows "sell_raw x y a f \<le> buy_raw x y a f"
proof -
  have p: "0 \<le> rnd (y * of_int a)" using rnd_prod_pos [OF h] by simp
  have a: "0 < a" using h by (simp add: quotable_def)
  have 1: "rnd (rnd (y * of_int a) / of_int (x + a)) \<le> rnd (rnd (y * of_int a) / of_int (x - a))"
    using p x a by (intro quot_antimono) auto
  have 2: "0 \<le> rnd (rnd (y * of_int a) / of_int (x - a))"
    using p x by (intro quot_nonneg) auto
  have 3: "rnd (1 - f) \<le> rnd (1 + f)" using f by (intro rnd_mono) simp
  have 4: "0 \<le> rnd (1 - f)" using f by (intro rnd_nonneg) simp
  show ?thesis
    unfolding sell_raw_def buy_raw_def using 1 3 2 4 by (rule rnd_mult_mono)
qed

lemma raw_mono_amount:
  assumes h: "quotable x y a" and ab: "a \<le> b" "b < x" and f: "0 \<le> f"
  shows "buy_raw x y a f \<le> buy_raw x y b f"
proof -
  have y: "0 \<le> y" using quotable_y [OF h] by linarith
  have a: "0 < a" using h by (simp add: quotable_def)
  have "(of_int a :: rat) \<le> of_int b" using ab by simp
  then have 1: "rnd (y * of_int a) \<le> rnd (y * of_int b)"
    using y by (intro rnd_mono mult_left_mono)
  have p: "0 \<le> rnd (y * of_int a)" using rnd_prod_pos [OF h] by simp
  have "rnd (rnd (y * of_int a) / of_int (x - a)) \<le> rnd (rnd (y * of_int a) / of_int (x - b))"
    using p ab by (intro quot_antimono) auto
  also have "\<dots> \<le> rnd (rnd (y * of_int b) / of_int (x - b))"
    using 1 ab by (intro quot_mono) auto
  finally have 2: "rnd (rnd (y * of_int a) / of_int (x - a)) \<le> rnd (rnd (y * of_int b) / of_int (x - b))" .
  have 3: "0 \<le> rnd (1 + f)" using f by (intro rnd_nonneg) simp
  have 4: "0 \<le> rnd (rnd (y * of_int b) / of_int (x - b))"
    using 1 p ab by (intro quot_nonneg) auto
  show ?thesis
    unfolding buy_raw_def using 2 order_refl 4 3 by (rule rnd_mult_mono)
qed

lemma sell_raw_le_reserve:
  assumes h: "quotable x y a" and x: "0 < x" and y: "rnd y = y" and f: "0 \<le> f" "f \<le> 1"
  shows "sell_raw x y a f \<le> y"
proof -
  let ?e = "pow2 (- 53)"
  have y0: "0 \<le> y" using quotable_y [OF h] by linarith
  have ai: "0 < a" "a \<le> i32_max" using h by (auto simp: quotable_def in_i32_def)
  have d: "(0::rat) < of_int (x + a)" using x ai by simp
  have "(of_int a :: rat) \<le> of_int (2 ^ 31)" using ai(2) by (simp only: of_int_le_iff) (simp add: i32_max_def)
  then have "of_int a * ?e \<le> of_int (2 ^ 31) * ?e" by (intro mult_right_mono) auto
  also have "\<dots> \<le> 1" by (simp add: pow2_m53)
  also have "\<dots> \<le> (of_int x :: rat)" using x by simp
  finally have ax: "of_int a * (1 + ?e) \<le> of_int (x + a)" by (simp add: algebra_simps)
  have "pow2 (- 1022) \<le> y * of_int a" using prod_ge [OF h] pow2_le_iff [of "- 1022" "- 10"] by linarith
  then have "rnd (y * of_int a) \<le> y * (of_int a * (1 + ?e))" 
    using rnd_bounds [of "y * of_int a"] by (simp add: algebra_simps)
  also have "\<dots> \<le> y * of_int (x + a)" using ax y0 by (rule mult_left_mono)
  finally have "rnd (y * of_int a) / of_int (x + a) \<le> y" using d by (simp add: pos_divide_le_eq)
  then have q: "rnd (rnd (y * of_int a) / of_int (x + a)) \<le> y" using y by (rule rnd_le_rep)
  have q0: "0 \<le> rnd (rnd (y * of_int a) / of_int (x + a))"
    using rnd_prod_pos [OF h] x ai by (intro quot_nonneg) auto
  have "rnd (1 - f) \<le> 1" "0 \<le> rnd (1 - f)" using fee_factor_sell [OF f] by auto
  then have "rnd (rnd (y * of_int a) / of_int (x + a)) * rnd (1 - f) \<le> y * 1"
    using q q0 y0 by (intro mult_mono) auto
  then show ?thesis unfolding sell_raw_def using y by (intro rnd_le_rep) auto
qed

text \<open>
  A fee of \<open>2\<^sup>-\<^sup>5\<^sup>0\<close> or more outweighs every rounding of the computation: three roundings
  of the price and one of the fee factor.
\<close>

lemma raw_buy_ge:
  assumes h: "quotable x y a" and x: "a < x" and f: "pow2 (- 50) \<le> f" "f \<le> 1"
  shows "y * of_int a / of_int (x - a) \<le> buy_raw x y a f"
proof -
  let ?e = "1 - pow2 (- 53)" and ?q = "y * of_int a / of_int (x - a)"
  have b: "in_i32 x" "in_i32 a" "0 < a" using h by (auto simp: quotable_def)
  have d: "0 < x - a" "x - a \<le> 2 * i32_max" using x b by (auto simp: in_i32_def i32_min_def i32_max_def)
  have q0: "0 \<le> ?q" using prod_pos [OF h] d by (intro divide_nonneg_nonneg) auto
  have f0: "0 \<le> f" using f(1) pow2_pos [of "- 50"] by linarith
  have one: "pow2 (- 1022) \<le> 1" using pow2_le_iff [of "- 1022" 0] by simp
  then have ff: "(1 + f) * ?e \<le> rnd (1 + f)" using f0 rnd_bounds [of "1 + f"] by simp
  let ?t = "rnd (rnd (y * of_int a) / of_int (x - a))"
  have t: "?q * ?e ^ 2 \<le> ?t" by (rule quot_lower [OF h d])
  have t42: "pow2 (- 42) \<le> ?t" by (rule rnd_quot_ge [OF h d])
  have big: "pow2 (- 1022) \<le> ?t * rnd (1 + f)"
  proof -
    have "pow2 (- 42) * 1 \<le> ?t * rnd (1 + f)"
      using t42 fee_factor_buy [OF f0 f(2)] order_trans [OF pow2_nonneg t42]
      by (intro mult_mono) auto
    then show ?thesis using pow2_le_iff [of "- 1022" "- 42"] by linarith
  qed
  have step: "?q * ?e ^ 2 * ((1 + f) * ?e) \<le> ?t * rnd (1 + f)"
    using t ff f0 q0 order_trans [OF pow2_nonneg t42] by (intro mult_mono) (auto simp: pow2_m53)
  have "1 \<le> (1 + pow2 (- 50)) * ?e ^ 4"
    by (simp add: pow2_m50 pow2_m53 power_divide)
  also have "\<dots> \<le> (1 + f) * ?e ^ 4" using f(1) by (intro mult_right_mono) (auto simp: pow2_m53)
  finally have "?q * 1 \<le> ?q * ((1 + f) * ?e ^ 4)" using q0 by (rule mult_left_mono)
  also have "\<dots> = ?q * ?e ^ 2 * ((1 + f) * ?e) * ?e" by (simp add: power4_eq_xxxx power2_eq_square)
  also have "\<dots> \<le> ?t * rnd (1 + f) * ?e" using step by (rule mult_right_mono) (simp add: pow2_m53)
  also have "\<dots> \<le> buy_raw x y a f" unfolding buy_raw_def using rnd_bounds [OF big] by blast
  finally show ?thesis by simp
qed

lemma raw_sell_le:
  assumes h: "quotable x y a" and x: "0 < x" and f: "pow2 (- 50) \<le> f" "f \<le> 1"
    and pos: "pow2 (- 1022) \<le> rnd (rnd (y * of_int a) / of_int (x + a)) * rnd (1 - f)"
  shows "sell_raw x y a f \<le> y * of_int a / of_int (x + a)"
proof -
  let ?e = "1 + pow2 (- 53)" and ?q = "y * of_int a / of_int (x + a)"
  have b: "in_i32 x" "in_i32 a" "0 < a" using h by (auto simp: quotable_def)
  have d: "0 < x + a" "x + a \<le> 2 * i32_max" using x b by (auto simp: in_i32_def)
  have q0: "0 \<le> ?q" using prod_pos [OF h] d by (intro divide_nonneg_nonneg) auto
  have f0: "0 \<le> f" using f(1) pow2_pos [of "- 50"] by linarith
  let ?t = "rnd (rnd (y * of_int a) / of_int (x + a))"
  have t: "?t \<le> ?q * ?e ^ 2" by (rule quot_upper [OF h d])
  have t0: "0 \<le> ?t" using rnd_prod_pos [OF h] d by (intro quot_nonneg) auto
  have g: "rnd (1 - f) \<le> 1 - pow2 (- 50) \<and> 0 \<le> rnd (1 - f)"
  proof -
    have r: "rnd (1 - pow2 (- 50)) = 1 - pow2 (- 50)"
      using rnd_exact [of "2 ^ 50 - 1" "- 50"] by (simp add: pow2_m50)
    have "1 - f \<le> 1 - pow2 (- 50)" using f(1) by simp
    then show ?thesis using rnd_le_rep [OF _ r] fee_factor_sell [OF f0 f(2)] by blast
  qed
  have "sell_raw x y a f \<le> ?t * rnd (1 - f) * ?e"
    unfolding sell_raw_def using rnd_bounds [OF pos] by blast
  also have "\<dots> \<le> ?q * ?e ^ 2 * (1 - pow2 (- 50)) * ?e"
    using t t0 g q0 by (intro mult_right_mono mult_mono) (auto simp: pow2_m53)
  also have "\<dots> = ?q * ((1 - pow2 (- 50)) * ?e ^ 3)" by (simp add: power3_eq_cube power2_eq_square)
  also have "\<dots> \<le> ?q * 1"
    using q0 by (intro mult_left_mono) (simp_all add: pow2_m50 pow2_m53 power_divide)
  finally show ?thesis by simp
qed

text \<open>A representable fee below 1 leaves a factor of at least \<open>2\<^sup>-\<^sup>5\<^sup>3\<close>.\<close>

lemma one_minus_rep_ge:
  assumes r: "rnd f = f" and f: "0 \<le> f" "f < 1"
  shows "pow2 (- 53) \<le> 1 - f"
proof (cases "f \<le> 1 / 2")
  case True
  have "pow2 (- 53) \<le> 1 / 2" by (simp add: pow2_m53)
  with True show ?thesis by linarith
next
  case False
  then have nz: "f \<noteq> 0" by auto
  have "\<not> exponent2 f < - 1"
    using exponent2_less_iff [OF nz, of "- 1"] False by (simp add: pow2_def power_int_minus)
  then have u: "- 53 \<le> ulp_exp f" by (simp add: ulp_exp_def)
  have "f = of_int (round_half_even (f / pow2 (ulp_exp f))) * pow2 (ulp_exp f)"
    using r nz by (simp add: rnd_def)
  then obtain m where m: "f = of_int m * pow2 (ulp_exp f)" by blast
  have "pow2 (ulp_exp f) = of_int (2 ^ nat (ulp_exp f + 53)) * pow2 (- 53)"
    using u pow2_add [of "ulp_exp f + 53" "- 53"] by (simp add: pow2_integral)
  then have "f = of_int (m * 2 ^ nat (ulp_exp f + 53)) * pow2 (- 53)"
    using m by (metis mult.assoc of_int_mult)
  then obtain k where fk: "f = of_int k * pow2 (- 53)" by blast
  have one: "(1::rat) = of_int (2 ^ 53) * pow2 (- 53)" by (simp add: pow2_m53)
  have eq: "1 - f = of_int (2 ^ 53 - k) * pow2 (- 53)"
    by (subst fk, subst one) (simp add: left_diff_distrib)
  have "0 < 1 - f" using f by simp
  then have "(0::rat) < of_int (2 ^ 53 - k)" unfolding eq by (simp only: zero_less_mult_pos2 pow2_pos)
  then have "1 \<le> 2 ^ 53 - k" by (simp only: of_int_0_less_iff)
  then have "(1::rat) \<le> of_int (2 ^ 53 - k)" by (simp only: of_int_1_le_iff)
  then have "1 * pow2 (- 53) \<le> of_int (2 ^ 53 - k) * pow2 (- 53)" by (rule mult_right_mono) simp
  then show ?thesis unfolding eq by simp
qed

end
