(* ===== verification/Pricing_Properties.thy ===== *)
theory Pricing_Properties
  imports Pricing
begin

text \<open>
  What the market maker promises, for every pool state and every rounding: the constant
  product does not fall, quotes are ordered, and a payout fits in the reserve.
\<close>

text \<open>C21: Buying from a pool never decreases the market's constant \<open>k\<close>: whenever
  \<open>buy_cost_pure\<close> quotes a cost and the fee is at least \<open>2\<^sup>-\<^sup>5\<^sup>0\<close>, the product of the reserves
  after taking the items out and putting the cost in is at least the product before, in exact
  arithmetic and in spite of every rounding of the quote.\<close>

theorem buy_never_decreases_k:
  assumes "in_i32 x" and "in_i32 a"
    and q: "buy_cost_pure x (Fin y) a (Fin f) = Some (Fin c)" and fee: "1 / 2 ^ 50 \<le> f"
  shows "of_int x * y \<le> of_int (x - a) * (y + c)"
proof -
  obtain h: "rnd (1 / 1000) < y" "0 < a" "a < x" "f \<le> 1" "c = buy_raw x y a f"
    using buy_cost_SomeD [OF q assms(1,2)] by auto
  then have k: "quotable x y a" using assms(1,2) by (simp add: quotable_def)
  have "y * of_int a / of_int (x - a) \<le> c"
    using raw_buy_ge [OF k h(3) _ h(4)] fee h(5) by (simp add: pow2_m50)
  moreover have d: "(0::rat) < of_int (x - a)" using h(3) by simp
  ultimately have "y * of_int a \<le> of_int (x - a) * c" by (simp add: pos_divide_le_eq mult.commute)
  then show ?thesis by (simp add: algebra_simps)
qed

theorem buy_never_decreases_k_witness:
  "buy_cost_pure 100 (Fin 1000) 10 (Fin (1 / 8)) = Some (Fin 125) \<and>
   of_int 100 * (1000::rat) \<le> of_int (100 - 10) * (1000 + 125)"
proof -
  have q: "buy_cost_pure 100 (Fin 1000) 10 (Fin (1 / 8)) = Some (Fin 125)" by code_simp
  have i: "in_i32 100" "in_i32 10" by (simp_all add: in_i32_def i32_min_def i32_max_def)
  show ?thesis using q buy_never_decreases_k [OF i q] by simp
qed

text \<open>Selling into a pool never decreases \<open>k\<close>: with a fee of at least \<open>2\<^sup>-\<^sup>5\<^sup>0\<close>, the product of
  the reserves after the items come in and the quoted payout goes out is at least the product
  before.\<close>

theorem sell_never_decreases_k:
  assumes "in_i32 x" and "in_i32 a" and ok: "f64_ok (Fin f)"
    and q: "sell_payout_pure x (Fin y) a (Fin f) = Some (Fin p)" and fee: "1 / 2 ^ 50 \<le> f"
  shows "of_int x * y \<le> of_int (x + a) * (y - p)"
proof -
  obtain h: "rnd (1 / 1000) < y" "0 < a" "0 < x" "0 \<le> f" "f \<le> 1" "p = sell_raw x y a f" "0 < p"
    using sell_payout_SomeD [OF q assms(1,2)] by auto
  then have k: "quotable x y a" using assms(1,2) by (simp add: quotable_def)
  have d: "0 < x + a" "x + a \<le> 2 * i32_max" using h assms(1,2) by (auto simp: in_i32_def)
  have "f \<noteq> 1" using h(6,7) by (auto simp: sell_raw_def)
  then have f1: "pow2 (- 53) \<le> 1 - f" using ok h by (intro one_minus_rep_ge) (auto simp: representable_def)
  then have g: "pow2 (- 53) \<le> rnd (1 - f)" by (rule rnd_ge_rep) (simp add: rnd_pow2)
  have "pow2 (- 42) * pow2 (- 53) \<le> rnd (rnd (y * of_int a) / of_int (x + a)) * rnd (1 - f)"
    using rnd_quot_ge [OF k d] g order_trans [OF pow2_nonneg rnd_quot_ge [OF k d]]
    by (intro mult_mono) auto
  then have big: "pow2 (- 1022) \<le> rnd (rnd (y * of_int a) / of_int (x + a)) * rnd (1 - f)"
    using pow2_le_iff [of "- 1022" "- 42 + - 53"] unfolding pow2_add by linarith
  have "p \<le> y * of_int a / of_int (x + a)"
    using raw_sell_le [OF k h(3) _ h(5) big] fee h(6) by (simp add: pow2_m50)
  moreover have "(0::rat) < of_int (x + a)" using d by simp
  ultimately have "of_int (x + a) * p \<le> y * of_int a" by (simp add: pos_le_divide_eq mult.commute)
  then show ?thesis by (simp add: algebra_simps)
qed

theorem sell_never_decreases_k_witness:
  "sell_payout_pure 90 (Fin 1000) 10 (Fin (1 / 8)) = Some (Fin (175 / 2)) \<and>
   of_int 90 * (1000::rat) \<le> of_int (90 + 10) * (1000 - 175 / 2)"
proof -
  have q: "sell_payout_pure 90 (Fin 1000) 10 (Fin (1 / 8)) = Some (Fin (175 / 2))" by code_simp
  have i: "in_i32 90" "in_i32 10" by (simp_all add: in_i32_def i32_min_def i32_max_def)
  have f: "f64_ok (Fin (1 / 8))" by code_simp
  show ?thesis using q sell_never_decreases_k [OF i f q] by simp
qed

text \<open>No round trip is profitable at one pool state: the payout quoted for selling an
  amount never exceeds the cost quoted for buying the same amount, at any fee.\<close>

theorem payout_le_cost:
  assumes i: "in_i32 x" "in_i32 a"
    and s: "sell_payout_pure x y a fee = Some p" and b: "buy_cost_pure x y a fee = Some c"
  shows "f_le p c"
proof -
  obtain y' f where v: "y = Fin y'" "fee = Fin f" "0 \<le> f" "f \<le> 1" "rnd (1 / 1000) < y'" "0 < a" "a < x"
      "c = Fin (buy_raw x y' a f)"
    by (rule buy_cost_SomeD [OF b i])
  moreover have "p = Fin (sell_raw x y' a f)" using sell_payout_raw s i v by blast
  moreover have "quotable x y' a" using v i by (simp add: quotable_def)
  ultimately show ?thesis using raw_spread [of x y' a f] by simp
qed

theorem payout_le_cost_witness:
  "sell_payout_pure 90 (Fin 1000) 10 (Fin (1 / 8)) = Some (Fin (175 / 2)) \<and>
   (\<exists>c. buy_cost_pure 90 (Fin 1000) 10 (Fin (1 / 8)) = Some c \<and> f_le (Fin (175 / 2)) c)"
proof -
  have q: "sell_payout_pure 90 (Fin 1000) 10 (Fin (1 / 8)) = Some (Fin (175 / 2))" by code_simp
  have b: "buy_cost_pure 90 (Fin 1000) 10 (Fin (1 / 8)) = Some (Fin (1125 / 8))" by code_simp
  have i: "in_i32 90" "in_i32 10" by (simp_all add: in_i32_def i32_min_def i32_max_def)
  show ?thesis using q b payout_le_cost [OF i q b] by blast
qed

text \<open>The quoted cost of a purchase does not fall when the purchase grows, rounding
  included, so splitting hairs on the amount never yields more items for fewer diamonds.\<close>

theorem buy_cost_mono:
  assumes i: "in_i32 x" "in_i32 a" "in_i32 b" and ab: "a \<le> b"
    and qa: "buy_cost_pure x y a fee = Some c" and qb: "buy_cost_pure x y b fee = Some d"
  shows "f_le c d"
proof -
  obtain y' f where v: "y = Fin y'" "fee = Fin f" "0 \<le> f" "f \<le> 1" "rnd (1 / 1000) < y'" "0 < a" "a < x"
      "c = Fin (buy_raw x y' a f)"
    by (rule buy_cost_SomeD [OF qa i(1,2)])
  moreover have "d = Fin (buy_raw x y' b f) \<and> b < x"
    using buy_cost_raw qb i v by blast
  moreover have "quotable x y' a" using v i by (simp add: quotable_def)
  ultimately show ?thesis using raw_mono_amount [of x y' a b f] ab by simp
qed

theorem buy_cost_mono_witness:
  "\<exists>c d. buy_cost_pure 100 (Fin 1000) 10 (Fin 0) = Some c \<and>
         buy_cost_pure 100 (Fin 1000) 50 (Fin 0) = Some d \<and> f_le c d"
proof -
  have a: "buy_cost_pure 100 (Fin 1000) 10 (Fin 0) = Some (Fin (rnd (1000 / 9)))" by code_simp
  have b: "buy_cost_pure 100 (Fin 1000) 50 (Fin 0) = Some (Fin 1000)" by code_simp
  have i: "in_i32 100" "in_i32 10" "in_i32 50" by (simp_all add: in_i32_def i32_min_def i32_max_def)
  have "f_le (Fin (rnd (1000 / 9))) (Fin 1000)" using buy_cost_mono [OF i _ a b] by simp
  then show ?thesis using a b by blast
qed

text \<open>A sale never pays out more than the pool's currency reserve, whatever the amount.\<close>

theorem payout_le_reserve:
  assumes i: "in_i32 x" "in_i32 a" and y: "f64_ok y"
    and q: "sell_payout_pure x y a fee = Some p"
  shows "f_le p y"
proof -
  obtain y' f where v: "y = Fin y'" "fee = Fin f" "0 \<le> f" "f \<le> 1" "rnd (1 / 1000) < y'" "0 < a" "0 < x"
      "p = Fin (sell_raw x y' a f)"
    by (rule sell_payout_SomeD [OF q i])
  moreover have "quotable x y' a" using v i by (simp add: quotable_def)
  ultimately show ?thesis
    using sell_raw_le_reserve [of x y' a f] y by (simp add: representable_def)
qed

theorem payout_le_reserve_witness:
  "f64_ok (Fin 1000) \<and> sell_payout_pure 1 (Fin 1000) 1000000 (Fin 0) \<noteq> None \<and>
   f_le (the (sell_payout_pure 1 (Fin 1000) 1000000 (Fin 0))) (Fin 1000)"
proof -
  have y: "f64_ok (Fin 1000)" by code_simp
  have q: "sell_payout_pure 1 (Fin 1000) 1000000 (Fin 0) \<noteq> None" by code_simp
  have i: "in_i32 1" "in_i32 1000000" by (simp_all add: in_i32_def i32_min_def i32_max_def)
  obtain p where p: "sell_payout_pure 1 (Fin 1000) 1000000 (Fin 0) = Some p" using q by auto
  show ?thesis using y p payout_le_reserve [OF i y p] by simp
qed

end
