(* ===== verification/ItemIds.thy ===== *)
theory ItemIds
  imports Constants
begin

text \<open>
  Item identifiers of \<^verbatim>\<open>src/types/item_id.rs\<close>. A Rust string is the list of its UTF-8
  bytes, so \<open>length\<close> is \<open>str::len\<close> and a byte outside ASCII is a \<open>char\<close> above 127.
\<close>

section \<open>ASCII classes\<close>

definition code :: "char \<Rightarrow> nat" where
  "code c = of_char c"

definition is_ascii_lowercase :: "char \<Rightarrow> bool" where
  "is_ascii_lowercase c \<longleftrightarrow> 97 \<le> code c \<and> code c \<le> 122"

definition is_ascii_uppercase :: "char \<Rightarrow> bool" where
  "is_ascii_uppercase c \<longleftrightarrow> 65 \<le> code c \<and> code c \<le> 90"

definition is_ascii_digit :: "char \<Rightarrow> bool" where
  "is_ascii_digit c \<longleftrightarrow> 48 \<le> code c \<and> code c \<le> 57"

definition is_ascii_alphanumeric :: "char \<Rightarrow> bool" where
  "is_ascii_alphanumeric c \<longleftrightarrow> is_ascii_lowercase c \<or> is_ascii_uppercase c \<or> is_ascii_digit c"

definition to_ascii_lowercase :: "char \<Rightarrow> char" where
  "to_ascii_lowercase c = (if is_ascii_uppercase c then char_of (code c + 32) else c)"

definition strip_prefix :: "string \<Rightarrow> string \<Rightarrow> string option" where
  "strip_prefix p s = (if take (length p) s = p then Some (drop (length p) s) else None)"

definition starts_with :: "string \<Rightarrow> string \<Rightarrow> bool" where
  "starts_with p s \<longleftrightarrow> take (length p) s = p"

section \<open>Identifiers\<close>

type_synonym item_id = string

datatype item_error = EmptyItemId | ItemIdTooLong | ForbiddenCharacter

definition item_EMPTY :: item_id where
  "item_EMPTY = []"

definition MAX_LEN :: nat where
  "MAX_LEN = 64"

definition minecraft_prefix :: string where
  "minecraft_prefix = ''minecraft:''"

definition is_canonical :: "string \<Rightarrow> bool" where
  "is_canonical s \<longleftrightarrow> s \<noteq> [] \<and> length s \<le> MAX_LEN \<and> \<not> starts_with minecraft_prefix s \<and>
     list_all (\<lambda>b. is_ascii_lowercase b \<or> is_ascii_digit b \<or> b = CHR ''_'') s"

definition item_new :: "string \<Rightarrow> item_error + item_id" where
  "item_new raw =
     (let normalized = (case strip_prefix minecraft_prefix raw of Some s \<Rightarrow> s | None \<Rightarrow> raw)
      in if normalized = [] then Inl EmptyItemId
         else if MAX_LEN < length normalized then Inl ItemIdTooLong
         else if \<not> list_all (\<lambda>b. is_ascii_alphanumeric b \<or> b = CHR ''_'') normalized
              then Inl ForbiddenCharacter
         else Inr (map to_ascii_lowercase normalized))"

text \<open>\<open>from_normalized\<close> panics on the empty string: \<open>None\<close>.\<close>

definition from_normalized :: "string \<Rightarrow> item_id option" where
  "from_normalized s = (if s = [] then None else Some s)"

definition with_minecraft_prefix :: "item_id \<Rightarrow> string" where
  "with_minecraft_prefix i = minecraft_prefix @ i"

definition item_is_empty :: "item_id \<Rightarrow> bool" where
  "item_is_empty i \<longleftrightarrow> i = []"

definition item_deserialize :: "string \<Rightarrow> item_error + item_id" where
  "item_deserialize raw = (if raw = [] then Inr item_EMPTY else item_new raw)"

section \<open>Facts\<close>

lemma code_char_of: "n < 256 \<Longrightarrow> code (char_of n) = n"
  by (simp add: code_def)

lemma lowercase_of_alnum:
  assumes "is_ascii_alphanumeric b \<or> b = CHR ''_''"
  shows "is_ascii_lowercase (to_ascii_lowercase b) \<or> is_ascii_digit (to_ascii_lowercase b) \<or>
    to_ascii_lowercase b = CHR ''_''"
proof (cases "is_ascii_uppercase b")
  case True
  then show ?thesis
    by (simp add: to_ascii_lowercase_def is_ascii_lowercase_def is_ascii_uppercase_def code_char_of)
next
  case False
  then show ?thesis using assms by (auto simp: to_ascii_lowercase_def is_ascii_alphanumeric_def)
qed

lemma lowercase_fixed:
  "is_ascii_lowercase b \<or> is_ascii_digit b \<or> b = CHR ''_'' \<Longrightarrow> to_ascii_lowercase b = b"
  by (auto simp: to_ascii_lowercase_def is_ascii_lowercase_def is_ascii_digit_def
      is_ascii_uppercase_def code_def)

lemma colon_not_canonical:
  "\<not> (is_ascii_lowercase CHR '':'' \<or> is_ascii_digit CHR '':'' \<or> CHR '':'' = CHR ''_'')"
  by (simp add: is_ascii_lowercase_def is_ascii_digit_def code_def)

lemma starts_with_prefix_colon: "starts_with minecraft_prefix s \<Longrightarrow> CHR '':'' \<in> set s"
proof -
  assume "starts_with minecraft_prefix s"
  then have "set minecraft_prefix \<subseteq> set s"
    unfolding starts_with_def by (metis set_take_subset)
  then show ?thesis by (simp add: minecraft_prefix_def)
qed

lemma canonical_chars_no_prefix:
  "list_all (\<lambda>b. is_ascii_lowercase b \<or> is_ascii_digit b \<or> b = CHR ''_'') s \<Longrightarrow>
   \<not> starts_with minecraft_prefix s"
  using starts_with_prefix_colon colon_not_canonical by (auto simp: list_all_iff)

lemma item_new_InrD:
  assumes "item_new raw = Inr i"
  obtains s where "i = map to_ascii_lowercase s" "s \<noteq> []" "length s \<le> MAX_LEN"
    "list_all (\<lambda>b. is_ascii_alphanumeric b \<or> b = CHR ''_'') s"
    "raw = s \<or> raw = minecraft_prefix @ s"
proof -
  let ?s = "case strip_prefix minecraft_prefix raw of Some s \<Rightarrow> s | None \<Rightarrow> raw"
  have "raw = ?s \<or> raw = minecraft_prefix @ ?s"
    by (auto simp: strip_prefix_def) (metis append_take_drop_id)
  then show ?thesis
    using assms that [of ?s] by (auto simp: item_new_def Let_def not_less split: if_splits)
qed

text \<open>Every identifier that \<open>ItemId::new\<close> accepts is canonical: non-empty, at most 64 bytes, only
  ASCII lowercase letters, digits and underscores, and without the \<^verbatim>\<open>minecraft:\<close> prefix, whatever
  the input.\<close>

theorem item_new_canonical:
  assumes "item_new raw = Inr i"
  shows "is_canonical i"
proof -
  obtain s where s: "i = map to_ascii_lowercase s" "s \<noteq> []" "length s \<le> MAX_LEN"
    "list_all (\<lambda>b. is_ascii_alphanumeric b \<or> b = CHR ''_'') s"
    using assms by (rule item_new_InrD)
  then have "list_all (\<lambda>b. is_ascii_lowercase b \<or> is_ascii_digit b \<or> b = CHR ''_'') i"
    using lowercase_of_alnum by (auto simp: list_all_iff)
  with s canonical_chars_no_prefix show ?thesis by (simp add: is_canonical_def)
qed

theorem item_new_canonical_witness:
  "item_new ''minecraft:Iron_Ingot'' = Inr ''iron_ingot'' \<and> is_canonical ''iron_ingot''"
proof -
  have "item_new ''minecraft:Iron_Ingot'' = Inr ''iron_ingot''" by code_simp
  then show ?thesis using item_new_canonical by blast
qed

lemma item_new_fixed:
  assumes "is_canonical i"
  shows "item_new i = Inr i \<and> item_new (with_minecraft_prefix i) = Inr i \<and> item_deserialize i = Inr i"
proof -
  have low: "\<And>b. b \<in> set i \<Longrightarrow> is_ascii_lowercase b \<or> is_ascii_digit b \<or> b = CHR ''_''"
    using assms by (auto simp: is_canonical_def list_all_iff)
  then have m: "map to_ascii_lowercase i = i"
    using lowercase_fixed by (intro map_idI) blast
  have al: "list_all (\<lambda>b. is_ascii_alphanumeric b \<or> b = CHR ''_'') i"
    using low by (auto simp: list_all_iff is_ascii_alphanumeric_def)
  have ne: "i \<noteq> []" "length i \<le> MAX_LEN" "\<not> starts_with minecraft_prefix i"
    using assms by (auto simp: is_canonical_def)
  then show ?thesis
    using m al
    by (auto simp: item_new_def strip_prefix_def starts_with_def with_minecraft_prefix_def
        item_deserialize_def Let_def)
qed

text \<open>Parsing is a left inverse of printing: a canonical identifier is accepted unchanged, both
  bare and in its Minecraft-namespaced form, and so survives serialisation.\<close>

theorem item_roundtrip:
  assumes "is_canonical i"
  shows "item_new i = Inr i \<and> item_new (with_minecraft_prefix i) = Inr i \<and> item_deserialize i = Inr i"
  using item_new_fixed [OF assms] .

theorem item_roundtrip_witness:
  "is_canonical ''diamond'' \<and> item_new (with_minecraft_prefix ''diamond'') = Inr ''diamond''"
proof -
  have "is_canonical ''diamond''" by code_simp
  then show ?thesis using item_roundtrip by blast
qed

end
