(* ===== verification/Errors.thy ===== *)
theory Errors
  imports ItemIds
begin

text \<open>
  The error type of \<^verbatim>\<open>src/error.rs\<close>, the rendering of an error to a player and the
  conversion of a resolver error. A formatted diagnostic text that the program never
  inspects is represented by a short tag in the string payload; texts that reach a player
  are kept apart from diagnostics by \<open>user_message\<close>, as in the source.
\<close>

text \<open>A \<open>Duration\<close> is a number of nanoseconds.\<close>

datatype mojang_error =
    NotFound string | InvalidShape | RateLimited "nat option"
  | NetworkTimeout | NetworkError | UpstreamError | MalformedResponse

datatype store_error =
    UnknownPair item_id string
  | UnknownUser string string
  | BotDisconnected
  | TradeTimeout nat
  | ChestTimeout nat
  | BotAckTimeout string
  | TradeRejected string
  | BotSendFailed string
  | BotResponseDropped string
  | BotReportedError string
  | ValidationError string
  | MojangNetwork string
  | MojangRateLimited "nat option"
  | UserNotFound string
  | ChestOp string
  | InvariantViolation string
  | Io string

definition GENERIC :: string where
  "GENERIC = ''Internal error. Please retry; the operator has been notified.''"

fun user_message :: "store_error \<Rightarrow> string" where
  "user_message (ValidationError s) = s"
| "user_message (TradeRejected s) = s"
| "user_message (ChestOp s) = s"
| "user_message (UserNotFound username) = ''Player '' @ [CHR 0x27] @ username @ [CHR 0x27] @ '' not found''"
| "user_message _ = GENERIC"

fun mojang_display :: "mojang_error \<Rightarrow> string" where
  "mojang_display (NotFound username) = ''Player '' @ [CHR 0x27] @ username @ [CHR 0x27] @ '' not found''"
| "mojang_display InvalidShape = ''Invalid Minecraft username''"
| "mojang_display NetworkTimeout = ''Mojang API timeout''"
| "mojang_display NetworkError = ''Mojang API network error''"
| "mojang_display UpstreamError = ''Mojang API upstream error''"
| "mojang_display MalformedResponse = ''Mojang API returned malformed response''"
| "mojang_display (RateLimited (Some d)) =
     ''Mojang API rate-limited (retry after '' @ dec (d div 1000000000) @ ''s)''"
| "mojang_display (RateLimited None) = ''Mojang API rate-limited''"

fun store_error_of_mojang :: "mojang_error \<Rightarrow> store_error" where
  "store_error_of_mojang (NotFound username) = UserNotFound username"
| "store_error_of_mojang InvalidShape = ValidationError ''Invalid Minecraft username''"
| "store_error_of_mojang (RateLimited retry_after) = MojangRateLimited retry_after"
| "store_error_of_mojang other = MojangNetwork (mojang_display other)"

text \<open>The variants whose payload a player may read.\<close>

fun player_safe :: "store_error \<Rightarrow> bool" where
  "player_safe (ValidationError _) = True"
| "player_safe (TradeRejected _) = True"
| "player_safe (ChestOp _) = True"
| "player_safe (UserNotFound _) = True"
| "player_safe _ = False"

lemma user_message_generic: "\<not> player_safe e \<Longrightarrow> user_message e = GENERIC"
  by (cases e) simp_all

section \<open>Results and files\<close>

text \<open>
  A fallible operation returns \<open>store_error + 'a\<close>. What an operation finds under a path
  is a \<open>file_state\<close>: serde decides between \<open>Malformed\<close> and \<open>Parsed\<close>, the file system
  between \<open>Absent\<close> and \<open>Unreadable\<close>.
\<close>

datatype 'a file_state = Absent | Unreadable | Malformed | Parsed 'a

abbreviation is_ok :: "'e + 'a \<Rightarrow> bool" where
  "is_ok r \<equiv> \<not> isl r"

lemma is_ok_iff: "is_ok r \<longleftrightarrow> (\<exists>a. r = Inr a)"
  by (cases r) auto

end
