(* ===== verification/Node.thy ===== *)
theory Node
  imports Errors "HOL-Library.Signed_Division"
begin

text \<open>
  Positions, chests and nodes: \<^verbatim>\<open>src/types/position.rs\<close>, \<^verbatim>\<open>src/types/chest.rs\<close> and
  \<^verbatim>\<open>src/types/node.rs\<close>. The result \<open>None\<close> of an operation is a panic (an assertion or
  \<open>unreachable!\<close>) or a loop that does not return. A node file is a \<open>file_state\<close>; an
  operation that writes takes the outcome of the write as a Boolean, since
  \<open>write_atomic\<close> either replaces the whole file or leaves it.
\<close>

section \<open>Data\<close>

record position =
  pos_x :: i32
  pos_y :: i32
  pos_z :: i32

record chest =
  chest_id :: i32
  chest_node_id :: i32
  chest_index :: i32
  chest_position :: position
  chest_item :: item_id
  amounts :: "i32 list"

record node =
  node_id :: i32
  node_position :: position
  chests :: "chest list"

section \<open>Chests\<close>

definition valid_index :: "i32 \<Rightarrow> bool" where
  "valid_index i \<longleftrightarrow> 0 \<le> i \<and> i < int CHESTS_PER_NODE"

definition chest_calc_position :: "position \<Rightarrow> i32 \<Rightarrow> position option" where
  "chest_calc_position p i =
     (if i = 0 then Some \<lparr>pos_x = wrap_i32 (pos_x p - 2), pos_y = wrap_i32 (pos_y p + 1), pos_z = wrap_i32 (pos_z p - 1)\<rparr>
      else if i = 1 then Some \<lparr>pos_x = wrap_i32 (pos_x p - 1), pos_y = wrap_i32 (pos_y p + 1), pos_z = wrap_i32 (pos_z p - 1)\<rparr>
      else if i = 2 then Some \<lparr>pos_x = wrap_i32 (pos_x p - 2), pos_y = pos_y p, pos_z = wrap_i32 (pos_z p - 1)\<rparr>
      else if i = 3 then Some \<lparr>pos_x = wrap_i32 (pos_x p - 1), pos_y = pos_y p, pos_z = wrap_i32 (pos_z p - 1)\<rparr>
      else None)"

definition chest_new :: "i32 \<Rightarrow> position \<Rightarrow> i32 \<Rightarrow> chest option" where
  "chest_new nid npos i =
     (if \<not> valid_index i then None
      else case chest_calc_position npos i of
        None \<Rightarrow> None
      | Some p \<Rightarrow> Some \<lparr>chest_id = wrap_i32 (wrap_i32 (nid * int CHESTS_PER_NODE) + i),
                         chest_node_id = nid, chest_index = i, chest_position = p,
                         chest_item = item_EMPTY, amounts = replicate DOUBLE_CHEST_SLOTS 0\<rparr>)"

definition check_invariants :: "chest \<Rightarrow> i32 \<Rightarrow> i32 \<Rightarrow> store_error + unit" where
  "check_invariants c expected_node_id expected_index =
     (if \<not> valid_index (chest_index c) then Inl (InvariantViolation ''invalid index'')
      else if chest_index c \<noteq> expected_index then Inl (InvariantViolation ''duplicate or missing'')
      else if chest_node_id c \<noteq> expected_node_id then Inl (InvariantViolation ''node_id'')
      else if chest_id c \<noteq> wrap_i32 (wrap_i32 (expected_node_id * int CHESTS_PER_NODE) + chest_index c)
        then Inl (InvariantViolation ''id'')
      else if length (amounts c) \<noteq> DOUBLE_CHEST_SLOTS then Inl (InvariantViolation ''amounts.len'')
      else if item_is_empty (chest_item c) \<and> list_ex (\<lambda>a. a > 0) (amounts c)
        then Inl (InvariantViolation ''empty item with amounts'')
      else Inr ())"

section \<open>The spiral\<close>

text \<open>The loop that walks outward from ring 1; the arithmetic wraps as the release build does.\<close>

partial_function (option) ring_search :: "i32 \<Rightarrow> i32 \<Rightarrow> i32 option" where
  "ring_search i ring =
     (if wrap_i32 (wrap_i32 (ring * wrap_i32 (ring + 1)) * 4) < i
      then ring_search i (wrap_i32 (ring + 1)) else Some ring)"

declare ring_search.simps [code]

definition ring_offset :: "i32 \<Rightarrow> i32 \<Rightarrow> (i32 \<times> i32) option" where
  "ring_offset ring pos_in_ring =
     (let side = wrap_i32 (2 * ring) in
      if side = 0 then None
      else let q = pos_in_ring sdiv side in
        if q = 0 then Some (ring, wrap_i32 (- ring + pos_in_ring))
        else if q = 1 then Some (wrap_i32 (ring - wrap_i32 (pos_in_ring - side)), ring)
        else if q = 2 then Some (- ring, wrap_i32 (ring - wrap_i32 (pos_in_ring - wrap_i32 (2 * side))))
        else if q = 3 \<or> q = 4
          then Some (wrap_i32 (- ring + wrap_i32 (pos_in_ring - wrap_i32 (3 * side))), - ring)
        else None)"

definition node_calc_position :: "i32 \<Rightarrow> position \<Rightarrow> position option" where
  "node_calc_position i sp =
     (if i < 0 then None
      else if i = 0 then Some \<lparr>pos_x = pos_x sp, pos_y = pos_y sp, pos_z = pos_z sp\<rparr>
      else case ring_search i 1 of
        None \<Rightarrow> None
      | Some ring \<Rightarrow>
          (let pos_in_ring = wrap_i32 (i - wrap_i32 (wrap_i32 (wrap_i32 (ring - 1) * ring) * 4)) in
           case ring_offset ring pos_in_ring of
             None \<Rightarrow> None
           | Some (dx, dz) \<Rightarrow>
               Some \<lparr>pos_x = wrap_i32 (pos_x sp + wrap_i32 (dx * NODE_SPACING)), pos_y = pos_y sp,
                     pos_z = wrap_i32 (pos_z sp + wrap_i32 (dz * NODE_SPACING))\<rparr>))"

section \<open>Nodes\<close>

fun new_chests :: "i32 \<Rightarrow> position \<Rightarrow> i32 list \<Rightarrow> chest list option" where
  "new_chests nid npos [] = Some []"
| "new_chests nid npos (i # is) =
     (case chest_new nid npos i of
        None \<Rightarrow> None
      | Some c \<Rightarrow>
          (let c' = (if nid = 0 then
                       (if i = 0 then c\<lparr>chest_item := BASE_CURRENCY_ITEM\<rparr>
                        else if i = 1 then c\<lparr>chest_item := OVERFLOW_CHEST_ITEM\<rparr> else c)
                     else c)
           in map_option (Cons c') (new_chests nid npos is)))"

definition node_new :: "i32 \<Rightarrow> position \<Rightarrow> node option" where
  "node_new nid sp =
     (case node_calc_position nid sp of
        None \<Rightarrow> None
      | Some npos \<Rightarrow>
          map_option (\<lambda>cs. \<lparr>node_id = nid, node_position = npos, chests = cs\<rparr>)
            (new_chests nid npos (map int [0..<CHESTS_PER_NODE])))"

fun check_chests :: "i32 \<Rightarrow> i32 \<Rightarrow> chest list \<Rightarrow> store_error + unit" where
  "check_chests nid k [] = Inr ()"
| "check_chests nid k (c # cs) =
     (case check_invariants c nid k of Inl e \<Rightarrow> Inl e | Inr _ \<Rightarrow> check_chests nid (k + 1) cs)"

definition node_check :: "node \<Rightarrow> store_error + unit" where
  "node_check n =
     (if length (chests n) \<noteq> CHESTS_PER_NODE then Inl (InvariantViolation ''chest count'')
      else check_chests (node_id n) 0 (chests n))"

definition node_save :: "bool \<Rightarrow> node \<Rightarrow> node file_state \<Rightarrow> (store_error + unit) \<times> node file_state" where
  "node_save write_ok n f =
     (case node_check n of
        Inl e \<Rightarrow> (Inl e, f)
      | Inr _ \<Rightarrow> if write_ok then (Inr (), Parsed n) else (Inl (Io ''write''), f))"

fun scan_chests :: "chest list \<Rightarrow> store_error + unit" where
  "scan_chests [] = Inr ()"
| "scan_chests (c # cs) =
     (if \<not> valid_index (chest_index c) then Inl (InvariantViolation ''invalid index'')
      else if length (amounts c) \<noteq> DOUBLE_CHEST_SLOTS then Inl (InvariantViolation ''amounts.len'')
      else scan_chests cs)"

fun reposition :: "position \<Rightarrow> chest list \<Rightarrow> chest list option" where
  "reposition npos [] = Some []"
| "reposition npos (c # cs) =
     (case chest_calc_position npos (chest_index c) of
        None \<Rightarrow> None
      | Some p \<Rightarrow> map_option (Cons (c\<lparr>chest_position := p\<rparr>)) (reposition npos cs))"

definition stockpile :: "chest \<Rightarrow> i32" where
  "stockpile c = wrap_i32 (sum_list (filter (\<lambda>a. a > 0) (amounts c)))"

text \<open>One reserved chest of node 0: the chest list and whether the file must be rewritten.\<close>

definition fix_reserved :: "nat \<Rightarrow> item_id \<Rightarrow> chest list \<times> bool \<Rightarrow> store_error + (chest list \<times> bool)" where
  "fix_reserved k item = (\<lambda>(cs, needs_save).
     if k < length cs \<and> chest_item (cs ! k) \<noteq> item then
       (if stockpile (cs ! k) > 0 then Inl (InvariantViolation ''refusing to relabel'')
        else Inr (cs[k := (cs ! k)\<lparr>chest_item := item\<rparr>], True))
     else Inr (cs, needs_save))"

definition fix_node0 :: "chest list \<Rightarrow> store_error + (chest list \<times> bool)" where
  "fix_node0 cs =
     (case fix_reserved 0 BASE_CURRENCY_ITEM (cs, False) of
        Inl e \<Rightarrow> Inl e
      | Inr r \<Rightarrow> fix_reserved 1 OVERFLOW_CHEST_ITEM r)"

definition node_load ::
  "i32 \<Rightarrow> position \<Rightarrow> bool \<Rightarrow> node file_state \<Rightarrow> ((store_error + node) \<times> node file_state) option" where
  "node_load nid sp write_ok f =
     (case f of
        Absent \<Rightarrow> Some (Inl (InvariantViolation ''not found''), f)
      | Unreadable \<Rightarrow> Some (Inl (Io ''read''), f)
      | Malformed \<Rightarrow> Some (Inl (InvariantViolation ''parse''), f)
      | Parsed n \<Rightarrow>
          if node_id n \<noteq> nid then Some (Inl (InvariantViolation ''id mismatch''), f)
          else if length (chests n) \<noteq> CHESTS_PER_NODE
            then Some (Inl (InvariantViolation ''chest count''), f)
          else case scan_chests (chests n) of
            Inl e \<Rightarrow> Some (Inl e, f)
          | Inr _ \<Rightarrow>
              (case node_calc_position nid sp of
                 None \<Rightarrow> None
               | Some npos \<Rightarrow>
                   (case reposition npos (chests n) of
                      None \<Rightarrow> None
                    | Some cs \<Rightarrow>
                        (let cs = sort_key chest_index cs in
                         case check_chests nid 0 cs of
                           Inl e \<Rightarrow> Some (Inl e, f)
                         | Inr _ \<Rightarrow>
                             if nid = 0 then
                               (case fix_node0 cs of
                                  Inl e \<Rightarrow> Some (Inl e, f)
                                | Inr (cs', needs_save) \<Rightarrow>
                                    (let n' = \<lparr>node_id = nid, node_position = npos, chests = cs'\<rparr> in
                                     Some (Inr n', if needs_save then snd (node_save write_ok n' f) else f)))
                             else Some (Inr \<lparr>node_id = nid, node_position = npos, chests = cs\<rparr>, f)))))"

section \<open>The spiral visits every node once\<close>

text \<open>The largest node id \<open>Storage::load\<close> accepts: its chest ids fit an \<open>i32\<close>.\<close>

definition max_node_id :: i32 where
  "max_node_id = i32_max div int CHESTS_PER_NODE - 1"

lemma max_node_id_val: "max_node_id = 536870910"
  by (simp add: max_node_id_def i32_max_def consts_defs)

text \<open>A ring that still lies below a valid id is far from overflowing.\<close>

lemma ring_small:
  assumes "1 \<le> (r::int)" "r * (r + 1) * 4 < 536870911"
  shows "r < 11586"
proof (rule ccontr)
  assume "\<not> r < 11586"
  then have "11586 * 11587 \<le> r * (r + 1)" by (intro mult_mono) auto
  with assms show False by simp
qed

lemma ring_test:
  assumes "1 \<le> r" "r \<le> 11586"
  shows "wrap_i32 (wrap_i32 (r * wrap_i32 (r + 1)) * 4) = r * (r + 1) * 4"
proof -
  have r1: "wrap_i32 (r + 1) = r + 1" using assms by (simp add: in_i32_def i32_min_def i32_max_def)
  have "r * (r + 1) \<le> 11586 * 11587" by (rule mult_mono) (use assms in auto)
  moreover have "0 \<le> r * (r + 1)" using assms by simp
  ultimately show ?thesis unfolding r1
    by (simp add: in_i32_def i32_min_def i32_max_def)
qed

text \<open>The loop returns the first ring from the start whose last id covers the id.\<close>

lemma ring_search_spec:
  assumes "1 \<le> r" "r \<le> 11586" "i \<le> max_node_id" "r = 1 \<or> (r - 1) * r * 4 < i"
  shows "\<exists>n. ring_search i r = Some n \<and> r \<le> n \<and> n \<le> 11586 \<and> i \<le> n * (n + 1) * 4 \<and>
    (n = 1 \<or> (n - 1) * n * 4 < i)"
  using assms
proof (induction "nat (11586 - r)" arbitrary: r rule: less_induct)
  case less
  show ?case
  proof (cases "r * (r + 1) * 4 < i")
    case True
    then have small: "r < 11586"
      using ring_small [OF less.prems(1)] less.prems(3) by (simp add: max_node_id_val)
    have w: "wrap_i32 (r + 1) = r + 1"
      using less.prems small by (simp add: in_i32_def i32_min_def i32_max_def)
    have "\<exists>n. ring_search i (r + 1) = Some n \<and> r + 1 \<le> n \<and> n \<le> 11586 \<and> i \<le> n * (n + 1) * 4 \<and>
        (n = 1 \<or> (n - 1) * n * 4 < i)"
      using less.prems small True by (intro less.hyps) auto
    then show ?thesis
      using True less.prems(4) ring_test [OF less.prems(1,2)]
      by (subst ring_search.simps) (auto simp: w)
  next
    case False
    then show ?thesis
      using less.prems by (subst ring_search.simps) (auto simp: ring_test)
  qed
qed

lemma quot_cases:
  assumes "1 \<le> n" "1 \<le> p" "p \<le> 8 * (n::int)"
  shows "p sdiv (2 * n) = 0 \<and> p < 2 * n \<or> p sdiv (2 * n) = 1 \<and> 2 * n \<le> p \<and> p < 4 * n \<or>
    p sdiv (2 * n) = 2 \<and> 4 * n \<le> p \<and> p < 6 * n \<or> p sdiv (2 * n) = 3 \<and> 6 * n \<le> p \<and> p < 8 * n \<or>
    p sdiv (2 * n) = 4 \<and> p = 8 * n"
proof -
  have e: "p sdiv (2 * n) = p div (2 * n)" using assms by (simp add: signed_divide_int_def)
  have d: "p div (2 * n) = k" if "k * (2 * n) \<le> p" "p < (k + 1) * (2 * n)" for k
    using that assms by (intro int_div_pos_eq [of p "2 * n" k "p - k * (2 * n)"]) (auto simp: algebra_simps)
  consider "p < 2 * n" | "2 * n \<le> p" "p < 4 * n" | "4 * n \<le> p" "p < 6 * n" | "6 * n \<le> p" "p < 8 * n" | "p = 8 * n"
    using assms by linarith
  then show ?thesis
  proof cases
    case 1 then show ?thesis using d [of 0] assms e by simp
  next
    case 2 then show ?thesis using d [of 1] e by simp
  next
    case 3 then show ?thesis using d [of 2] e by simp
  next
    case 4 then show ?thesis using d [of 3] e by simp
  next
    case 5 then show ?thesis using d [of 4] assms e by simp
  qed
qed

definition on_ring :: "int \<Rightarrow> int \<Rightarrow> int \<times> int \<Rightarrow> bool" where
  "on_ring n p d \<longleftrightarrow> (case d of (dx, dz) \<Rightarrow>
     (p < 2 * n \<and> dx = n \<and> dz = p - n) \<or>
     (2 * n \<le> p \<and> p < 4 * n \<and> dx = 3 * n - p \<and> dz = n) \<or>
     (4 * n \<le> p \<and> p < 6 * n \<and> dx = - n \<and> dz = 5 * n - p) \<or>
     (6 * n \<le> p \<and> p \<le> 8 * n \<and> dx = p - 7 * n \<and> dz = - n))"

lemma ring_offset_on_ring:
  assumes "1 \<le> n" "n \<le> 11586" "1 \<le> p" "p \<le> 8 * n"
  shows "\<exists>d. ring_offset n p = Some d \<and> on_ring n p d"
proof -
  have w: "wrap_i32 x = x" if "-100000 \<le> x" "x \<le> 100000" for x
    using that by (simp add: in_i32_def i32_min_def i32_max_def)
  show ?thesis
    using quot_cases [OF assms(1,3,4)] assms
    by (elim disjE conjE) (auto simp: ring_offset_def Let_def w on_ring_def)
qed

lemma on_ring_range:
  assumes "1 \<le> n" "1 \<le> p" "on_ring n p (dx, dz)"
  shows "\<bar>dx\<bar> \<le> n" "\<bar>dz\<bar> \<le> n" "\<bar>dx\<bar> = n \<or> \<bar>dz\<bar> = n"
  using assms by (auto simp: on_ring_def)

lemma on_ring_inj:
  assumes "1 \<le> n" "1 \<le> p" "on_ring n p d" "1 \<le> m" "1 \<le> q" "on_ring m q d"
  shows "n = m \<and> p = q"
proof -
  obtain dx dz where d: "d = (dx, dz)" by force
  note a = assms [unfolded d]
  have "n = m"
    using on_ring_range [OF a(1-3)] on_ring_range [OF a(4-6)] by linarith
  then show ?thesis
    using assms(1-3,5,6) d by (auto simp: on_ring_def)
qed

text \<open>For a valid id the position is that of a grid point of the spiral.\<close>

lemma node_position_spec:
  assumes "0 \<le> i" "i \<le> max_node_id"
  shows "\<exists>n p d. node_calc_position i sp = Some \<lparr>pos_x = (if i = 0 then pos_x sp else wrap_i32 (pos_x sp + 3 * fst d)),
       pos_y = pos_y sp, pos_z = (if i = 0 then pos_z sp else wrap_i32 (pos_z sp + 3 * snd d))\<rparr> \<and>
     (i = 0 \<longrightarrow> d = (0, 0)) \<and>
     (0 < i \<longrightarrow> 1 \<le> n \<and> n \<le> 11586 \<and> i = 4 * (n - 1) * n + p \<and> 1 \<le> p \<and> p \<le> 8 * n \<and> on_ring n p d)"
proof (cases "i = 0")
  case True
  then show ?thesis by (auto simp: node_calc_position_def)
next
  case False
  with assms have i: "0 < i" by simp
  obtain n where n: "ring_search i 1 = Some n" "1 \<le> n" "n \<le> 11586" "i \<le> n * (n + 1) * 4"
      "n = 1 \<or> (n - 1) * n * 4 < i"
    using ring_search_spec [of 1 i] assms by auto
  define p where "p = i - 4 * (n - 1) * n"
  have p: "1 \<le> p" "p \<le> 8 * n"
    using n i by (auto simp: p_def algebra_simps)
  have "(n - 1) * n \<le> 11585 * 11586" by (rule mult_mono) (use n in auto)
  then have sq: "0 \<le> (n - 1) * n" "(n - 1) * n \<le> 134223810" using n(2) by (simp_all only: mult_nonneg_nonneg)
  have w: "wrap_i32 x = x" if "-600000000 \<le> x" "x \<le> 600000000" for x
    using that by (simp add: in_i32_def i32_min_def i32_max_def)
  have pw: "wrap_i32 (i - wrap_i32 (wrap_i32 (wrap_i32 (n - 1) * n) * 4)) = p"
  proof -
    define q where "q = (n - 1) * n"
    have q: "0 \<le> q" "q \<le> 134223810" "p = i - 4 * q"
      using sq by (simp_all only: q_def p_def mult.assoc)
    have n1: "wrap_i32 (n - 1) = n - 1" by (rule w) (use n in auto)
    have "wrap_i32 q = q" "wrap_i32 (q * 4) = q * 4" "wrap_i32 p = p"
      by (rule w, use q n p in linarith, use q n p in linarith)+
    then show ?thesis
      unfolding n1 q_def [symmetric] using q(3) by (simp add: mult.commute)
  qed
  obtain d where d: "ring_offset n p = Some d" "on_ring n p d"
    using ring_offset_on_ring n p by blast
  obtain dx dz where dd: "d = (dx, dz)" by force
  have r: "\<bar>dx\<bar> \<le> n" "\<bar>dz\<bar> \<le> n" using on_ring_range [of n p dx dz] n p d dd by auto
  have "wrap_i32 (dx * NODE_SPACING) = 3 * dx" "wrap_i32 (dz * NODE_SPACING) = 3 * dz"
    using r n by (auto simp: w consts_defs)
  then have "node_calc_position i sp = Some \<lparr>pos_x = wrap_i32 (pos_x sp + 3 * dx),
       pos_y = pos_y sp, pos_z = wrap_i32 (pos_z sp + 3 * dz)\<rparr>"
    using i n(1) d dd by (simp add: node_calc_position_def pw del: mult_cancel_right) 
  then show ?thesis
    using i n p d dd by (intro exI [of _ n] exI [of _ p] exI [of _ d]) (auto simp: p_def)
qed
definition grid_point :: "i32 \<Rightarrow> int \<times> int \<Rightarrow> bool" where
  "grid_point i d \<longleftrightarrow> (if i = 0 then d = (0, 0) else \<exists>n p. 1 \<le> n \<and> n \<le> 11586 \<and> i = 4 * (n - 1) * n + p \<and> 1 \<le> p \<and> p \<le> 8 * n \<and> on_ring n p d)"

lemma grid_point_pos:
  assumes "grid_point i d" "0 < i"
  obtains n p where "1 \<le> n" "n \<le> 11586" "i = 4 * (n - 1) * n + p" "1 \<le> p" "p \<le> 8 * n" "on_ring n p d"
  using assms by (auto simp: grid_point_def)

lemma grid_point_zero: "grid_point 0 d \<longleftrightarrow> d = (0, 0)"
  by (simp add: grid_point_def)

lemma grid_point_nonzero: "grid_point i d \<Longrightarrow> 0 < i \<Longrightarrow> d \<noteq> (0, 0)"
  by (erule (1) grid_point_pos) (auto simp: on_ring_def)

lemma grid_point_inj:
  assumes "grid_point i d" "grid_point j d" "0 \<le> i" "0 \<le> j"
  shows "i = j"
proof -
  consider "i = 0" "j = 0" | "i = 0" "0 < j" | "0 < i" "j = 0" | "0 < i" "0 < j" using assms by linarith
  then show ?thesis
  proof cases
    case 2 then show ?thesis using grid_point_nonzero [of j d] assms by (simp add: grid_point_zero)
  next
    case 3 then show ?thesis using grid_point_nonzero [of i d] assms by (simp add: grid_point_zero)
  next
    case 4
    obtain n p where i: "1 \<le> n" "i = 4 * (n - 1) * n + p" "1 \<le> p" "on_ring n p d"
      using grid_point_pos [OF assms(1) 4(1)] .
    obtain m q where j: "1 \<le> m" "j = 4 * (m - 1) * m + q" "1 \<le> q" "on_ring m q d"
      using grid_point_pos [OF assms(2) 4(2)] .
    from on_ring_inj [OF i(1,3,4) j(1,3,4)] i(2) j(2) show ?thesis by simp
  qed simp
qed

lemma grid_point_range:
  assumes "grid_point i (dx, dz)" "0 \<le> i"
  shows "\<bar>dx\<bar> \<le> 11586 \<and> \<bar>dz\<bar> \<le> 11586"
proof (cases "i = 0")
  case True then show ?thesis using assms by (simp add: grid_point_zero)
next
  case False
  then obtain n p where i: "1 \<le> n" "n \<le> 11586" "1 \<le> p" "on_ring n p (dx, dz)"
    using grid_point_pos [OF assms(1)] assms(2) by (metis order_le_less)
  from on_ring_range [OF i(1,3,4)] i(2) show ?thesis by linarith
qed

lemma node_position_grid:
  assumes "0 \<le> i" "i \<le> max_node_id" 
  obtains dx dz where "grid_point i (dx, dz)"
    "node_calc_position i sp = Some \<lparr>pos_x = (if i = 0 then pos_x sp else wrap_i32 (pos_x sp + 3 * dx)),
       pos_y = pos_y sp, pos_z = (if i = 0 then pos_z sp else wrap_i32 (pos_z sp + 3 * dz))\<rparr>"
proof -
  obtain n p d where *: "node_calc_position i sp = Some \<lparr>pos_x = (if i = 0 then pos_x sp else wrap_i32 (pos_x sp + 3 * fst d)),
       pos_y = pos_y sp, pos_z = (if i = 0 then pos_z sp else wrap_i32 (pos_z sp + 3 * snd d))\<rparr>"
     "i = 0 \<longrightarrow> d = (0, 0)"
     "0 < i \<longrightarrow> 1 \<le> n \<and> n \<le> 11586 \<and> i = 4 * (n - 1) * n + p \<and> 1 \<le> p \<and> p \<le> 8 * n \<and> on_ring n p d"
    using node_position_spec [OF assms] by metis
  have "grid_point i d" using * assms unfolding grid_point_def by (auto split: if_splits)
  then show thesis using that [of "fst d" "snd d"] * by simp
qed

lemma valid_index_cases: "valid_index k \<longleftrightarrow> k = 0 \<or> k = 1 \<or> k = 2 \<or> k = 3"
  unfolding valid_index_def consts_defs by presburger

lemma chest_position_form:
  assumes "valid_index k"
  shows "chest_calc_position p k =
    Some \<lparr>pos_x = wrap_i32 (pos_x p - (if k = 0 \<or> k = 2 then 2 else 1)),
          pos_y = (if k \<le> 1 then wrap_i32 (pos_y p + 1) else pos_y p), pos_z = wrap_i32 (pos_z p - 1)\<rparr>"
proof -
  consider "k = 0" | "k = 1" | "k = 2" | "k = 3"
    using assms valid_index_cases by blast
  then show ?thesis by cases (simp_all add: chest_calc_position_def)
qed

text \<open>No two chests of the storage share a block: chest \<open>k\<close> of node \<open>i\<close> and chest \<open>l\<close> of node
  \<open>j\<close> have different positions, for any storage origin and every two nodes of the spiral, with the
  wrapping of the arithmetic included.\<close>

theorem chest_positions_distinct:
  assumes "0 \<le> i" "i \<le> max_node_id" "0 \<le> j" "j \<le> max_node_id"
    and "valid_index k" "valid_index l"
    and "node_calc_position i sp = Some p" "node_calc_position j sp = Some q"
    and "(i, k) \<noteq> (j, l)"
  shows "chest_calc_position p k \<noteq> chest_calc_position q l"
proof
  assume same: "chest_calc_position p k = chest_calc_position q l"
  obtain dx dz where ig: "grid_point i (dx, dz)" and ic: "node_calc_position i sp = Some \<lparr>pos_x = (if i = 0 then pos_x sp else wrap_i32 (pos_x sp + 3 * dx)),
       pos_y = pos_y sp, pos_z = (if i = 0 then pos_z sp else wrap_i32 (pos_z sp + 3 * dz))\<rparr>"
    by (rule node_position_grid [OF assms(1,2)])
  have i: "grid_point i (dx, dz)"
    "p = \<lparr>pos_x = (if i = 0 then pos_x sp else wrap_i32 (pos_x sp + 3 * dx)),
       pos_y = pos_y sp, pos_z = (if i = 0 then pos_z sp else wrap_i32 (pos_z sp + 3 * dz))\<rparr>"
    using ig assms(7) ic by (simp_all only: option.inject)
  obtain ex ez where jg: "grid_point j (ex, ez)" and jc: "node_calc_position j sp = Some \<lparr>pos_x = (if j = 0 then pos_x sp else wrap_i32 (pos_x sp + 3 * ex)),
       pos_y = pos_y sp, pos_z = (if j = 0 then pos_z sp else wrap_i32 (pos_z sp + 3 * ez))\<rparr>"
    by (rule node_position_grid [OF assms(3,4)])
  have j: "grid_point j (ex, ez)"
    "q = \<lparr>pos_x = (if j = 0 then pos_x sp else wrap_i32 (pos_x sp + 3 * ex)),
       pos_y = pos_y sp, pos_z = (if j = 0 then pos_z sp else wrap_i32 (pos_z sp + 3 * ez))\<rparr>"
    using jg assms(8) jc by (simp_all only: option.inject)
  define ck cl :: int where "ck = (if k = 0 \<or> k = 2 then 2 else 1)" and "cl = (if l = 0 \<or> l = 2 then 2 else 1)"
  note r = grid_point_range [OF i(1) assms(1)] grid_point_range [OF j(1) assms(3)]
  have zi: "i = 0 \<Longrightarrow> dx = 0 \<and> dz = 0" and zj: "j = 0 \<Longrightarrow> ex = 0 \<and> ez = 0"
    using i(1) j(1) by (auto simp: grid_point_zero)
  have wx: "wrap_i32 (pos_x p - c) = wrap_i32 (pos_x sp + 3 * dx - c)"
       "wrap_i32 (pos_z p - c) = wrap_i32 (pos_z sp + 3 * dz - c)" 
       "wrap_i32 (pos_x q - c) = wrap_i32 (pos_x sp + 3 * ex - c)" 
       "wrap_i32 (pos_z q - c) = wrap_i32 (pos_z sp + 3 * ez - c)" for c
    unfolding i(2) j(2) using zi zj by (simp_all add: wrap_i32_cong_diff)
  have y: "pos_y p = pos_y sp" "pos_y q = pos_y sp" using i(2) j(2) by simp_all
  have e: "wrap_i32 (pos_x sp + 3 * dx - ck) = wrap_i32 (pos_x sp + 3 * ex - cl)"
    "wrap_i32 (pos_z sp + 3 * dz - 1) = wrap_i32 (pos_z sp + 3 * ez - 1)"
    "(if k \<le> 1 then wrap_i32 (pos_y sp + 1) else pos_y sp) = (if l \<le> 1 then wrap_i32 (pos_y sp + 1) else pos_y sp)"
    using same [unfolded chest_position_form [OF assms(5)] chest_position_form [OF assms(6)]] y
    by (simp_all only: option.inject position.simps wx [symmetric] ck_def cl_def position.ext_inject)
  have c: "1 \<le> ck" "ck \<le> 2" "1 \<le> cl" "cl \<le> 2" by (auto simp: ck_def cl_def)
  have m: "3 * dx - ck = 3 * ex - cl"
    using wrap_i32_eqD [OF e(1)] r c by linarith
  then have "dx = ex" using c by linarith
  with m have x: "dx = ex" "ck = cl" by simp_all
  have "dz = ez" using wrap_i32_eqD [OF e(2)] r by linarith
  then have ij: "i = j" using grid_point_inj [of i "(dx, dz)" j] i(1) j(1) x assms by auto
  have "wrap_i32 (pos_y sp + 1) \<noteq> pos_y sp"
  proof
    assume "wrap_i32 (pos_y sp + 1) = pos_y sp"
    then have "wrap_i32 (pos_y sp + 1) = wrap_i32 (pos_y sp)"
      by (metis wrap_i32_id wrap_i32_range)
    then show False using wrap_i32_eqD [of "pos_y sp + 1" "pos_y sp"] by simp
  qed
  then have "k \<le> 1 \<longleftrightarrow> l \<le> 1" using e(3) by (auto split: if_splits)
  moreover have "k = 0 \<or> k = 1 \<or> k = 2 \<or> k = 3" "l = 0 \<or> l = 1 \<or> l = 2 \<or> l = 3"
    using assms(5,6) valid_index_cases by blast+
  ultimately have "k = l" using x(2) by (auto simp: ck_def cl_def split: if_splits)
  with ij show False using assms(9) by simp
qed

theorem chest_positions_distinct_witness:
  "chest_calc_position \<lparr>pos_x = 0, pos_y = 64, pos_z = -3\<rparr> 3 \<noteq>
   chest_calc_position \<lparr>pos_x = 3, pos_y = 64, pos_z = -3\<rparr> 2"
  by (rule chest_positions_distinct [of 7 8 3 2 "\<lparr>pos_x = 0, pos_y = 64, pos_z = 0\<rparr>"])
    (simp_all add: max_node_id_val valid_index_cases, code_simp+)

section \<open>Loading and saving\<close>

definition chests_placed :: "position \<Rightarrow> chest list \<Rightarrow> bool" where
  "chests_placed npos cs \<longleftrightarrow> (\<forall>c \<in> set cs. chest_calc_position npos (chest_index c) = Some (chest_position c))"

definition reserved_ok :: "i32 \<Rightarrow> chest list \<Rightarrow> bool" where
  "reserved_ok nid cs \<longleftrightarrow>
     (nid = 0 \<longrightarrow> chest_item (cs ! 0) = BASE_CURRENCY_ITEM \<and> chest_item (cs ! 1) = OVERFLOW_CHEST_ITEM)"

definition node_wf :: "position \<Rightarrow> node \<Rightarrow> bool" where
  "node_wf sp n \<longleftrightarrow> 0 \<le> node_id n \<and> node_id n \<le> max_node_id \<and> node_check n = Inr () \<and>
     node_calc_position (node_id n) sp = Some (node_position n) \<and>
     chests_placed (node_position n) (chests n) \<and> reserved_ok (node_id n) (chests n)"

lemma check_invariants_iff:
  "check_invariants c nid k = Inr () \<longleftrightarrow>
     valid_index (chest_index c) \<and> chest_index c = k \<and> chest_node_id c = nid \<and>
     chest_id c = wrap_i32 (wrap_i32 (nid * int CHESTS_PER_NODE) + chest_index c) \<and>
     length (amounts c) = DOUBLE_CHEST_SLOTS \<and>
     (item_is_empty (chest_item c) \<longrightarrow> \<not> list_ex (\<lambda>a. a > 0) (amounts c))"
  by (simp add: check_invariants_def)

lemma check_chests_iff:
  "check_chests nid k cs = Inr () \<longleftrightarrow> (\<forall>j < length cs. check_invariants (cs ! j) nid (k + int j) = Inr ())"
proof (induction cs arbitrary: k)
  case (Cons c cs)
  show ?case
    using Cons.IH [of "k + 1"]
    by (auto simp: All_less_Suc2 ac_simps split: sum.splits)
qed simp

lemma check_chests_index:
  "check_chests nid k cs = Inr () \<Longrightarrow> map chest_index cs = map (\<lambda>j. k + int j) [0..<length cs]"
  by (rule nth_equalityI) (auto simp: check_chests_iff check_invariants_iff)

lemma check_chests_valid: "check_chests nid k cs = Inr () \<Longrightarrow> c \<in> set cs \<Longrightarrow> valid_index (chest_index c)"
  by (auto simp: check_chests_iff check_invariants_iff in_set_conv_nth)

lemma scan_chests_iff:
  "scan_chests cs = Inr () \<longleftrightarrow> (\<forall>c \<in> set cs. valid_index (chest_index c) \<and> length (amounts c) = DOUBLE_CHEST_SLOTS)"
  by (induction cs) auto

lemma chest_calc_position_total: "valid_index k \<Longrightarrow> \<exists>p. chest_calc_position npos k = Some p"
  by (simp add: chest_position_form)

lemma reposition_total:
  "(\<forall>c \<in> set cs. valid_index (chest_index c)) \<Longrightarrow> \<exists>cs'. reposition npos cs = Some cs'"
  by (induction cs) (auto dest!: chest_calc_position_total [of _ npos])

lemma reposition_placed: "reposition npos cs = Some cs' \<Longrightarrow> chests_placed npos cs'"
  by (induction cs arbitrary: cs') (auto simp: chests_placed_def split: option.splits)

lemma reposition_length: "reposition npos cs = Some cs' \<Longrightarrow> length cs' = length cs"
  by (induction cs arbitrary: cs') (auto split: option.splits)

lemma reposition_id: "chests_placed npos cs \<Longrightarrow> reposition npos cs = Some cs"
  by (induction cs) (auto simp: chests_placed_def)

lemma chests_placed_sort [simp]: "chests_placed npos (sort_key f cs) = chests_placed npos cs"
  by (simp add: chests_placed_def)

lemma fix_reserved_ok:
  assumes "fix_reserved k item (cs, b) = Inr (cs', b')" "k < length cs" "item \<noteq> []"
    "check_chests nid 0 cs = Inr ()" "chests_placed npos cs"
  shows "length cs' = length cs \<and> check_chests nid 0 cs' = Inr () \<and> chests_placed npos cs' \<and>
    chest_item (cs' ! k) = item \<and> (\<forall>j. j \<noteq> k \<longrightarrow> cs' ! j = cs ! j)"
proof (cases "chest_item (cs ! k) = item")
  case True
  then show ?thesis using assms by (simp add: fix_reserved_def)
next
  case False
  then have cs': "cs' = cs[k := (cs ! k)\<lparr>chest_item := item\<rparr>]"
    using assms(1,2) by (auto simp: fix_reserved_def split: if_splits)
  have "check_invariants (cs' ! j) nid (int j) = Inr ()" if "j < length cs" for j
    using assms(2-4) that unfolding cs'
    by (cases "j = k") (auto simp: check_chests_iff check_invariants_iff item_is_empty_def)
  moreover have "chests_placed npos cs'"
    using assms(2,5) unfolding cs' chests_placed_def
    by (auto dest!: set_update_subset_insert [THEN subsetD])
  ultimately show ?thesis using assms(2) cs' by (auto simp: check_chests_iff)
qed

lemma base_items_nonempty [simp]: "BASE_CURRENCY_ITEM \<noteq> []" "OVERFLOW_CHEST_ITEM \<noteq> []"
  by (simp_all add: BASE_CURRENCY_ITEM_def OVERFLOW_CHEST_ITEM_def)

lemma fix_node0_ok:
  assumes "fix_node0 cs = Inr (cs', b)" "length cs = CHESTS_PER_NODE"
    "check_chests 0 0 cs = Inr ()" "chests_placed npos cs"
  shows "length cs' = CHESTS_PER_NODE \<and> check_chests 0 0 cs' = Inr () \<and> chests_placed npos cs' \<and> reserved_ok 0 cs'"
proof -
  have l: "0 < length cs" "Suc 0 < length cs" using assms(2) by (simp_all add: consts_defs)
  obtain cs1 b1 where 1: "fix_reserved 0 BASE_CURRENCY_ITEM (cs, False) = Inr (cs1, b1)"
    and 2: "fix_reserved 1 OVERFLOW_CHEST_ITEM (cs1, b1) = Inr (cs', b)"
    using assms(1) by (auto simp: fix_node0_def split: sum.splits)
  note s1 = fix_reserved_ok [OF 1 l(1) base_items_nonempty(1) assms(3,4)]
  note s2 = fix_reserved_ok [OF 2 _ base_items_nonempty(2), of 0 npos]
  show ?thesis using s1 s2 l assms(2) by (auto simp: reserved_ok_def)
qed

lemma node_load_wf_raw:
  assumes "node_load nid sp write_ok f = Some (Inr n, f')" "0 \<le> nid" "nid \<le> max_node_id"
  shows "node_wf sp n \<and> node_id n = nid"
proof -
  obtain m where f: "f = Parsed m" "node_id m = nid" "length (chests m) = CHESTS_PER_NODE"
      "scan_chests (chests m) = Inr ()"
    using assms(1) by (auto simp: node_load_def split: file_state.splits if_splits sum.splits)
  obtain npos cs where np: "node_calc_position nid sp = Some npos" "reposition npos (chests m) = Some cs"
    using assms(1) f by (auto simp: node_load_def split: option.splits)
  define ss where "ss = sort_key chest_index cs"
  have ck: "check_chests nid 0 ss = Inr ()"
    using assms(1) f np by (auto simp: node_load_def ss_def Let_def split: sum.splits)
  have ss: "chests_placed npos ss" "length ss = CHESTS_PER_NODE"
    using reposition_placed [OF np(2)] reposition_length [OF np(2)] f(3) by (simp_all add: ss_def)
  show ?thesis
  proof (cases "nid = 0")
    case True
    then obtain cs' b where r: "fix_node0 ss = Inr (cs', b)" 
      and n: "n = \<lparr>node_id = nid, node_position = npos, chests = cs'\<rparr>"
      using assms(1) f np ck by (auto simp: node_load_def ss_def Let_def split: sum.splits prod.splits)
    from fix_node0_ok [OF r ss(2) _ ss(1)] ck True n np assms show ?thesis
      by (simp add: node_wf_def node_check_def)
  next
    case False
    then have n: "n = \<lparr>node_id = nid, node_position = npos, chests = ss\<rparr>"
      using assms(1) f np ck by (auto simp: node_load_def ss_def Let_def)
    then show ?thesis using ck ss False np assms by (simp add: node_wf_def node_check_def reserved_ok_def)
  qed
qed

text \<open>Whatever file is on disk, a node that \<open>Node::load\<close> returns satisfies every invariant of
  a node: four chests in index order whose redundant ids agree, 54 slots each, positions computed
  from the current storage origin, and the reserved items on node 0.\<close>

theorem node_load_wf:
  assumes "node_load nid sp write_ok f = Some (Inr n, f')" "0 \<le> nid" "nid \<le> max_node_id"
  shows "node_wf sp n \<and> node_id n = nid"
  using assms by (rule node_load_wf_raw)

lemma node_load_total:
  assumes "0 \<le> nid" "nid \<le> max_node_id"
  shows "node_load nid sp write_ok f \<noteq> None"
proof -
  obtain dx dz npos where np: "node_calc_position nid sp = Some npos"
    using node_position_grid [OF assms, of sp] by metis
  have r: "\<exists>cs'. reposition npos cs = Some cs'" if "scan_chests cs = Inr ()" for cs
    using reposition_total [of cs npos] that by (auto simp: scan_chests_iff)
  show ?thesis
    using np by (auto simp: node_load_def Let_def split: file_state.splits sum.splits option.splits dest!: r)
qed

text \<open>Loading a node never panics, whatever the file holds: for an id the storage accepts,
  every corruption is reported as an error value.\<close>

theorem node_load_no_panic:
  assumes "0 \<le> nid" "nid \<le> max_node_id"
  shows "node_load nid sp write_ok f \<noteq> None"
  using assms by (rule node_load_total)

lemma sort_key_sorted: "sorted (map f xs) \<Longrightarrow> sort_key f xs = xs"
  by (induction xs) (auto simp: insort_is_Cons)

lemma check_chests_sorted: "check_chests nid k cs = Inr () \<Longrightarrow> sort_key chest_index cs = cs"
  by (rule sort_key_sorted) (simp add: check_chests_index sorted_iff_nth_mono)

lemma fix_node0_id: "reserved_ok 0 cs \<Longrightarrow> fix_node0 cs = Inr (cs, False)"
  by (simp add: fix_node0_def fix_reserved_def reserved_ok_def)

lemma check_chests_scan: "check_chests nid k cs = Inr () \<Longrightarrow> scan_chests cs = Inr ()"
  by (auto simp: check_chests_iff check_invariants_iff scan_chests_iff in_set_conv_nth)

text \<open>A well-formed node survives a save and a load unchanged, and the load does not rewrite
  the file.\<close>

theorem node_save_load:
  assumes "node_wf sp n"
  shows "node_save True n f = (Inr (), Parsed n) \<and>
    node_load (node_id n) sp write_ok (Parsed n) = Some (Inr n, Parsed n)"
proof
  from assms have c: "length (chests n) = CHESTS_PER_NODE" "check_chests (node_id n) 0 (chests n) = Inr ()"
    by (auto simp: node_wf_def node_check_def split: if_splits)
  from assms show "node_save True n f = (Inr (), Parsed n)" by (simp add: node_save_def node_wf_def)
  show "node_load (node_id n) sp write_ok (Parsed n) = Some (Inr n, Parsed n)"
    using assms c check_chests_scan [OF c(2)] check_chests_sorted [OF c(2)]
    by (auto simp: node_load_def node_wf_def reposition_id fix_node0_id Let_def)
qed

lemma chest_new_ok:
  assumes "valid_index k"
  shows "\<exists>c. chest_new nid npos k = Some c \<and> check_invariants c nid k = Inr () \<and>
     chest_calc_position npos k = Some (chest_position c) \<and> chest_index c = k \<and>
     chest_item c = item_EMPTY \<and> amounts c = replicate DOUBLE_CHEST_SLOTS 0"
  using assms chest_calc_position_total [OF assms, of npos]
  by (auto simp: chest_new_def check_invariants_iff list_ex_iff)

definition fresh_chest :: "i32 \<Rightarrow> position \<Rightarrow> i32 \<Rightarrow> chest \<Rightarrow> bool" where
  "fresh_chest nid npos k c \<longleftrightarrow> check_invariants c nid k = Inr () \<and>
     chest_calc_position npos (chest_index c) = Some (chest_position c) \<and>
     amounts c = replicate DOUBLE_CHEST_SLOTS 0 \<and>
     chest_item c = (if nid = 0 \<and> k = 0 then BASE_CURRENCY_ITEM
       else if nid = 0 \<and> k = 1 then OVERFLOW_CHEST_ITEM else item_EMPTY)"

lemma new_chests_ok:
  "\<forall>k \<in> set ks. valid_index k \<Longrightarrow>
     \<exists>cs. new_chests nid npos ks = Some cs \<and> list_all2 (fresh_chest nid npos) ks cs"
proof (induction ks)
  case (Cons k ks)
  then obtain cs where cs: "new_chests nid npos ks = Some cs" "list_all2 (fresh_chest nid npos) ks cs"
    by auto
  obtain c where c: "chest_new nid npos k = Some c" "check_invariants c nid k = Inr ()"
     "chest_calc_position npos k = Some (chest_position c)" "chest_index c = k"
     "chest_item c = item_EMPTY" "amounts c = replicate DOUBLE_CHEST_SLOTS 0"
    using chest_new_ok [of k nid npos] Cons.prems by auto
  define c' where "c' = (if nid = 0 then
      (if k = 0 then c\<lparr>chest_item := BASE_CURRENCY_ITEM\<rparr>
       else if k = 1 then c\<lparr>chest_item := OVERFLOW_CHEST_ITEM\<rparr> else c) else c)"
  have "fresh_chest nid npos k c'"
    using c by (auto simp: c'_def fresh_chest_def check_invariants_iff list_ex_iff)
  moreover have "new_chests nid npos (k # ks) = Some (c' # cs)"
    using c(1) cs(1) by (simp add: c'_def Let_def)
  ultimately show ?case using cs(2) by simp
qed simp

lemma node_new_fresh:
  assumes "0 \<le> nid" "nid \<le> max_node_id"
  obtains npos cs where "node_calc_position nid sp = Some npos"
    "node_new nid sp = Some \<lparr>node_id = nid, node_position = npos, chests = cs\<rparr>"
    "length cs = CHESTS_PER_NODE" "\<And>j. j < CHESTS_PER_NODE \<Longrightarrow> fresh_chest nid npos (int j) (cs ! j)"
proof -
  obtain dx dz npos where np: "node_calc_position nid sp = Some npos"
    using node_position_grid [OF assms, of sp] by metis
  let ?ks = "map int [0..<CHESTS_PER_NODE]"
  have "\<forall>k \<in> set ?ks. valid_index k" by (auto simp: valid_index_def)
  then obtain cs where cs: "new_chests nid npos ?ks = Some cs" "list_all2 (fresh_chest nid npos) ?ks cs"
    using new_chests_ok by blast
  show thesis
    by (rule that [OF np, of cs]) (use cs np in \<open>auto simp: node_new_def list_all2_conv_all_nth\<close>)
qed

text \<open>\<open>Node::new\<close> succeeds for every id the storage uses, on any origin, and gives a
  well-formed empty node.\<close>

theorem node_new_wf:
  assumes "0 \<le> nid" "nid \<le> max_node_id"
  shows "\<exists>n. node_new nid sp = Some n \<and> node_wf sp n \<and> node_id n = nid \<and>
    (\<forall>c \<in> set (chests n). amounts c = replicate DOUBLE_CHEST_SLOTS 0)"
proof -
  obtain npos cs where n: "node_calc_position nid sp = Some npos"
    "node_new nid sp = Some \<lparr>node_id = nid, node_position = npos, chests = cs\<rparr>"
    "length cs = CHESTS_PER_NODE" and f: "\<And>j. j < CHESTS_PER_NODE \<Longrightarrow> fresh_chest nid npos (int j) (cs ! j)"
    by (rule node_new_fresh [OF assms, of sp]) blast
  have r: "reserved_ok nid cs"
    using f [of 0] f [of 1] by (auto simp: reserved_ok_def fresh_chest_def CHESTS_PER_NODE_def)
  have "node_wf sp \<lparr>node_id = nid, node_position = npos, chests = cs\<rparr>"
    using f n r assms
    by (auto simp: node_wf_def node_check_def check_chests_iff chests_placed_def in_set_conv_nth fresh_chest_def)
  moreover have "\<forall>c \<in> set cs. amounts c = replicate DOUBLE_CHEST_SLOTS 0"
    using f n by (auto simp: in_set_conv_nth fresh_chest_def)
  ultimately show ?thesis using n(2) by simp
qed

text \<open>A stored node 0 whose chests are out of order, with stale positions and a wrong item in an
  empty overflow chest.\<close>

definition sample_chest :: "i32 \<Rightarrow> item_id \<Rightarrow> i32 \<Rightarrow> chest" where
  "sample_chest k item a = \<lparr>chest_id = k, chest_node_id = 0, chest_index = k,
     chest_position = \<lparr>pos_x = 0, pos_y = 0, pos_z = 0\<rparr>, chest_item = item,
     amounts = a # replicate 53 0\<rparr>"

definition sample_node :: node where
  "sample_node = \<lparr>node_id = 0, node_position = \<lparr>pos_x = 0, pos_y = 0, pos_z = 0\<rparr>,
     chests = [sample_chest 3 ''iron'' 7, sample_chest 1 ''dirt'' 0, sample_chest 2 [] 0,
       sample_chest 0 ''diamond'' 64]\<rparr>"

definition sample_origin :: position where
  "sample_origin = \<lparr>pos_x = 100, pos_y = 64, pos_z = -20\<rparr>"

definition sample_loaded :: node where
  "sample_loaded = (case node_load 0 sample_origin True (Parsed sample_node) of
     Some (Inr n, _) \<Rightarrow> n | _ \<Rightarrow> sample_node)"

lemma sample_load: "node_load 0 sample_origin True (Parsed sample_node) = Some (Inr sample_loaded, Parsed sample_loaded)"
  by code_simp

theorem node_load_wf_witness: "node_wf sample_origin sample_loaded \<and> node_id sample_loaded = 0"
  by (rule node_load_wf [OF sample_load]) (simp_all add: max_node_id_val)

theorem node_load_no_panic_witness:
  "node_load 0 sample_origin True (Parsed (sample_node\<lparr>chests := []\<rparr>)) \<noteq> None"
  by (rule node_load_no_panic) (simp_all add: max_node_id_val)

theorem node_save_load_witness:
  "node_save True sample_loaded Absent = (Inr (), Parsed sample_loaded) \<and>
   node_load (node_id sample_loaded) sample_origin False (Parsed sample_loaded) =
     Some (Inr sample_loaded, Parsed sample_loaded)"
  by (rule node_save_load) code_simp

theorem node_new_wf_witness:
  "\<exists>n. node_new 12 sample_origin = Some n \<and> node_wf sample_origin n \<and> node_id n = 12 \<and>
    (\<forall>c \<in> set (chests n). amounts c = replicate DOUBLE_CHEST_SLOTS 0)"
  by (rule node_new_wf) (simp_all add: max_node_id_val)

end
