(* ===== verification/Storage.thy ===== *)
theory Storage
  imports Node
begin

text \<open>
  The storage of \<^verbatim>\<open>src/types/storage.rs\<close>: loading, node allocation, the read-only planners the
  store uses (\<open>simulate_withdraw_plan\<close>, \<open>simulate_deposit_plan\<close>) and the mutating planners
  (\<open>withdraw_plan\<close>, \<open>deposit_plan\<close>). A loop over nodes, chests and slots is a recursion over the
  lists, carrying the loop's variables. A quantity only decreases towards zero and a
  slot only changes between zero and the shulker capacity, so these updates stay in range; the
  capacity itself and the total are computed with wrapping.
\<close>

record chest_transfer =
  tr_chest_id :: i32
  tr_position :: position
  tr_item :: item_id
  tr_amount :: i32

record storage =
  st_position :: position
  nodes :: "node list"

type_synonym plan = "chest_transfer list"

definition SLOTS_PER_CHEST :: nat where
  "SLOTS_PER_CHEST = DOUBLE_CHEST_SLOTS"

definition shulker_capacity_for_stack_size :: "i32 \<Rightarrow> i32" where
  "shulker_capacity_for_stack_size stack_size = wrap_i32 (int SHULKER_BOX_SLOTS * stack_size)"

definition storage_new :: "position \<Rightarrow> storage" where
  "storage_new sp = \<lparr>st_position = sp, nodes = []\<rparr>"

definition transfer :: "chest \<Rightarrow> item_id \<Rightarrow> i32 \<Rightarrow> chest_transfer" where
  "transfer c item a = \<lparr>tr_chest_id = chest_id c, tr_position = chest_position c, tr_item = item, tr_amount = a\<rparr>"

definition all_chests :: "storage \<Rightarrow> chest list" where
  "all_chests st = concat (map chests (nodes st))"

section \<open>Queries\<close>

definition total_item_amount :: "storage \<Rightarrow> item_id \<Rightarrow> i32" where
  "total_item_amount st item =
     wrap_i32 (sum_list (filter (\<lambda>a. a > 0)
       (concat (map amounts (filter (\<lambda>c. chest_item c = item) (all_chests st))))))"

definition get_chest :: "storage \<Rightarrow> i32 \<Rightarrow> chest option" where
  "get_chest st k = find (\<lambda>c. chest_id c = k) (all_chests st)"

text \<open>The effect of a write through \<open>get_chest_mut\<close>: the first chest with the id is replaced.\<close>

fun update_first :: "('a \<Rightarrow> bool) \<Rightarrow> ('a \<Rightarrow> 'a) \<Rightarrow> 'a list \<Rightarrow> 'a list" where
  "update_first p f [] = []"
| "update_first p f (x # xs) = (if p x then f x # xs else x # update_first p f xs)"

definition get_chest_mut :: "storage \<Rightarrow> i32 \<Rightarrow> (chest \<Rightarrow> chest) \<Rightarrow> storage" where
  "get_chest_mut st k f =
     st\<lparr>nodes := update_first (\<lambda>n. list_ex (\<lambda>c. chest_id c = k) (chests n))
        (\<lambda>n. n\<lparr>chests := update_first (\<lambda>c. chest_id c = k) f (chests n)\<rparr>) (nodes st)\<rparr>"

definition is_reserved_chest_blocked_for :: "item_id \<Rightarrow> nat \<Rightarrow> nat \<Rightarrow> bool" where
  "is_reserved_chest_blocked_for item node_idx chest_idx =
     (if node_idx \<noteq> 0 then False
      else if chest_idx = nat DIAMOND_CHEST_ID then item \<noteq> ''diamond''
      else if chest_idx = nat OVERFLOW_CHEST_ID then item \<noteq> OVERFLOW_CHEST_ITEM
      else False)"

definition get_overflow_chest :: "storage \<Rightarrow> chest option" where
  "get_overflow_chest st =
     (case nodes st of [] \<Rightarrow> None
      | n # _ \<Rightarrow> if nat OVERFLOW_CHEST_ID < length (chests n)
                 then Some (chests n ! nat OVERFLOW_CHEST_ID) else None)"

section \<open>Growth\<close>

text \<open>The smallest unused id, searched upwards from a candidate.\<close>

function lowest_unused :: "i32 list \<Rightarrow> i32 \<Rightarrow> i32" where
  "lowest_unused ids k = (if k \<in> set ids then lowest_unused ids (k + 1) else k)"
  by pat_completeness auto
termination
proof (relation "measure (\<lambda>(ids, k). card {j \<in> set ids. k \<le> j})")
  fix ids :: "i32 list" and k :: i32
  assume "k \<in> set ids"
  then have "{j \<in> set ids. k + 1 \<le> j} \<subset> {j \<in> set ids. k \<le> j}"
    unfolding psubset_eq set_eq_iff by (intro conjI notI) (auto dest: spec [of _ k])
  then show "((ids, k + 1), (ids, k)) \<in> measure (\<lambda>(ids, k). card {j \<in> set ids. k \<le> j})"
    by (simp add: psubset_card_mono)
qed simp

declare lowest_unused.simps [simp del]

definition add_node :: "storage \<Rightarrow> storage option" where
  "add_node st =
     map_option (\<lambda>n. st\<lparr>nodes := nodes st @ [n]\<rparr>)
       (node_new (lowest_unused (map node_id (nodes st)) 0) (st_position st))"

section \<open>Withdrawal\<close>

fun sim_take_slots :: "i32 list \<Rightarrow> i32 \<Rightarrow> i32 \<Rightarrow> i32 \<times> i32" where
  "sim_take_slots [] remaining taken = (remaining, taken)"
| "sim_take_slots (available # xs) remaining taken =
     (if remaining \<le> 0 then (remaining, taken)
      else if available \<le> 0 then sim_take_slots xs remaining taken
      else (let t = min available remaining in sim_take_slots xs (remaining - t) (taken + t)))"

fun sim_withdraw_chests :: "item_id \<Rightarrow> chest list \<Rightarrow> i32 \<Rightarrow> plan \<Rightarrow> i32 \<times> plan" where
  "sim_withdraw_chests item [] remaining plan = (remaining, plan)"
| "sim_withdraw_chests item (c # cs) remaining plan =
     (if remaining \<le> 0 then (remaining, plan)
      else if chest_item c \<noteq> item then sim_withdraw_chests item cs remaining plan
      else (let (remaining', taken) = sim_take_slots (amounts c) remaining 0 in
            sim_withdraw_chests item cs remaining'
              (if taken > 0 then plan @ [transfer c item taken] else plan)))"

fun sim_withdraw_nodes :: "item_id \<Rightarrow> node list \<Rightarrow> i32 \<Rightarrow> plan \<Rightarrow> i32 \<times> plan" where
  "sim_withdraw_nodes item [] remaining plan = (remaining, plan)"
| "sim_withdraw_nodes item (n # ns) remaining plan =
     (if remaining \<le> 0 then (remaining, plan)
      else (let (remaining', plan') = sim_withdraw_chests item (chests n) remaining plan in
            sim_withdraw_nodes item ns remaining' plan'))"

definition simulate_withdraw_plan :: "storage \<Rightarrow> item_id \<Rightarrow> i32 \<Rightarrow> plan \<times> i32" where
  "simulate_withdraw_plan st item qty =
     (if qty \<le> 0 \<or> item = [] then ([], 0)
      else (let (remaining, plan) = sim_withdraw_nodes item (nodes st) qty [] in (plan, qty - remaining)))"

definition normalize_amounts_len :: "chest \<Rightarrow> chest" where
  "normalize_amounts_len c =
     (if length (amounts c) \<noteq> SLOTS_PER_CHEST
      then c\<lparr>amounts := take SLOTS_PER_CHEST (amounts c @ replicate SLOTS_PER_CHEST 0)\<rparr> else c)"

fun take_slots :: "i32 list \<Rightarrow> i32 \<Rightarrow> i32 \<Rightarrow> i32 list \<times> i32 \<times> i32" where
  "take_slots [] qty taken = ([], qty, taken)"
| "take_slots (available # xs) qty taken =
     (if qty \<le> 0 then (available # xs, qty, taken)
      else if available \<le> 0
        then (case take_slots xs qty taken of (ys, r) \<Rightarrow> (available # ys, r))
      else (let t = min available qty in
            case take_slots xs (qty - t) (taken + t) of (ys, r) \<Rightarrow> ((available - t) # ys, r)))"

fun withdraw_chests :: "item_id \<Rightarrow> chest list \<Rightarrow> i32 \<Rightarrow> plan \<Rightarrow> chest list \<times> i32 \<times> plan" where
  "withdraw_chests item [] qty plan = ([], qty, plan)"
| "withdraw_chests item (c # cs) qty plan =
     (if qty \<le> 0 then (c # cs, qty, plan)
      else if chest_item c \<noteq> item
        then (case withdraw_chests item cs qty plan of (cs', r) \<Rightarrow> (c # cs', r))
      else (let c1 = normalize_amounts_len c;
                (xs, qty', taken) = take_slots (amounts c1) qty 0;
                c2 = c1\<lparr>amounts := xs\<rparr>;
                plan' = (if taken > 0 then plan @ [transfer c2 item taken] else plan)
            in case withdraw_chests item cs qty' plan' of (cs', r) \<Rightarrow> (c2 # cs', r)))"

fun withdraw_nodes :: "item_id \<Rightarrow> node list \<Rightarrow> i32 \<Rightarrow> plan \<Rightarrow> node list \<times> i32 \<times> plan" where
  "withdraw_nodes item [] qty plan = ([], qty, plan)"
| "withdraw_nodes item (n # ns) qty plan =
     (let (cs, qty', plan') = withdraw_chests item (chests n) qty plan in
      case withdraw_nodes item ns qty' plan' of (ns', r) \<Rightarrow> (n\<lparr>chests := cs\<rparr> # ns', r))"

definition withdraw_plan :: "storage \<Rightarrow> item_id \<Rightarrow> i32 \<Rightarrow> storage \<times> plan" where
  "withdraw_plan st item qty =
     (if qty \<le> 0 \<or> item = [] then (st, [])
      else (let (ns, _, plan) = withdraw_nodes item (nodes st) qty [] in (st\<lparr>nodes := ns\<rparr>, plan)))"

section \<open>Deposit: the read-only planner\<close>

definition record_transfer :: "plan \<Rightarrow> chest \<Rightarrow> item_id \<Rightarrow> i32 \<Rightarrow> plan" where
  "record_transfer plan c item amt =
     (if amt \<le> 0 then plan
      else if plan \<noteq> [] \<and> tr_chest_id (last plan) = chest_id c
        then butlast plan @ [(last plan)\<lparr>tr_amount := wrap_i32 (tr_amount (last plan) + amt)\<rparr>]
      else plan @ [transfer c item amt])"

fun sim_fill_slots :: "i32 \<Rightarrow> item_id \<Rightarrow> chest \<Rightarrow> i32 list \<Rightarrow> i32 \<Rightarrow> plan \<Rightarrow> i32 \<times> plan" where
  "sim_fill_slots cap item c [] remaining plan = (remaining, plan)"
| "sim_fill_slots cap item c (current # xs) remaining plan =
     (if remaining \<le> 0 then (remaining, plan)
      else if current < 0 \<or> current \<ge> cap then sim_fill_slots cap item c xs remaining plan
      else (let add = min (cap - current) remaining in
            sim_fill_slots cap item c xs (remaining - add) (record_transfer plan c item add)))"

fun sim_fill_chests :: "i32 \<Rightarrow> item_id \<Rightarrow> nat \<Rightarrow> nat \<Rightarrow> chest list \<Rightarrow> i32 \<Rightarrow> plan \<Rightarrow> i32 \<times> plan" where
  "sim_fill_chests cap item ni ci [] remaining plan = (remaining, plan)"
| "sim_fill_chests cap item ni ci (c # cs) remaining plan =
     (if remaining \<le> 0 then (remaining, plan)
      else if is_reserved_chest_blocked_for item ni ci \<or> chest_item c \<noteq> item
        then sim_fill_chests cap item ni (Suc ci) cs remaining plan
      else (let (remaining', plan') = sim_fill_slots cap item c (amounts c) remaining plan in
            sim_fill_chests cap item ni (Suc ci) cs remaining' plan'))"

fun sim_fill_nodes :: "i32 \<Rightarrow> item_id \<Rightarrow> nat \<Rightarrow> node list \<Rightarrow> i32 \<Rightarrow> plan \<Rightarrow> i32 \<times> plan" where
  "sim_fill_nodes cap item ni [] remaining plan = (remaining, plan)"
| "sim_fill_nodes cap item ni (n # ns) remaining plan =
     (if remaining \<le> 0 then (remaining, plan)
      else (let (remaining', plan') = sim_fill_chests cap item ni 0 (chests n) remaining plan in
            sim_fill_nodes cap item (Suc ni) ns remaining' plan'))"

text \<open>The state of the second phase: the remaining quantity, the plan and the claimed chest ids.\<close>

type_synonym claim_state = "i32 \<times> plan \<times> i32 list"

definition try_claim :: "i32 \<Rightarrow> item_id \<Rightarrow> chest \<Rightarrow> claim_state \<Rightarrow> claim_state" where
  "try_claim empty_chest_capacity item c = (\<lambda>(remaining, plan, claimed).
     if remaining \<le> 0 \<or> \<not> item_is_empty (chest_item c) \<or> chest_id c \<in> set claimed
       then (remaining, plan, claimed)
     else (let add = min empty_chest_capacity remaining in
           (remaining - add, record_transfer plan c item add, chest_id c # claimed)))"

fun claim_chests :: "i32 \<Rightarrow> item_id \<Rightarrow> chest list \<Rightarrow> claim_state \<Rightarrow> claim_state" where
  "claim_chests ecap item [] s = s"
| "claim_chests ecap item (c # cs) s =
     (if fst s \<le> 0 then s else claim_chests ecap item cs (try_claim ecap item c s))"

definition claim_at :: "i32 \<Rightarrow> item_id \<Rightarrow> chest list \<Rightarrow> nat \<Rightarrow> claim_state \<Rightarrow> claim_state" where
  "claim_at ecap item cs k s = (if k < length cs then try_claim ecap item (cs ! k) s else s)"

fun claim_nodes :: "i32 \<Rightarrow> item_id \<Rightarrow> node list \<Rightarrow> claim_state \<Rightarrow> claim_state" where
  "claim_nodes ecap item [] s = s"
| "claim_nodes ecap item (n # ns) s =
     (if fst s \<le> 0 then s else claim_nodes ecap item ns (claim_chests ecap item (chests n) s))"

definition claim_node_0 :: "i32 \<Rightarrow> item_id \<Rightarrow> node list \<Rightarrow> claim_state \<Rightarrow> claim_state" where
  "claim_node_0 ecap item ns s =
     (if fst s > 0 \<and> ns \<noteq> [] then
        (let cs = chests (hd ns);
             s1 = (if item = ''diamond'' then claim_at ecap item cs (nat DIAMOND_CHEST_ID) s else s);
             s2 = (if item = OVERFLOW_CHEST_ITEM then claim_at ecap item cs (nat OVERFLOW_CHEST_ID) s1 else s1)
         in claim_chests ecap item (drop 2 cs) s2)
      else s)"

definition simulate_deposit_plan :: "storage \<Rightarrow> item_id \<Rightarrow> i32 \<Rightarrow> i32 \<Rightarrow> plan \<times> i32" where
  "simulate_deposit_plan st item qty stack_size =
     (if qty \<le> 0 \<or> item = [] then ([], 0)
      else (let cap = shulker_capacity_for_stack_size stack_size;
                (remaining, plan) = sim_fill_nodes cap item 0 (nodes st) qty [];
                ecap = wrap_i32 (int SLOTS_PER_CHEST * cap);
                s1 = claim_node_0 ecap item (nodes st) (remaining, plan, []);
                s2 = claim_nodes ecap item (drop 1 (nodes st)) s1
            in (fst (snd s2), qty - fst s2)))"

section \<open>Deposit: the mutating planner\<close>

fun fill_slots :: "i32 \<Rightarrow> i32 list \<Rightarrow> i32 \<Rightarrow> i32 \<Rightarrow> i32 list \<times> i32 \<times> i32" where
  "fill_slots cap [] qty deposited = ([], qty, deposited)"
| "fill_slots cap (current # xs) qty deposited =
     (if qty \<le> 0 then (current # xs, qty, deposited)
      else if current < 0 \<or> current \<ge> cap
        then (case fill_slots cap xs qty deposited of (ys, r) \<Rightarrow> (current # ys, r))
      else (let add = min (cap - current) qty in
            case fill_slots cap xs (qty - add) (deposited + add) of (ys, r) \<Rightarrow> ((current + add) # ys, r)))"

definition deposit_into_chest :: "chest \<Rightarrow> i32 \<Rightarrow> i32 \<Rightarrow> chest \<times> i32 \<times> i32" where
  "deposit_into_chest c qty stack_size =
     (if qty \<le> 0 then (c, qty, 0)
      else (let c1 = normalize_amounts_len c;
                (xs, qty', deposited) = fill_slots (shulker_capacity_for_stack_size stack_size) (amounts c1) qty 0
            in (c1\<lparr>amounts := xs\<rparr>, qty', deposited)))"

fun fill_chests :: "i32 \<Rightarrow> item_id \<Rightarrow> nat \<Rightarrow> nat \<Rightarrow> chest list \<Rightarrow> i32 \<Rightarrow> plan \<Rightarrow> chest list \<times> i32 \<times> plan" where
  "fill_chests stack_size item ni ci [] qty plan = ([], qty, plan)"
| "fill_chests stack_size item ni ci (c # cs) qty plan =
     (if qty \<le> 0 then (c # cs, qty, plan)
      else if is_reserved_chest_blocked_for item ni ci \<or> chest_item c \<noteq> item
        then (case fill_chests stack_size item ni (Suc ci) cs qty plan of (cs', r) \<Rightarrow> (c # cs', r))
      else (let (c', qty', deposited) = deposit_into_chest c qty stack_size;
                plan' = (if deposited > 0 then plan @ [transfer c' item deposited] else plan)
            in case fill_chests stack_size item ni (Suc ci) cs qty' plan' of (cs', r) \<Rightarrow> (c' # cs', r)))"

fun fill_nodes :: "i32 \<Rightarrow> item_id \<Rightarrow> nat \<Rightarrow> node list \<Rightarrow> i32 \<Rightarrow> plan \<Rightarrow> node list \<times> i32 \<times> plan" where
  "fill_nodes stack_size item ni [] qty plan = ([], qty, plan)"
| "fill_nodes stack_size item ni (n # ns) qty plan =
     (let (cs, qty', plan') = fill_chests stack_size item ni 0 (chests n) qty plan in
      case fill_nodes stack_size item (Suc ni) ns qty' plan' of (ns', r) \<Rightarrow> (n\<lparr>chests := cs\<rparr> # ns', r))"

fun first_empty :: "nat \<Rightarrow> chest list \<Rightarrow> nat option" where
  "first_empty k [] = None"
| "first_empty k (c # cs) = (if item_is_empty (chest_item c) then Some k else first_empty (Suc k) cs)"

fun first_empty_node :: "nat \<Rightarrow> node list \<Rightarrow> (nat \<times> nat) option" where
  "first_empty_node ni [] = None"
| "first_empty_node ni (n # ns) =
     (case first_empty 0 (chests n) of Some ci \<Rightarrow> Some (ni, ci) | None \<Rightarrow> first_empty_node (Suc ni) ns)"

definition empty_at :: "chest list \<Rightarrow> nat \<Rightarrow> bool" where
  "empty_at cs k \<longleftrightarrow> k < length cs \<and> item_is_empty (chest_item (cs ! k))"

definition find_empty_chest_index :: "node list \<Rightarrow> item_id \<Rightarrow> (nat \<times> nat) option" where
  "find_empty_chest_index ns item =
     (case ns of
        [] \<Rightarrow> None
      | n # rest \<Rightarrow>
          if item = ''diamond'' \<and> empty_at (chests n) (nat DIAMOND_CHEST_ID) then Some (0, nat DIAMOND_CHEST_ID)
          else if item = OVERFLOW_CHEST_ITEM \<and> empty_at (chests n) (nat OVERFLOW_CHEST_ID)
            then Some (0, nat OVERFLOW_CHEST_ID)
          else case first_empty 2 (drop 2 (chests n)) of
            Some ci \<Rightarrow> Some (0, ci)
          | None \<Rightarrow> first_empty_node 1 rest)"

definition set_chest :: "node list \<Rightarrow> nat \<Rightarrow> nat \<Rightarrow> chest \<Rightarrow> node list" where
  "set_chest ns ni ci c = ns[ni := (ns ! ni)\<lparr>chests := (chests (ns ! ni))[ci := c]\<rparr>]"

text \<open>One round of the second phase: claim an empty chest, growing the storage by a node if
  there is none, and fill it. \<open>None\<close> is the failing \<open>expect\<close>.\<close>

definition claim_round :: "item_id \<Rightarrow> i32 \<Rightarrow> storage \<Rightarrow> i32 \<Rightarrow> plan \<Rightarrow> (storage \<times> i32 \<times> plan) option" where
  "claim_round item stack_size st qty plan =
     (case (case find_empty_chest_index (nodes st) item of
              Some ix \<Rightarrow> Some (st, ix)
            | None \<Rightarrow>
                (case add_node st of
                   None \<Rightarrow> None
                 | Some st' \<Rightarrow> map_option (Pair st') (find_empty_chest_index (nodes st') item))) of
        None \<Rightarrow> None
      | Some (st1, ni, ci) \<Rightarrow>
          (let c = (chests (nodes st1 ! ni) ! ci)\<lparr>chest_item := item\<rparr>;
               (c', qty', deposited) = deposit_into_chest c qty stack_size
           in Some (st1\<lparr>nodes := set_chest (nodes st1) ni ci c'\<rparr>, qty',
                    if deposited > 0 then plan @ [transfer c' item deposited] else plan)))"

partial_function (option) claim_loop :: "item_id \<Rightarrow> i32 \<Rightarrow> storage \<Rightarrow> i32 \<Rightarrow> plan \<Rightarrow> (storage \<times> plan) option" where
  "claim_loop item stack_size st qty plan =
     (if qty > 0 then
        (case claim_round item stack_size st qty plan of
           None \<Rightarrow> None
         | Some (st', qty', plan') \<Rightarrow> claim_loop item stack_size st' qty' plan')
      else Some (st, plan))"

declare claim_loop.simps [code]

definition deposit_plan :: "storage \<Rightarrow> item_id \<Rightarrow> i32 \<Rightarrow> i32 \<Rightarrow> (storage \<times> plan) option" where
  "deposit_plan st item qty stack_size =
     (if qty \<le> 0 \<or> item = [] then Some (st, [])
      else (let (ns, qty', plan) = fill_nodes stack_size item 0 (nodes st) qty [] in
            claim_loop item stack_size (st\<lparr>nodes := ns\<rparr>) qty' plan))"

section \<open>Loading\<close>

text \<open>\<open>str::parse::<i32>\<close>: an optional sign and at least one digit, in range.\<close>

fun parse_digits :: "string \<Rightarrow> nat \<Rightarrow> nat option" where
  "parse_digits [] n = Some n"
| "parse_digits (c # cs) n =
     (if is_ascii_digit c then parse_digits cs (10 * n + (code c - 48)) else None)"

definition parse_i32 :: "string \<Rightarrow> i32 option" where
  "parse_i32 s =
     (let (neg, ds) = (case s of [] \<Rightarrow> (False, [])
            | c # cs \<Rightarrow> if c = CHR ''-'' then (True, cs) else if c = CHR ''+'' then (False, cs) else (False, s))
      in if ds = [] then None
         else case parse_digits ds 0 of
           None \<Rightarrow> None
         | Some n \<Rightarrow> (let v = (if neg then - int n else int n) in if in_i32 v then Some v else None))"

text \<open>A directory entry: unreadable, something other than a \<open>.json\<close> file, or a \<open>.json\<close> file
  with its stem. The directory also maps each node id to the state of \<open>{id}.json\<close>.\<close>

datatype dir_entry = EntryError | OtherEntry | JsonFile string

datatype dir_state = DirMissing bool | DirUnreadable | DirEntries "dir_entry list"

text \<open>What loading has produced so far: the nodes and the stems of the files it moved aside.\<close>

definition load_entry ::
  "position \<Rightarrow> bool \<Rightarrow> (i32 \<Rightarrow> node file_state) \<Rightarrow> dir_entry \<Rightarrow> node list \<times> string list \<Rightarrow>
     (node list \<times> string list) option" where
  "load_entry sp write_ok files e = (\<lambda>(ns, quarantined).
     (case e of
        EntryError \<Rightarrow> Some (ns, quarantined)
      | OtherEntry \<Rightarrow> Some (ns, quarantined)
      | JsonFile stem \<Rightarrow>
          (case parse_i32 stem of
             None \<Rightarrow> Some (ns, quarantined)
           | Some i \<Rightarrow>
               if 0 \<le> i \<and> i \<le> max_node_id then
                 (case node_load i sp write_ok (files i) of
                    None \<Rightarrow> None
                  | Some (Inl _, _) \<Rightarrow> Some (ns, quarantined @ [stem])
                  | Some (Inr n, _) \<Rightarrow> Some (ns @ [n], quarantined))
               else Some (ns, quarantined))))"

fun load_entries ::
  "position \<Rightarrow> bool \<Rightarrow> (i32 \<Rightarrow> node file_state) \<Rightarrow> dir_entry list \<Rightarrow> node list \<times> string list \<Rightarrow>
     (node list \<times> string list) option" where
  "load_entries sp write_ok files [] r = Some r"
| "load_entries sp write_ok files (e # es) r =
     (case load_entry sp write_ok files e r of
        None \<Rightarrow> None | Some r' \<Rightarrow> load_entries sp write_ok files es r')"

definition storage_load ::
  "position \<Rightarrow> bool \<Rightarrow> (i32 \<Rightarrow> node file_state) \<Rightarrow> dir_state \<Rightarrow>
     ((store_error + storage) \<times> string list) option" where
  "storage_load sp write_ok files d =
     (case d of
        DirMissing created \<Rightarrow>
          Some (if created then Inr \<lparr>st_position = sp, nodes = []\<rparr> else Inl (Io ''create_dir''), [])
      | DirUnreadable \<Rightarrow> Some (Inl (Io ''read_dir''), [])
      | DirEntries es \<Rightarrow>
          (case load_entries sp write_ok files es ([], []) of
             None \<Rightarrow> None
           | Some (ns, quarantined) \<Rightarrow>
               (let ns = sort_key node_id ns in
                if ns \<noteq> [] \<and> node_id (hd ns) \<noteq> 0 then Some (Inl (Io ''node 0 missing''), quarantined)
                else Some (Inr \<lparr>st_position = sp, nodes = ns\<rparr>, quarantined))))"

end
