(* ===== verification/Storage_Plans.thy ===== *)
theory Storage_Plans
  imports Storage
begin

text \<open>
  Correctness of the read-only planners and of the mutating withdrawal: amounts, backing by
  real chests, room, the reservation of node 0's chests, and the refinement of the read-only
  planner by the mutating one. A planner's loops over nodes and chests are first shown to
  be one pass over a list of chests (\<open>sim_withdraw_nodes_eq\<close>, \<open>simulate_deposit_eq\<close>).
\<close>

section \<open>Withdrawal plans\<close>

text \<open>The items a slot list really holds: negative slots count as empty.\<close>

definition held :: "i32 list \<Rightarrow> int" where
  "held xs = sum_list (filter (\<lambda>a. a > 0) xs)"

lemma held_simps [simp]:
  "held [] = 0" "held (a # xs) = (if a > 0 then a else 0) + held xs" "held (xs @ ys) = held xs + held ys"
  by (simp_all add: held_def)

lemma held_nonneg [simp]: "0 \<le> held xs"
  by (induction xs) auto

lemma held_replicate_zero [simp]: "held (replicate n 0) = 0"
  by (induction n) auto

definition chest_stock :: "item_id \<Rightarrow> chest \<Rightarrow> int" where
  "chest_stock item c = (if chest_item c = item then held (amounts c) else 0)"

definition stock :: "item_id \<Rightarrow> chest list \<Rightarrow> int" where
  "stock item cs = sum_list (map (chest_stock item) cs)"

lemma stock_simps [simp]:
  "stock item [] = 0" "stock item (c # cs) = chest_stock item c + stock item cs"
  "stock item (cs @ ds) = stock item cs + stock item ds"
  by (simp_all add: stock_def)

lemma chest_stock_nonneg [simp]: "0 \<le> chest_stock item c"
  by (simp add: chest_stock_def)

lemma stock_nonneg [simp]: "0 \<le> stock item cs"
  by (induction cs) auto

lemma total_item_amount_stock: "total_item_amount st item = wrap_i32 (stock item (all_chests st))"
proof -
  have "sum_list (filter (\<lambda>a. a > 0) (concat (map amounts (filter (\<lambda>c. chest_item c = item) cs)))) = stock item cs" for cs
    by (induction cs) (auto simp: chest_stock_def held_def)
  then show ?thesis by (simp add: total_item_amount_def)
qed

definition plan_total :: "plan \<Rightarrow> int" where
  "plan_total p = sum_list (map tr_amount p)"

lemma plan_total_simps [simp]:
  "plan_total [] = 0" "plan_total (t # p) = tr_amount t + plan_total p"
  "plan_total (p @ q) = plan_total p + plan_total q"
  by (simp_all add: plan_total_def)

lemma transfer_simps [simp]:
  "tr_chest_id (transfer c item a) = chest_id c" "tr_position (transfer c item a) = chest_position c"
  "tr_item (transfer c item a) = item" "tr_amount (transfer c item a) = a"
  by (simp_all add: transfer_def)

text \<open>A transfer that is backed by the chest it names.\<close>

definition backed :: "item_id \<Rightarrow> chest list \<Rightarrow> chest_transfer \<Rightarrow> bool" where
  "backed item cs t \<longleftrightarrow> (\<exists>c \<in> set cs. chest_item c = item \<and> tr_item t = item \<and>
     tr_chest_id t = chest_id c \<and> tr_position t = chest_position c \<and>
     0 < tr_amount t \<and> tr_amount t \<le> held (amounts c))"

lemma sim_take_slots_eq:
  "0 \<le> r \<Longrightarrow> sim_take_slots xs r t = (r - min r (held xs), t + min r (held xs))"
proof (induction xs r t rule: sim_take_slots.induct)
  case (2 a xs r t)
  show ?case
  proof (cases "0 < r \<and> 0 < a")
    case True
    have "0 \<le> held xs" by simp
    with True 2(2) show ?thesis by (auto simp: Let_def min_def simp del: held_nonneg)
  next
    case False
    have "0 \<le> held xs" by simp
    with 2 False show ?thesis by (auto simp: min_def simp del: held_nonneg)
  qed
qed (simp add: min_def)

lemma sim_withdraw_chests_append:
  "sim_withdraw_chests item (cs @ ds) r p =
     (let (r', p') = sim_withdraw_chests item cs r p in sim_withdraw_chests item ds r' p')"
proof (induction item cs r p rule: sim_withdraw_chests.induct)
  case (2 item c cs r p)
  have "r \<le> 0 \<Longrightarrow> sim_withdraw_chests item ds r p = (r, p)" by (cases ds) auto
  with 2 show ?case by (auto simp: Let_def split: prod.split)
qed simp

lemma sim_withdraw_nodes_eq:
  "sim_withdraw_nodes item ns r p = sim_withdraw_chests item (concat (map chests ns)) r p"
proof (induction item ns r p rule: sim_withdraw_nodes.induct)
  case (2 item n ns r p)
  have "r \<le> 0 \<Longrightarrow> sim_withdraw_chests item cs r p = (r, p)" for cs by (cases cs) auto
  with 2 show ?case by (auto simp: sim_withdraw_chests_append Let_def split: prod.split)
qed simp

lemma sim_withdraw_chests_spec:
  assumes "0 \<le> r" "sim_withdraw_chests item cs r p = (r', p')"
  shows "r' = r - min r (stock item cs) \<and>
    (\<exists>q. p' = p @ q \<and> plan_total q = r - r' \<and> (\<forall>t \<in> set q. backed item cs t) \<and>
         (distinct (map chest_id cs) \<longrightarrow> distinct (map tr_chest_id q)))"
  using assms
proof (induction item cs r p rule: sim_withdraw_chests.induct)
  case (2 item c cs r p)
  have bm: "backed item (c # cs) t" if "backed item cs t" for t using that by (auto simp: backed_def)
  have bid: "tr_chest_id t \<in> chest_id ` set cs" if "backed item cs t" for t using that by (auto simp: backed_def)
  have nn: "0 \<le> stock item cs" "0 \<le> held (amounts c)" by simp_all
  consider "r \<le> 0" | "0 < r" "chest_item c \<noteq> item" | "0 < r" "chest_item c = item" by linarith
  then show ?case
  proof cases
    case 1 with 2(3,4) nn show ?thesis by (auto simp: chest_stock_def)
  next
    case 2
    with "2.IH"(1) "2.prems" bm bid show ?thesis by (fastforce simp: chest_stock_def)
  next
    case 3
    define k where "k = min r (held (amounts c))"
    have k: "0 \<le> k" "k \<le> r" "k \<le> held (amounts c)" using 3 nn by (auto simp: k_def)
    define h where "h = (if k > 0 then [transfer c item k] else [])"
    have st: "sim_take_slots (amounts c) r 0 = (r - k, k)"
      using 3 by (simp add: sim_take_slots_eq k_def)
    have run: "sim_withdraw_chests item cs (r - k) (p @ h) = (r', p')"
      using "2.prems"(2) 3 st by (auto simp: h_def split: if_splits)
    have ih: "r' = (r - k) - min (r - k) (stock item cs) \<and>
      (\<exists>q. p' = (p @ h) @ q \<and> plan_total q = (r - k) - r' \<and> (\<forall>t \<in> set q. backed item cs t) \<and>
         (distinct (map chest_id cs) \<longrightarrow> distinct (map tr_chest_id q)))"
      using "2.IH"(2) [of "(r - k, k)" "r - k" k] 3 st k run by (auto simp: h_def)
    then obtain q where q: "p' = p @ h @ q" "plan_total q = r - k - r'" "\<forall>t \<in> set q. backed item cs t"
      "distinct (map chest_id cs) \<Longrightarrow> distinct (map tr_chest_id q)" by auto
    have "r' = r - min r (stock item (c # cs))"
      using ih k nn 3 by (auto simp: chest_stock_def k_def min_def split: if_splits)
    moreover have "plan_total (h @ q) = r - r'" using q(2) k by (auto simp: h_def)
    moreover have "\<forall>t \<in> set (h @ q). backed item (c # cs) t"
      using q(3) bm k 3 by (auto simp: h_def backed_def)
    moreover have "distinct (map chest_id (c # cs)) \<longrightarrow> distinct (map tr_chest_id (h @ q))"
      using q(3,4) bid by (fastforce simp: h_def)
    ultimately show ?thesis using q(1) by blast
  qed
qed (simp add: min_def)

text \<open>A withdrawal plan takes exactly what is asked for, or everything there is when the
  storage holds less; the planned amount is the sum of the transfers.\<close>

theorem withdraw_planned_amount:
  assumes "simulate_withdraw_plan st item qty = (plan, planned)" "0 < qty" "item \<noteq> []"
    "stock item (all_chests st) \<le> i32_max"
  shows "planned = min qty (total_item_amount st item) \<and> plan_total plan = planned"
proof -
  have "in_i32 (stock item (all_chests st))"
    using assms(4) stock_nonneg [of item "all_chests st"]
    unfolding in_i32_def i32_min_def by linarith
  then have t: "total_item_amount st item = stock item (all_chests st)"
    by (simp add: total_item_amount_stock)
  obtain r where r: "sim_withdraw_chests item (all_chests st) qty [] = (r, plan)" "planned = qty - r"
    using assms by (auto simp: simulate_withdraw_plan_def sim_withdraw_nodes_eq all_chests_def split: prod.splits)
  then show ?thesis using sim_withdraw_chests_spec [OF _ r(1)] assms(2) t by auto
qed

text \<open>Every transfer of a withdrawal plan is covered by the chest it names: that chest exists,
  is assigned to the item, stands at the given position and holds at least the amount; and no
  chest is visited twice when chest ids are unique.\<close>

theorem withdraw_plan_backed:
  assumes "simulate_withdraw_plan st item qty = (plan, planned)"
    and "distinct (map chest_id (all_chests st))"
  shows "list_all (backed item (all_chests st)) plan \<and> distinct (map tr_chest_id plan)"
proof (cases "qty \<le> 0 \<or> item = []")
  case True then show ?thesis using assms by (auto simp: simulate_withdraw_plan_def)
next
  case False
  then obtain r where r: "sim_withdraw_chests item (all_chests st) qty [] = (r, plan)"
    using assms by (auto simp: simulate_withdraw_plan_def sim_withdraw_nodes_eq all_chests_def split: prod.splits)
  then show ?thesis using sim_withdraw_chests_spec [OF _ r] False assms(2) by (auto simp: list_all_iff)
qed

section \<open>The mutating withdrawal\<close>

lemma take_slots_spec:
  assumes "take_slots xs q t = (ys, q', t')" "0 \<le> q"
  shows "(q', t') = sim_take_slots xs q t \<and> length ys = length xs \<and> held ys = held xs - (q - q')"
  using assms
proof (induction xs q t arbitrary: ys q' t' rule: take_slots.induct)
  case (2 a xs q t)
  obtain zs r where z: "take_slots xs (if 0 < a then q - min a q else q) (if 0 < a then t + min a q else t) = (zs, r)"
    by (metis surj_pair)
  show ?case
    using 2 z by (cases r) (auto simp: Let_def split: if_splits prod.splits)
qed simp

text \<open>What a planner may change in a chest: only its slots.\<close>

definition same_place :: "chest \<Rightarrow> chest \<Rightarrow> bool" where
  "same_place c d \<longleftrightarrow> chest_id d = chest_id c \<and> chest_position d = chest_position c \<and>
     chest_node_id d = chest_node_id c \<and> chest_index d = chest_index c"

lemma same_place_refl [simp]: "same_place c c" by (simp add: same_place_def)
lemma same_place_amounts [simp]: "same_place c (c\<lparr>amounts := xs\<rparr>)" by (simp add: same_place_def)

lemma normalize_full [simp]: "length (amounts c) = DOUBLE_CHEST_SLOTS \<Longrightarrow> normalize_amounts_len c = c"
  by (simp add: normalize_amounts_len_def SLOTS_PER_CHEST_def)

definition full_slots :: "chest list \<Rightarrow> bool" where
  "full_slots cs \<longleftrightarrow> (\<forall>c \<in> set cs. length (amounts c) = DOUBLE_CHEST_SLOTS)"

lemma full_slots_simps [simp]:
  "full_slots []" "full_slots (c # cs) \<longleftrightarrow> length (amounts c) = DOUBLE_CHEST_SLOTS \<and> full_slots cs"
  "full_slots (cs @ ds) \<longleftrightarrow> full_slots cs \<and> full_slots ds"
  by (auto simp: full_slots_def)

lemma transfer_amounts [simp]: "transfer (c\<lparr>amounts := xs\<rparr>) item a = transfer c item a"
  by (simp add: transfer_def)

lemma withdraw_chests_spec:
  assumes "withdraw_chests item cs q p = (cs', q', p')" "0 \<le> q" "full_slots cs"
  shows "(q', p') = sim_withdraw_chests item cs q p \<and> list_all2 same_place cs cs' \<and>
    map chest_item cs' = map chest_item cs \<and> full_slots cs' \<and>
    (\<forall>i. stock i cs' = stock i cs - (if i = item then q - q' else 0))"
  using assms
proof (induction item cs q p arbitrary: cs' q' p' rule: withdraw_chests.induct)
  case (2 item c cs q p)
  consider "q \<le> 0" | "0 < q" "chest_item c \<noteq> item" | "0 < q" "chest_item c = item" by linarith
  then show ?case
  proof cases
    case 1 with "2.prems" show ?thesis by (auto simp: list_all2_refl)
  next
    case 2
    obtain ds r where r: "withdraw_chests item cs q p = (ds, r)" by (metis surj_pair)
    with "2.IH"(1) "2.prems" 2 show ?thesis by (cases r) (auto simp: chest_stock_def)
  next
    case 3
    obtain xs q1 k where ts: "take_slots (amounts c) q 0 = (xs, q1, k)" by (metis prod_cases3)
    note tss = take_slots_spec [OF ts "2.prems"(2)]
    have q1: "q1 = q - k" "0 \<le> q1" using tss 3 by (auto simp: sim_take_slots_eq)
    let ?p = "if k > 0 then p @ [transfer c item k] else p"
    obtain ds q2 p2 where run: "withdraw_chests item cs q1 ?p = (ds, q2, p2)" by (metis prod_cases3)
    have n: "normalize_amounts_len c = c" using "2.prems"(3) by simp
    have eq: "cs' = c\<lparr>amounts := xs\<rparr> # ds" "q' = q2" "p' = p2"
      using "2.prems"(1) 3 ts run n by (auto simp: Let_def split: if_splits)
    have ih: "(q2, p2) = sim_withdraw_chests item cs q1 ?p \<and> list_all2 same_place cs ds \<and>
      map chest_item ds = map chest_item cs \<and> full_slots ds \<and>
      (\<forall>i. stock i ds = stock i cs - (if i = item then q1 - q2 else 0))"
      using "2.IH"(2) [OF _ _ refl, of "(xs, q1, k)" xs "(q1, k)" q1 k "c\<lparr>amounts := xs\<rparr>" ?p ds q2 p2] 3 n ts run q1 "2.prems"(3)
      by (simp cong: if_cong)
    have "sim_withdraw_chests item (c # cs) q p = (q2, p2)"
      using 3 tss ih by (auto simp: Let_def split: prod.splits)
    then show ?thesis using eq ih tss 3 "2.prems"(3) q1 by (auto simp: chest_stock_def)
  qed
qed simp

lemma sim_withdraw_stop: "r \<le> 0 \<Longrightarrow> sim_withdraw_chests item cs r p = (r, p)"
  by (cases cs) auto

lemma withdraw_chests_append:
  "withdraw_chests item (cs @ ds) q p =
     (let (cs', q', p') = withdraw_chests item cs q p; (ds', q2, p2) = withdraw_chests item ds q' p'
      in (cs' @ ds', q2, p2))"
proof (induction item cs q p rule: withdraw_chests.induct)
  case (2 item c cs q p)
  have "q \<le> 0 \<Longrightarrow> withdraw_chests item ds q p = (ds, q, p)" by (cases ds) auto
  with 2 show ?case by (auto simp: Let_def split: prod.split)
qed simp

lemma withdraw_nodes_flat:
  "withdraw_nodes item ns q p = (ns', q', p') \<Longrightarrow>
     withdraw_chests item (concat (map chests ns)) q p = (concat (map chests ns'), q', p') \<and>
     map node_id ns' = map node_id ns"
proof (induction item ns q p arbitrary: ns' q' p' rule: withdraw_nodes.induct)
  case (2 item n ns q p)
  obtain cs q1 p1 where a: "withdraw_chests item (chests n) q p = (cs, q1, p1)" by (metis prod_cases3)
  obtain ms q2 p2 where b: "withdraw_nodes item ns q1 p1 = (ms, q2, p2)" by (metis prod_cases3)
  have "withdraw_chests item (concat (map chests ns)) q1 p1 = (concat (map chests ms), q2, p2) \<and>
     map node_id ms = map node_id ns"
    using "2.IH" [of "(cs, q1, p1)" cs "(q1, p1)" q1 p1 ms q2 p2] a b by simp
  with a b "2.prems" show ?case by (auto simp: withdraw_chests_append)
qed simp

text \<open>C23: The mutating withdrawal refines the read-only planner: it returns the same plan, removes
  from the item's stock exactly the planned amount, leaves every other item's stock alone, and
  moves no chest.\<close>

theorem withdraw_plan_refines:
  assumes "full_slots (all_chests st)"
  shows "snd (withdraw_plan st item qty) = fst (simulate_withdraw_plan st item qty) \<and>
    (\<forall>i. stock i (all_chests (fst (withdraw_plan st item qty))) =
       stock i (all_chests st) - (if i = item then snd (simulate_withdraw_plan st item qty) else 0)) \<and>
    list_all2 same_place (all_chests st) (all_chests (fst (withdraw_plan st item qty)))"
proof (cases "qty \<le> 0 \<or> item = []")
  case True
  then show ?thesis by (auto simp: withdraw_plan_def simulate_withdraw_plan_def list_all2_refl)
next
  case False
  obtain ns q p where w: "withdraw_nodes item (nodes st) qty [] = (ns, q, p)" by (metis prod_cases3)
  note flat = withdraw_nodes_flat [OF w]
  have s: "(q, p) = sim_withdraw_nodes item (nodes st) qty [] \<and>
      list_all2 same_place (all_chests st) (concat (map chests ns)) \<and>
      (\<forall>i. stock i (concat (map chests ns)) = stock i (all_chests st) - (if i = item then qty - q else 0))"
    using withdraw_chests_spec [of item "concat (map chests (nodes st))" qty "[]" "concat (map chests ns)" q p]
      flat False assms by (auto simp: all_chests_def sim_withdraw_nodes_eq)
  have "withdraw_plan st item qty = (st\<lparr>nodes := ns\<rparr>, p)"
    using False w by (simp add: withdraw_plan_def)
  moreover have "simulate_withdraw_plan st item qty = (p, qty - q)"
    using False s by (auto simp: simulate_withdraw_plan_def split: prod.splits)
  ultimately show ?thesis using s by (auto simp: all_chests_def)
qed

section \<open>Deposit plans\<close>

text \<open>The free space of a slot list under a shulker capacity; negative slots take nothing.\<close>

definition room :: "i32 \<Rightarrow> i32 list \<Rightarrow> int" where
  "room cap xs = sum_list (map (\<lambda>a. if a < 0 \<or> cap \<le> a then 0 else cap - a) xs)"

lemma room_simps [simp]:
  "room cap [] = 0" "room cap (a # xs) = (if a < 0 \<or> cap \<le> a then 0 else cap - a) + room cap xs"
  by (simp_all add: room_def)

lemma room_nonneg: "0 \<le> room cap xs"
  by (induction xs) auto

lemma room_zeros: "0 < cap \<Longrightarrow> room cap (replicate n 0) = int n * cap"
  by (induction n) (auto simp: algebra_simps)

lemma record_zero [simp]: "a \<le> 0 \<Longrightarrow> record_transfer p c item a = p"
  by (simp add: record_transfer_def)

lemma record_record:
  assumes "0 \<le> a" "0 \<le> b" "a + b \<le> i32_max"
  shows "record_transfer (record_transfer p c item a) c item b = record_transfer p c item (a + b)"
proof -
  have "in_i32 (a + b)" using assms by (simp add: in_i32_def i32_min_def)
  then show ?thesis
    using assms by (auto simp: record_transfer_def wrap_i32_cong add.assoc transfer_def)
qed

lemma sim_fill_slots_eq:
  "0 \<le> r \<Longrightarrow> r \<le> i32_max \<Longrightarrow>
     sim_fill_slots cap item c xs r p =
       (r - min r (room cap xs), record_transfer p c item (min r (room cap xs)))"
proof (induction cap item c xs r p rule: sim_fill_slots.induct)
  case (2 cap item c a xs r p)
  have nn: "0 \<le> room cap xs" by (rule room_nonneg)
  consider "r = 0" | "0 < r" "a < 0 \<or> cap \<le> a" | "0 < r" "0 \<le> a" "a < cap" using 2 by linarith
  then show ?case
  proof cases
    case 1 then show ?thesis using nn by auto
  next
    case 2 with "2.IH"(1) "2.prems" show ?thesis by auto
  next
    case 3
    let ?k = "min (cap - a) r"
    have "sim_fill_slots cap item c (a # xs) r p =
      sim_fill_slots cap item c xs (r - ?k) (record_transfer p c item ?k)"
      using 3 by (simp add: Let_def)
    also have "\<dots> = ((r - ?k) - min (r - ?k) (room cap xs),
        record_transfer (record_transfer p c item ?k) c item (min (r - ?k) (room cap xs)))"
      using "2.IH"(2) [of ?k] 3 "2.prems" by simp
    also have "\<dots> = ((r - ?k) - min (r - ?k) (room cap xs),
        record_transfer p c item (?k + min (r - ?k) (room cap xs)))"
      using 3 "2.prems" nn by (subst record_record) auto
    also have "?k + min (r - ?k) (room cap xs) = min r (room cap (a # xs))"
      using 3 nn by auto
    finally show ?thesis using 3 nn by auto
  qed
qed simp

text \<open>The shape both phases share: visit a list of chests, each with a capacity.\<close>

fun fill_plan :: "(chest \<Rightarrow> int) \<Rightarrow> item_id \<Rightarrow> chest list \<Rightarrow> i32 \<Rightarrow> plan \<Rightarrow> i32 \<times> plan" where
  "fill_plan f item [] r p = (r, p)"
| "fill_plan f item (c # cs) r p = fill_plan f item cs (r - min r (f c)) (record_transfer p c item (min r (f c)))"

lemma fill_plan_append:
  "fill_plan f item (cs @ ds) r p = (let (r', p') = fill_plan f item cs r p in fill_plan f item ds r' p')"
  by (induction cs arbitrary: r p) auto

lemma fill_plan_stop: "\<forall>c \<in> set cs. 0 \<le> f c \<Longrightarrow> fill_plan f item cs 0 p = (0, p)"
  by (induction cs) auto

lemma fill_plan_cong: "\<forall>c \<in> set cs. f c = g c \<Longrightarrow> fill_plan f item cs r p = fill_plan g item cs r p"
  by (induction cs arbitrary: r p) auto

lemma fill_plan_fst:
  "\<forall>c \<in> set cs. 0 \<le> f c \<Longrightarrow> 0 \<le> r \<Longrightarrow> fst (fill_plan f item cs r p) = r - min r (sum_list (map f cs))"
proof (induction cs arbitrary: r p)
  case (Cons c cs)
  have "0 \<le> sum_list (map f cs)" using Cons.prems(1) by (intro sum_list_nonneg_int) auto
  with Cons show ?case by (auto simp: min_def)
qed simp

text \<open>With distinct chest ids every visit is a transfer of its own.\<close>

lemma fill_plan_spec:
  assumes "\<forall>c \<in> set cs. 0 \<le> f c" "0 \<le> r" "distinct (map chest_id cs)"
    "\<forall>t \<in> set p. tr_chest_id t \<notin> chest_id ` set cs"
  shows "\<exists>q. snd (fill_plan f item cs r p) = p @ q \<and> plan_total q = min r (sum_list (map f cs)) \<and>
    (\<forall>t \<in> set q. \<exists>c \<in> set cs. t = transfer c item (tr_amount t) \<and> 0 < tr_amount t \<and> tr_amount t \<le> f c) \<and>
    distinct (map tr_chest_id q)"
  using assms
proof (induction cs arbitrary: r p)
  case (Cons c cs)
  let ?k = "min r (f c)"
  have k: "0 \<le> ?k" "?k \<le> f c" "0 \<le> r - ?k" using Cons.prems by auto
  define h where "h = (if ?k > 0 then [transfer c item ?k] else [])"
  have "record_transfer p c item ?k = p @ h"
    using Cons.prems(4) by (cases p rule: rev_cases) (auto simp: record_transfer_def h_def)
  then have run: "fill_plan f item (c # cs) r p = fill_plan f item cs (r - ?k) (p @ h)" by simp
  have "\<forall>t \<in> set (p @ h). tr_chest_id t \<notin> chest_id ` set cs"
    using Cons.prems(3,4) by (auto simp: h_def)
  then obtain q where q: "snd (fill_plan f item cs (r - ?k) (p @ h)) = (p @ h) @ q"
      "plan_total q = min (r - ?k) (sum_list (map f cs))"
      "\<forall>t \<in> set q. \<exists>c \<in> set cs. t = transfer c item (tr_amount t) \<and> 0 < tr_amount t \<and> tr_amount t \<le> f c"
      "distinct (map tr_chest_id q)"
    using Cons.IH [of "r - ?k" "p @ h"] Cons.prems k by auto
  have nn: "0 \<le> sum_list (map f cs)" using Cons.prems(1) by (intro sum_list_nonneg_int) auto
  have "plan_total (h @ q) = min r (sum_list (map f (c # cs)))"
    using q(2) k nn by (auto simp: h_def)
  moreover have "\<forall>t \<in> set (h @ q). \<exists>d \<in> set (c # cs). t = transfer d item (tr_amount t) \<and> 0 < tr_amount t \<and> tr_amount t \<le> f d"
    using q(3) k by (auto simp: h_def)
  moreover have "distinct (map tr_chest_id (h @ q))"
  proof -
    have "tr_chest_id t \<in> chest_id ` set cs" if "t \<in> set q" for t
      using q(3) that by (metis imageI transfer_simps(1))
    then show ?thesis using q(4) Cons.prems(3) by (auto simp: h_def)
  qed
  ultimately show ?case using q(1) run by (intro exI [of _ "h @ q"]) auto
qed (auto simp: min_def)

text \<open>The chests a deposit may use, in the order of the planner: those assigned to the item and
  not reserved for another, then the empty ones.\<close>

fun item_chests :: "item_id \<Rightarrow> nat \<Rightarrow> nat \<Rightarrow> chest list \<Rightarrow> chest list" where
  "item_chests item ni ci [] = []"
| "item_chests item ni ci (c # cs) =
     (if is_reserved_chest_blocked_for item ni ci \<or> chest_item c \<noteq> item then [] else [c]) @
     item_chests item ni (Suc ci) cs"

fun item_chests_nodes :: "item_id \<Rightarrow> nat \<Rightarrow> node list \<Rightarrow> chest list" where
  "item_chests_nodes item ni [] = []"
| "item_chests_nodes item ni (n # ns) = item_chests item ni 0 (chests n) @ item_chests_nodes item (Suc ni) ns"

abbreviation empty_chest :: "chest \<Rightarrow> bool" where
  "empty_chest c \<equiv> item_is_empty (chest_item c)"

definition node_0_candidates :: "item_id \<Rightarrow> chest list \<Rightarrow> chest list" where
  "node_0_candidates item cs =
     (if item = ''diamond'' \<and> 0 < length cs then [cs ! 0] else []) @
     (if item = OVERFLOW_CHEST_ITEM \<and> 1 < length cs then [cs ! 1] else []) @ drop 2 cs"

definition claim_candidates :: "item_id \<Rightarrow> node list \<Rightarrow> chest list" where
  "claim_candidates item ns =
     (case ns of [] \<Rightarrow> [] | n # rest \<Rightarrow> node_0_candidates item (chests n) @ concat (map chests rest))"

definition deposit_targets :: "item_id \<Rightarrow> node list \<Rightarrow> chest list" where
  "deposit_targets item ns = item_chests_nodes item 0 ns @ filter empty_chest (claim_candidates item ns)"

definition target_room :: "i32 \<Rightarrow> chest \<Rightarrow> int" where
  "target_room cap c = (if empty_chest c then int SLOTS_PER_CHEST * cap else room cap (amounts c))"

definition deposit_room :: "i32 \<Rightarrow> item_id \<Rightarrow> storage \<Rightarrow> int" where
  "deposit_room cap item st = sum_list (map (target_room cap) (deposit_targets item (nodes st)))"

lemma fill_plan_room_stop [simp]: "fill_plan (\<lambda>c. room cap (amounts c)) item cs 0 p = (0, p)"
  by (rule fill_plan_stop) (simp add: room_nonneg)

lemma sim_fill_chests_eq:
  "0 \<le> r \<Longrightarrow> r \<le> i32_max \<Longrightarrow>
     sim_fill_chests cap item ni ci cs r p = fill_plan (\<lambda>c. room cap (amounts c)) item (item_chests item ni ci cs) r p"
proof (induction cap item ni ci cs r p rule: sim_fill_chests.induct)
  case (2 cap item ni ci c cs r p)
  have nn: "0 \<le> room cap (amounts d)" for d by (rule room_nonneg)
  consider "r = 0" | "0 < r" "is_reserved_chest_blocked_for item ni ci \<or> chest_item c \<noteq> item"
    | "0 < r" "\<not> (is_reserved_chest_blocked_for item ni ci \<or> chest_item c \<noteq> item)"
    using "2.prems" by linarith
  then show ?case
  proof cases
    case 1 then show ?thesis by (simp add: fill_plan_append room_nonneg min.absorb1)
  next
    case 2 with "2.IH"(1) "2.prems" show ?thesis by auto
  next
    case 3
    have e: "sim_fill_slots cap item c (amounts c) r p =
       (r - min r (room cap (amounts c)), record_transfer p c item (min r (room cap (amounts c))))"
      using "2.prems" by (simp add: sim_fill_slots_eq)
    show ?thesis using "2.IH"(2) [OF _ _ e [symmetric] refl] 3 "2.prems" nn [of c] e by (auto simp: min_def)
  qed
qed simp

lemma fill_plan_range:
  assumes "\<forall>c \<in> set cs. 0 \<le> f c" "0 \<le> r" "r \<le> m" "fill_plan f item cs r p = (r', p')"
  shows "0 \<le> r' \<and> r' \<le> m"
proof -
  have "0 \<le> sum_list (map f cs)" using assms(1) by (intro sum_list_nonneg_int) auto
  then show ?thesis using fill_plan_fst [OF assms(1,2), of item p] assms(2-4) by auto
qed

lemma sim_fill_nodes_eq:
  "0 \<le> r \<Longrightarrow> r \<le> i32_max \<Longrightarrow>
     sim_fill_nodes cap item ni ns r p = fill_plan (\<lambda>c. room cap (amounts c)) item (item_chests_nodes item ni ns) r p"
proof (induction cap item ni ns r p rule: sim_fill_nodes.induct)
  case (2 cap item ni n ns r p)
  have nn: "0 \<le> room cap (amounts d)" for d by (rule room_nonneg)
  show ?case
  proof (cases "r = 0")
    case True then show ?thesis by (simp add: fill_plan_append)
  next
    case False
    obtain r' p' where e: "sim_fill_chests cap item ni 0 (chests n) r p = (r', p')" by force
    have f: "fill_plan (\<lambda>c. room cap (amounts c)) item (item_chests item ni 0 (chests n)) r p = (r', p')"
      using e "2.prems" by (simp add: sim_fill_chests_eq)
    have rr: "0 \<le> r' \<and> r' \<le> i32_max"
      by (rule fill_plan_range [OF _ "2.prems" f]) (simp add: nn)
    show ?thesis using "2.IH" [OF _ e [symmetric] refl] False rr e f "2.prems" by (simp add: fill_plan_append)
  qed
qed simp

lemma try_claim_stop: "fst s \<le> 0 \<Longrightarrow> try_claim ecap item c s = s"
  by (cases s) (simp add: try_claim_def)

lemma fold_claim_stop: "fst s \<le> 0 \<Longrightarrow> fold (try_claim ecap item) cs s = s"
  by (induction cs) (simp_all add: try_claim_stop)

lemma claim_chests_fold: "claim_chests ecap item cs s = fold (try_claim ecap item) cs s"
  by (induction cs arbitrary: s) (simp_all add: try_claim_stop fold_claim_stop)

lemma claim_nodes_fold: "claim_nodes ecap item ns s = fold (try_claim ecap item) (concat (map chests ns)) s"
  by (induction ns arbitrary: s) (simp_all add: claim_chests_fold fold_claim_stop)

lemma claim_node_0_fold:
  "claim_node_0 ecap item ns s =
     fold (try_claim ecap item) (case ns of [] \<Rightarrow> [] | n # _ \<Rightarrow> node_0_candidates item (chests n)) s"
  by (cases ns)
    (auto simp: claim_node_0_def claim_at_def node_0_candidates_def claim_chests_fold fold_claim_stop
       Let_def DIAMOND_CHEST_ID_def OVERFLOW_CHEST_ID_def not_less)

lemma fold_claim_fill:
  assumes "0 \<le> r" "0 \<le> ecap" "distinct (map chest_id cs)" "set cl \<inter> chest_id ` set cs = {}"
  shows "\<exists>cl'. fold (try_claim ecap item) cs (r, p, cl) =
    (let (r', p') = fill_plan (\<lambda>_. ecap) item (filter empty_chest cs) r p in (r', p', cl'))"
  using assms
proof (induction cs arbitrary: r p cl)
  case (Cons c cs)
  show ?case
  proof (cases "0 < r \<and> empty_chest c")
    case True
    then have t: "try_claim ecap item c (r, p, cl) =
       (r - min r ecap, record_transfer p c item (min r ecap), chest_id c # cl)"
      using Cons.prems(4) by (auto simp: try_claim_def Let_def min.commute)
    show ?thesis
      using Cons.IH [of "r - min r ecap" "chest_id c # cl" "record_transfer p c item (min r ecap)"] Cons.prems True t
      by (auto simp: Let_def)
  next
    case False
    then have t: "try_claim ecap item c (r, p, cl) = (r, p, cl)" by (auto simp: try_claim_def)
    show ?thesis
    proof (cases "empty_chest c")
      case True
      then have "r = 0" using False Cons.prems(1) by simp
      then show ?thesis using t True Cons.prems(2) Cons.IH [of 0 cl p] Cons.prems by (auto simp: fold_claim_stop fill_plan_stop)
    next
      case False
      then show ?thesis using t Cons.IH [of r cl p] Cons.prems by auto
    qed
  qed
qed auto

lemma item_chests_set: "c \<in> set (item_chests item ni ci cs) \<Longrightarrow> c \<in> set cs \<and> chest_item c = item"
  by (induction cs arbitrary: ci) (auto split: if_splits)

lemma item_chests_distinct: "distinct (map chest_id cs) \<Longrightarrow> distinct (map chest_id (item_chests item ni ci cs))"
  by (induction cs arbitrary: ci) (auto dest!: item_chests_set)

lemma item_chests_nodes_set:
  "c \<in> set (item_chests_nodes item ni ns) \<Longrightarrow> c \<in> set (concat (map chests ns)) \<and> chest_item c = item"
  by (induction ns arbitrary: ni) (auto dest!: item_chests_set)

lemma item_chests_nodes_distinct:
  "distinct (map chest_id (concat (map chests ns))) \<Longrightarrow> distinct (map chest_id (item_chests_nodes item ni ns))"
proof (induction ns arbitrary: ni)
  case (Cons n ns)
  then have "chest_id ` set (item_chests item ni 0 (chests n)) \<inter> chest_id ` set (item_chests_nodes item (Suc ni) ns) = {}"
    by (fastforce dest!: item_chests_set item_chests_nodes_set)
  with Cons show ?case by (simp add: item_chests_distinct)
qed simp

lemma node_0_candidates_set: "c \<in> set (node_0_candidates item cs) \<Longrightarrow> c \<in> set cs"
  by (auto simp: node_0_candidates_def dest: in_set_dropD split: if_splits)

lemma diamond_not_overflow: "''diamond'' \<noteq> OVERFLOW_CHEST_ITEM"
  by (simp add: OVERFLOW_CHEST_ITEM_def)

lemma node_0_candidates_distinct:
  assumes "distinct (map chest_id cs)"
  shows "distinct (map chest_id (node_0_candidates item cs))"
proof -
  consider "cs = []" | c where "cs = [c]" | c d es where "cs = c # d # es"
    by (metis list.exhaust)
  then show ?thesis
    using assms diamond_not_overflow by cases (auto simp: node_0_candidates_def)
qed

lemma claim_candidates_set: "c \<in> set (claim_candidates item ns) \<Longrightarrow> c \<in> set (concat (map chests ns))"
  by (auto simp: claim_candidates_def dest!: node_0_candidates_set split: list.splits)

lemma claim_candidates_distinct:
  assumes "distinct (map chest_id (concat (map chests ns)))"
  shows "distinct (map chest_id (claim_candidates item ns))"
proof (cases ns)
  case (Cons n rest)
  have "chest_id ` set (node_0_candidates item (chests n)) \<inter> chest_id ` set (concat (map chests rest)) = {}"
    using assms Cons by (fastforce dest!: node_0_candidates_set)
  then show ?thesis using assms Cons by (simp add: claim_candidates_def node_0_candidates_distinct)
qed (simp add: claim_candidates_def)

lemma distinct_map_filter_id: "distinct (map f xs) \<Longrightarrow> distinct (map f (filter P xs))"
  by (induction xs) auto

lemma deposit_targets_set:
  "c \<in> set (deposit_targets item ns) \<Longrightarrow>
     c \<in> set (concat (map chests ns)) \<and> (chest_item c = item \<or> empty_chest c)"
  by (auto simp: deposit_targets_def dest!: item_chests_nodes_set claim_candidates_set)

lemma deposit_targets_distinct:
  assumes "distinct (map chest_id (concat (map chests ns)))" "item \<noteq> []"
  shows "distinct (map chest_id (deposit_targets item ns))"
proof -
  have inj: "inj_on chest_id (set (concat (map chests ns)))" using assms(1) by (simp add: distinct_map)
  have "chest_id c \<noteq> chest_id d" 
    if "c \<in> set (item_chests_nodes item 0 ns)" "d \<in> set (filter empty_chest (claim_candidates item ns))" for c d
    using item_chests_nodes_set [OF that(1)] that(2) claim_candidates_set [of d item ns] inj assms(2)
    by (auto simp: item_is_empty_def dest!: inj_onD [OF inj])
  then have "chest_id ` set (item_chests_nodes item 0 ns) \<inter> chest_id ` set (filter empty_chest (claim_candidates item ns)) = {}"
    by blast
  then show ?thesis
    using item_chests_nodes_distinct [OF assms(1), of item 0]
      distinct_map_filter_id [OF claim_candidates_distinct [OF assms(1), of item], of empty_chest]
    by (simp add: deposit_targets_def)
qed

definition stack_ok :: "i32 \<Rightarrow> bool" where
  "stack_ok s \<longleftrightarrow> 1 \<le> s \<and> s \<le> 64"

lemma capacity_stack: "stack_ok s \<Longrightarrow> shulker_capacity_for_stack_size s = 27 * s"
  by (simp add: stack_ok_def shulker_capacity_for_stack_size_def SHULKER_BOX_SLOTS_def in_i32_def i32_min_def i32_max_def)

lemma ecap_stack: "stack_ok s \<Longrightarrow> wrap_i32 (int SLOTS_PER_CHEST * (27 * s)) = int SLOTS_PER_CHEST * (27 * s)"
  by (simp add: stack_ok_def SLOTS_PER_CHEST_def DOUBLE_CHEST_SLOTS_def in_i32_def i32_min_def i32_max_def)

lemma target_room_nonneg: "stack_ok s \<Longrightarrow> 0 \<le> target_room (27 * s) c"
  by (simp add: target_room_def room_nonneg stack_ok_def)

lemma simulate_deposit_eq:
  assumes "distinct (map chest_id (all_chests st))" "0 < qty" "qty \<le> i32_max" "item \<noteq> []" "stack_ok s"
  shows "simulate_deposit_plan st item qty s =
    (let (r, p) = fill_plan (target_room (27 * s)) item (deposit_targets item (nodes st)) qty [] in (p, qty - r))"
proof -
  let ?cap = "27 * s" and ?ecap = "int SLOTS_PER_CHEST * (27 * s)"
  have nn: "0 \<le> room ?cap (amounts d)" for d by (rule room_nonneg)
  have e0: "0 \<le> ?ecap" using assms(5) by (simp add: stack_ok_def)
  define T1 T2 where "T1 = item_chests_nodes item 0 (nodes st)"
    and "T2 = claim_candidates item (nodes st)"
  obtain r p where a: "sim_fill_nodes ?cap item 0 (nodes st) qty [] = (r, p)" by force
  have a': "fill_plan (\<lambda>c. room ?cap (amounts c)) item T1 qty [] = (r, p)"
    using a assms by (simp add: sim_fill_nodes_eq T1_def)
  have r: "0 \<le> r" using fill_plan_range [OF _ _ order_refl a'] assms(2) nn by auto
  have "\<forall>c \<in> set T1. room ?cap (amounts c) = target_room ?cap c"
    using assms(4) by (auto simp: T1_def target_room_def item_is_empty_def dest!: item_chests_nodes_set)
  then have a2: "fill_plan (target_room ?cap) item T1 qty [] = (r, p)"
    using a' fill_plan_cong [of T1 "\<lambda>c. room ?cap (amounts c)"] by metis
  obtain cl' where b: "fold (try_claim ?ecap item) T2 (r, p, []) =
    (let (r', p') = fill_plan (\<lambda>_. ?ecap) item (filter empty_chest T2) r p in (r', p', cl'))"
    using fold_claim_fill [OF r e0, of T2 "[]" item p] claim_candidates_distinct [of "nodes st" item] assms(1)
    by (auto simp: T2_def all_chests_def)
  have c: "fill_plan (\<lambda>_. ?ecap) item (filter empty_chest T2) r p = fill_plan (target_room ?cap) item (filter empty_chest T2) r p"
    by (rule fill_plan_cong) (simp add: target_room_def)
  have d: "claim_nodes ?ecap item (drop 1 (nodes st)) (claim_node_0 ?ecap item (nodes st) (r, p, [])) =
     fold (try_claim ?ecap item) T2 (r, p, [])"
    by (cases "nodes st") (simp_all add: claim_nodes_fold claim_node_0_fold T2_def claim_candidates_def)
  obtain r2 p2 where f: "fill_plan (target_room ?cap) item (filter empty_chest T2) r p = (r2, p2)" by force
  have "fill_plan (target_room ?cap) item (deposit_targets item (nodes st)) qty [] = (r2, p2)"
    using a2 f by (simp add: deposit_targets_def T1_def T2_def fill_plan_append)
  moreover have "simulate_deposit_plan st item qty s = (p2, qty - r2)"
    using assms a b c d f by (simp add: simulate_deposit_plan_def capacity_stack ecap_stack Let_def)
  ultimately show ?thesis by simp
qed

text \<open>A deposit plan places exactly what is asked for, or fills every usable chest when there is
  less room; and the planned amount is the sum of the transfers.\<close>

theorem deposit_planned_amount:
  assumes "simulate_deposit_plan st item qty s = (plan, planned)"
    and "distinct (map chest_id (all_chests st))" "0 < qty" "qty \<le> i32_max" "item \<noteq> []" "stack_ok s"
  shows "planned = min qty (deposit_room (27 * s) item st) \<and> plan_total plan = planned"
proof -
  let ?T = "deposit_targets item (nodes st)" and ?f = "target_room (27 * s)"
  have nn: "\<forall>c \<in> set ?T. 0 \<le> ?f c" using target_room_nonneg [OF assms(6)] by blast
  obtain r where r: "fill_plan ?f item ?T qty [] = (r, plan)" "planned = qty - r"
    using assms simulate_deposit_eq [OF assms(2-6)] by (auto split: prod.splits)
  have "distinct (map chest_id ?T)"
    using deposit_targets_distinct [of "nodes st" item] assms by (simp add: all_chests_def)
  from fill_plan_spec [OF nn _ this, of qty "[]" item] fill_plan_fst [OF nn, of qty item "[]"] r assms(3)
  show ?thesis by (auto simp: deposit_room_def)
qed

text \<open>Every transfer of a deposit plan names one chest of the storage that holds the item or is
  unassigned, is not reserved for another item, and has at least that much room; and no chest is
  visited twice.\<close>

theorem deposit_plan_fits:
  assumes "simulate_deposit_plan st item qty s = (plan, planned)"
    and "distinct (map chest_id (all_chests st))" "0 < qty" "qty \<le> i32_max" "item \<noteq> []" "stack_ok s"
  shows "distinct (map tr_chest_id plan) \<and>
    list_all (\<lambda>t. \<exists>c \<in> set (deposit_targets item (nodes st)).
       (chest_item c = item \<or> empty_chest c) \<and> t = transfer c item (tr_amount t) \<and>
       0 < tr_amount t \<and> tr_amount t \<le> target_room (27 * s) c) plan"
proof -
  let ?T = "deposit_targets item (nodes st)" and ?f = "target_room (27 * s)"
  have nn: "\<forall>c \<in> set ?T. 0 \<le> ?f c" using target_room_nonneg [OF assms(6)] by blast
  obtain r where r: "fill_plan ?f item ?T qty [] = (r, plan)"
    using assms simulate_deposit_eq [OF assms(2-6)] by (auto split: prod.splits)
  have "distinct (map chest_id ?T)"
    using deposit_targets_distinct [of "nodes st" item] assms by (simp add: all_chests_def)
  from fill_plan_spec [OF nn _ this, of qty "[]" item] r assms(3) deposit_targets_set
  show ?thesis by (fastforce simp: list_all_iff)
qed

section \<open>Witnesses\<close>

text \<open>A storage with one node: 64 diamonds in chest 0 and 7 iron in chest 3.\<close>

definition sample_storage :: storage where
  "sample_storage = \<lparr>st_position = sample_origin, nodes = [sample_loaded]\<rparr>"

lemma sample_withdraw:
  "simulate_withdraw_plan sample_storage ''iron'' 10 =
     ([transfer (chests sample_loaded ! 3) ''iron'' 7], 7)"
  by code_simp

lemma sample_deposit:
  "simulate_deposit_plan sample_storage ''iron'' 100000 1 =
     ([transfer (chests sample_loaded ! 3) ''iron'' 1451, transfer (chests sample_loaded ! 2) ''iron'' 1458], 2909)"
  by code_simp

theorem withdraw_planned_amount_witness:
  "7 = min 10 (total_item_amount sample_storage ''iron'') \<and>
   plan_total [transfer (chests sample_loaded ! 3) ''iron'' 7] = 7"
  by (rule withdraw_planned_amount [OF sample_withdraw]) (simp, simp, code_simp)

theorem withdraw_plan_backed_witness:
  "list_all (backed ''iron'' (all_chests sample_storage)) [transfer (chests sample_loaded ! 3) ''iron'' 7] \<and>
   distinct (map tr_chest_id [transfer (chests sample_loaded ! 3) ''iron'' 7])"
  by (rule withdraw_plan_backed [OF sample_withdraw]) code_simp

theorem withdraw_plan_refines_witness:
  "snd (withdraw_plan sample_storage ''iron'' 5) = fst (simulate_withdraw_plan sample_storage ''iron'' 5) \<and>
    (\<forall>i. stock i (all_chests (fst (withdraw_plan sample_storage ''iron'' 5))) =
       stock i (all_chests sample_storage) -
         (if i = ''iron'' then snd (simulate_withdraw_plan sample_storage ''iron'' 5) else 0)) \<and>
    list_all2 same_place (all_chests sample_storage) (all_chests (fst (withdraw_plan sample_storage ''iron'' 5)))"
  by (rule withdraw_plan_refines) code_simp

theorem deposit_planned_amount_witness:
  "2909 = min 100000 (deposit_room (27 * 1) ''iron'' sample_storage) \<and>
   plan_total [transfer (chests sample_loaded ! 3) ''iron'' 1451, transfer (chests sample_loaded ! 2) ''iron'' 1458] = 2909"
  by (rule deposit_planned_amount [OF sample_deposit])
    (code_simp, simp, simp add: i32_max_def, simp, simp add: stack_ok_def)

theorem deposit_plan_fits_witness:
  "distinct (map tr_chest_id [transfer (chests sample_loaded ! 3) ''iron'' 1451, transfer (chests sample_loaded ! 2) ''iron'' 1458]) \<and>
   list_all (\<lambda>t. \<exists>c \<in> set (deposit_targets ''iron'' (nodes sample_storage)).
       (chest_item c = ''iron'' \<or> empty_chest c) \<and> t = transfer c ''iron'' (tr_amount t) \<and>
       0 < tr_amount t \<and> tr_amount t \<le> target_room (27 * 1) c)
     [transfer (chests sample_loaded ! 3) ''iron'' 1451, transfer (chests sample_loaded ! 2) ''iron'' 1458]"
  by (rule deposit_plan_fits [OF sample_deposit])
    (code_simp, simp, simp add: i32_max_def, simp, simp add: stack_ok_def)

end
