(* ===== verification/Storage_Growth.thy ===== *)
theory Storage_Growth
  imports Storage_Plans
begin

text \<open>
  The mutating deposit, which grows the storage by nodes until everything is placed, and the
  loading of a storage directory.
\<close>

section \<open>The mutating deposit\<close>

lemma held_Cons_nonneg: "0 \<le> a \<Longrightarrow> held (a # xs) = a + held xs"
  by simp

lemma fill_slots_spec:
  assumes "fill_slots cap xs q d = (ys, q', d')" "0 \<le> q"
  shows "q' = q - min q (room cap xs) \<and> d' = d + min q (room cap xs) \<and> length ys = length xs \<and>
    held ys = held xs + min q (room cap xs)"
  using assms
proof (induction cap xs q d arbitrary: ys q' d' rule: fill_slots.induct)
  case (2 cap a xs q d)
  have nn: "0 \<le> room cap xs" by (rule room_nonneg)
  consider "q = 0" | "0 < q" "a < 0 \<or> cap \<le> a" | "0 < q" "0 \<le> a" "a < cap" using "2.prems" by linarith
  then show ?case
  proof cases
    case 1 then show ?thesis using "2.prems" nn by auto
  next
    case 2
    obtain zs r e where z: "fill_slots cap xs q d = (zs, r, e)" by (metis prod_cases3)
    show ?thesis using "2.IH"(1) [OF _ _ z] "2.prems" 2 z by auto
  next
    case 3
    let ?k = "min (cap - a) q"
    obtain zs r e where z: "fill_slots cap xs (q - ?k) (d + ?k) = (zs, r, e)" by (metis prod_cases3)
    have ih: "r = (q - ?k) - min (q - ?k) (room cap xs) \<and> e = (d + ?k) + min (q - ?k) (room cap xs) \<and>
      length zs = length xs \<and> held zs = held xs + min (q - ?k) (room cap xs)"
      using "2.IH"(2) [OF _ _ refl z] 3 by simp
    have key: "min q (room cap (a # xs)) = ?k + min (q - ?k) (room cap xs)"
      using 3 nn by (simp add: min_def)
    have k: "0 < ?k" using 3 by simp
    have "ys = (a + ?k) # zs \<and> q' = r \<and> d' = e" using "2.prems"(1) 3 z by (simp add: Let_def)
    then have ys: "ys = (a + ?k) # zs" "q' = r" "d' = e" by simp_all
    have "held ys = (a + ?k) + held zs" "held (a # xs) = a + held xs"
      unfolding ys(1) by (rule held_Cons_nonneg, use k 3(2) in linarith)+
    then show ?thesis unfolding key ys(2,3) using ih ys(1) by (simp only: length_Cons) linarith
  qed
qed (simp add: min_def)

lemma deposit_into_chest_spec:
  assumes "deposit_into_chest c q s = (c', q', d)" "0 \<le> q" "length (amounts c) = DOUBLE_CHEST_SLOTS" "stack_ok s"
  shows "q' = q - min q (room (27 * s) (amounts c)) \<and> d = min q (room (27 * s) (amounts c)) \<and>
    (\<exists>xs. c' = c\<lparr>amounts := xs\<rparr> \<and> length xs = DOUBLE_CHEST_SLOTS \<and>
      held xs = held (amounts c) + min q (room (27 * s) (amounts c)))"
proof (cases "q = 0")
  case True
  then show ?thesis using assms room_nonneg [of "27 * s" "amounts c"]
    by (auto simp: deposit_into_chest_def intro!: exI [of _ "amounts c"])
next
  case False
  obtain xs r e where z: "fill_slots (27 * s) (amounts c) q 0 = (xs, r, e)" by (metis prod_cases3)
  show ?thesis
    using assms False z fill_slots_spec [OF z assms(2)]
    by (auto simp: deposit_into_chest_def capacity_stack Let_def)
qed

definition blank_ok :: "chest list \<Rightarrow> bool" where
  "blank_ok cs \<longleftrightarrow> (\<forall>c \<in> set cs. empty_chest c \<longrightarrow> amounts c = replicate DOUBLE_CHEST_SLOTS 0)"

lemma blank_ok_simps [simp]:
  "blank_ok []" "blank_ok (c # cs) \<longleftrightarrow> (empty_chest c \<longrightarrow> amounts c = replicate DOUBLE_CHEST_SLOTS 0) \<and> blank_ok cs"
  "blank_ok (cs @ ds) \<longleftrightarrow> blank_ok cs \<and> blank_ok ds"
  by (auto simp: blank_ok_def)

text \<open>What a deposit of a part of the quantity does to a chest list and to the plan.\<close>

definition deposited :: "item_id \<Rightarrow> chest list \<Rightarrow> i32 \<Rightarrow> plan \<Rightarrow> chest list \<Rightarrow> i32 \<Rightarrow> plan \<Rightarrow> bool" where
  "deposited item cs q p cs' q' p' \<longleftrightarrow> 0 \<le> q' \<and> q' \<le> q \<and> full_slots cs' \<and> blank_ok cs' \<and>
     plan_total p' = plan_total p + (q - q') \<and>
     (\<forall>i. i \<noteq> [] \<longrightarrow> stock i cs' = stock i cs + (if i = item then q - q' else 0))"

lemma deposited_refl: "0 \<le> q \<Longrightarrow> full_slots cs \<Longrightarrow> blank_ok cs \<Longrightarrow> deposited item cs q p cs q p"
  by (simp add: deposited_def)

lemma fill_chests_deposited:
  assumes "fill_chests s item ni ci cs q p = (cs', q', p')" "0 \<le> q" "full_slots cs" "blank_ok cs"
    "stack_ok s" "item \<noteq> []"
  shows "deposited item cs q p cs' q' p' \<and> length cs' = length cs"
  using assms
proof (induction s item ni ci cs q p arbitrary: cs' q' p' rule: fill_chests.induct)
  case (2 s item ni ci c cs q p)
  consider "q \<le> 0" | "0 < q" "is_reserved_chest_blocked_for item ni ci \<or> chest_item c \<noteq> item"
    | "0 < q" "\<not> (is_reserved_chest_blocked_for item ni ci \<or> chest_item c \<noteq> item)" by linarith
  then show ?case
  proof cases
    case 1 then show ?thesis using "2.prems" by (auto simp: deposited_def)
  next
    case 2
    obtain ds r p2 where z: "fill_chests s item ni (Suc ci) cs q p = (ds, r, p2)" by (metis prod_cases3)
    show ?thesis using "2.IH"(1) [OF _ _ z] "2.prems" 2 z by (auto simp: deposited_def)
  next
    case 3
    obtain c' q1 k where dc: "deposit_into_chest c q s = (c', q1, k)" by (metis prod_cases3)
    have l: "length (amounts c) = DOUBLE_CHEST_SLOTS" using "2.prems"(3) by simp
    obtain xs where d: "q1 = q - k" "0 \<le> k" "k \<le> q" "c' = c\<lparr>amounts := xs\<rparr>" "length xs = DOUBLE_CHEST_SLOTS"
      "held xs = held (amounts c) + k"
      using deposit_into_chest_spec [OF dc "2.prems"(2) l "2.prems"(5)] "2.prems"(2) room_nonneg [of "27 * s" "amounts c"]
      by auto
    let ?p = "if k > 0 then p @ [transfer c' item k] else p"
    obtain ds r p2 where z: "fill_chests s item ni (Suc ci) cs q1 ?p = (ds, r, p2)" by (metis prod_cases3)
    have eq: "cs' = c' # ds" "q' = r" "p' = p2" using "2.prems"(1) 3 dc z by (auto simp: Let_def split: if_splits)
    have ih: "deposited item cs q1 ?p ds r p2 \<and> length ds = length cs"
      using "2.IH"(2) [OF _ _ dc [symmetric] refl refl refl z] 3 d "2.prems" by simp
    have ne: "\<not> empty_chest c" using 3 "2.prems"(6) by (auto simp: item_is_empty_def)
    have pt: "plan_total ?p = plan_total p + k" using d by auto
    show ?thesis using ih eq d 3 ne pt by (auto simp: deposited_def chest_stock_def)
  qed
qed (simp add: deposited_def)

lemma fill_nodes_deposited:
  assumes "fill_nodes s item ni ns q p = (ns', q', p')" "0 \<le> q" "full_slots (concat (map chests ns))"
    "blank_ok (concat (map chests ns))" "stack_ok s" "item \<noteq> []"
  shows "deposited item (concat (map chests ns)) q p (concat (map chests ns')) q' p' \<and>
    map node_id ns' = map node_id ns"
  using assms
proof (induction s item ni ns q p arbitrary: ns' q' p' rule: fill_nodes.induct)
  case (2 s item ni n ns q p)
  obtain cs q1 p1 where a: "fill_chests s item ni 0 (chests n) q p = (cs, q1, p1)" by (metis prod_cases3)
  obtain ms q2 p2 where b: "fill_nodes s item (Suc ni) ns q1 p1 = (ms, q2, p2)" by (metis prod_cases3)
  have d: "deposited item (chests n) q p cs q1 p1"
    using fill_chests_deposited [OF a "2.prems"(2)] "2.prems" by simp
  have ih: "deposited item (concat (map chests ns)) q1 p1 (concat (map chests ms)) q2 p2 \<and> map node_id ms = map node_id ns"
    using "2.IH" [OF refl a [symmetric] refl b] d "2.prems" by (auto simp: deposited_def)
  show ?case using a b d ih "2.prems"(1) by (auto simp: deposited_def)
qed (simp add: deposited_def)

subsection \<open>Claiming chests\<close>

lemma first_empty_SomeD:
  "first_empty k cs = Some j \<Longrightarrow> k \<le> j \<and> j - k < length cs \<and> empty_chest (cs ! (j - k))"
proof (induction k cs rule: first_empty.induct)
  case (2 k c cs)
  show ?case
  proof (cases "empty_chest c")
    case True with 2 show ?thesis by auto
  next
    case False
    with 2 have "Suc k \<le> j \<and> j - Suc k < length cs \<and> empty_chest (cs ! (j - Suc k))" by simp
    then show ?thesis by (auto simp: nth_Cons')
  qed
qed simp

lemma first_empty_None: "first_empty k cs = None \<longleftrightarrow> (\<forall>c \<in> set cs. \<not> empty_chest c)"
  by (induction k cs rule: first_empty.induct) auto

lemma first_empty_node_SomeD:
  "first_empty_node k ns = Some (ni, ci) \<Longrightarrow> k \<le> ni \<and> ni - k < length ns \<and>
     ci < length (chests (ns ! (ni - k))) \<and> empty_chest (chests (ns ! (ni - k)) ! ci)"
proof (induction k ns rule: first_empty_node.induct)
  case (2 k n ns)
  show ?case
  proof (cases "first_empty 0 (chests n)")
    case None
    with 2 have "Suc k \<le> ni \<and> ni - Suc k < length ns \<and>
       ci < length (chests (ns ! (ni - Suc k))) \<and> empty_chest (chests (ns ! (ni - Suc k)) ! ci)" by simp
    then show ?thesis by (auto simp: nth_Cons')
  next
    case (Some j) with 2 first_empty_SomeD [of 0 "chests n" j] show ?thesis by auto
  qed
qed simp

lemma first_empty_node_None:
  "first_empty_node k ns = None \<longleftrightarrow> (\<forall>n \<in> set ns. \<forall>c \<in> set (chests n). \<not> empty_chest c)"
proof (induction k ns rule: first_empty_node.induct)
  case (2 k n ns)
  then show ?case using first_empty_None [of 0 "chests n"] by (cases "first_empty 0 (chests n)") auto
qed simp

lemma find_empty_SomeD:
  assumes "find_empty_chest_index ns item = Some (ni, ci)"
  shows "ni < length ns \<and> ci < length (chests (ns ! ni)) \<and> empty_chest (chests (ns ! ni) ! ci)"
proof (cases ns)
  case (Cons n rest)
  consider "ni = 0" "empty_at (chests n) ci" | "first_empty 2 (drop 2 (chests n)) = Some ci" "ni = 0"
    | "first_empty_node 1 rest = Some (ni, ci)"
    using assms Cons by (auto simp: find_empty_chest_index_def split: if_splits option.splits)
  then show ?thesis
  proof cases
    case 1 then show ?thesis using Cons by (simp add: empty_at_def)
  next
    case 2
    have b: "2 \<le> ci" "ci - 2 < length (chests n) - 2" "empty_chest (drop 2 (chests n) ! (ci - 2))"
      using first_empty_SomeD [OF 2(1)] by auto
    have "drop 2 (chests n) ! (ci - 2) = chests n ! (2 + (ci - 2))"
      by (rule nth_drop) (use b in linarith)
    then have "drop 2 (chests n) ! (ci - 2) = chests n ! ci" using b(1) by (simp only: le_add_diff_inverse)
    then show ?thesis using 2(2) Cons b by auto
  next
    case 3
    from first_empty_node_SomeD [OF 3] show ?thesis using Cons by (auto simp: nth_Cons')
  qed
qed (use assms in \<open>simp add: find_empty_chest_index_def\<close>)

lemma lowest_unused_spec:
  "k \<le> lowest_unused ids k \<and> lowest_unused ids k \<notin> set ids \<and> {k..<lowest_unused ids k} \<subseteq> set ids"
proof (induction ids k rule: lowest_unused.induct)
  case (1 ids k)
  show ?case
  proof (cases "k \<in> set ids")
    case True
    with 1 have "k + 1 \<le> lowest_unused ids (k + 1)" "lowest_unused ids (k + 1) \<notin> set ids"
      "{k + 1..<lowest_unused ids (k + 1)} \<subseteq> set ids" by auto
    moreover have "{k..<m} \<subseteq> insert k {k + 1..<m}" for m by auto
    ultimately show ?thesis using True by (subst (1 2 3) lowest_unused.simps) auto
  next
    case False then show ?thesis by (subst (1 2 3) lowest_unused.simps) auto
  qed
qed

lemma lowest_unused_le: "0 \<le> lowest_unused ids 0 \<and> lowest_unused ids 0 \<le> int (length ids)"
proof -
  let ?m = "lowest_unused ids 0"
  have "card {0..<?m} \<le> card (set ids)" by (intro card_mono) (use lowest_unused_spec [of 0 ids] in auto)
  then show ?thesis using lowest_unused_spec [of 0 ids] card_length [of ids] by simp
qed

lemma set_chest_stock:
  assumes "ni < length ns" "ci < length (chests (ns ! ni))"
  shows "stock i (concat (map chests (set_chest ns ni ci c))) =
    stock i (concat (map chests ns)) - chest_stock i (chests (ns ! ni) ! ci) + chest_stock i c"
proof -
  have l: "stock i (cs[k := d]) = stock i cs - chest_stock i (cs ! k) + chest_stock i d" if "k < length cs" for cs k d
    using that by (simp add: stock_def map_update sum_list_update_int)
  have s: "stock i (concat (map chests ms)) = sum_list (map (\<lambda>n. stock i (chests n)) ms)" for ms
    by (induction ms) auto
  show ?thesis
    using assms unfolding s set_chest_def by (simp add: map_update sum_list_update_int l)
qed

lemma set_chest_set: "set (concat (map chests (set_chest ns ni ci c))) \<subseteq> insert c (set (concat (map chests ns)))"
proof (cases "ni < length ns")
  case True
  have "set (chests ((ns ! ni)\<lparr>chests := (chests (ns ! ni))[ci := c]\<rparr>)) \<subseteq> insert c (set (concat (map chests ns)))"
    using set_update_subset_insert [of "chests (ns ! ni)" ci c] nth_mem [OF True] by fastforce
  then show ?thesis
    using set_update_subset_insert [of ns ni] by (fastforce simp: set_chest_def)
qed (auto simp: set_chest_def list_update_beyond)

definition stores_ok :: "storage \<Rightarrow> bool" where
  "stores_ok st \<longleftrightarrow> full_slots (all_chests st) \<and> blank_ok (all_chests st)"

lemma add_node_spec:
  assumes "int (length (nodes st)) \<le> max_node_id" "stores_ok st"
  obtains n where "add_node st = Some (st\<lparr>nodes := nodes st @ [n]\<rparr>)"
    "stores_ok (st\<lparr>nodes := nodes st @ [n]\<rparr>)" "\<And>i. stock i (chests n) = 0"
    "\<And>item. find_empty_chest_index (nodes st @ [n]) item \<noteq> None"
proof -
  let ?id = "lowest_unused (map node_id (nodes st)) 0"
  have r: "0 \<le> ?id" "?id \<le> max_node_id"
    using lowest_unused_le [of "map node_id (nodes st)"] assms(1) by auto
  obtain npos cs where n: "node_calc_position ?id (st_position st) = Some npos"
    "node_new ?id (st_position st) = Some \<lparr>node_id = ?id, node_position = npos, chests = cs\<rparr>"
    "length cs = CHESTS_PER_NODE" and f: "\<And>j. j < CHESTS_PER_NODE \<Longrightarrow> fresh_chest ?id npos (int j) (cs ! j)"
    by (rule node_new_fresh [OF r, of "st_position st"]) blast
  let ?n = "\<lparr>node_id = ?id, node_position = npos, chests = cs\<rparr>"
  have z: "\<forall>c \<in> set cs. amounts c = replicate DOUBLE_CHEST_SLOTS 0"
    using f n by (auto simp: in_set_conv_nth fresh_chest_def)
  have st0: "stock i cs = 0" for i
    using z by (induction cs) (auto simp: chest_stock_def)
  have e: "empty_chest (cs ! 2)" "2 < length cs"
    using f [of 2] n(3) by (auto simp: fresh_chest_def CHESTS_PER_NODE_def item_is_empty_def item_EMPTY_def)
  then have e1: "cs ! 2 \<in> set (drop 2 cs)" "cs ! 2 \<in> set cs"
    by (metis drop_eq_Nil2 hd_drop_conv_nth hd_in_set not_less) (use e in simp)
  have "find_empty_chest_index (nodes st @ [?n]) item \<noteq> None" for item
  proof (cases "nodes st")
    case Nil
    have "first_empty 2 (drop 2 cs) \<noteq> None" using e(1) e1(1) by (auto simp: first_empty_None)
    then show ?thesis using Nil by (auto simp: find_empty_chest_index_def)
  next
    case (Cons m ms)
    have "first_empty_node 1 (ms @ [?n]) \<noteq> None" using e(1) e1(2) by (auto simp: first_empty_node_None)
    then show ?thesis using Cons by (auto simp: find_empty_chest_index_def split: option.splits)
  qed
  moreover have "stores_ok (st\<lparr>nodes := nodes st @ [?n]\<rparr>)"
    using assms(2) z by (auto simp: stores_ok_def all_chests_def full_slots_def blank_ok_def)
  ultimately show thesis
    using that [of ?n] n(2) st0 by (auto simp: add_node_def)
qed

lemma claim_round_spec:
  assumes "int (length (nodes st)) \<le> max_node_id" "stores_ok st" "0 < q" "stack_ok s" "item \<noteq> []"
  shows "\<exists>st' q' p'. claim_round item s st q p = Some (st', q', p') \<and>
    deposited item (all_chests st) q p (all_chests st') q' p' \<and> q' < q \<and>
    length (nodes st') \<le> Suc (length (nodes st)) \<and> st_position st' = st_position st"
proof -
  define pick where "pick = (case find_empty_chest_index (nodes st) item of Some ix \<Rightarrow> Some (st, ix)
     | None \<Rightarrow> (case add_node st of None \<Rightarrow> None
                 | Some st' \<Rightarrow> map_option (Pair st') (find_empty_chest_index (nodes st') item)))"
  obtain n where n: "add_node st = Some (st\<lparr>nodes := nodes st @ [n]\<rparr>)"
    "stores_ok (st\<lparr>nodes := nodes st @ [n]\<rparr>)" "\<And>i. stock i (chests n) = 0"
    "find_empty_chest_index (nodes st @ [n]) item \<noteq> None"
    by (rule add_node_spec [OF assms(1,2)]) blast
  have "\<exists>st1 ni ci. pick = Some (st1, ni, ci) \<and> find_empty_chest_index (nodes st1) item = Some (ni, ci) \<and>
     stores_ok st1 \<and> (\<forall>i. stock i (all_chests st1) = stock i (all_chests st)) \<and>
     length (nodes st1) \<le> Suc (length (nodes st)) \<and> st_position st1 = st_position st"
    using n assms(2) by (cases "find_empty_chest_index (nodes st) item") (auto simp: pick_def all_chests_def)
  then obtain st1 ni ci where p1: "pick = Some (st1, ni, ci)" "find_empty_chest_index (nodes st1) item = Some (ni, ci)"
     "stores_ok st1" "\<And>i. stock i (all_chests st1) = stock i (all_chests st)"
     "length (nodes st1) \<le> Suc (length (nodes st))" "st_position st1 = st_position st" by blast
  define c0 where "c0 = chests (nodes st1 ! ni) ! ci"
  have ix: "ni < length (nodes st1)" "ci < length (chests (nodes st1 ! ni))" "empty_chest c0"
    using find_empty_SomeD [OF p1(2)] by (auto simp: c0_def)
  then have c0: "c0 \<in> set (all_chests st1)"
    unfolding c0_def all_chests_def using nth_mem by fastforce
  then have z: "amounts c0 = replicate DOUBLE_CHEST_SLOTS 0" using p1(3) ix(3) by (auto simp: stores_ok_def blank_ok_def)
  obtain c' q' d where dc: "deposit_into_chest (c0\<lparr>chest_item := item\<rparr>) q s = (c', q', d)" by (metis prod_cases3)
  have cap: "0 < 27 * s" using assms(4) by (simp add: stack_ok_def)
  obtain xs where x: "q' = q - d" "d = min q (54 * (27 * s))" "c' = c0\<lparr>chest_item := item, amounts := xs\<rparr>"
      "length xs = DOUBLE_CHEST_SLOTS" "held xs = d"
    using deposit_into_chest_spec [OF dc _ _ assms(4)] z room_zeros [OF cap] assms(3)
    by (auto simp: DOUBLE_CHEST_SLOTS_def)
  have d: "0 < d" "d \<le> q" using x(2) cap assms(3) by auto
  define st' where "st' = st1\<lparr>nodes := set_chest (nodes st1) ni ci c'\<rparr>"
  have st'ok: "full_slots (all_chests st')" "blank_ok (all_chests st')"
    using set_chest_set [of "nodes st1" ni ci c'] p1(3) x(3,4) assms(5)
    by (auto simp: st'_def all_chests_def stores_ok_def full_slots_def blank_ok_def item_is_empty_def)
  have "stock i (all_chests st') = stock i (all_chests st) + (if i = item then d else 0)" if "i \<noteq> []" for i
    using set_chest_stock [OF ix(1,2), of i c'] p1(4) [of i] x(3,5) z that ix(3)
    by (auto simp: st'_def all_chests_def chest_stock_def c0_def [symmetric] item_is_empty_def)
  then have "deposited item (all_chests st) q p (all_chests st') q' (p @ [transfer c' item d])"
    using st'ok d x(1) by (auto simp: deposited_def)
  moreover have "claim_round item s st q p = Some (st', q', p @ [transfer c' item d])"
    unfolding claim_round_def pick_def [symmetric] p1(1)
    using dc d by (simp add: c0_def st'_def)
  moreover have "length (nodes st') \<le> Suc (length (nodes st))" using p1(5) by (simp add: st'_def set_chest_def)
  ultimately show ?thesis using d x(1) p1(6) by (auto simp: st'_def)
qed

lemma deposited_trans:
  "deposited item cs q p cs1 q1 p1 \<Longrightarrow> deposited item cs1 q1 p1 cs2 q2 p2 \<Longrightarrow> deposited item cs q p cs2 q2 p2"
  by (auto simp: deposited_def)

lemma claim_loop_spec:
  assumes "int (length (nodes st)) + q \<le> max_node_id" "stores_ok st" "0 \<le> q" "stack_ok s" "item \<noteq> []"
  shows "\<exists>st' p'. claim_loop item s st q p = Some (st', p') \<and> deposited item (all_chests st) q p (all_chests st') 0 p'"
  using assms
proof (induction "nat q" arbitrary: st q p rule: less_induct)
  case less
  show ?case
  proof (cases "q = 0")
    case True
    then show ?thesis using less.prems by (subst claim_loop.simps) (auto simp: deposited_def stores_ok_def)
  next
    case False
    obtain st1 q1 p1 where r: "claim_round item s st q p = Some (st1, q1, p1)"
      "deposited item (all_chests st) q p (all_chests st1) q1 p1" "q1 < q"
      "length (nodes st1) \<le> Suc (length (nodes st))"
      using claim_round_spec [of st q s item p] less.prems False by auto
    have "stores_ok st1" "0 \<le> q1" using r(2) by (auto simp: deposited_def stores_ok_def)
    moreover have "int (length (nodes st1)) + q1 \<le> max_node_id" using r(3,4) less.prems(1) by linarith
    ultimately obtain st' p' where "claim_loop item s st1 q1 p1 = Some (st', p')"
       "deposited item (all_chests st1) q1 p1 (all_chests st') 0 p'"
      using less.hyps [of q1 st1 p1] r(3) less.prems by auto
    then show ?thesis using r False less.prems(3) deposited_trans [OF r(2)]
      by (subst claim_loop.simps) auto
  qed
qed

text \<open>The mutating deposit always returns and places the whole quantity: the item's stock grows
  by exactly the quantity, which is also the sum of the transfers, and no other item's stock
  changes, however many nodes it has to add.\<close>

theorem deposit_plan_places_all:
  assumes "stores_ok st" "0 < qty" "item \<noteq> []" "stack_ok s" "int (length (nodes st)) + qty \<le> max_node_id"
  shows "\<exists>st' plan. deposit_plan st item qty s = Some (st', plan) \<and> plan_total plan = qty \<and>
    stores_ok st' \<and>
    (\<forall>i. i \<noteq> [] \<longrightarrow> stock i (all_chests st') = stock i (all_chests st) + (if i = item then qty else 0))"
proof -
  obtain ns q p where f: "fill_nodes s item 0 (nodes st) qty [] = (ns, q, p)" by (metis prod_cases3)
  let ?st = "st\<lparr>nodes := ns\<rparr>"
  have d: "deposited item (all_chests st) qty [] (all_chests ?st) q p" "map node_id ns = map node_id (nodes st)"
    using fill_nodes_deposited [OF f] assms by (auto simp: stores_ok_def all_chests_def)
  then have "stores_ok ?st" "0 \<le> q" "q \<le> qty" "length ns = length (nodes st)"
    by (auto simp: deposited_def stores_ok_def dest: map_eq_imp_length_eq)
  then obtain st' p' where l: "claim_loop item s ?st q p = Some (st', p')"
      "deposited item (all_chests ?st) q p (all_chests st') 0 p'"
    using claim_loop_spec [of ?st q s item p] assms by auto
  have "deposit_plan st item qty s = Some (st', p')"
    using f l(1) assms(2,3) by (simp add: deposit_plan_def)
  then show ?thesis using deposited_trans [OF d(1) l(2)] by (auto simp: deposited_def stores_ok_def)
qed

section \<open>Loading\<close>

lemma load_entry_wf:
  assumes "load_entry sp w files e (ns, qs) = Some (ns', qs')" "\<forall>n \<in> set ns. node_wf sp n"
  shows "\<forall>n \<in> set ns'. node_wf sp n"
  using assms node_load_wf_raw
  by (auto simp: load_entry_def split: dir_entry.splits option.splits if_splits sum.splits)

lemma load_entry_total: "load_entry sp w files e r \<noteq> None"
  by (cases r) (auto simp: load_entry_def node_load_total split: dir_entry.splits option.splits if_splits sum.splits)

lemma load_entries_wf:
  "load_entries sp w files es (ns, qs) = Some (ns', qs') \<Longrightarrow> \<forall>n \<in> set ns. node_wf sp n \<Longrightarrow>
     \<forall>n \<in> set ns'. node_wf sp n"
proof (induction es arbitrary: ns qs)
  case (Cons e es)
  then obtain ms rs where "load_entry sp w files e (ns, qs) = Some (ms, rs)"
    "load_entries sp w files es (ms, rs) = Some (ns', qs')" by (auto split: option.splits)
  with Cons.IH Cons.prems(2) load_entry_wf show ?case by blast
qed simp

lemma load_entries_total: "load_entries sp w files es r \<noteq> None"
  by (induction es arbitrary: r) (auto simp: load_entry_total split: option.splits)

text \<open>Loading the storage never panics, and a storage it returns is anchored at the configured
  origin, holds only well-formed nodes in id order, and starts with node 0 when it has any.\<close>

theorem storage_load_wf:
  "\<exists>r qs. storage_load sp w files d = Some (r, qs) \<and>
    (case r of Inl e \<Rightarrow> True
     | Inr st \<Rightarrow> st_position st = sp \<and> list_all (node_wf sp) (nodes st) \<and> sorted (map node_id (nodes st)) \<and>
         (case nodes st of [] \<Rightarrow> True | n # _ \<Rightarrow> node_id n = 0))"
proof (cases d)
  case (DirEntries es)
  obtain ns qs where l: "load_entries sp w files es ([], []) = Some (ns, qs)"
    using load_entries_total [of sp w files es "([], [])"] by auto
  have "\<forall>n \<in> set ns. node_wf sp n" using load_entries_wf [OF l] by simp
  then have "list_all (node_wf sp) (sort_key node_id ns)" by (simp add: list_all_iff)
  then show ?thesis using DirEntries l
    by (auto simp: storage_load_def Let_def split: list.splits)
qed (auto simp: storage_load_def)

lemma node_wf_chests:
  assumes "node_wf sp n"
  shows "full_slots (chests n)"
    and "map chest_id (chests n) = map (\<lambda>j. node_id n * 4 + int j) [0..<4]"
    and "c \<in> set (chests n) \<Longrightarrow> empty_chest c \<Longrightarrow> held (amounts c) = 0"
proof -
  have c: "length (chests n) = 4" "check_chests (node_id n) 0 (chests n) = Inr ()"
    "0 \<le> node_id n" "node_id n \<le> 536870910"
    using assms by (auto simp: node_wf_def node_check_def max_node_id_val CHESTS_PER_NODE_def split: if_splits)
  then have i: "check_invariants (chests n ! j) (node_id n) (int j) = Inr ()" if "j < 4" for j
    using that by (simp add: check_chests_iff)
  show "full_slots (chests n)" using i c(1) by (auto simp: full_slots_def in_set_conv_nth check_invariants_iff)
  show "map chest_id (chests n) = map (\<lambda>j. node_id n * 4 + int j) [0..<4]"
  proof (rule nth_equalityI)
    fix j assume "j < length (map chest_id (chests n))"
    then have j: "j < 4" using c(1) by simp
    then have "chest_id (chests n ! j) = wrap_i32 (wrap_i32 (node_id n * 4) + int j)"
      using i [OF j] by (auto simp: check_invariants_iff CHESTS_PER_NODE_def)
    also have "\<dots> = node_id n * 4 + int j"
      unfolding wrap_i32_cong by (rule wrap_i32_id) (use c j in \<open>auto simp: in_i32_def i32_min_def i32_max_def\<close>)
    finally show "map chest_id (chests n) ! j = map (\<lambda>j. node_id n * 4 + int j) [0..<4] ! j"
      using j c(1) by simp
  qed (use c in simp)
  have "held xs = 0" if "\<not> list_ex (\<lambda>a. a > 0) xs" for xs using that by (induction xs) auto
  then show "held (amounts c) = 0" if "c \<in> set (chests n)" "empty_chest c"
    using that i c(1) by (auto simp: in_set_conv_nth check_invariants_iff)
qed

lemma distinct_chest_ids:
  assumes "\<forall>n \<in> set ns. node_wf sp n" "distinct (map node_id ns)"
  shows "distinct (map chest_id (concat (map chests ns)))"
  using assms
proof (induction ns)
  case (Cons n ns)
  have n: "map chest_id (chests n) = map (\<lambda>j. node_id n * 4 + int j) [0..<4]"
    by (rule node_wf_chests) (use Cons.prems in auto)
  have "chest_id c \<noteq> chest_id d" if "c \<in> set (chests n)" "m \<in> set ns" "d \<in> set (chests m)" for c d m
  proof -
    have m: "map chest_id (chests m) = map (\<lambda>j. node_id m * 4 + int j) [0..<4]"
      by (rule node_wf_chests) (use Cons.prems that in auto)
    have "chest_id c \<in> set (map chest_id (chests n))" "chest_id d \<in> set (map chest_id (chests m))" using that by auto
    then obtain j k where "j < 4" "k < 4" "chest_id c = node_id n * 4 + int j" "chest_id d = node_id m * 4 + int k"
      unfolding n m by auto
    moreover have "node_id n \<noteq> node_id m" using Cons.prems(2) that by auto
    ultimately show ?thesis by presburger
  qed
  moreover have "distinct (map chest_id (chests n))" unfolding n by (simp add: distinct_map inj_on_def)
  ultimately show ?case using Cons by (auto simp: distinct_map)
qed simp

lemma load_entries_ids:
  assumes "load_entries sp w files es (ns, qs) = Some (ns', qs')"
    "distinct (map node_id ns @ List.map_filter (\<lambda>e. case e of JsonFile s \<Rightarrow> parse_i32 s | _ \<Rightarrow> None) es)"
  shows "distinct (map node_id ns')"
  using assms
proof (induction es arbitrary: ns qs)
  case (Cons e es)
  let ?f = "\<lambda>e. case e of JsonFile s \<Rightarrow> parse_i32 s | _ \<Rightarrow> None"
  obtain ms rs where l: "load_entry sp w files e (ns, qs) = Some (ms, rs)"
    "load_entries sp w files es (ms, rs) = Some (ns', qs')"
    using Cons.prems(1) by (auto split: option.splits)
  have "ms = ns \<or> (\<exists>n i. ms = ns @ [n] \<and> ?f e = Some i \<and> node_id n = i)"
    using l(1) node_load_wf_raw
    by (auto simp: load_entry_def split: dir_entry.splits option.splits if_splits sum.splits)
  then have "distinct (map node_id ms @ List.map_filter ?f es)"
    using Cons.prems(2)
    by (auto simp: List.map_filter_simps split: option.splits) blast+
  then show ?case using Cons.IH l(2) by blast
qed simp

text \<open> When no two file names of the storage directory parse to the same number, the chest ids of
  a loaded storage are pairwise different and every chest has its 54 slots, so that the planners'
  results apply to it.\<close>

theorem storage_load_distinct:
  assumes "storage_load sp w files (DirEntries es) = Some (Inr st, qs)"
    "distinct (List.map_filter (\<lambda>e. case e of JsonFile s \<Rightarrow> parse_i32 s | _ \<Rightarrow> None) es)"
  shows "distinct (map chest_id (all_chests st)) \<and> full_slots (all_chests st)"
proof -
  obtain ns where l: "load_entries sp w files es ([], []) = Some (ns, qs)" "nodes st = sort_key node_id ns"
    using assms(1) by (auto simp: storage_load_def Let_def split: option.splits if_splits prod.splits)
  have wf: "\<forall>n \<in> set (nodes st). node_wf sp n" using load_entries_wf [OF l(1)] l(2) by simp
  have "distinct (map node_id ns)" using load_entries_ids [OF l(1)] assms(2) by simp
  then have "distinct (map node_id (nodes st))" using l(2) by (simp add: distinct_map)
  with wf have "distinct (map chest_id (all_chests st))" unfolding all_chests_def by (rule distinct_chest_ids)
  moreover have "full_slots (all_chests st)"
    using wf node_wf_chests(1) by (fastforce simp: all_chests_def full_slots_def)
  ultimately show ?thesis ..
qed

text \<open>Two file names that parse to the same number make the storage hold a node twice: with
  \<open>0.json\<close> and \<open>00.json\<close> present, the 7 iron of the node count as 14.\<close>

theorem storage_load_alias:
  "(case storage_load sample_origin True (\<lambda>i. Parsed sample_node) (DirEntries [JsonFile ''0'', JsonFile ''00'']) of
      Some (Inr st, _) \<Rightarrow> total_item_amount st ''iron'' | _ \<Rightarrow> 0) =
   2 * (case storage_load sample_origin True (\<lambda>i. Parsed sample_node) (DirEntries [JsonFile ''0'']) of
      Some (Inr st, _) \<Rightarrow> total_item_amount st ''iron'' | _ \<Rightarrow> 0) \<and>
   (case storage_load sample_origin True (\<lambda>i. Parsed sample_node) (DirEntries [JsonFile ''0'']) of
      Some (Inr st, _) \<Rightarrow> total_item_amount st ''iron'' | _ \<Rightarrow> 0) = 7"
  by code_simp

section \<open>Witnesses\<close>

theorem deposit_plan_places_all_witness:
  "\<exists>st' plan. deposit_plan sample_storage ''iron'' 100000 1 = Some (st', plan) \<and> plan_total plan = 100000 \<and>
    stores_ok st' \<and>
    (\<forall>i. i \<noteq> [] \<longrightarrow> stock i (all_chests st') = stock i (all_chests sample_storage) + (if i = ''iron'' then 100000 else 0))"
  by (rule deposit_plan_places_all) (code_simp, simp, simp, simp add: stack_ok_def, code_simp)

definition sample_directory :: "dir_entry list" where
  "sample_directory = [OtherEntry, JsonFile ''0'', JsonFile ''notes'', EntryError]"

lemma sample_directory_load:
  "storage_load sample_origin True (\<lambda>i. Parsed sample_node) (DirEntries sample_directory) =
     Some (Inr sample_storage, [])"
  by code_simp

theorem storage_load_distinct_witness:
  "distinct (map chest_id (all_chests sample_storage)) \<and> full_slots (all_chests sample_storage)"
  by (rule storage_load_distinct [OF sample_directory_load]) code_simp

end
