(* ===== verification/Order_Queue.thy ===== *)
theory Order_Queue
  imports Errors "HOL-Library.Word" "HOL-Library.Sublist" Float64
begin

text \<open>
  The persistent order queue of \<^verbatim>\<open>src/store/queue.rs\<close>. The system is the queue in memory
  together with the queue file; an operation that writes takes the outcome of the write.
  The interface a client relies on, a bounded durable first-in first-out store, is the locale
  \<open>fifo_store\<close>; the queue interprets it.
\<close>

section \<open>First-in first-out stores\<close>

datatype ('i, 'k, 'd) fifo_op = Push 'i | Pop 'k | Drop 'd

locale fifo_store =
  fixes content :: "'s \<Rightarrow> 'a list"
    and push :: "'i \<Rightarrow> 's \<Rightarrow> ('e + 'r) \<times> 's"
    and pop :: "'k \<Rightarrow> 's \<Rightarrow> ('e + 'a) \<times> 's"
    and drop_one :: "'d \<Rightarrow> 's \<Rightarrow> ('e + unit) \<times> 's"
    and accepted :: "'i \<Rightarrow> 's \<Rightarrow> 'a"
  assumes push_ok: "push x s = (Inr r, s') \<Longrightarrow> content s' = content s @ [accepted x s]"
    and push_err: "push x s = (Inl e, s') \<Longrightarrow> s' = s"
    and pop_ok: "pop k s = (Inr a, s') \<Longrightarrow> content s = a # content s'"
    and pop_err: "pop k s = (Inl e, s') \<Longrightarrow> s' = s"
    and drop_ok: "drop_one d s = (Inr u, s') \<Longrightarrow> \<exists>xs a ys. content s = xs @ a # ys \<and> content s' = xs @ ys"
    and drop_err: "drop_one d s = (Inl e, s') \<Longrightarrow> s' = s"
begin

text \<open>A run returns the elements served and the elements accepted, in order, and the final state.\<close>

fun run :: "('i, 'k, 'd) fifo_op list \<Rightarrow> 's \<Rightarrow> 'a list \<times> 'a list \<times> 's" where
  "run [] s = ([], [], s)"
| "run (Push x # os) s =
     (case push x s of
        (Inl e, s') \<Rightarrow> run os s'
      | (Inr r, s') \<Rightarrow> (case run os s' of (served, acc, t) \<Rightarrow> (served, accepted x s # acc, t)))"
| "run (Pop k # os) s =
     (case pop k s of
        (Inl e, s') \<Rightarrow> run os s'
      | (Inr a, s') \<Rightarrow> (case run os s' of (served, acc, t) \<Rightarrow> (a # served, acc, t)))"
| "run (Drop d # os) s = run os (snd (drop_one d s))"

text \<open>No run reorders: what was served, followed by what still waits, is what waited at the start
  followed by what was accepted, with the dropped elements left out.\<close>

lemma run_fifo: "run os s = (served, acc, t) \<Longrightarrow> subseq (served @ content t) (content s @ acc)"
proof (induction os s arbitrary: served acc t rule: run.induct)
  case (2 x os s)
  show ?case
  proof (cases "push x s")
    case (Pair r s')
    show ?thesis
    proof (cases r)
      case (Inl e)
      then have "s' = s" using Pair push_err by simp
      then show ?thesis using 2 Pair Inl by simp
    next
      case (Inr b)
      obtain sv ac u where u: "run os s' = (sv, ac, u)" by (metis prod_cases3)
      have "subseq (sv @ content u) (content s' @ ac)" using 2(2) Pair Inr u by simp
      then show ?thesis using 2(3) Pair Inr u push_ok by auto
    qed
  qed
next
  case (3 k os s)
  show ?case
  proof (cases "pop k s")
    case (Pair r s')
    show ?thesis
    proof (cases r)
      case (Inl e)
      then have "s' = s" using Pair pop_err by simp
      then show ?thesis using 3 Pair Inl by simp
    next
      case (Inr a)
      obtain sv ac u where u: "run os s' = (sv, ac, u)" by (metis prod_cases3)
      have "subseq (sv @ content u) (content s' @ ac)" using 3(2) Pair Inr u by simp
      then show ?thesis using 3(3) Pair Inr u pop_ok by auto
    qed
  qed
next
  case (4 d os s)
  obtain r s' where d: "drop_one d s = (r, s')" by force
  have ih: "subseq (served @ content t) (content s' @ acc)" using 4 d by simp
  have "subseq (content s') (content s)"
  proof (cases r)
    case (Inl e) then show ?thesis using drop_err d by auto
  next
    case (Inr u)
    then obtain xs a ys where "content s = xs @ a # ys" "content s' = xs @ ys" using drop_ok d by blast
    then show ?thesis by (auto intro!: list_emb_append_mono)
  qed
  then have "subseq (content s' @ acc) (content s @ acc)" by (simp add: list_emb_append_mono)
  then show ?case using ih subseq_order.trans by blast
qed simp

end

section \<open>The queue\<close>

datatype queued_order_type = QBuy | QSell | QDeposit "f64 option" | QWithdraw "f64 option"

type_synonym u64 = "64 word"

record queued_order =
  qo_id :: u64
  qo_user_uuid :: string
  qo_username :: string
  qo_order_type :: queued_order_type
  qo_item :: string
  qo_quantity :: nat
  qo_queued_at :: int

record order_queue =
  orders :: "queued_order list"
  next_id :: u64

record queue_sys =
  mem :: order_queue
  disk :: "order_queue file_state"

datatype queue_error =
    QueueFull nat
  | TooManyPending nat
  | TemporarilyUnavailable
  | QueueEmpty
  | HeadChanged u64 u64
  | PopNotPersisted
  | CancelNotPersisted
  | NotYourOrder
  | OrderNotFound u64

definition queue_new :: order_queue where
  "queue_new = \<lparr>orders = [], next_id = 1\<rparr>"

text \<open>The queue file is moved aside when it cannot be used; \<open>quarantine_ok\<close> is the outcome.\<close>

definition queue_load ::
  "bool \<Rightarrow> order_queue file_state \<Rightarrow> (string + order_queue) \<times> order_queue file_state" where
  "queue_load quarantine_ok f =
     (case f of
        Absent \<Rightarrow> (Inr queue_new, f)
      | Unreadable \<Rightarrow> if quarantine_ok then (Inr queue_new, Absent) else (Inl ''read error'', f)
      | Malformed \<Rightarrow> if quarantine_ok then (Inr queue_new, Absent) else (Inl ''InvalidData'', f)
      | Parsed q \<Rightarrow> (Inr q, f))"

definition queue_save :: "bool \<Rightarrow> order_queue \<Rightarrow> order_queue file_state \<Rightarrow> bool \<times> order_queue file_state" where
  "queue_save write_ok q f = (if write_ok then (True, Parsed q) else (False, f))"

definition user_order_count :: "order_queue \<Rightarrow> string \<Rightarrow> nat" where
  "user_order_count q uuid = length (filter (\<lambda>o1. qo_user_uuid o1 = uuid) (orders q))"

record add_request =
  ar_user_uuid :: string
  ar_username :: string
  ar_order_type :: queued_order_type
  ar_item :: string
  ar_quantity :: nat
  ar_now :: int
  ar_write_ok :: bool

definition queued_order_new :: "u64 \<Rightarrow> add_request \<Rightarrow> queued_order" where
  "queued_order_new i r = \<lparr>qo_id = i, qo_user_uuid = ar_user_uuid r, qo_username = ar_username r,
     qo_order_type = ar_order_type r, qo_item = ar_item r, qo_quantity = ar_quantity r, qo_queued_at = ar_now r\<rparr>"

definition queue_add :: "add_request \<Rightarrow> queue_sys \<Rightarrow> (queue_error + u64 \<times> nat) \<times> queue_sys" where
  "queue_add r s =
     (let q = mem s; user_count = user_order_count q (ar_user_uuid r) in
      if length (orders q) \<ge> MAX_QUEUE_SIZE then (Inl (QueueFull (length (orders q))), s)
      else if user_count \<ge> MAX_ORDERS_PER_USER then (Inl (TooManyPending user_count), s)
      else
        (let i = next_id q;
             q1 = q\<lparr>next_id := next_id q + 1\<rparr>;
             q2 = q1\<lparr>orders := orders q1 @ [queued_order_new i r]\<rparr>;
             position = length (orders q2);
             (saved, d) = queue_save (ar_write_ok r) q2 (disk s)
         in if \<not> saved then
              (let q3 = q2\<lparr>orders := butlast (orders q2)\<rparr>;
                   q4 = (if next_id q3 = i + 1 then q3\<lparr>next_id := i\<rparr> else q3)
               in (Inl TemporarilyUnavailable, s\<lparr>mem := q4, disk := d\<rparr>))
            else (Inr (i, position), s\<lparr>mem := q2, disk := d\<rparr>)))"

definition peek_front :: "order_queue \<Rightarrow> queued_order option" where
  "peek_front q = (case orders q of [] \<Rightarrow> None | o1 # _ \<Rightarrow> Some o1)"

definition pop_committed :: "u64 \<times> bool \<Rightarrow> queue_sys \<Rightarrow> (queue_error + queued_order) \<times> queue_sys" where
  "pop_committed = (\<lambda>(order_id, write_ok) s.
     (case orders (mem s) of
        [] \<Rightarrow> (Inl QueueEmpty, s)
      | front # rest \<Rightarrow>
          if qo_id front \<noteq> order_id then (Inl (HeadChanged order_id (qo_id front)), s)
          else
            (let projected = \<lparr>orders = rest, next_id = next_id (mem s)\<rparr>;
                 (saved, d) = queue_save write_ok projected (disk s)
             in if \<not> saved then (Inl PopNotPersisted, s\<lparr>disk := d\<rparr>)
                else (Inr front, s\<lparr>mem := (mem s)\<lparr>orders := rest\<rparr>, disk := d\<rparr>))))"

fun position_of :: "('a \<Rightarrow> bool) \<Rightarrow> 'a list \<Rightarrow> nat option" where
  "position_of p [] = None"
| "position_of p (x # xs) = (if p x then Some 0 else map_option Suc (position_of p xs))"

definition remove_at :: "nat \<Rightarrow> 'a list \<Rightarrow> 'a list" where
  "remove_at k xs = take k xs @ drop (Suc k) xs"

definition insert_at :: "nat \<Rightarrow> 'a \<Rightarrow> 'a list \<Rightarrow> 'a list" where
  "insert_at k x xs = take k xs @ x # drop k xs"

definition queue_cancel :: "string \<times> u64 \<times> bool \<Rightarrow> queue_sys \<Rightarrow> (queue_error + unit) \<times> queue_sys" where
  "queue_cancel = (\<lambda>(uuid, order_id, write_ok) s.
     (let q = mem s in
      case position_of (\<lambda>o1. qo_id o1 = order_id \<and> qo_user_uuid o1 = uuid) (orders q) of
        Some pos \<Rightarrow>
          (let order = orders q ! pos;
               q1 = q\<lparr>orders := remove_at pos (orders q)\<rparr>;
               (saved, d) = queue_save write_ok q1 (disk s)
           in if \<not> saved
              then (Inl CancelNotPersisted, s\<lparr>mem := q1\<lparr>orders := insert_at pos order (orders q1)\<rparr>, disk := d\<rparr>)
              else (Inr (), s\<lparr>mem := q1, disk := d\<rparr>))
      | None \<Rightarrow>
          if list_ex (\<lambda>o1. qo_id o1 = order_id) (orders q) then (Inl NotYourOrder, s)
          else (Inl (OrderNotFound order_id), s)))"

fun with_position :: "nat \<Rightarrow> 'a list \<Rightarrow> ('a \<times> nat) list" where
  "with_position k [] = []"
| "with_position k (x # xs) = (x, k) # with_position (Suc k) xs"

definition get_user_orders :: "order_queue \<Rightarrow> string \<Rightarrow> (queued_order \<times> nat) list" where
  "get_user_orders q uuid = filter (\<lambda>(o1, _). qo_user_uuid o1 = uuid) (with_position 1 (orders q))"

definition estimate_wait :: "nat \<Rightarrow> string" where
  "estimate_wait position =
     (let orders_ahead = position - 1 in
      if orders_ahead = 0 then ''next in line''
      else (let seconds = orders_ahead * 30 in
        if seconds < 60 then ''~'' @ dec seconds @ ''s''
        else ''~'' @ dec ((seconds + 30) div 60) @ '' min''))"

section \<open>Facts about one operation\<close>

lemma insert_remove: "k < length xs \<Longrightarrow> insert_at k (xs ! k) (remove_at k xs) = xs"
  by (simp add: insert_at_def remove_at_def min_def id_take_nth_drop [symmetric])

lemma position_of_Some: "position_of p xs = Some k \<Longrightarrow> k < length xs \<and> p (xs ! k)"
  by (induction xs arbitrary: k) (auto split: if_splits)

lemma queue_add_ok:
  assumes "queue_add r s = (Inr (i, pos), s')"
  shows "i = next_id (mem s) \<and> pos = Suc (length (orders (mem s))) \<and>
    length (orders (mem s)) < MAX_QUEUE_SIZE \<and> user_order_count (mem s) (ar_user_uuid r) < MAX_ORDERS_PER_USER \<and>
    mem s' = \<lparr>orders = orders (mem s) @ [queued_order_new i r], next_id = next_id (mem s) + 1\<rparr> \<and>
    disk s' = Parsed (mem s')"
  using assms by (auto simp: queue_add_def queue_save_def Let_def split: if_splits)

lemma queue_add_err: "queue_add r s = (Inl e, s') \<Longrightarrow> s' = s"
  by (auto simp: queue_add_def queue_save_def Let_def split: if_splits)

lemma pop_committed_ok:
  assumes "pop_committed (i, w) s = (Inr a, s')"
  shows "orders (mem s) = a # orders (mem s') \<and> qo_id a = i \<and> next_id (mem s') = next_id (mem s) \<and>
    disk s' = Parsed (mem s')"
  using assms by (auto simp: pop_committed_def queue_save_def Let_def split: if_splits list.splits)

lemma pop_committed_err: "pop_committed k s = (Inl e, s') \<Longrightarrow> s' = s"
  by (auto simp: pop_committed_def queue_save_def Let_def split: if_splits list.splits prod.splits)

lemma queue_cancel_ok:
  assumes "queue_cancel (uuid, i, w) s = (Inr u, s')"
  shows "\<exists>k < length (orders (mem s)). qo_id (orders (mem s) ! k) = i \<and> qo_user_uuid (orders (mem s) ! k) = uuid \<and>
    orders (mem s') = remove_at k (orders (mem s)) \<and> next_id (mem s') = next_id (mem s) \<and> disk s' = Parsed (mem s')"
  using assms position_of_Some
  by (fastforce simp: queue_cancel_def queue_save_def Let_def split: if_splits option.splits)

lemma queue_cancel_err: "queue_cancel d s = (Inl e, s') \<Longrightarrow> s' = s"
  by (auto simp: queue_cancel_def queue_save_def Let_def insert_remove position_of_Some
      split: if_splits option.splits prod.splits)

lemma remove_at_split: "k < length xs \<Longrightarrow> xs = take k xs @ xs ! k # drop (Suc k) xs"
  by (rule id_take_nth_drop)

definition waiting :: "queue_sys \<Rightarrow> queued_order list" where
  "waiting s = orders (mem s)"

definition accepted_order :: "add_request \<Rightarrow> queue_sys \<Rightarrow> queued_order" where
  "accepted_order r s = queued_order_new (next_id (mem s)) r"

interpretation order_fifo: fifo_store waiting queue_add pop_committed queue_cancel accepted_order
proof (unfold_locales, unfold waiting_def accepted_order_def)
  fix r s b s' assume "queue_add r s = (Inr b, s')"
  then show "orders (mem s') = orders (mem s) @ [queued_order_new (next_id (mem s)) r]"
    by (cases b) (auto dest: queue_add_ok)
next
  fix k s a s' assume "pop_committed k s = (Inr a, s')"
  then show "orders (mem s) = a # orders (mem s')" by (cases k) (auto dest: pop_committed_ok)
next
  fix d s u s' assume "queue_cancel d s = (Inr u, s')"
  moreover obtain uuid i w where "d = (uuid, i, w)" by (metis prod_cases3)
  ultimately obtain k where "k < length (orders (mem s))" "orders (mem s') = remove_at k (orders (mem s))"
    using queue_cancel_ok by blast
  then show "\<exists>xs a ys. orders (mem s) = xs @ a # ys \<and> orders (mem s') = xs @ ys"
    using remove_at_split unfolding remove_at_def by blast
qed (auto dest: queue_add_err pop_committed_err queue_cancel_err)

section \<open>Invariant\<close>

definition queue_wf :: "order_queue \<Rightarrow> bool" where
  "queue_wf q \<longleftrightarrow> sorted_wrt (<) (map qo_id (orders q)) \<and> (\<forall>o1 \<in> set (orders q). qo_id o1 < next_id q) \<and>
     length (orders q) \<le> MAX_QUEUE_SIZE \<and> (\<forall>u. user_order_count q u \<le> MAX_ORDERS_PER_USER)"

text \<open>A restart from the file finds the queue that is in memory.\<close>

definition durable :: "queue_sys \<Rightarrow> bool" where
  "durable s \<longleftrightarrow> fst (queue_load True (disk s)) = Inr (mem s)"

text \<open>The steps of the program on the queue: every operation with every outcome of the write, and a
  restart. Ids are 64 bits wide; the last one is never handed out.\<close>

inductive queue_step :: "queue_sys \<Rightarrow> queue_sys \<Rightarrow> bool" where
  add: "queue_add r s = (x, s') \<Longrightarrow> next_id (mem s) < - 1 \<Longrightarrow> queue_step s s'"
| pop: "pop_committed k s = (x, s') \<Longrightarrow> queue_step s s'"
| cancel: "queue_cancel d s = (x, s') \<Longrightarrow> queue_step s s'"
| restart: "queue_load b (disk s) = (Inr q, f) \<Longrightarrow> queue_step s \<lparr>mem = q, disk = f\<rparr>"

inductive_cases queue_stepE: "queue_step s s'"

lemma less_succ_word: "(n :: u64) < - 1 \<Longrightarrow> n < n + 1"
proof -
  assume "n < - 1"
  then have "unat n < 2 ^ 64 - 1" by (simp add: word_less_nat_alt unsigned_minus_1_eq_mask mask_eq_exp_minus_1)
  then show ?thesis by (simp add: word_less_nat_alt unat_word_ariths)
qed

lemma sorted_wrt_subseq: "subseq xs ys \<Longrightarrow> sorted_wrt R ys \<Longrightarrow> sorted_wrt R xs"
  by (induction rule: list_emb.induct) (auto dest: list_emb_set)

lemma queue_wf_add:
  assumes "queue_wf q" "length (orders q) < MAX_QUEUE_SIZE" "user_order_count q (ar_user_uuid r) < MAX_ORDERS_PER_USER"
    "next_id q < - 1"
  shows "queue_wf \<lparr>orders = orders q @ [queued_order_new (next_id q) r], next_id = next_id q + 1\<rparr>"
proof -
  have n: "next_id q < next_id q + 1" using assms(4) by (rule less_succ_word)
  then have "\<forall>o1 \<in> set (orders q). qo_id o1 < next_id q + 1"
    using assms(1) by (auto simp: queue_wf_def intro: order.strict_trans)
  then show ?thesis
    using assms n by (auto simp: queue_wf_def sorted_wrt_append queued_order_new_def user_order_count_def less_Suc_eq_le Suc_le_eq)
qed

lemma queue_wf_sub:
  assumes "queue_wf q" "subseq xs (orders q)"
  shows "queue_wf (q\<lparr>orders := xs\<rparr>)"
proof -
  have "subseq (map qo_id xs) (map qo_id (orders q))" using assms(2) by (rule subseq_map)
  then have "sorted_wrt (<) (map qo_id xs)"
    using assms(1) sorted_wrt_subseq by (auto simp: queue_wf_def)
  moreover have "set xs \<subseteq> set (orders q)" using assms(2) by (auto dest: list_emb_set)
  moreover have "length (filter P xs) \<le> length (filter P (orders q))" for P
    using subseq_filter [OF assms(2)] by (rule list_emb_length)
  ultimately show ?thesis
    using assms list_emb_length [OF assms(2)]
    by (fastforce simp: queue_wf_def user_order_count_def intro: order_trans)
qed

lemma remove_at_subseq: "subseq (remove_at k xs) xs"
proof -
  have "subseq (take k xs @ drop (Suc k) xs) (take k xs @ drop k xs)"
    by (rule list_emb_append_mono) (simp, metis drop_drop plus_1_eq_Suc suffix_drop suffix_imp_subseq)
  then show ?thesis by (simp add: remove_at_def)
qed

definition queue_inv :: "queue_sys \<Rightarrow> bool" where
  "queue_inv s \<longleftrightarrow> queue_wf (mem s) \<and> durable s"

lemma durable_saved: "disk s = Parsed (mem s) \<Longrightarrow> durable s"
  by (simp add: durable_def queue_load_def)

lemma queue_new_wf: "queue_wf queue_new"
  by (simp add: queue_wf_def queue_new_def user_order_count_def)

lemma queue_step_inv: "queue_inv s \<Longrightarrow> queue_step s s' \<Longrightarrow> queue_inv s'"
proof (erule queue_stepE)
  fix r x assume inv: "queue_inv s" and a: "queue_add r s = (x, s')" and n: "next_id (mem s) < - 1"
  show "queue_inv s'"
  proof (cases x)
    case (Inl e) then show ?thesis using queue_add_err a inv by auto
  next
    case (Inr b)
    obtain i pos where b: "b = (i, pos)" by force
    note f = queue_add_ok [OF a [unfolded Inr b]]
    then show ?thesis using queue_wf_add [of "mem s" r] inv n durable_saved by (simp add: queue_inv_def)
  qed
next
  fix k x assume inv: "queue_inv s" and a: "pop_committed k s = (x, s')"
  show "queue_inv s'"
  proof (cases x)
    case (Inl e) then show ?thesis using pop_committed_err [of k s e s'] a inv by simp
  next
    case (Inr b)
    obtain i w1 where k: "k = (i, w1)" by force
    note f = pop_committed_ok [OF a [unfolded Inr k]]
    have "mem s' = mem s\<lparr>orders := orders (mem s')\<rparr>" using f by simp
    moreover have "subseq (orders (mem s')) (orders (mem s))" using f by auto
    ultimately have "queue_wf (mem s')" using queue_wf_sub [of "mem s"] inv by (metis queue_inv_def)
    then show ?thesis using f durable_saved by (simp add: queue_inv_def)
  qed
next
  fix d x assume inv: "queue_inv s" and a: "queue_cancel d s = (x, s')"
  show "queue_inv s'"
  proof (cases x)
    case (Inl e) then show ?thesis using queue_cancel_err [of d s e s'] a inv by simp
  next
    case (Inr b)
    obtain u i w1 where d: "d = (u, i, w1)" by (metis prod_cases3)
    obtain k where f: "orders (mem s') = remove_at k (orders (mem s))" "next_id (mem s') = next_id (mem s)"
      "disk s' = Parsed (mem s')" using queue_cancel_ok [OF a [unfolded Inr d]] by auto
    have "mem s' = mem s\<lparr>orders := orders (mem s')\<rparr>" using f by simp
    then have "queue_wf (mem s')" using queue_wf_sub [of "mem s"] inv remove_at_subseq f(1) by (metis queue_inv_def)
    then show ?thesis using f(3) durable_saved by (simp add: queue_inv_def)
  qed
next
  fix b q f assume inv: "queue_inv s" and a: "queue_load b (disk s) = (Inr q, f)" and s': "s' = \<lparr>mem = q, disk = f\<rparr>"
  have "q = mem s" using inv a by (auto simp: queue_inv_def durable_def queue_load_def split: file_state.splits if_splits)
  moreover have "fst (queue_load True f) = Inr q"
    using a by (auto simp: queue_load_def split: file_state.splits if_splits)
  ultimately show "queue_inv s'" using inv s' by (simp add: queue_inv_def durable_def)
qed

interpretation queue_invariant: step_invariant queue_step queue_inv
  by unfold_locales (rule queue_step_inv)

section \<open>Properties\<close>

text \<open>In every state the program can reach from an empty start, through any interleaving of
  additions, committed pops, cancellations and restarts, with any writes failing, the queue is
  within its global and per-user caps, its ids increase strictly and stay below the counter, and
  the queue file holds exactly the queue in memory.\<close>

theorem queue_reachable:
  assumes "queue_step\<^sup>*\<^sup>* \<lparr>mem = queue_new, disk = Absent\<rparr> s"
  shows "queue_wf (mem s) \<and> durable s"
proof -
  have "queue_inv \<lparr>mem = queue_new, disk = Absent\<rparr>"
    using queue_new_wf by (simp add: queue_inv_def durable_def queue_load_def)
  then show ?thesis using queue_invariant.reachable_inv [OF assms] by (simp add: queue_inv_def)
qed

text \<open>A refused or failed operation changes neither the queue in memory nor the queue file.\<close>

theorem queue_failure_atomic:
  "(isl (fst (queue_add r s)) \<longrightarrow> snd (queue_add r s) = s) \<and>
   (isl (fst (pop_committed k s)) \<longrightarrow> snd (pop_committed k s) = s) \<and>
   (isl (fst (queue_cancel d s)) \<longrightarrow> snd (queue_cancel d s) = s)"
  using queue_add_err [of r s] pop_committed_err [of k s] queue_cancel_err [of d s]
  by (cases "queue_add r s"; cases "pop_committed k s"; cases "queue_cancel d s") (auto simp: isl_def)


text \<open> A cancellation that succeeds removes exactly one order, the one with the given id, and only
  when it belongs to the caller.\<close>

theorem queue_cancel_own:
  assumes "queue_cancel (uuid, i, w) s = (Inr u, s')"
  shows "\<exists>xs o1 ys. orders (mem s) = xs @ o1 # ys \<and> orders (mem s') = xs @ ys \<and> qo_id o1 = i \<and> qo_user_uuid o1 = uuid"
proof -
  obtain k where k: "k < length (orders (mem s))" "qo_id (orders (mem s) ! k) = i" "qo_user_uuid (orders (mem s) ! k) = uuid"
    "orders (mem s') = remove_at k (orders (mem s))" using queue_cancel_ok [OF assms] by blast
  have "orders (mem s) = take k (orders (mem s)) @ (orders (mem s) ! k) # drop (Suc k) (orders (mem s))"
    using k(1) by (rule remove_at_split)
  then show ?thesis using k(2-4) unfolding remove_at_def by blast
qed

text \<open>The front order can always be taken: a committed pop of the order \<open>peek_front\<close> shows
  returns that order as soon as the write succeeds.\<close>

theorem peek_then_pop:
  assumes "peek_front (mem s) = Some o1"
  shows "\<exists>s'. pop_committed (qo_id o1, True) s = (Inr o1, s') \<and> orders (mem s) = o1 # orders (mem s')"
  using assms by (auto simp: peek_front_def pop_committed_def queue_save_def Let_def split: list.splits)

section \<open>Witnesses\<close>

definition sample_request :: "string \<Rightarrow> bool \<Rightarrow> add_request" where
  "sample_request u ok = \<lparr>ar_user_uuid = u, ar_username = u, ar_order_type = QBuy, ar_item = ''iron'',
     ar_quantity = 5, ar_now = 0, ar_write_ok = ok\<rparr>"

definition sample_empty :: queue_sys where
  "sample_empty = \<lparr>mem = queue_new, disk = Absent\<rparr>"

definition sample_one :: queue_sys where
  "sample_one = snd (queue_add (sample_request ''a'' True) sample_empty)"

lemma sample_failures:
  "isl (fst (queue_add (sample_request ''a'' False) sample_empty))"
  "isl (fst (pop_committed (1, True) sample_empty))"
  "isl (fst (queue_cancel (''b'', 1, True) sample_one))"
  by code_simp+

theorem queue_reachable_witness: "queue_wf (mem sample_one) \<and> durable sample_one"
proof (rule queue_reachable)
  have "queue_step sample_empty sample_one"
    by (rule queue_step.add [of "sample_request ''a'' True" _ "fst (queue_add (sample_request ''a'' True) sample_empty)"])
      (simp add: sample_one_def, code_simp)
  then show "queue_step\<^sup>*\<^sup>* \<lparr>mem = queue_new, disk = Absent\<rparr> sample_one" by (simp add: sample_empty_def)
qed

theorem queue_failure_atomic_witness:
  "snd (queue_add (sample_request ''a'' False) sample_empty) = sample_empty \<and>
   snd (pop_committed (1, True) sample_empty) = sample_empty \<and>
   snd (queue_cancel (''b'', 1, True) sample_one) = sample_one"
  using queue_failure_atomic [of "sample_request ''a'' False" sample_empty "(1, True)" "(''b'', 1, True)"]
    queue_failure_atomic [of "sample_request ''a'' False" sample_empty "(1, True)" "(''b'', 1, True)"]
    queue_failure_atomic [of "sample_request ''a'' False" sample_one "(1, True)" "(''b'', 1, True)"]
    sample_failures by blast

definition sample_two :: queue_sys where
  "sample_two = snd (queue_add (sample_request ''b'' True) sample_one)"

definition sample_served :: queue_sys where
  "sample_served = snd (pop_committed (1, True) sample_two)"

lemma sample_steps:
  "queue_add (sample_request ''a'' True) sample_empty = (Inr (1, 1), sample_one)"
  "queue_add (sample_request ''b'' True) sample_one = (Inr (2, 2), sample_two)"
  "pop_committed (1, True) sample_two = (Inr (queued_order_new 1 (sample_request ''a'' True)), sample_served)"
  by code_simp+

lemma sample_run:
  "order_fifo.run [Push (sample_request ''a'' True), Push (sample_request ''b'' True), Pop (1, True)] sample_empty =
     ([queued_order_new 1 (sample_request ''a'' True)],
      [accepted_order (sample_request ''a'' True) sample_empty, accepted_order (sample_request ''b'' True) sample_one],
      sample_served)"
  by (simp add: sample_steps)


theorem queue_cancel_own_witness:
  "\<exists>xs o1 ys. orders (mem sample_one) = xs @ o1 # ys \<and>
     orders (mem (snd (queue_cancel (''a'', 1, True) sample_one))) = xs @ ys \<and> qo_id o1 = 1 \<and> qo_user_uuid o1 = ''a''"
  by (rule queue_cancel_own [of _ _ True _ "()"]) code_simp

theorem peek_then_pop_witness:
  "\<exists>s'. pop_committed (qo_id (queued_order_new 1 (sample_request ''a'' True)), True) sample_one =
       (Inr (queued_order_new 1 (sample_request ''a'' True)), s') \<and>
     orders (mem sample_one) = queued_order_new 1 (sample_request ''a'' True) # orders (mem s')"
  by (rule peek_then_pop) code_simp

end
