(* ===== verification/Trade_State.thy ===== *)
theory Trade_State
  imports Order_Queue Storage
begin

text \<open>
  The trade lifecycle of \<^verbatim>\<open>src/store/trade_state.rs\<close>: the phases, the transitions with their typed
  errors, and the mirror file of the trade in flight. The step relation \<open>trade_step\<close> collects the
  successful transitions.
\<close>

section \<open>States and transitions\<close>

record trade_item =
  ti_item :: string
  ti_amount :: i32

record trade_result =
  items_received :: "trade_item list"

record transition_error =
  te_from :: string
  te_to :: string

record completed_trade =
  ct_order :: queued_order
  ct_item :: string
  ct_quantity :: i32
  ct_currency_amount :: f64

datatype trade_state =
    Queued queued_order
  | Withdrawing queued_order "chest_transfer list"
  | Trading queued_order "chest_transfer list"
  | Depositing queued_order trade_result "chest_transfer list"
  | Committed completed_trade
  | RolledBack queued_order string

definition trade_state_new :: "queued_order \<Rightarrow> trade_state" where
  "trade_state_new o1 = Queued o1"

fun phase :: "trade_state \<Rightarrow> string" where
  "phase (Queued _) = ''queued''"
| "phase (Withdrawing _ _) = ''withdrawing''"
| "phase (Trading _ _) = ''trading''"
| "phase (Depositing _ _ _) = ''depositing''"
| "phase (Committed _) = ''committed''"
| "phase (RolledBack _ _) = ''rolled_back''"

fun is_terminal :: "trade_state \<Rightarrow> bool" where
  "is_terminal (Committed _) = True"
| "is_terminal (RolledBack _ _) = True"
| "is_terminal _ = False"

fun trade_order :: "trade_state \<Rightarrow> queued_order" where
  "trade_order (Queued o1) = o1"
| "trade_order (Withdrawing o1 _) = o1"
| "trade_order (Trading o1 _) = o1"
| "trade_order (Depositing o1 _ _) = o1"
| "trade_order (RolledBack o1 _) = o1"
| "trade_order (Committed c) = ct_order c"

fun begin_withdrawal :: "chest_transfer list \<Rightarrow> trade_state \<Rightarrow> transition_error + trade_state" where
  "begin_withdrawal plan (Queued o1) = Inr (Withdrawing o1 plan)"
| "begin_withdrawal plan other = Inl \<lparr>te_from = phase other, te_to = ''begin_withdrawal''\<rparr>"

fun begin_trading :: "trade_state \<Rightarrow> transition_error + trade_state" where
  "begin_trading (Withdrawing o1 plan) = Inr (Trading o1 plan)"
| "begin_trading other = Inl \<lparr>te_from = phase other, te_to = ''begin_trading''\<rparr>"

fun begin_depositing :: "trade_result \<Rightarrow> chest_transfer list \<Rightarrow> trade_state \<Rightarrow> transition_error + trade_state" where
  "begin_depositing r plan (Trading o1 _) = Inr (Depositing o1 r plan)"
| "begin_depositing r plan other = Inl \<lparr>te_from = phase other, te_to = ''begin_depositing''\<rparr>"

fun commit :: "string \<Rightarrow> i32 \<Rightarrow> f64 \<Rightarrow> trade_state \<Rightarrow> transition_error + trade_state" where
  "commit item quantity currency (Trading o1 _) =
     Inr (Committed \<lparr>ct_order = o1, ct_item = item, ct_quantity = quantity, ct_currency_amount = currency\<rparr>)"
| "commit item quantity currency (Depositing o1 _ _) =
     Inr (Committed \<lparr>ct_order = o1, ct_item = item, ct_quantity = quantity, ct_currency_amount = currency\<rparr>)"
| "commit item quantity currency other = Inl \<lparr>te_from = phase other, te_to = ''commit''\<rparr>"

fun rollback :: "string \<Rightarrow> trade_state \<Rightarrow> transition_error + trade_state" where
  "rollback reason (Queued o1) = Inr (RolledBack o1 reason)"
| "rollback reason (Withdrawing o1 _) = Inr (RolledBack o1 reason)"
| "rollback reason (Trading o1 _) = Inr (RolledBack o1 reason)"
| "rollback reason (Depositing o1 _ _) = Inr (RolledBack o1 reason)"
| "rollback reason (Committed _) = Inl \<lparr>te_from = ''committed'', te_to = ''rollback''\<rparr>"
| "rollback reason (RolledBack _ _) = Inl \<lparr>te_from = ''rolled_back'', te_to = ''rollback''\<rparr>"

section \<open>The step relation\<close>

inductive trade_step :: "trade_state \<Rightarrow> trade_state \<Rightarrow> bool" where
  withdraw: "begin_withdrawal plan s = Inr s' \<Longrightarrow> trade_step s s'"
| trading: "begin_trading s = Inr s' \<Longrightarrow> trade_step s s'"
| deposit: "begin_depositing r plan s = Inr s' \<Longrightarrow> trade_step s s'"
| commits: "commit item q c s = Inr s' \<Longrightarrow> trade_step s s'"
| rolls_back: "rollback reason s = Inr s' \<Longrightarrow> trade_step s s'"

inductive_cases trade_stepE: "trade_step s s'"

fun_cases begin_withdrawalE: "begin_withdrawal plan s = Inr s'"
  and begin_tradingE: "begin_trading s = Inr s'"
  and begin_depositingE: "begin_depositing r plan s = Inr s'"
  and commitE: "commit item q c s = Inr s'"
  and rollbackE: "rollback reason s = Inr s'"

lemmas transitionEs = begin_withdrawalE begin_tradingE begin_depositingE commitE rollbackE

lemma trade_step_order: "trade_step s s' \<Longrightarrow> trade_order s' = trade_order s"
  by (erule trade_stepE) (auto elim!: transitionEs)

text \<open>Every step raises the rank, so that no phase is entered twice.\<close>

fun rank :: "trade_state \<Rightarrow> nat" where
  "rank (Queued _) = 0"
| "rank (Withdrawing _ _) = 1"
| "rank (Trading _ _) = 2"
| "rank (Depositing _ _ _) = 3"
| "rank (Committed _) = 4"
| "rank (RolledBack _ _) = 4"

lemma trade_step_rank: "trade_step s s' \<Longrightarrow> rank s < rank s'"
  by (erule trade_stepE) (auto elim!: transitionEs)

lemma rank_le: "rank s \<le> 4"
  by (cases s) auto

lemma steps_rank: "(trade_step ^^ n) s s' \<Longrightarrow> rank s + n \<le> rank s'"
proof (induction n arbitrary: s')
  case (Suc n)
  then obtain t where "(trade_step ^^ n) s t" "trade_step t s'" by auto
  with Suc.IH trade_step_rank show ?case by fastforce
qed simp

text \<open>What a state of a trade that started as \<open>Queued o1\<close> can be, with the plan it withdrew.\<close>

definition belongs :: "queued_order \<Rightarrow> trade_state \<Rightarrow> bool" where
  "belongs o1 s \<longleftrightarrow> trade_order s = o1"

interpretation trade_invariant: step_invariant trade_step "belongs o1" for o1
  by unfold_locales (simp add: belongs_def trade_step_order)

section \<open>Properties\<close>

text \<open>A trade always carries the order it started with, and it is over after at most four
  transitions.\<close>

theorem trade_lifecycle:
  assumes "(trade_step ^^ n) (trade_state_new o1) s"
  shows "trade_order s = o1 \<and> n \<le> 4"
proof -
  have "trade_step\<^sup>*\<^sup>* (trade_state_new o1) s" using assms by (rule relpowp_imp_rtranclp)
  moreover have "belongs o1 (trade_state_new o1)" by (simp add: belongs_def trade_state_new_def)
  ultimately have "belongs o1 s" by (rule trade_invariant.reachable_inv)
  moreover have "n \<le> 4" using steps_rank [OF assms] rank_le [of s] by linarith
  ultimately show ?thesis by (simp add: belongs_def)
qed

text \<open> A trade can be rolled back exactly as long as it is not terminal, and a terminal trade
  admits no transition at all.\<close>

theorem terminal_iff_stuck:
  "(is_terminal s \<longleftrightarrow> (\<forall>reason. isl (rollback reason s))) \<and>
   (is_terminal s \<longleftrightarrow> (\<nexists>s'. trade_step s s'))"
proof -
  have "\<exists>s'. trade_step s s'" if "\<not> is_terminal s"
    using that by (cases s) (auto intro: trade_step.rolls_back rollback.simps)
  moreover have "\<not> trade_step s s'" if "is_terminal s" for s'
    using that trade_step_rank [of s s'] rank_le [of s'] by (cases s) auto
  ultimately have "is_terminal s \<longleftrightarrow> (\<nexists>s'. trade_step s s')" by blast
  moreover have "is_terminal s \<longleftrightarrow> (\<forall>reason. isl (rollback reason s))" by (cases s) auto
  ultimately show ?thesis by blast
qed

text \<open>Nothing is committed without an exchange: a trade that reaches \<open>Committed\<close> from the queue has
  been in \<open>Trading\<close>, with the plan it had withdrawn.\<close>

theorem commit_after_trading:
  assumes "trade_step\<^sup>*\<^sup>* (trade_state_new o1) (Committed c)"
  shows "\<exists>plan. trade_step\<^sup>*\<^sup>* (trade_state_new o1) (Withdrawing o1 plan) \<and>
    trade_step (Withdrawing o1 plan) (Trading o1 plan) \<and> trade_step\<^sup>*\<^sup>* (Trading o1 plan) (Committed c)"
proof -
  let ?via = "\<lambda>s. \<exists>plan. trade_step\<^sup>*\<^sup>* (trade_state_new o1) (Withdrawing o1 plan) \<and>
    trade_step (Withdrawing o1 plan) (Trading o1 plan) \<and> trade_step\<^sup>*\<^sup>* (Trading o1 plan) s"
  have "belongs o1 s \<and> (case s of Trading _ _ \<Rightarrow> ?via s | Depositing _ _ _ \<Rightarrow> ?via s | Committed _ \<Rightarrow> ?via s | _ \<Rightarrow> True)"
    if "trade_step\<^sup>*\<^sup>* (trade_state_new o1) s" for s
    using that
  proof (induction rule: rtranclp_induct)
    case base then show ?case by (simp add: trade_state_new_def belongs_def)
  next
    case (step s t)
    have b: "belongs o1 t" using step trade_step_order by (simp add: belongs_def)
    show ?case using step.hyps(2)
    proof (cases rule: trade_step.cases)
      case (trading)
      then obtain plan where t: "s = Withdrawing o1 plan" "t = Trading o1 plan"
        using step.IH by (auto simp: belongs_def elim!: begin_tradingE)
      then have "?via t" using step.hyps by auto
      then show ?thesis using b t by auto
    next
      case (deposit r plan)
      then obtain p where s: "s = Trading o1 p" "t = Depositing o1 r plan"
        using step.IH by (auto simp: belongs_def elim!: begin_depositingE)
      have "?via t" using step.IH s(1) step.hyps(2) by (auto intro: rtranclp.rtrancl_into_rtrancl)
      then show ?thesis using b s by simp
    next
      case (commits item q c)
      then have s: "(case s of Trading _ _ \<Rightarrow> True | Depositing _ _ _ \<Rightarrow> True | _ \<Rightarrow> False)" "\<exists>c. t = Committed c"
        by (auto elim!: commitE)
      have "?via s" using step.IH s(1) by (cases s) auto
      then have "?via t" using step.hyps(2) by (auto intro: rtranclp.rtrancl_into_rtrancl)
      then show ?thesis using b s by auto
    qed (use b in \<open>auto elim!: begin_withdrawalE rollbackE\<close>)
  qed
  from this [OF assms] show ?thesis by simp
qed

section \<open>The mirror file\<close>

text \<open>\<open>persist\<close>, \<open>load_persisted\<close>, \<open>clear_persisted\<close> and \<open>archive_persisted\<close> on the state of the file;
  the Booleans are the outcomes of the write, of the quarantine and of the removal.\<close>

definition persist :: "bool \<Rightarrow> trade_state \<Rightarrow> trade_state file_state \<Rightarrow> bool \<times> trade_state file_state" where
  "persist write_ok s f = (if write_ok then (True, Parsed s) else (False, f))"

definition load_persisted ::
  "bool \<Rightarrow> trade_state file_state \<Rightarrow> (string + trade_state option) \<times> trade_state file_state" where
  "load_persisted quarantine_ok f =
     (case f of
        Parsed s \<Rightarrow> (Inr (Some s), f)
      | Malformed \<Rightarrow> if quarantine_ok then (Inr None, Absent) else (Inl ''InvalidData'', f)
      | Absent \<Rightarrow> (Inr None, f)
      | Unreadable \<Rightarrow> if quarantine_ok then (Inr None, Absent) else (Inl ''read error'', f))"

definition clear_persisted :: "bool \<Rightarrow> trade_state file_state \<Rightarrow> bool \<times> trade_state file_state" where
  "clear_persisted remove_ok f = (case f of Absent \<Rightarrow> (True, f) | _ \<Rightarrow> if remove_ok then (True, Absent) else (False, f))"

text \<open>The mirror tells the truth after a crash: what a restart loads is the last state that was
  persisted successfully, and nothing after a successful clear; a failed write or removal leaves the
  earlier evidence in place.\<close>

theorem mirror_faithful:
  "fst (load_persisted q (snd (persist True s f))) = Inr (Some s) \<and>
   snd (persist False s f) = f \<and>
   fst (load_persisted q (snd (clear_persisted True f))) = Inr None \<and>
   fst (load_persisted q (snd (clear_persisted False (Parsed s)))) = Inr (Some s)"
  by (auto simp: persist_def load_persisted_def clear_persisted_def split: file_state.splits)

section \<open>Witnesses\<close>

definition sample_queued :: queued_order where
  "sample_queued = queued_order_new 1 (sample_request ''a'' True)"

lemma sample_trade_steps:
  "trade_step (trade_state_new sample_queued) (Withdrawing sample_queued [])"
  "trade_step (Withdrawing sample_queued []) (Trading sample_queued [])"
  "trade_step (Trading sample_queued [])
     (Committed \<lparr>ct_order = sample_queued, ct_item = ''iron'', ct_quantity = 5, ct_currency_amount = NaN\<rparr>)"
  by (auto simp: trade_state_new_def intro: trade_step.intros begin_withdrawal.simps begin_trading.simps commit.simps)

theorem trade_lifecycle_witness: "trade_order (Trading sample_queued []) = sample_queued \<and> (2::nat) \<le> 4"
  by (rule trade_lifecycle) (use sample_trade_steps in \<open>auto simp: numeral_2_eq_2\<close>)

theorem commit_after_trading_witness:
  "\<exists>plan. trade_step\<^sup>*\<^sup>* (trade_state_new sample_queued) (Withdrawing sample_queued plan) \<and>
    trade_step (Withdrawing sample_queued plan) (Trading sample_queued plan) \<and>
    trade_step\<^sup>*\<^sup>* (Trading sample_queued plan)
      (Committed \<lparr>ct_order = sample_queued, ct_item = ''iron'', ct_quantity = 5, ct_currency_amount = NaN\<rparr>)"
  by (rule commit_after_trading) (meson sample_trade_steps converse_rtranclp_into_rtranclp rtranclp.rtrancl_refl)

end
