(* ===== verification/Store_State.thy ===== *)
theory Store_State
  imports Trade_State Storage_Growth Pricing
begin

text \<open>
  The store's own state and the operations every handler shares: \<^verbatim>\<open>src/store/state.rs\<close>
  (\<open>apply_chest_sync\<close>, the audit, the pre-trade gate, \<open>save\<close>), \<^verbatim>\<open>src/store/utils.rs\<close>, the
  accessors and \<open>advance_trade\<close> of \<^verbatim>\<open>src/store/mod.rs\<close>, the quotes of \<^verbatim>\<open>src/store/pricing.rs\<close>
  and the records of \<^verbatim>\<open>src/types/{pair,user,order,trade}.rs\<close>. Of the configuration only the
  fields these operations read are kept. The order queue, the rate limiter and the bot's
  channel have their own theories.
\<close>

section \<open>Data\<close>

record pair =
  pair_item :: item_id
  stack_size :: i32
  item_stock :: i32
  currency_stock :: f64

record user =
  uuid :: string
  username :: string
  balance :: f64
  operator :: bool

datatype order_type =
    Buy | Sell | AddItem | RemoveItem | DepositBalance | WithdrawBalance | AddCurrency | RemoveCurrency

record order =
  o_order_type :: order_type
  o_item :: item_id
  o_amount :: i32
  o_currency_amount :: f64
  o_user_uuid :: string

datatype trade_type =
    TradeBuy | TradeSell | AddStock | RemoveStock | TradeDepositBalance | TradeWithdrawBalance
  | TradeAddCurrency | TradeRemoveCurrency

record trade =
  t_trade_type :: trade_type
  t_item :: item_id
  t_amount :: i32
  t_amount_currency :: f64
  t_user_uuid :: string
  t_timestamp :: int

record config =
  fee :: f64
  trade_timeout_ms :: nat
  max_orders :: nat
  max_trades_in_memory :: nat
  autosave_interval_secs :: nat

record store =
  conf :: config
  pairs :: "(item_id, pair) hmap"
  users :: "(string, user) hmap"
  order_log :: "order list"
  trades :: "trade list"
  storage :: storage
  dirty :: bool
  dirty_users :: "string set"
  saved_trades_count :: nat
  current_trade :: "trade_state option"
  trade_mirror :: "trade_state file_state"

record chest_sync_report =
  r_chest_id :: i32
  r_item :: string
  r_amounts :: "i32 list"

section \<open>Records of completed operations\<close>

text \<open>The constructors assert their arguments in the release build too: \<open>None\<close> is the panic.\<close>

definition finite_nonneg :: "f64 \<Rightarrow> bool" where
  "finite_nonneg x \<longleftrightarrow> f_is_finite x \<and> f_le (f_of_int 0) x"

definition order_buy :: "item_id \<Rightarrow> i32 \<Rightarrow> f64 \<Rightarrow> string \<Rightarrow> order option" where
  "order_buy item qty price u =
     (if \<not> 0 < qty then None else if \<not> finite_nonneg price then None
      else Some \<lparr>o_order_type = Buy, o_item = item, o_amount = qty, o_currency_amount = price, o_user_uuid = u\<rparr>)"

definition order_sell :: "item_id \<Rightarrow> i32 \<Rightarrow> f64 \<Rightarrow> string \<Rightarrow> order option" where
  "order_sell item qty payout u =
     (if \<not> 0 < qty then None else if \<not> finite_nonneg payout then None
      else Some \<lparr>o_order_type = Sell, o_item = item, o_amount = qty, o_currency_amount = payout, o_user_uuid = u\<rparr>)"

definition order_deposit_balance :: "i32 \<Rightarrow> string \<Rightarrow> order option" where
  "order_deposit_balance whole u =
     (if \<not> 0 < whole then None
      else Some \<lparr>o_order_type = DepositBalance, o_item = ''diamond'', o_amount = whole,
                 o_currency_amount = f_of_int whole, o_user_uuid = u\<rparr>)"

definition order_withdraw_balance :: "i32 \<Rightarrow> string \<Rightarrow> order option" where
  "order_withdraw_balance whole u =
     (if \<not> 0 < whole then None
      else Some \<lparr>o_order_type = WithdrawBalance, o_item = ''diamond'', o_amount = whole,
                 o_currency_amount = f_of_int whole, o_user_uuid = u\<rparr>)"

definition order_add_currency :: "item_id \<Rightarrow> f64 \<Rightarrow> string \<Rightarrow> order option" where
  "order_add_currency item a u =
     (if \<not> finite_nonneg a then None
      else Some \<lparr>o_order_type = AddCurrency, o_item = item, o_amount = 0, o_currency_amount = a, o_user_uuid = u\<rparr>)"

definition order_remove_currency :: "item_id \<Rightarrow> f64 \<Rightarrow> string \<Rightarrow> order option" where
  "order_remove_currency item a u =
     (if \<not> finite_nonneg a then None
      else Some \<lparr>o_order_type = RemoveCurrency, o_item = item, o_amount = 0, o_currency_amount = a, o_user_uuid = u\<rparr>)"

definition order_add_item :: "item_id \<Rightarrow> i32 \<Rightarrow> string \<Rightarrow> order option" where
  "order_add_item item qty u =
     (if \<not> 0 < qty then None
      else Some \<lparr>o_order_type = AddItem, o_item = item, o_amount = qty, o_currency_amount = f_of_int 0, o_user_uuid = u\<rparr>)"

definition order_remove_item :: "item_id \<Rightarrow> i32 \<Rightarrow> string \<Rightarrow> order option" where
  "order_remove_item item qty u =
     (if \<not> 0 < qty then None
      else Some \<lparr>o_order_type = RemoveItem, o_item = item, o_amount = qty, o_currency_amount = f_of_int 0, o_user_uuid = u\<rparr>)"

definition trade_new :: "trade_type \<Rightarrow> item_id \<Rightarrow> i32 \<Rightarrow> f64 \<Rightarrow> string \<Rightarrow> int \<Rightarrow> trade" where
  "trade_new ty item a c u now = \<lparr>t_trade_type = ty, t_item = item, t_amount = a,
     t_amount_currency = c, t_user_uuid = u, t_timestamp = now\<rparr>"

section \<open>Quotes and accessors\<close>

definition calculate_buy_cost :: "store \<Rightarrow> item_id \<Rightarrow> i32 \<Rightarrow> f64 option" where
  "calculate_buy_cost s item a =
     (case hget (pairs s) item of None \<Rightarrow> None
      | Some p \<Rightarrow> buy_cost_pure (item_stock p) (currency_stock p) a (fee (conf s)))"

definition calculate_sell_payout :: "store \<Rightarrow> item_id \<Rightarrow> i32 \<Rightarrow> f64 option" where
  "calculate_sell_payout s item a =
     (case hget (pairs s) item of None \<Rightarrow> None
      | Some p \<Rightarrow> sell_payout_pure (item_stock p) (currency_stock p) a (fee (conf s)))"

definition expect_pair :: "store \<Rightarrow> item_id \<Rightarrow> string \<Rightarrow> store_error + pair" where
  "expect_pair s item context = (case hget (pairs s) item of Some p \<Rightarrow> Inr p | None \<Rightarrow> Inl (UnknownPair item context))"

definition expect_user :: "store \<Rightarrow> string \<Rightarrow> string \<Rightarrow> store_error + user" where
  "expect_user s u context = (case hget (users s) u of Some x \<Rightarrow> Inr x | None \<Rightarrow> Inl (UnknownUser u context))"

text \<open>A write through \<open>expect_pair_mut\<close> or \<open>expect_user_mut\<close>.\<close>

definition expect_pair_mut :: "item_id \<Rightarrow> string \<Rightarrow> (pair \<Rightarrow> pair) \<Rightarrow> store \<Rightarrow> store_error + store" where
  "expect_pair_mut item context f s =
     (case hget (pairs s) item of Some p \<Rightarrow> Inr (s\<lparr>pairs := hput (pairs s) item (f p)\<rparr>)
      | None \<Rightarrow> Inl (UnknownPair item context))"

definition expect_user_mut :: "string \<Rightarrow> string \<Rightarrow> (user \<Rightarrow> user) \<Rightarrow> store \<Rightarrow> store_error + store" where
  "expect_user_mut u context f s =
     (case hget (users s) u of Some x \<Rightarrow> Inr (s\<lparr>users := hput (users s) u (f x)\<rparr>)
      | None \<Rightarrow> Inl (UnknownUser u context))"

text \<open>\<open>Node::calc_position\<close> panics on a negative id: \<open>None\<close>.\<close>

definition get_node_position :: "store \<Rightarrow> i32 \<Rightarrow> position option" where
  "get_node_position s k =
     (let nid = k sdiv int CHESTS_PER_NODE in
      case find (\<lambda>n. node_id n = nid) (nodes (storage s)) of
        Some n \<Rightarrow> Some (node_position n)
      | None \<Rightarrow> node_calc_position nid (st_position (storage s)))"

definition advance_trade ::
  "bool \<Rightarrow> (trade_state \<Rightarrow> transition_error + trade_state) \<Rightarrow> store \<Rightarrow> store" where
  "advance_trade write_ok transition s =
     (case current_trade s of
        None \<Rightarrow> s
      | Some prev \<Rightarrow>
          (case transition prev of
             Inr nxt \<Rightarrow> s\<lparr>trade_mirror := snd (persist write_ok nxt (trade_mirror s)),
                          current_trade := Some nxt, dirty := True\<rparr>
           | Inl e \<Rightarrow> s\<lparr>trade_mirror := snd (persist write_ok prev (trade_mirror s)),
                        current_trade := Some prev, dirty := True\<rparr>))"

section \<open>Users\<close>

definition is_hex_lower :: "char \<Rightarrow> bool" where
  "is_hex_lower c \<longleftrightarrow> is_ascii_digit c \<or> (97 \<le> code c \<and> code c \<le> 102)"

definition nil_uuid :: string where
  "nil_uuid = ''00000000-0000-0000-0000-000000000000''"

definition nil_uuid_bare :: string where
  "nil_uuid_bare = ''00000000000000000000000000000000''"

fun uuid_bytes_ok :: "nat \<Rightarrow> string \<Rightarrow> bool" where
  "uuid_bytes_ok i [] = True"
| "uuid_bytes_ok i (b # bs) =
     (if i \<in> {8, 13, 18, 23} then (if b \<noteq> CHR ''-'' then False else uuid_bytes_ok (Suc i) bs)
      else if \<not> is_hex_lower b then False else uuid_bytes_ok (Suc i) bs)"

definition is_valid_uuid_shape :: "string \<Rightarrow> bool" where
  "is_valid_uuid_shape u =
     (if u = nil_uuid \<or> u = nil_uuid_bare then False
      else if length u = 32 then list_all is_hex_lower u
      else if length u = 36 then uuid_bytes_ok 0 u
      else False)"

definition ensure_user_exists :: "string \<Rightarrow> string \<Rightarrow> store \<Rightarrow> store" where
  "ensure_user_exists name u s =
     (if \<not> is_valid_uuid_shape u then s
      else case hget (users s) u of
        None \<Rightarrow> s\<lparr>users := hput (users s) u \<lparr>uuid = u, username = name, balance = f_of_int 0, operator = False\<rparr>,
                   dirty := True, dirty_users := insert u (dirty_users s)\<rparr>
      | Some x \<Rightarrow>
          if username x \<noteq> name then
            (if is_valid_uuid_shape name then s
             else s\<lparr>users := hput (users s) u (x\<lparr>username := name\<rparr>), dirty := True,
                     dirty_users := insert u (dirty_users s)\<rparr>)
          else s)"

definition is_operator :: "store \<Rightarrow> string \<Rightarrow> bool" where
  "is_operator s u = (case hget (users s) u of Some x \<Rightarrow> operator x | None \<Rightarrow> False)"

section \<open>Chest synchronisation\<close>

text \<open>Slot by slot, \<open>-1\<close> keeps the stored count; a longer report is cut, a shorter one leaves the rest.\<close>

fun merge_slots :: "i32 list \<Rightarrow> i32 list \<Rightarrow> i32 list" where
  "merge_slots [] olds = olds"
| "merge_slots (x # xs) [] = []"
| "merge_slots (x # xs) (old # olds) = (if x \<ge> 0 then x else old) # merge_slots xs olds"

definition sync_chest :: "chest_sync_report \<Rightarrow> chest \<Rightarrow> store_error + chest" where
  "sync_chest r c =
     (case (if chest_id c = DIAMOND_CHEST_ID then Inr ''diamond''
            else if chest_id c = OVERFLOW_CHEST_ID then Inr OVERFLOW_CHEST_ITEM
            else item_new (r_item r)) of
        Inl e \<Rightarrow> Inl (ChestOp ''sync rejected: invalid item ID'')
      | Inr item \<Rightarrow> Inr (c\<lparr>chest_item := item, amounts := merge_slots (r_amounts r) (amounts c)\<rparr>))"

text \<open>The first chest with the reported id; \<open>None\<close> when the list has none.\<close>

fun sync_chests :: "chest_sync_report \<Rightarrow> chest list \<Rightarrow> (store_error + chest list) option" where
  "sync_chests r [] = None"
| "sync_chests r (c # cs) =
     (if chest_id c = r_chest_id r then
        (case sync_chest r c of Inl e \<Rightarrow> Some (Inl e) | Inr c' \<Rightarrow> Some (Inr (c' # cs)))
      else (case sync_chests r cs of None \<Rightarrow> None | Some (Inl e) \<Rightarrow> Some (Inl e)
            | Some (Inr cs') \<Rightarrow> Some (Inr (c # cs'))))"

fun sync_nodes :: "chest_sync_report \<Rightarrow> node list \<Rightarrow> (store_error + node list) option" where
  "sync_nodes r [] = None"
| "sync_nodes r (n # ns) =
     (case sync_chests r (chests n) of
        Some (Inl e) \<Rightarrow> Some (Inl e)
      | Some (Inr cs) \<Rightarrow> Some (Inr (n\<lparr>chests := cs\<rparr> # ns))
      | None \<Rightarrow> (case sync_nodes r ns of None \<Rightarrow> None | Some (Inl e) \<Rightarrow> Some (Inl e)
                | Some (Inr ns') \<Rightarrow> Some (Inr (n # ns'))))"

definition apply_chest_sync :: "chest_sync_report \<Rightarrow> store \<Rightarrow> (store_error + unit) \<times> store" where
  "apply_chest_sync r s =
     (case sync_nodes r (nodes (storage s)) of
        None \<Rightarrow> (Inl (ChestOp ''chest not found in storage''), s)
      | Some (Inl e) \<Rightarrow> (Inl e, s)
      | Some (Inr ns) \<Rightarrow> (Inr (), s\<lparr>storage := (storage s)\<lparr>nodes := ns\<rparr>, dirty := True\<rparr>))"

section \<open>The audit\<close>

datatype audit_issue =
    NonFiniteBalance string
  | NegativeBalance string
  | WrongSlotCount i32 nat
  | InvalidAmount i32 nat i32
  | ExceedsCapacity i32 nat i32
  | NegativeItemStock item_id
  | NegativeCurrencyStock item_id
  | StockDrift item_id i32 i32

record audit_report =
  issues :: "audit_issue list"
  repair_applied :: bool

definition audit_user :: "user \<Rightarrow> audit_issue list" where
  "audit_user u = (if \<not> f_is_finite (balance u) then [NonFiniteBalance (username u)] else []) @
     (if f_lt (balance u) (f_of_int 0) then [NegativeBalance (username u)] else [])"

definition DEFAULT_SHULKER_CAPACITY :: i32 where
  "DEFAULT_SHULKER_CAPACITY = int SHULKER_BOX_SLOTS * 64"

definition item_capacity :: "store \<Rightarrow> item_id \<Rightarrow> i32" where
  "item_capacity s item = (case hget (pairs s) item of
     Some p \<Rightarrow> shulker_capacity_for_stack_size (stack_size p) | None \<Rightarrow> DEFAULT_SHULKER_CAPACITY)"

definition audit_slots :: "i32 \<Rightarrow> i32 \<Rightarrow> i32 list \<Rightarrow> audit_issue list" where
  "audit_slots k cap xs = concat (map (\<lambda>(i, a).
     (if a < - 1 then [InvalidAmount k i a] else []) @ (if a > cap then [ExceedsCapacity k i a] else []))
     (enumerate 0 xs))"

definition audit_chest :: "i32 \<Rightarrow> chest \<Rightarrow> audit_issue list" where
  "audit_chest cap c =
     (if length (amounts c) \<noteq> SLOTS_PER_CHEST then [WrongSlotCount (chest_id c) (length (amounts c))] else []) @
     audit_slots (chest_id c) cap (amounts c)"

definition audit_chest_of :: "store \<Rightarrow> chest \<Rightarrow> audit_issue list" where
  "audit_chest_of s c = audit_chest
     (if item_is_empty (chest_item c) then DEFAULT_SHULKER_CAPACITY else item_capacity s (chest_item c)) c"

definition audit_ledger :: "pair \<Rightarrow> audit_issue list" where
  "audit_ledger p =
     (if item_stock p < 0 then [NegativeItemStock (pair_item p)] else []) @
     (if f_lt (currency_stock p) (f_of_int 0) then [NegativeCurrencyStock (pair_item p)] else [])"

definition audit_pair :: "storage \<Rightarrow> bool \<Rightarrow> pair \<Rightarrow> audit_issue list \<times> bool \<times> pair" where
  "audit_pair st repair p =
     (let physical = total_item_amount st (pair_item p) in
      if item_stock p \<noteq> physical then
        (if repair then (audit_ledger p, True, p\<lparr>item_stock := physical\<rparr>)
         else (audit_ledger p @ [StockDrift (pair_item p) (item_stock p) physical], False, p))
      else (audit_ledger p, False, p))"

fun audit_pairs :: "storage \<Rightarrow> bool \<Rightarrow> (item_id, pair) hmap \<Rightarrow> audit_issue list \<times> bool \<times> (item_id, pair) hmap" where
  "audit_pairs st repair [] = ([], False, [])"
| "audit_pairs st repair ((k, p) # ps) =
     (let (is, b, p') = audit_pair st repair p; (js, b', ps') = audit_pairs st repair ps
      in (is @ js, b \<or> b', (k, p') # ps'))"

definition audit_state :: "bool \<Rightarrow> store \<Rightarrow> audit_report \<times> store" where
  "audit_state repair s =
     (let user_issues = concat (map (audit_user \<circ> snd) (users s));
          chest_issues = concat (map (audit_chest_of s) (all_chests (storage s)));
          (pair_issues, repaired, ps) = audit_pairs (storage s) repair (pairs s)
      in (\<lparr>issues = user_issues @ chest_issues @ pair_issues, repair_applied = repaired\<rparr>, s\<lparr>pairs := ps\<rparr>))"

definition assert_invariants :: "bool \<Rightarrow> store \<Rightarrow> (store_error + unit) \<times> store" where
  "assert_invariants repair s =
     (let (report, s') = audit_state repair s in
      if issues report = [] then (Inr (), s') else (Inl (InvariantViolation ''audit''), s'))"

text \<open>The pre-trade gate: only what the trade at hand reads.\<close>

definition blocking_user :: "store \<Rightarrow> string \<Rightarrow> audit_issue list" where
  "blocking_user s u =
     (case hget (users s) u of
        None \<Rightarrow> []
      | Some x \<Rightarrow> if \<not> f_is_finite (balance x) then [NonFiniteBalance (username x)]
                  else if f_lt (balance x) (f_of_int 0) then [NegativeBalance (username x)] else [])"

definition blocking_pair :: "store \<Rightarrow> item_id \<Rightarrow> audit_issue list" where
  "blocking_pair s item =
     (case hget (pairs s) item of
        None \<Rightarrow> []
      | Some p \<Rightarrow> audit_ledger p @
          (let physical = total_item_amount (storage s) (pair_item p) in
           if item_stock p \<noteq> physical then [StockDrift (pair_item p) (item_stock p) physical] else []))"

definition blocking_chests :: "store \<Rightarrow> item_id \<Rightarrow> audit_issue list" where
  "blocking_chests s item =
     concat (map (audit_chest (item_capacity s item)) (filter (\<lambda>c. chest_item c = item) (all_chests (storage s))))"

definition assert_tradeable :: "store \<Rightarrow> item_id \<Rightarrow> string \<Rightarrow> (store_error + unit) \<times> store" where
  "assert_tradeable s item u =
     (let (full, s') = audit_state False s;
          blocking = blocking_user s' u @ blocking_pair s' item @ blocking_chests s' item
      in if blocking = [] then (Inr (), s') else (Inl (InvariantViolation ''scoped gate''), s'))"

section \<open>Saving\<close>

definition trim_in_memory_to_caps :: "store \<Rightarrow> store" where
  "trim_in_memory_to_caps s =
     (let s1 = (if length (order_log s) > max_orders (conf s)
                then s\<lparr>order_log := drop (length (order_log s) - max_orders (conf s)) (order_log s)\<rparr> else s)
      in if length (trades s1) > max_trades_in_memory (conf s1)
         then (let d = length (trades s1) - max_trades_in_memory (conf s1)
               in s1\<lparr>trades := drop d (trades s1), saved_trades_count := saved_trades_count s1 - d\<rparr>)
         else s1)"

text \<open>The outcomes of the five sub-saves.\<close>

record save_outcomes =
  pairs_ok :: bool
  users_ok :: bool
  orders_ok :: bool
  trades_ok :: bool
  storage_ok :: bool

text \<open>The result, the store and the trades handed to \<open>Trade::save_all\<close> for writing.\<close>

definition save :: "save_outcomes \<Rightarrow> store \<Rightarrow> bool \<times> store \<times> trade list" where
  "save ok s =
     (let s1 = trim_in_memory_to_caps s;
          s2 = (if saved_trades_count s1 > length (trades s1)
                then s1\<lparr>saved_trades_count := length (trades s1)\<rparr> else s1);
          tail = length (trades s2) - saved_trades_count s2;
          written = drop (length (trades s2) - tail) (trades s2);
          s3 = (if trades_ok ok then s2\<lparr>saved_trades_count := length (trades s2)\<rparr> else s2)
      in (pairs_ok ok \<and> users_ok ok \<and> orders_ok ok \<and> trades_ok ok \<and> storage_ok ok, s3, written))"

definition pair_save_check :: "pair \<Rightarrow> bool" where
  "pair_save_check p \<longleftrightarrow> \<not> item_is_empty (pair_item p) \<and> is_canonical (pair_item p) \<and> stack_size p \<in> {1, 16, 64}"

end
