(* ===== verification/Store_Invariants.thy ===== *)
theory Store_Invariants
  imports Store_State
begin

text \<open>
  What the shared store operations guarantee: synchronising a chest keeps the storage well
  formed and touches one chest, the repairing audit removes every drift, the pre-trade gate is
  sound and scoped, a save writes exactly the unsaved trades, and no user record is lost.
\<close>

section \<open>Chest synchronisation\<close>

lemma item_new_nonempty: "item_new raw = Inr i \<Longrightarrow> i \<noteq> []"
  by (auto simp: item_new_def Let_def split: if_splits option.splits)

lemma merge_slots_length [simp]: "length (merge_slots xs ys) = length ys"
  by (induction xs ys rule: merge_slots.induct) auto

lemma merge_slots_nth:
  "i < length ys \<Longrightarrow> merge_slots xs ys ! i = (if i < length xs \<and> xs ! i \<ge> 0 then xs ! i else ys ! i)"
proof (induction xs ys arbitrary: i rule: merge_slots.induct)
  case (3 x xs old olds)
  then show ?case by (cases i) auto
qed auto

text \<open>What a synchronised chest looks like.\<close>

definition synced :: "chest_sync_report \<Rightarrow> chest \<Rightarrow> chest \<Rightarrow> bool" where
  "synced r c d \<longleftrightarrow> chest_id c = r_chest_id r \<and>
     (\<exists>item. d = c\<lparr>chest_item := item, amounts := merge_slots (r_amounts r) (amounts c)\<rparr> \<and> item \<noteq> [] \<and>
        (chest_id c = DIAMOND_CHEST_ID \<longrightarrow> item = BASE_CURRENCY_ITEM) \<and>
        (chest_id c = OVERFLOW_CHEST_ID \<longrightarrow> item = OVERFLOW_CHEST_ITEM) \<and>
        (chest_id c \<noteq> DIAMOND_CHEST_ID \<longrightarrow> chest_id c \<noteq> OVERFLOW_CHEST_ID \<longrightarrow> item_new (r_item r) = Inr item))"

lemma sync_chest_Inr: "sync_chest r c = Inr d \<Longrightarrow> chest_id c = r_chest_id r \<Longrightarrow> synced r c d"
  by (auto simp: sync_chest_def synced_def BASE_CURRENCY_ITEM_def OVERFLOW_CHEST_ITEM_def
      DIAMOND_CHEST_ID_def OVERFLOW_CHEST_ID_def dest: item_new_nonempty split: if_splits sum.splits)

lemma sync_chests_Inr:
  "sync_chests r cs = Some (Inr ds) \<Longrightarrow>
     \<exists>xs c d ys. cs = xs @ c # ys \<and> ds = xs @ d # ys \<and> synced r c d \<and> r_chest_id r \<notin> chest_id ` set xs"
proof (induction cs arbitrary: ds)
  case (Cons c cs)
  show ?case
  proof (cases "chest_id c = r_chest_id r")
    case True
    then obtain d where "sync_chest r c = Inr d" "ds = d # cs"
      using Cons.prems by (auto split: sum.splits)
    then show ?thesis using sync_chest_Inr True
      by (intro exI [of _ "[]"] exI [of _ c] exI [of _ d] exI [of _ cs]) auto
  next
    case False
    then obtain es where e: "sync_chests r cs = Some (Inr es)" "ds = c # es"
      using Cons.prems by (auto split: option.splits sum.splits)
    from Cons.IH [OF e(1)] obtain xs a b ys where "cs = xs @ a # ys" "es = xs @ b # ys" "synced r a b"
      "r_chest_id r \<notin> chest_id ` set xs" by blast
    then show ?thesis using e(2) False
      by (intro exI [of _ "c # xs"] exI [of _ a] exI [of _ b] exI [of _ ys]) auto
  qed
qed simp

lemma sync_chests_None: "sync_chests r cs = None \<longleftrightarrow> r_chest_id r \<notin> chest_id ` set cs"
  by (induction cs) (auto split: option.splits sum.splits)

lemma sync_nodes_Inr:
  "sync_nodes r ns = Some (Inr ms) \<Longrightarrow>
     \<exists>xs n cs ys. ns = xs @ n # ys \<and> ms = xs @ n\<lparr>chests := cs\<rparr> # ys \<and>
       sync_chests r (chests n) = Some (Inr cs) \<and> r_chest_id r \<notin> chest_id ` set (concat (map chests xs))"
proof (induction ns arbitrary: ms)
  case (Cons n ns)
  show ?case
  proof (cases "sync_chests r (chests n)")
    case None
    then obtain es where e: "sync_nodes r ns = Some (Inr es)" "ms = n # es"
      using Cons.prems by (auto split: option.splits sum.splits)
    from Cons.IH [OF e(1)] obtain xs a cs ys where "ns = xs @ a # ys" "es = xs @ a\<lparr>chests := cs\<rparr> # ys"
      "sync_chests r (chests a) = Some (Inr cs)" "r_chest_id r \<notin> chest_id ` set (concat (map chests xs))" by blast
    then show ?thesis using e(2) None
      by (intro exI [of _ "n # xs"] exI [of _ a] exI [of _ cs] exI [of _ ys]) (auto simp: sync_chests_None)
  next
    case (Some q)
    then obtain cs where "sync_chests r (chests n) = Some (Inr cs)" "ms = n\<lparr>chests := cs\<rparr> # ns"
      using Cons.prems by (cases q) auto
    then show ?thesis by (intro exI [of _ "[]"] exI [of _ n] exI [of _ cs] exI [of _ ns]) auto
  qed
qed simp

lemma synced_invariants:
  assumes "synced r c d" "check_invariants c nid k = Inr ()" 
  shows "check_invariants d nid k = Inr ()"
  using assms by (auto simp: synced_def check_invariants_iff item_is_empty_def)

lemma replace_check:
  assumes "check_chests nid k (xs @ c # ys) = Inr ()" "\<And>j. check_invariants c nid j = Inr () \<Longrightarrow> check_invariants d nid j = Inr ()"
  shows "check_chests nid k (xs @ d # ys) = Inr ()"
  using assms by (auto simp: check_chests_iff nth_append nth_Cons' split: if_splits)

lemma synced_node_wf:
  assumes "node_wf sp n" "sync_chests r (chests n) = Some (Inr cs)"
  shows "node_wf sp (n\<lparr>chests := cs\<rparr>)"
proof -
  obtain xs c d ys where e: "chests n = xs @ c # ys" "cs = xs @ d # ys" "synced r c d"
    using sync_chests_Inr [OF assms(2)] by blast
  from assms(1) have c: "length (chests n) = CHESTS_PER_NODE" "check_chests (node_id n) 0 (chests n) = Inr ()"
    "chests_placed (node_position n) (chests n)" "reserved_ok (node_id n) (chests n)"
    by (auto simp: node_wf_def node_check_def split: if_splits)
  have "check_chests (node_id n) 0 cs = Inr ()"
    unfolding e(2) by (rule replace_check [OF c(2) [unfolded e(1)]]) (rule synced_invariants [OF e(3)])
  moreover have "chests_placed (node_position n) cs"
    using c(3) e by (auto simp: chests_placed_def synced_def)
  moreover have "reserved_ok (node_id n) cs"
    unfolding reserved_ok_def
  proof (intro impI)
    assume 0: "node_id n = 0"
    have id: "chest_id (chests n ! j) = int j" if "j < 4" for j
      using c(1,2) that 0
      by (auto simp: check_chests_iff check_invariants_iff CHESTS_PER_NODE_def in_i32_def i32_min_def i32_max_def)
    have old: "chest_item (chests n ! 0) = BASE_CURRENCY_ITEM" "chest_item (chests n ! 1) = OVERFLOW_CHEST_ITEM"
      using c(4) 0 by (auto simp: reserved_ok_def)
    have l: "length (chests n) = 4" using c(1) by (simp add: CHESTS_PER_NODE_def)
    have same: "cs ! j = (if j = length xs then d else chests n ! j)" for j
      using e by (auto simp: nth_append nth_Cons')
    have cx: "chests n ! length xs = c" using e by simp
    have i0: "length xs = 0 \<Longrightarrow> chest_item d = BASE_CURRENCY_ITEM" 
      using id [of 0] cx e(3) l by (auto simp: synced_def DIAMOND_CHEST_ID_def)
    have i1: "length xs = 1 \<Longrightarrow> chest_item d = OVERFLOW_CHEST_ITEM" 
      using id [of 1] cx e(3) l by (auto simp: synced_def OVERFLOW_CHEST_ID_def DIAMOND_CHEST_ID_def)
    show "chest_item (cs ! 0) = BASE_CURRENCY_ITEM \<and> chest_item (cs ! 1) = OVERFLOW_CHEST_ITEM"
      using same [of 0] same [of 1] old i0 i1 by auto
  qed
  moreover have "length cs = CHESTS_PER_NODE" using c(1) e by simp
  ultimately show ?thesis using assms(1) by (simp add: node_wf_def node_check_def)
qed

lemma apply_chest_sync_wf_raw:
  assumes "list_all (node_wf sp) (nodes (storage s))"
  shows "list_all (node_wf sp) (nodes (storage (snd (apply_chest_sync r s))))"
proof (cases "sync_nodes r (nodes (storage s))")
  case (Some q)
  show ?thesis
  proof (cases q)
    case (Inr ms)
    from sync_nodes_Inr [OF Some [unfolded Inr]] assms synced_node_wf Some Inr
    show ?thesis by (auto simp: apply_chest_sync_def)
  qed (use Some assms in \<open>simp add: apply_chest_sync_def\<close>)
qed (use assms in \<open>simp add: apply_chest_sync_def\<close>)

text \<open> Whatever a bot reports, synchronising a chest keeps every node well formed: 54 slots,
  agreeing ids, positions, and diamonds and overflow in the reserved chests.\<close>

theorem apply_chest_sync_wf:
  assumes "list_all (node_wf sp) (nodes (storage s))"
  shows "list_all (node_wf sp) (nodes (storage (snd (apply_chest_sync r s))))"
  using assms by (rule apply_chest_sync_wf_raw)

lemma apply_chest_sync_err: "apply_chest_sync r s = (Inl e, s') \<Longrightarrow> s' = s"
  by (auto simp: apply_chest_sync_def split: option.splits sum.splits)

text \<open>A synchronisation that succeeds replaces exactly the reported chest: a slot the bot inspected
  takes the reported count, a slot reported as -1 keeps its own, and no other chest, nor anything
  else of the store but the dirty flag, changes; one that fails changes nothing.\<close>

theorem apply_chest_sync_effect:
  assumes "apply_chest_sync r s = (res, s')"
  shows "case res of
      Inl e \<Rightarrow> s' = s
    | Inr u \<Rightarrow> \<exists>xs c d ys. all_chests (storage s) = xs @ c # ys \<and> all_chests (storage s') = xs @ d # ys \<and>
        chest_id c = r_chest_id r \<and> same_place c d \<and> length (amounts d) = length (amounts c) \<and>
        (\<forall>i. i < length (amounts c) \<longrightarrow> amounts d ! i =
          (if i < length (r_amounts r) \<and> r_amounts r ! i \<ge> 0 then r_amounts r ! i else amounts c ! i)) \<and>
        s' = s\<lparr>storage := storage s', dirty := True\<rparr>"
proof (cases res)
  case (Inl e) then show ?thesis using assms apply_chest_sync_err by simp
next
  case (Inr u)
  then obtain ms where m: "sync_nodes r (nodes (storage s)) = Some (Inr ms)"
    "s' = s\<lparr>storage := (storage s)\<lparr>nodes := ms\<rparr>, dirty := True\<rparr>"
    using assms by (auto simp: apply_chest_sync_def split: option.splits sum.splits)
  obtain xs n cs ys where n: "nodes (storage s) = xs @ n # ys" "ms = xs @ n\<lparr>chests := cs\<rparr> # ys"
    "sync_chests r (chests n) = Some (Inr cs)" using sync_nodes_Inr [OF m(1)] by blast
  obtain as c d bs where c: "chests n = as @ c # bs" "cs = as @ d # bs" "synced r c d"
    using sync_chests_Inr [OF n(3)] by blast
  have "all_chests (storage s) = (concat (map chests xs) @ as) @ c # (bs @ concat (map chests ys))"
    "all_chests (storage s') = (concat (map chests xs) @ as) @ d # (bs @ concat (map chests ys))"
    using n(1,2) c m(2) by (simp_all add: all_chests_def)
  moreover have "chest_id c = r_chest_id r" "same_place c d" "amounts d = merge_slots (r_amounts r) (amounts c)"
    using c(3) by (auto simp: synced_def same_place_def)
  moreover have "s' = s\<lparr>storage := storage s', dirty := True\<rparr>" using m(2) by simp
  ultimately show ?thesis
    unfolding Inr sum.case by (intro exI conjI) (assumption | simp add: merge_slots_nth)+
qed

section \<open>The audit\<close>

definition no_drift :: "store \<Rightarrow> bool" where
  "no_drift s \<longleftrightarrow> list_all (\<lambda>(k, p). item_stock p = total_item_amount (storage s) (pair_item p)) (pairs s)"

fun is_drift :: "audit_issue \<Rightarrow> bool" where
  "is_drift (StockDrift _ _ _) = True"
| "is_drift _ = False"

lemma audit_ledger_no_drift: "i \<in> set (audit_ledger p) \<Longrightarrow> \<not> is_drift i"
  by (auto simp: audit_ledger_def split: if_splits)

lemma audit_pairs_repair:
  "audit_pairs st True ps = (is, b, ps') \<Longrightarrow>
     map fst ps' = map fst ps \<and>
     list_all2 (\<lambda>(k, p) (k', p'). k' = k \<and> p' = p\<lparr>item_stock := total_item_amount st (pair_item p)\<rparr>) ps ps' \<and>
     (\<forall>i \<in> set is. \<not> is_drift i) \<and> (\<not> b \<longrightarrow> ps' = ps)"
proof (induction ps arbitrary: "is" b ps')
  case (Cons kp ps)
  obtain k p where kp: "kp = (k, p)" by force
  obtain i1 b1 p1 where a: "audit_pair st True p = (i1, b1, p1)" by (metis prod_cases3)
  obtain i2 b2 p2 where r: "audit_pairs st True ps = (i2, b2, p2)" by (metis prod_cases3)
  have "p1 = p\<lparr>item_stock := total_item_amount st (pair_item p)\<rparr> \<and> (\<forall>i \<in> set i1. \<not> is_drift i) \<and> (\<not> b1 \<longrightarrow> p1 = p)"
    using a audit_ledger_no_drift by (auto simp: audit_pair_def Let_def split: if_splits)
  then show ?case using Cons.IH [OF r] Cons.prems kp a r by auto
qed simp

lemma audit_pairs_id: "audit_pairs st False ps = (is, b, ps') \<Longrightarrow> ps' = ps \<and> \<not> b"
proof (induction ps arbitrary: "is" b ps')
  case (Cons kp ps)
  obtain k p where kp: "kp = (k, p)" by force
  obtain i2 b2 p2 where r: "audit_pairs st False ps = (i2, b2, p2)" by (metis prod_cases3)
  show ?case using Cons.IH [OF r] Cons.prems kp r
    by (auto simp: audit_pair_def Let_def split: if_splits prod.splits)
qed simp

lemma audit_false_id: "snd (audit_state False s) = s"
proof -
  obtain i2 b2 p2 where r: "audit_pairs (storage s) False (pairs s) = (i2, b2, p2)" by (metis prod_cases3)
  from audit_pairs_id [OF r] show ?thesis by (simp add: audit_state_def Let_def r)
qed

lemma audit_repair_pairs:
  obtains ps where "snd (audit_state True s) = s\<lparr>pairs := ps\<rparr>"
    "list_all2 (\<lambda>(k, p) (k', p'). k' = k \<and> p' = p\<lparr>item_stock := total_item_amount (storage s) (pair_item p)\<rparr>) (pairs s) ps"
    "\<not> repair_applied (fst (audit_state True s)) \<Longrightarrow> ps = pairs s"
proof -
  obtain i2 b2 p2 where r: "audit_pairs (storage s) True (pairs s) = (i2, b2, p2)" by (metis prod_cases3)
  note f = audit_pairs_repair [OF r]
  show thesis
    by (rule that [of p2]) (use f in \<open>simp_all add: audit_state_def Let_def r\<close>)
qed

text \<open>A repairing audit leaves every pair's cached stock equal to what the chests hold and touches
  nothing else: keys, reserves, users, storage, logs and flags are as before; and a second audit finds
  nothing to repair.\<close>

theorem audit_repairs_drift:
  "no_drift (snd (audit_state True s)) \<and>
   snd (audit_state True s)\<lparr>pairs := pairs s\<rparr> = s \<and>
   map (\<lambda>(k, p). (k, p\<lparr>item_stock := 0\<rparr>)) (pairs (snd (audit_state True s))) = map (\<lambda>(k, p). (k, p\<lparr>item_stock := 0\<rparr>)) (pairs s) \<and>
   snd (audit_state True (snd (audit_state True s))) = snd (audit_state True s)"
proof -
  obtain ps where ps: "snd (audit_state True s) = s\<lparr>pairs := ps\<rparr>"
    "list_all2 (\<lambda>(k, p) (k', p'). k' = k \<and> p' = p\<lparr>item_stock := total_item_amount (storage s) (pair_item p)\<rparr>) (pairs s) ps"
    by (rule audit_repair_pairs [of s]) blast
  have n: "list_all (\<lambda>(k, p). item_stock p = total_item_amount (storage s) (pair_item p)) ps"
    using ps(2) by (induction rule: list_all2_induct) auto
  have m: "map (\<lambda>(k, p). (k, p\<lparr>item_stock := 0\<rparr>)) ps = map (\<lambda>(k, p). (k, p\<lparr>item_stock := 0\<rparr>)) (pairs s)"
    using ps(2) by (induction rule: list_all2_induct) auto
  obtain qs where qs: "snd (audit_state True (s\<lparr>pairs := ps\<rparr>)) = s\<lparr>pairs := qs\<rparr>"
    "list_all2 (\<lambda>(k, p) (k', p'). k' = k \<and> p' = p\<lparr>item_stock := total_item_amount (storage s) (pair_item p)\<rparr>) ps qs"
    by (rule audit_repair_pairs [of "s\<lparr>pairs := ps\<rparr>"]) simp
  have "qs = ps" using qs(2) n
  proof (induction rule: list_all2_induct)
    case (Cons x xs y ys)
    obtain k p where "x = (k, p)" by force
    with Cons show ?case by auto
  qed simp
  then show ?thesis using ps n m qs by (auto simp: no_drift_def)
qed

section \<open>The pre-trade gate\<close>

lemma assert_tradeable_eq:
  "assert_tradeable s item u =
     (if blocking_user s u @ blocking_pair s item @ blocking_chests s item = []
      then Inr () else Inl (InvariantViolation ''scoped gate''), s)"
  by (simp add: assert_tradeable_def audit_false_id split_beta Let_def)

text \<open>The gate is sound for the trade at hand: when it opens, the store is unchanged, the user's
  balance is a finite non-negative number, the pair's ledger is non-negative and agrees with the
  chests, and every chest of the item has 54 slots within the shulker capacity.\<close>

theorem tradeable_sound:
  assumes "assert_tradeable s item u = (Inr (), s')"
  shows "s' = s \<and>
    (case hget (users s) u of None \<Rightarrow> True | Some x \<Rightarrow> f_is_finite (balance x) \<and> \<not> f_lt (balance x) (f_of_int 0)) \<and>
    (case hget (pairs s) item of None \<Rightarrow> True
     | Some p \<Rightarrow> 0 \<le> item_stock p \<and> \<not> f_lt (currency_stock p) (f_of_int 0) \<and>
         item_stock p = total_item_amount (storage s) (pair_item p)) \<and>
    list_all (\<lambda>c. chest_item c = item \<longrightarrow> length (amounts c) = SLOTS_PER_CHEST \<and>
       list_all (\<lambda>a. - 1 \<le> a \<and> a \<le> item_capacity s item) (amounts c)) (all_chests (storage s))"
proof -
  have b: "blocking_user s u = []" "blocking_pair s item = []" "blocking_chests s item = []" "s' = s"
    using assms by (auto simp: assert_tradeable_eq split: if_splits)
  have c: "length (amounts c) = SLOTS_PER_CHEST \<and> list_all (\<lambda>a. - 1 \<le> a \<and> a \<le> item_capacity s item) (amounts c)"
    if "c \<in> set (all_chests (storage s))" "chest_item c = item" for c
  proof -
    have "audit_chest (item_capacity s item) c = []" using b(3) that by (auto simp: blocking_chests_def)
    then have l: "length (amounts c) = SLOTS_PER_CHEST" and a: "audit_slots (chest_id c) (item_capacity s item) (amounts c) = []"
      by (auto simp: audit_chest_def split: if_splits)
    have "\<forall>(i, a) \<in> set (enumerate 0 (amounts c)). \<not> a < - 1 \<and> \<not> a > item_capacity s item"
      using a by (auto simp: audit_slots_def split: if_splits)
    then have "\<forall>a \<in> snd ` set (enumerate 0 (amounts c)). \<not> a < - 1 \<and> \<not> a > item_capacity s item" by auto
    moreover have "snd ` set (enumerate 0 (amounts c)) = set (amounts c)"
      by (metis list.set_map map_snd_enumerate)
    ultimately have "\<forall>a \<in> set (amounts c). \<not> a < - 1 \<and> \<not> a > item_capacity s item" by simp
    with l show ?thesis by (auto simp: list_all_iff)
  qed
  have "case hget (users s) u of None \<Rightarrow> True | Some x \<Rightarrow> f_is_finite (balance x) \<and> \<not> f_lt (balance x) (f_of_int 0)"
    using b(1) by (auto simp: blocking_user_def split: option.splits if_splits)
  moreover have "case hget (pairs s) item of None \<Rightarrow> True
     | Some p \<Rightarrow> 0 \<le> item_stock p \<and> \<not> f_lt (currency_stock p) (f_of_int 0) \<and>
         item_stock p = total_item_amount (storage s) (pair_item p)"
    using b(2) by (auto simp: blocking_pair_def audit_ledger_def Let_def split: option.splits if_splits)
  ultimately show ?thesis using b(4) c by (auto simp: list_all_iff)
qed

text \<open>The gate looks only at the trade at hand: two stores that agree on the user, the pair and the
  chests of the item give the same answer, whatever is wrong with the rest.\<close>

theorem tradeable_scoped:
  assumes "hget (users s1) u = hget (users s2) u" "hget (pairs s1) item = hget (pairs s2) item"
    and "filter (\<lambda>c. chest_item c = item) (all_chests (storage s1)) = filter (\<lambda>c. chest_item c = item) (all_chests (storage s2))"
    and "\<forall>p. hget (pairs s1) item = Some p \<longrightarrow> pair_item p = item"
  shows "fst (assert_tradeable s1 item u) = fst (assert_tradeable s2 item u)"
proof -
  have t: "total_item_amount (storage s1) item = total_item_amount (storage s2) item"
    using assms(3) by (simp add: total_item_amount_def)
  have "blocking_pair s1 item = blocking_pair s2 item"
    using assms(2,4) t by (auto simp: blocking_pair_def split: option.splits)
  moreover have "blocking_chests s1 item = blocking_chests s2 item"
    using assms(2,3) by (simp add: blocking_chests_def item_capacity_def)
  moreover have "blocking_user s1 u = blocking_user s2 u" using assms(1) by (simp add: blocking_user_def)
  ultimately show ?thesis by (simp add: assert_tradeable_eq)
qed

section \<open>Saving\<close>

text \<open>The trades of the log that no save has written yet.\<close>

definition unsaved :: "store \<Rightarrow> trade list" where
  "unsaved s = drop (saved_trades_count s) (trades s)"

text \<open>A save writes exactly the trades that were not written before and are still kept after
  trimming: the written trades are the unsaved ones without those the cap dropped from the front;
  afterwards nothing is unsaved if the trade save succeeded, and otherwise the same trades still
  are. The log is within its cap.\<close>

theorem save_writes_unsaved:
  assumes "save ok s = (res, s', written)"
  shows "trades s' = drop (length (trades s) - max_trades_in_memory (conf s)) (trades s) \<and>
    length (trades s') \<le> max_trades_in_memory (conf s) \<and>
    written = drop (length (trades s) - max_trades_in_memory (conf s) - saved_trades_count s) (unsaved s) \<and>
    (if trades_ok ok then unsaved s' = [] else unsaved s' = written)"
proof -
  let ?d = "length (trades s) - max_trades_in_memory (conf s)"
  define s1 where "s1 = trim_in_memory_to_caps s"
  have t1: "trades s1 = drop ?d (trades s)" "saved_trades_count s1 = saved_trades_count s - ?d"
    by (auto simp: s1_def trim_in_memory_to_caps_def Let_def)
  define c where "c = min (saved_trades_count s1) (length (trades s1))"
  define s2 where "s2 = (if saved_trades_count s1 > length (trades s1)
      then s1\<lparr>saved_trades_count := length (trades s1)\<rparr> else s1)"
  have s2: "trades s2 = trades s1" "saved_trades_count s2 = c" "c \<le> length (trades s1)"
    by (simp_all add: s2_def c_def)
  have "written = drop (length (trades s2) - (length (trades s2) - saved_trades_count s2)) (trades s2) \<and>
      s' = (if trades_ok ok then s2\<lparr>saved_trades_count := length (trades s2)\<rparr> else s2)"
    using assms by (simp only: save_def s1_def [symmetric] s2_def [symmetric] Let_def prod.inject)
  then have w: "written = drop c (trades s1)" "trades s' = trades s1"
    "saved_trades_count s' = (if trades_ok ok then length (trades s1) else c)"
    using s2 by simp_all
  have "drop c (trades s1) = drop (saved_trades_count s1) (trades s1)"
    by (simp add: c_def min_def)
  also have "\<dots> = drop (?d - saved_trades_count s) (unsaved s)"
    by (simp add: t1 unsaved_def add.commute diff_add_assoc2) (cases "?d \<le> saved_trades_count s"; simp)
  finally show ?thesis using w t1 by (auto simp: unsaved_def)
qed

section \<open>Users\<close>

text \<open> Making sure a user exists never changes a balance or an operator flag, of anyone, never removes
  a user, and marks the user as dirty whenever the record changed, so that the change is saved.\<close>

theorem ensure_user_safe:
  "(case hget (users s) v of
      Some x \<Rightarrow> (case hget (users (ensure_user_exists name u s)) v of
        None \<Rightarrow> False | Some y \<Rightarrow> balance y = balance x \<and> operator y = operator x \<and> uuid y = uuid x)
    | None \<Rightarrow> (case hget (users (ensure_user_exists name u s)) v of
        None \<Rightarrow> True | Some y \<Rightarrow> v = u \<and> is_valid_uuid_shape u \<and> balance y = f_of_int 0 \<and> \<not> operator y)) \<and>
   (hget (users (ensure_user_exists name u s)) v = hget (users s) v \<or> v \<in> dirty_users (ensure_user_exists name u s))"
  by (auto simp: ensure_user_exists_def split: option.splits)

section \<open>Witnesses\<close>

definition sample_uuid :: string where
  "sample_uuid = ''0123456789abcdef0123456789abcdef''"

definition sample_pair :: pair where
  "sample_pair = \<lparr>pair_item = ''iron'', stack_size = 64, item_stock = 7, currency_stock = Fin 100\<rparr>"

definition sample_store :: store where
  "sample_store = \<lparr>conf = \<lparr>fee = Fin (1 / 8), trade_timeout_ms = 45000, max_orders = 10, max_trades_in_memory = 2,
      autosave_interval_secs = 2\<rparr>,
     pairs = [(''iron'', sample_pair)],
     users = [(sample_uuid, \<lparr>uuid = sample_uuid, username = ''alice'', balance = Fin 50, operator = False\<rparr>)],
     order_log = [], trades = map (\<lambda>i. trade_new TradeBuy ''iron'' 1 (Fin 1) sample_uuid i) [1, 2, 3],
     storage = sample_storage, dirty = False, dirty_users = {}, saved_trades_count = 1,
     current_trade = None, trade_mirror = Absent\<rparr>"

definition sample_report :: chest_sync_report where
  "sample_report = \<lparr>r_chest_id = 3, r_item = ''minecraft:iron'', r_amounts = [5, 2, -1]\<rparr>"

lemma sample_store_storage: "storage sample_store = sample_storage"
  by (simp add: sample_store_def)

lemma sample_store_wf: "list_all (node_wf sample_origin) (nodes (storage sample_store))"
  using node_load_wf [OF sample_load] by (simp add: sample_store_storage sample_storage_def max_node_id_val)

theorem apply_chest_sync_wf_witness:
  "list_all (node_wf sample_origin) (nodes (storage (snd (apply_chest_sync sample_report sample_store))))"
  by (rule apply_chest_sync_wf [OF sample_store_wf])

definition sample_synced :: store where
  "sample_synced = snd (apply_chest_sync sample_report sample_store)"

lemma sample_sync: "apply_chest_sync sample_report sample_store = (Inr (), sample_synced)"
proof -
  have "(case sync_nodes sample_report (nodes sample_storage) of Some (Inr ns) \<Rightarrow> True | _ \<Rightarrow> False)" by code_simp
  then have "fst (apply_chest_sync sample_report sample_store) = Inr ()"
    by (auto simp: apply_chest_sync_def sample_store_storage split: option.splits sum.splits)
  then show ?thesis unfolding sample_synced_def by (metis prod.collapse)
qed

theorem apply_chest_sync_effect_witness:
  "\<exists>xs c d ys. all_chests (storage sample_store) = xs @ c # ys \<and> all_chests (storage sample_synced) = xs @ d # ys \<and>
     chest_id c = 3 \<and> same_place c d"
proof -
  have r: "r_chest_id sample_report = 3" by (simp add: sample_report_def)
  show ?thesis using apply_chest_sync_effect [OF sample_sync] by (simp only: sum.case r) blast
qed

lemma sample_gate: "assert_tradeable sample_store ''iron'' sample_uuid = (Inr (), sample_store)"
proof -
  have u: "blocking_user sample_store sample_uuid = []"
    by (simp add: blocking_user_def sample_store_def in_i32_def i32_min_def i32_max_def)
  have p: "blocking_pair sample_store ''iron'' = []"
  proof -
    have "total_item_amount sample_storage ''iron'' = 7" by code_simp
    then show ?thesis by (simp add: blocking_pair_def sample_store_def sample_pair_def audit_ledger_def in_i32_def i32_min_def i32_max_def)
  qed
  have c: "blocking_chests sample_store ''iron'' = []"
  proof -
    have "concat (map (audit_chest (27 * 64)) (filter (\<lambda>c. chest_item c = ''iron'') (all_chests sample_storage))) = []"
      by code_simp
    moreover have "shulker_capacity_for_stack_size 64 = 27 * 64" by code_simp
    then have "item_capacity sample_store ''iron'' = 27 * 64"
      by (simp add: item_capacity_def sample_store_def sample_pair_def)
    ultimately show ?thesis by (simp add: blocking_chests_def sample_store_storage)
  qed
  show ?thesis by (simp add: assert_tradeable_eq u p c)
qed

theorem tradeable_sound_witness:
  "case hget (pairs sample_store) ''iron'' of None \<Rightarrow> False
   | Some p \<Rightarrow> item_stock p = total_item_amount (storage sample_store) (pair_item p)"
  using tradeable_sound [OF sample_gate] by (simp add: sample_store_def)

theorem tradeable_scoped_witness:
  "fst (assert_tradeable sample_store ''iron'' sample_uuid) =
   fst (assert_tradeable (sample_store\<lparr>pairs := (''dirt'', sample_pair\<lparr>item_stock := - 5\<rparr>) # pairs sample_store\<rparr>) ''iron'' sample_uuid)"
  by (rule tradeable_scoped) (simp_all add: sample_store_def sample_pair_def)

theorem save_writes_unsaved_witness:
  "snd (snd (save \<lparr>pairs_ok = True, users_ok = True, orders_ok = True, trades_ok = True, storage_ok = True\<rparr> sample_store)) =
     drop (3 - 2 - 1) (unsaved sample_store)"
proof -
  obtain res s' written where w: "save \<lparr>pairs_ok = True, users_ok = True, orders_ok = True, trades_ok = True, storage_ok = True\<rparr> sample_store =
    (res, s', written)" by (metis prod_cases3)
  from save_writes_unsaved [OF w] w show ?thesis by (simp add: sample_store_def)
qed

end
