(* ===== verification/Store_World.thy ===== *)
theory Store_World
  imports Store_Invariants
begin

text \<open>
  What the store's handlers see of the rest of the program. The bot is reached through the channel
  messages of \<^verbatim>\<open>src/messages.rs\<close>; each request is answered, refused, dropped or late, and the answers
  of a run are scripts in the \<open>world\<close>, consumed in order (an exhausted script is a closed channel, a
  failed write). The log \<open>sent\<close> records every instruction the bot received. An action
  returns \<open>Ok\<close>, \<open>Err\<close> with the source's error, or \<open>Panicked\<close> where an assertion of the source fails;
  \<open>andthen\<close> is sequencing with \<open>?\<close>, \<open>attempt\<close> gives a handler the error instead.
  The locales \<open>act_relation\<close>, \<open>bot_relation\<close> and \<open>world_relation\<close> are the interfaces every statement about a whole
  handler uses: a preorder on worlds that the primitive actions respect.
\<close>

section \<open>Instructions and replies\<close>

datatype chest_action =
    ActWithdraw item_id i32 i32
  | ActDeposit item_id i32 i32

datatype instruction =
    WhisperTo string string
  | ChestTask chest position chest_action
  | TradeTask string "trade_item list" "trade_item list" bool bool
  | ValidateTask i32 position
  | RestartTask
  | ShutdownTask

datatype 'a reply = SendFailed | Dropped | TimedOut | Answered "string + 'a"

record world =
  w_store :: store
  whisper_replies :: "unit reply list"
  chest_replies :: "chest_sync_report reply list"
  trade_replies :: "trade_item list reply list"
  validate_replies :: "unit reply list"
  control_replies :: "unit reply list"
  write_oks :: "bool list"
  save_scripts :: "save_outcomes list"
  clock :: "int list"
  sent :: "instruction list"

datatype 'a res = Ok 'a | Err store_error | Panicked

type_synonym 'a act = "world \<Rightarrow> 'a res \<times> world"

definition next_of :: "'a \<Rightarrow> 'a list \<Rightarrow> 'a \<times> 'a list" where
  "next_of d xs = (case xs of [] \<Rightarrow> (d, []) | x # ys \<Rightarrow> (x, ys))"

text \<open>A refused send leaves no trace: the receiver is gone.\<close>

definition log_sent :: "'a reply \<Rightarrow> instruction \<Rightarrow> world \<Rightarrow> world" where
  "log_sent r i w = (case r of SendFailed \<Rightarrow> w | _ \<Rightarrow> w\<lparr>sent := sent w @ [i]\<rparr>)"

definition ask_whisper :: "instruction \<Rightarrow> world \<Rightarrow> unit reply \<times> world" where
  "ask_whisper i w = (let (r, rs) = next_of SendFailed (whisper_replies w)
     in (r, log_sent r i (w\<lparr>whisper_replies := rs\<rparr>)))"

definition ask_chest :: "instruction \<Rightarrow> world \<Rightarrow> chest_sync_report reply \<times> world" where
  "ask_chest i w = (let (r, rs) = next_of SendFailed (chest_replies w)
     in (r, log_sent r i (w\<lparr>chest_replies := rs\<rparr>)))"

definition ask_trade :: "instruction \<Rightarrow> world \<Rightarrow> trade_item list reply \<times> world" where
  "ask_trade i w = (let (r, rs) = next_of SendFailed (trade_replies w)
     in (r, log_sent r i (w\<lparr>trade_replies := rs\<rparr>)))"

definition ask_validate :: "instruction \<Rightarrow> world \<Rightarrow> unit reply \<times> world" where
  "ask_validate i w = (let (r, rs) = next_of SendFailed (validate_replies w)
     in (r, log_sent r i (w\<lparr>validate_replies := rs\<rparr>)))"

definition ask_control :: "instruction \<Rightarrow> world \<Rightarrow> unit reply \<times> world" where
  "ask_control i w = (let (r, rs) = next_of SendFailed (control_replies w)
     in (r, log_sent r i (w\<lparr>control_replies := rs\<rparr>)))"

definition next_write :: "world \<Rightarrow> bool \<times> world" where
  "next_write w = (let (b, bs) = next_of False (write_oks w) in (b, w\<lparr>write_oks := bs\<rparr>))"

definition now :: "world \<Rightarrow> int \<times> world" where
  "now w = (let (t, ts) = next_of 0 (clock w) in (t, w\<lparr>clock := ts\<rparr>))"

text \<open>Asking changes nothing but the scripts and the log.\<close>

lemma ask_store [simp]:
  "ask_whisper i w = (r1, w1) \<Longrightarrow> w_store w1 = w_store w"
  "ask_chest i w = (r2, w2) \<Longrightarrow> w_store w2 = w_store w"
  "ask_trade i w = (r3, w3) \<Longrightarrow> w_store w3 = w_store w"
  "next_write w = (b, w4) \<Longrightarrow> w_store w4 = w_store w"
  "now w = (t, w5) \<Longrightarrow> w_store w5 = w_store w"
  "ask_validate i w = (r6, w6) \<Longrightarrow> w_store w6 = w_store w"
  "ask_control i w = (r7, w7) \<Longrightarrow> w_store w7 = w_store w"
  by (auto simp: ask_whisper_def ask_chest_def ask_trade_def ask_validate_def ask_control_def next_write_def now_def log_sent_def Let_def
      split: prod.splits reply.splits)

section \<open>Actions\<close>

definition ret :: "'a \<Rightarrow> 'a act" where
  "ret a w = (Ok a, w)"

definition fail :: "store_error \<Rightarrow> 'a act" where
  "fail e w = (Err e, w)"

definition panic :: "'a act" where
  "panic w = (Panicked, w)"

definition andthen :: "'a act \<Rightarrow> ('a \<Rightarrow> 'b act) \<Rightarrow> 'b act" where
  "andthen m k w = (case m w of (Ok a, w') \<Rightarrow> k a w' | (Err e, w') \<Rightarrow> (Err e, w') | (Panicked, w') \<Rightarrow> (Panicked, w'))"

definition attempt :: "'a act \<Rightarrow> (store_error + 'a) act" where
  "attempt m w = (case m w of (Ok a, w') \<Rightarrow> (Ok (Inr a), w') | (Err e, w') \<Rightarrow> (Ok (Inl e), w') | (Panicked, w') \<Rightarrow> (Panicked, w'))"

definition reading :: "(store \<Rightarrow> 'a) \<Rightarrow> 'a act" where
  "reading f w = (Ok (f (w_store w)), w)"

definition updating :: "(store \<Rightarrow> store) \<Rightarrow> unit act" where
  "updating f w = (Ok (), w\<lparr>w_store := f (w_store w)\<rparr>)"

definition checked :: "(store \<Rightarrow> (store_error + 'a) \<times> store) \<Rightarrow> 'a act" where
  "checked f w = (case f (w_store w) of (r, s) \<Rightarrow>
     ((case r of Inl e \<Rightarrow> Err e | Inr a \<Rightarrow> Ok a), w\<lparr>w_store := s\<rparr>))"

text \<open>A write through \<open>expect_pair_mut\<close> or \<open>expect_user_mut\<close>.\<close>

definition writing :: "(store \<Rightarrow> store_error + store) \<Rightarrow> unit act" where
  "writing f w = (case f (w_store w) of Inl e \<Rightarrow> (Err e, w) | Inr s \<Rightarrow> (Ok (), w\<lparr>w_store := s\<rparr>))"

definition or_panic :: "'a option \<Rightarrow> 'a act" where
  "or_panic x w = (case x of None \<Rightarrow> (Panicked, w) | Some a \<Rightarrow> (Ok a, w))"

text \<open>\<open>state::save\<close> where the handlers ignore its result.\<close>

definition save_ignored :: "unit act" where
  "save_ignored w = (let (ok, oks) = next_of \<lparr>pairs_ok = False, users_ok = False, orders_ok = False, trades_ok = False, storage_ok = False\<rparr>
       (save_scripts w)
     in case save ok (w_store w) of (_, s, _) \<Rightarrow> (Ok (), w\<lparr>save_scripts := oks, w_store := s\<rparr>))"

definition advance :: "(trade_state \<Rightarrow> transition_error + trade_state) \<Rightarrow> unit act" where
  "advance t w = (case current_trade (w_store w) of
       None \<Rightarrow> (Ok (), w)
     | Some _ \<Rightarrow> (case next_write w of (ok, w') \<Rightarrow> (Ok (), w'\<lparr>w_store := advance_trade ok t (w_store w')\<rparr>)))"

definition send_message_to_player :: "string \<Rightarrow> string \<Rightarrow> unit act" where
  "send_message_to_player player message w =
     (case ask_whisper (WhisperTo player message) w of
        (SendFailed, w') \<Rightarrow> (Err BotDisconnected, w')
      | (TimedOut, w') \<Rightarrow> (Err (BotAckTimeout ''whisper ack''), w')
      | (Dropped, w') \<Rightarrow> (Err BotDisconnected, w')
      | (Answered (Inl e), w') \<Rightarrow> (Err (BotReportedError e), w')
      | (Answered (Inr _), w') \<Rightarrow> (Ok (), w'))"

lemmas act_defs = ret_def fail_def panic_def andthen_def attempt_def reading_def updating_def
  checked_def writing_def or_panic_def

section \<open>Preorders on worlds\<close>

text \<open>
  A relation between the world before and after an action, closed under sequencing. The
  interface asks for the actions every handler shares; a statement about a handler then
  only needs its own writes.
\<close>

definition keeps :: "(world \<Rightarrow> world \<Rightarrow> bool) \<Rightarrow> 'a act \<Rightarrow> bool" where
  "keeps R m \<longleftrightarrow> (\<forall>w. R w (snd (m w)))"

locale act_relation =
  fixes R :: "world \<Rightarrow> world \<Rightarrow> bool"
  assumes R_refl: "R w w"
    and R_trans: "R w w' \<Longrightarrow> R w' w'' \<Longrightarrow> R w w''"
    and R_whisper: "ask_whisper i w = (r, w') \<Longrightarrow> R w w'"
begin

lemma R_ret [intro]: "keeps R (ret a)"
  by (simp add: keeps_def ret_def R_refl)

lemma R_fail [intro]: "keeps R (fail e)"
  by (simp add: keeps_def fail_def R_refl)

lemma R_panic [intro]: "keeps R panic"
  by (simp add: keeps_def panic_def R_refl)

lemma R_reading [intro]: "keeps R (reading f)"
  by (simp add: keeps_def reading_def R_refl)

lemma R_or_panic [intro]: "keeps R (or_panic x)"
  by (simp add: keeps_def or_panic_def R_refl split: option.splits)

lemma R_andthen [intro]:
  assumes "keeps R m" "\<And>a. keeps R (k a)"
  shows "keeps R (andthen m k)"
  unfolding keeps_def
proof
  fix w
  obtain r w' where m: "m w = (r, w')" by force
  with assms(1) have 1: "R w w'" unfolding keeps_def by (metis snd_conv)
  show "R w (snd (andthen m k w))"
  proof (cases r)
    case (Ok a)
    have "R w' (snd (k a w'))" using assms(2) by (auto simp: keeps_def)
    then show ?thesis using 1 m Ok R_trans by (auto simp: andthen_def)
  qed (use 1 m in \<open>auto simp: andthen_def\<close>)
qed

lemma R_attempt [intro]: "keeps R m \<Longrightarrow> keeps R (attempt m)"
  unfolding keeps_def attempt_def by (auto split: prod.splits res.splits) (metis snd_conv)+

lemma R_send_message [intro]: "keeps R (send_message_to_player p m)"
  unfolding keeps_def send_message_to_player_def
  by (auto split: prod.splits reply.splits sum.splits dest: R_whisper)

lemma R_updating: "(\<And>w. R w (w\<lparr>w_store := f (w_store w)\<rparr>)) \<Longrightarrow> keeps R (updating f)"
  by (simp add: keeps_def updating_def)

lemma R_if [intro]: "keeps R m \<Longrightarrow> keeps R m' \<Longrightarrow> keeps R (if b then m else m')"
  by simp

lemma R_option [intro]: "keeps R m \<Longrightarrow> (\<And>a. keeps R (k a)) \<Longrightarrow> keeps R (case x of None \<Rightarrow> m | Some a \<Rightarrow> k a)"
  by (cases x) auto

lemma R_sum [intro]: "(\<And>a. keeps R (m a)) \<Longrightarrow> (\<And>a. keeps R (k a)) \<Longrightarrow> keeps R (case x of Inl a \<Rightarrow> m a | Inr a \<Rightarrow> k a)"
  by (cases x) auto

lemma R_prod [intro]: "(\<And>a b. keeps R (k a b)) \<Longrightarrow> keeps R (case x of (a, b) \<Rightarrow> k a b)"
  by (cases x) auto

text \<open>A question to the bot and the branches of its answer.\<close>

lemma R_asking:
  assumes "\<And>w r w'. f w = (r, w') \<Longrightarrow> R w w'" "\<And>r. keeps R (k r)"
  shows "keeps R (\<lambda>w. case f w of (r, w') \<Rightarrow> k r w')"
  unfolding keeps_def
proof
  fix w
  obtain r w' where f: "f w = (r, w')" by force
  have "R w' (snd (k r w'))" using assms(2) by (simp add: keeps_def)
  then show "R w (snd (case f w of (r, w') \<Rightarrow> k r w'))" using f R_trans [OF assms(1) [OF f]] by simp
qed

lemma R_reply: "keeps R a \<Longrightarrow> keeps R b \<Longrightarrow> keeps R c \<Longrightarrow> (\<And>x. keeps R (d x)) \<Longrightarrow>
    keeps R (\<lambda>w. case r of SendFailed \<Rightarrow> a w | Dropped \<Rightarrow> b w | TimedOut \<Rightarrow> c w | Answered x \<Rightarrow> d x w)"
  by (cases r) auto

lemma R_either: "(\<And>x. keeps R (a x)) \<Longrightarrow> (\<And>x. keeps R (b x)) \<Longrightarrow>
    keeps R (\<lambda>w. case r of Inl x \<Rightarrow> a x w | Inr x \<Rightarrow> b x w)"
  by (cases r) auto

end

text \<open>The bot's part: chest steps with their reports, trades, the growth of the storage.\<close>

locale bot_relation = act_relation +
  assumes R_chest: "ask_chest (ChestTask c p a) w = (r1, w') \<Longrightarrow> R w w'"
    and R_trade: "ask_trade i w = (r2, w') \<Longrightarrow> R w w'"
    and R_write: "next_write w = (b, w') \<Longrightarrow> R w w'"
    and R_now: "now w = (t, w') \<Longrightarrow> R w w'"
    and R_sync: "R w (w\<lparr>w_store := snd (apply_chest_sync report (w_store w))\<rparr>)"
    and R_grow: "add_node (storage (w_store w)) = Some st \<Longrightarrow> R w (w\<lparr>w_store := (w_store w)\<lparr>storage := st\<rparr>\<rparr>)"
begin

lemma R_synced: "keeps R m \<Longrightarrow> keeps R (\<lambda>w. m (w\<lparr>w_store := snd (apply_chest_sync report (w_store w))\<rparr>))"
  unfolding keeps_def using R_trans [OF R_sync] by blast

lemma R_syncing:
  assumes "\<And>r. keeps R (k r)"
  shows "keeps R (\<lambda>w. case apply_chest_sync report (w_store w) of (r, s) \<Rightarrow> k r (w\<lparr>w_store := s\<rparr>))"
proof -
  have "R w (snd (k r (w\<lparr>w_store := snd (apply_chest_sync report (w_store w))\<rparr>)))" for w r
    by (rule R_trans [OF R_sync [of _ report]]) (use assms in \<open>simp add: keeps_def\<close>)
  then show ?thesis by (simp add: keeps_def split: prod.split) (metis snd_conv)
qed

end

text \<open>The relation also respects the trade in flight moving on, by a transition of its state machine.\<close>

definition legal :: "(trade_state \<Rightarrow> transition_error + trade_state) \<Rightarrow> bool" where
  "legal t \<longleftrightarrow> (\<forall>s s'. t s = Inr s' \<longrightarrow> trade_step s s')"

lemma legal_transitions:
  "legal (begin_withdrawal plan)" "legal begin_trading" "legal (begin_depositing r plan)"
  "legal (commit item q c)" "legal (rollback reason)"
  by (auto simp: legal_def intro: trade_step.intros)

locale world_relation = bot_relation +
  assumes R_advance: "legal tr \<Longrightarrow> R w (w\<lparr>w_store := advance_trade b tr (w_store w)\<rparr>)"
begin

lemma R_adv [intro]:
  assumes "legal t"
  shows "keeps R (advance t)"
  unfolding keeps_def advance_def
proof (intro allI)
  fix w
  obtain b w' where n: "next_write w = (b, w')" by force
  have "R w (w'\<lparr>w_store := advance_trade b t (w_store w')\<rparr>)"
    using R_trans [OF R_write [OF n] R_advance [OF assms]] .
  with n show "R w (snd (case current_trade (w_store w) of None \<Rightarrow> (Ok (), w)
     | Some _ \<Rightarrow> (case next_write w of (ok, w') \<Rightarrow> (Ok (), w'\<lparr>w_store := advance_trade ok t (w_store w')\<rparr>))))"
    by (auto simp: R_refl split: option.split)
qed

end

section \<open>Sequencing\<close>

lemma andthenE:
  assumes "andthen m k w = (r, w')"
  obtains (ok) a w1 where "m w = (Ok a, w1)" "k a w1 = (r, w')"
  | (err) e where "m w = (Err e, w')" "r = Err e"
  | (panicked) "m w = (Panicked, w')" "r = Panicked"
  using assms by (cases "m w") (auto simp: andthen_def split: res.splits)

lemma attemptE:
  assumes "attempt m w = (r, w')"
  obtains (ok) a where "m w = (Ok a, w')" "r = Ok (Inr a)"
  | (err) e where "m w = (Err e, w')" "r = Ok (Inl e)"
  | (panicked) "m w = (Panicked, w')" "r = Panicked"
  using assms by (cases "m w") (auto simp: attempt_def split: res.splits)

lemma andthen_Ok: "m w = (Ok a, w1) \<Longrightarrow> andthen m k w = k a w1"
  by (simp add: andthen_def)

lemma simple_acts [simp]:
  "ret a w = (Ok a, w)" "fail e w = (Err e, w)" "panic w = (Panicked, w)"
  "reading f w = (Ok (f (w_store w)), w)" "updating g w = (Ok (), w\<lparr>w_store := g (w_store w)\<rparr>)"
  by (simp_all add: ret_def fail_def panic_def reading_def updating_def)

end
