(* ===== verification/Rollback.thy ===== *)
theory Rollback
  imports Store_World
begin

text \<open>
  The return of items to storage after a failed exchange, \<^verbatim>\<open>src/store/rollback.rs\<close>: every transfer is
  sent to the bot as a deposit and the confirmed reports are applied; a rollback of an amount plans
  the deposit first and may grow the storage, at most 16 times. Log output is not modelled.
\<close>

section \<open>Definitions\<close>

record rollback_result =
  items_returned :: i32
  items_unplanned :: i32
  items_stuck_on_bot :: i32
  operations_succeeded :: nat
  operations_failed :: nat

definition rollback_default :: rollback_result where
  "rollback_default = \<lparr>items_returned = 0, items_unplanned = 0, items_stuck_on_bot = 0,
     operations_succeeded = 0, operations_failed = 0\<rparr>"

definition has_failures :: "rollback_result \<Rightarrow> bool" where
  "has_failures rb \<longleftrightarrow> operations_failed rb > 0 \<or> items_unplanned rb > 0 \<or> items_stuck_on_bot rb > 0"

definition dec_i32 :: "i32 \<Rightarrow> string" where
  "dec_i32 n = (if n < 0 then ''-'' @ dec (nat (- n)) else dec (nat n))"

text \<open>The UTF-8 bytes of the dash in the player-facing texts.\<close>

definition em_dash :: string where
  "em_dash = map char_of [226 :: nat, 128, 148]"

fun join_with :: "string \<Rightarrow> string list \<Rightarrow> string" where
  "join_with sep [] = []"
| "join_with sep [x] = x"
| "join_with sep (x # xs) = x @ sep @ join_with sep xs"

definition partial_message :: "rollback_result \<Rightarrow> string option" where
  "partial_message rb =
     (if \<not> has_failures rb then None
      else Some (join_with ''; ''
        ((if items_returned rb > 0 then [dec_i32 (items_returned rb) @ '' returned to storage''] else []) @
         (if operations_failed rb > 0 then [dec (operations_failed rb) @ '' chest operation(s) failed''] else []) @
         (if items_stuck_on_bot rb > 0 then [dec_i32 (items_stuck_on_bot rb) @
            '' item(s) stuck on the bot from failed chest op(s) '' @ em_dash @ '' recover manually''] else []) @
         (if items_unplanned rb > 0 then [dec_i32 (items_unplanned rb) @
            '' item(s) could not be placed and remain on the bot '' @ em_dash @ '' investigate manually''] else []))))"

definition chest_from_transfer :: "chest_transfer \<Rightarrow> chest" where
  "chest_from_transfer t =
     \<lparr>chest_id = tr_chest_id t, chest_node_id = tr_chest_id t sdiv int CHESTS_PER_NODE,
      chest_index = tr_chest_id t smod int CHESTS_PER_NODE, chest_position = tr_position t,
      chest_item = tr_item t, amounts = replicate SLOTS_PER_CHEST 0\<rparr>"

definition node_position_of :: "i32 \<Rightarrow> position act" where
  "node_position_of k = andthen (reading (\<lambda>s. get_node_position s k)) or_panic"

text \<open>The counters after a step the bot confirmed, did not confirm, or could not be sent.\<close>

definition credit :: "bool \<Rightarrow> i32 \<Rightarrow> rollback_result \<Rightarrow> rollback_result" where
  "credit sync_ok a rb =
     (let rb1 = (if sync_ok then rb\<lparr>operations_succeeded := operations_succeeded rb + 1\<rparr>
                 else rb\<lparr>operations_failed := operations_failed rb + 1\<rparr>)
      in rb1\<lparr>items_returned := sat_add_i32 (items_returned rb1) (max a 0)\<rparr>)"

definition strand :: "i32 \<Rightarrow> rollback_result \<Rightarrow> rollback_result" where
  "strand a rb = rb\<lparr>operations_failed := operations_failed rb + 1,
     items_stuck_on_bot := sat_add_i32 (items_stuck_on_bot rb) (max a 0)\<rparr>"

definition strand_tail :: "plan \<Rightarrow> rollback_result \<Rightarrow> rollback_result" where
  "strand_tail tail rb =
     (if length tail > 0
      then rb\<lparr>operations_failed := operations_failed rb + length tail,
              items_stuck_on_bot := sat_add_i32 (items_stuck_on_bot rb)
                (wrap_i32 (sum_list (map (\<lambda>t. max (tr_amount t) 0) tail)))\<rparr>
      else rb)"

fun deposit_steps :: "plan \<Rightarrow> item_id \<Rightarrow> i32 \<Rightarrow> rollback_result \<Rightarrow> rollback_result act" where
  "deposit_steps [] item stk rb = ret rb"
| "deposit_steps (t # ts) item stk rb =
     andthen (node_position_of (tr_chest_id t)) (\<lambda>np w.
       (case ask_chest (ChestTask (chest_from_transfer t) np (ActDeposit item (tr_amount t) stk)) w of
          (SendFailed, w') \<Rightarrow> ret (strand_tail ts (strand (tr_amount t) rb)) w'
        | (Answered (Inr report), w') \<Rightarrow>
            (case apply_chest_sync report (w_store w') of
               (r, s) \<Rightarrow> deposit_steps ts item stk (credit (is_ok r) (tr_amount t) rb) (w'\<lparr>w_store := s\<rparr>))
        | (_, w') \<Rightarrow> deposit_steps ts item stk (strand (tr_amount t) rb) w'))"

definition deposit_transfers :: "plan \<Rightarrow> item_id \<Rightarrow> i32 \<Rightarrow> rollback_result act" where
  "deposit_transfers transfers item stk =
     (if transfers = [] then ret rollback_default else deposit_steps transfers item stk rollback_default)"

text \<open>The growth loop with the number of attempts left; \<open>planned\<close> items of \<open>amount\<close> have a place.\<close>

definition MAX_GROW :: nat where
  "MAX_GROW = 16"

fun grow_loop :: "nat \<Rightarrow> item_id \<Rightarrow> i32 \<Rightarrow> i32 \<Rightarrow> plan \<Rightarrow> i32 \<Rightarrow> (plan \<times> i32) act" where
  "grow_loop attempts item amount stk plan planned w =
     (let unplanned = max (amount - planned) 0 in
      if unplanned \<le> 0 then ret (plan, unplanned) w
      else case attempts of
        0 \<Rightarrow> ret (plan, unplanned) w
      | Suc left \<Rightarrow>
          (case add_node (storage (w_store w)) of
             None \<Rightarrow> panic w
           | Some st \<Rightarrow>
               (case next_write (w\<lparr>w_store := (w_store w)\<lparr>storage := st\<rparr>\<rparr>) of
                  (False, w') \<Rightarrow> ret (plan, unplanned) w'
                | (True, w') \<Rightarrow>
                    (let (re_plan, re_planned) = simulate_deposit_plan (storage (w_store w')) item amount stk in
                     if re_planned \<le> planned then ret (plan, unplanned) w'
                     else grow_loop left item amount stk re_plan re_planned w'))))"

declare grow_loop.simps [simp del]

definition rollback_amount_to_storage :: "item_id \<Rightarrow> i32 \<Rightarrow> i32 \<Rightarrow> rollback_result act" where
  "rollback_amount_to_storage item amount stk w =
     (if amount \<le> 0 then ret rollback_default w
      else (let (plan, planned) = simulate_deposit_plan (storage (w_store w)) item amount stk in
            andthen (grow_loop MAX_GROW item amount stk plan planned) (\<lambda>(plan', unplanned).
            andthen (deposit_transfers plan' item stk) (\<lambda>rb.
              ret (rb\<lparr>items_unplanned := unplanned\<rparr>))) w))"

section \<open>Rollback in a relation the bot respects\<close>

context bot_relation begin

lemma R_node_position [intro]: "keeps R (node_position_of k)"
  unfolding node_position_of_def by blast

lemma R_deposit_steps: "keeps R (deposit_steps ts item stk rb)"
proof (induction ts arbitrary: rb)
  case (Cons t ts)
  show ?case unfolding deposit_steps.simps
    by (intro R_andthen R_node_position R_asking R_reply R_either R_syncing Cons.IH R_ret) (erule R_chest)
qed auto

lemma R_deposit_transfers [intro]: "keeps R (deposit_transfers ts item stk)"
  by (auto simp: deposit_transfers_def intro: R_deposit_steps)

lemma R_grow_loop: "keeps R (grow_loop n item amount stk plan planned)"
proof (induction n arbitrary: plan planned)
  case (Suc n)
  show ?case unfolding keeps_def
  proof
    fix w
    show "R w (snd (grow_loop (Suc n) item amount stk plan planned w))"
    proof (cases "max (amount - planned) 0 \<le> 0 \<or> add_node (storage (w_store w)) = None")
      case True then show ?thesis by (auto simp: grow_loop.simps [of "Suc n"] ret_def panic_def R_refl Let_def)
    next
      case False
      then obtain st where st: "add_node (storage (w_store w)) = Some st" by auto
      obtain b w' where w': "next_write (w\<lparr>w_store := (w_store w)\<lparr>storage := st\<rparr>\<rparr>) = (b, w')" by force
      have 1: "R w w'" using R_trans [OF R_grow [OF st] R_write [OF w']] .
      have "R w' (snd (grow_loop n item amount stk p q w'))" for p q
        using Suc.IH by (simp add: keeps_def)
      with 1 have "R w (snd (grow_loop n item amount stk p q w'))" for p q using R_trans by blast
      with 1 False st w' show ?thesis
        by (auto simp: grow_loop.simps [of "Suc n"] ret_def Let_def split: prod.splits bool.splits)
    qed
  qed
qed (auto simp: grow_loop.simps keeps_def ret_def R_refl Let_def)

lemma R_rollback_amount [intro]: "keeps R (rollback_amount_to_storage item amount stk)"
proof -
  have "R w (snd (andthen (grow_loop MAX_GROW item amount stk p q) (\<lambda>(plan', unplanned).
            andthen (deposit_transfers plan' item stk) (\<lambda>rb. ret (rb\<lparr>items_unplanned := unplanned\<rparr>))) w))" for w p q
  proof -
    have "keeps R (andthen (grow_loop MAX_GROW item amount stk p q) (\<lambda>(plan', unplanned).
            andthen (deposit_transfers plan' item stk) (\<lambda>rb. ret (rb\<lparr>items_unplanned := unplanned\<rparr>))))"
      by (auto intro!: R_andthen R_grow_loop R_prod)
    then show ?thesis by (simp add: keeps_def)
  qed
  then show ?thesis by (auto simp: keeps_def rollback_amount_to_storage_def ret_def R_refl split: prod.splits)
qed

end

end
