(* ===== verification/Orders.thy ===== *)
theory Orders
  imports Rollback
begin

text \<open>
  The buy and sell handlers of \<^verbatim>\<open>src/store/orders.rs\<close> with their shared helpers, phase by phase as the
  source has them: validate and plan, withdraw, trade, settle, commit. A message to the player is
  represented by its fixed part and the sanitised error it embeds; amounts and log output in
  texts are left out. Everything the handlers decide on is computed as the source does.
\<close>

section \<open>Shared helpers\<close>

datatype chest_direction = DirWithdraw | DirDeposit

fun action_for :: "chest_direction \<Rightarrow> item_id \<Rightarrow> i32 \<Rightarrow> i32 \<Rightarrow> chest_action" where
  "action_for DirWithdraw item amount stk = ActWithdraw item amount stk"
| "action_for DirDeposit item amount stk = ActDeposit item amount stk"

definition rollback_applied_prefix :: "chest_direction \<Rightarrow> plan \<Rightarrow> item_id \<Rightarrow> i32 \<Rightarrow> unit act" where
  "rollback_applied_prefix dir applied item stk =
     (if applied = [] then ret ()
      else if dir \<noteq> DirWithdraw then ret ()
      else andthen (deposit_transfers applied item stk) (\<lambda>_. ret ()))"

definition failing :: "chest_direction \<Rightarrow> plan \<Rightarrow> item_id \<Rightarrow> i32 \<Rightarrow> store_error \<Rightarrow> unit act" where
  "failing dir applied item stk e = andthen (rollback_applied_prefix dir applied item stk) (\<lambda>_. fail e)"

fun execute_steps :: "plan \<Rightarrow> plan \<Rightarrow> item_id \<Rightarrow> i32 \<Rightarrow> chest_direction \<Rightarrow> unit act" where
  "execute_steps [] applied item stk dir = ret ()"
| "execute_steps (t # ts) applied item stk dir =
     andthen (node_position_of (tr_chest_id t)) (\<lambda>np w.
       (case ask_chest (ChestTask (chest_from_transfer t) np (action_for dir item (tr_amount t) stk)) w of
          (SendFailed, w') \<Rightarrow> failing dir applied item stk BotDisconnected w'
        | (Dropped, w') \<Rightarrow> failing dir applied item stk (BotResponseDropped ''channel closed'') w'
        | (TimedOut, w') \<Rightarrow> failing dir applied item stk (ChestTimeout (sat_mul_u64 CHEST_OP_TIMEOUT_SECS 1000)) w'
        | (Answered (Inl e), w') \<Rightarrow> failing dir applied item stk (ChestOp e) w'
        | (Answered (Inr report), w') \<Rightarrow>
            (case apply_chest_sync report (w_store w') of
               (Inl e, s) \<Rightarrow> failing dir applied item stk (ChestOp ''chest sync failed'') (w'\<lparr>w_store := s\<rparr>)
             | (Inr _, s) \<Rightarrow> execute_steps ts (applied @ [t]) item stk dir (w'\<lparr>w_store := s\<rparr>))))"

definition execute_chest_transfers :: "plan \<Rightarrow> item_id \<Rightarrow> i32 \<Rightarrow> chest_direction \<Rightarrow> unit act" where
  "execute_chest_transfers transfers item stk dir = execute_steps transfers [] item stk dir"

definition perform_trade ::
  "string \<Rightarrow> trade_item list \<Rightarrow> trade_item list \<Rightarrow> bool \<Rightarrow> bool \<Rightarrow> trade_item list act" where
  "perform_trade player bot_offers player_offers exact flexible w =
     (case ask_trade (TradeTask player bot_offers player_offers exact flexible) w of
        (SendFailed, w') \<Rightarrow> (Err BotDisconnected, w')
      | (TimedOut, w') \<Rightarrow> (Err (TradeTimeout (trade_timeout_ms (conf (w_store w)))), w')
      | (Dropped, w') \<Rightarrow> (Err (BotResponseDropped ''channel closed''), w')
      | (Answered (Inl e), w') \<Rightarrow> (Err (TradeRejected e), w')
      | (Answered (Inr items), w') \<Rightarrow> (Ok items, w'))"

definition lift_err :: "store_error + 'a \<Rightarrow> 'a act" where
  "lift_err r = (case r of Inl e \<Rightarrow> fail e | Inr a \<Rightarrow> ret a)"

definition reject :: "string \<Rightarrow> string \<Rightarrow> 'a option act" where
  "reject player msg = andthen (send_message_to_player player msg) (\<lambda>_. ret None)"

definition push_trade :: "trade_type \<Rightarrow> string \<Rightarrow> i32 \<Rightarrow> f64 \<Rightarrow> string \<Rightarrow> unit act" where
  "push_trade ty item a c u =
     andthen (or_panic (from_normalized item)) (\<lambda>i w. (case now w of (t, w') \<Rightarrow>
       updating (\<lambda>s. s\<lparr>trades := trades s @ [trade_new ty i a c u t]\<rparr>) w'))"

definition push_order :: "order option \<Rightarrow> unit act" where
  "push_order o1 = andthen (or_panic o1) (\<lambda>x. updating (\<lambda>s. s\<lparr>order_log := order_log s @ [x]\<rparr>))"

definition mark_user_dirty :: "string \<Rightarrow> unit act" where
  "mark_user_dirty u = updating (\<lambda>s. s\<lparr>dirty := True, dirty_users := insert u (dirty_users s)\<rparr>)"

text \<open>The check after a commit: a store that cannot be repaired is saved at once.\<close>

definition post_check :: "bool act" where
  "post_check = andthen (attempt (checked (assert_invariants True))) (\<lambda>r.
     case r of Inr _ \<Rightarrow> ret True | Inl _ \<Rightarrow> andthen save_ignored (\<lambda>_. ret False))"

definition diamond_total :: "trade_item list \<Rightarrow> i32" where
  "diamond_total items = wrap_i32 (sum_list (map ti_amount (filter (\<lambda>t. ti_item t = ''diamond'') items)))"

definition balance_of :: "store \<Rightarrow> string \<Rightarrow> f64" where
  "balance_of s u = (case hget (users s) u of Some x \<Rightarrow> balance x | None \<Rightarrow> f_of_int 0)"

definition normalize_item_id :: "string \<Rightarrow> string" where
  "normalize_item_id item = (case strip_prefix minecraft_prefix item of Some s \<Rightarrow> s | None \<Rightarrow> item)"

section \<open>Buy: validation and plan\<close>

record buy_plan =
  bp_user_uuid :: string
  bp_qty :: i32
  bp_total_cost :: f64
  bp_diamonds_to_offer :: i32
  bp_withdraw_plan :: plan
  bp_physical_stock :: i32
  bp_stack_size :: i32

definition diamonds_to_offer_for_buy :: "f64 \<Rightarrow> f64 \<Rightarrow> i32 option" where
  "diamonds_to_offer_for_buy total_cost bal =
     (let shortfall = f_sub total_cost bal in
      if f_le shortfall (f_of_int 0) then Some 0
      else let ceil_value = f_ceil shortfall in
        if f_lt (f_of_int i32_max) ceil_value then None else Some (f_to_i32 ceil_value))"

definition split_sell_payout :: "f64 \<Rightarrow> (i32 \<times> f64) option" where
  "split_sell_payout total_payout =
     (let floor_value = f_floor total_payout in
      if f_lt (f_of_int i32_max) floor_value then None
      else let whole = f_to_i32 floor_value in Some (whole, f_sub total_payout (f_of_int whole)))"

definition validate_and_plan_buy :: "string \<Rightarrow> string \<Rightarrow> item_id \<Rightarrow> nat \<Rightarrow> buy_plan option act" where
  "validate_and_plan_buy player u item quantity =
     andthen (updating (ensure_user_exists player u)) (\<lambda>_.
     andthen (reading id) (\<lambda>s.
       if \<not> has_key (pairs s) item then reject player ''not available for trading''
       else if int quantity > i32_max then fail (ValidationError ''Quantity too large'')
       else let qty = int quantity in
       if qty \<le> 0 then reject player ''Quantity must be positive''
       else case calculate_buy_cost s item qty of
         None \<Rightarrow> andthen (lift_err (expect_pair s item ''buy/price-fail'')) (\<lambda>p.
           reject player (if item_stock p \<le> 0 then ''no stock or reserves''
             else if qty \<ge> item_stock p then ''would exceed available stock'' else ''no stock or reserves''))
       | Some total_cost \<Rightarrow>
         if \<not> f_is_finite total_cost \<or> f_le total_cost (f_of_int 0)
           then reject player ''Internal error: computed price is invalid.''
         else let physical_stock = total_item_amount (storage s) item in
         if physical_stock < qty then reject player ''Out of physical stock''
         else andthen (lift_err (expect_pair s item ''buy/stock-check'')) (\<lambda>p.
           if item_stock p < qty then reject player ''Not enough stock''
           else let stk = stack_size p in
           if qty > wrap_i32 (TRADE_OFFER_SLOTS_PER_SIDE * stk) then reject player ''Cannot buy in one trade''
           else let user_balance = balance_of s u in
           case diamonds_to_offer_for_buy total_cost user_balance of
             None \<Rightarrow> reject player ''Transaction amount too large (exceeds maximum diamond limit)''
           | Some d \<Rightarrow>
             if f_lt (f_add user_balance (f_of_int d)) total_cost then reject player ''Insufficient funds''
             else (let (plan, planned_total) = simulate_withdraw_plan (storage s) item qty in
               if planned_total \<noteq> qty then reject player ''Failed to plan withdrawal''
               else ret (Some \<lparr>bp_user_uuid = u, bp_qty = qty, bp_total_cost = total_cost,
                 bp_diamonds_to_offer = d, bp_withdraw_plan = plan, bp_physical_stock = physical_stock,
                 bp_stack_size = stk\<rparr>)))))"

section \<open>Buy: settlement\<close>

text \<open>The player put too little into the trade: the items go back, the diamonds become a deposit.\<close>

definition buy_underpaid :: "string \<Rightarrow> item_id \<Rightarrow> buy_plan \<Rightarrow> i32 \<Rightarrow> unit act" where
  "buy_underpaid player item bp diamonds_received =
     andthen (deposit_transfers (bp_withdraw_plan bp) item (bp_stack_size bp)) (\<lambda>_.
     andthen (if diamonds_received > 0 then
         andthen (rollback_amount_to_storage ''diamond'' diamonds_received 64) (\<lambda>rb.
           let credited = items_returned rb in
           if credited > 0 then updating (\<lambda>s.
             (case hget (users s) (bp_user_uuid bp) of
                Some x \<Rightarrow> s\<lparr>users := hput (users s) (bp_user_uuid bp) (x\<lparr>balance := f_add (balance x) (f_of_int credited)\<rparr>)\<rparr>
              | None \<Rightarrow> s)\<lparr>dirty_users := insert (bp_user_uuid bp) (dirty_users s)\<rparr>)
           else ret ())
       else ret ()) (\<lambda>_.
     andthen (advance (rollback ''buy/insufficient-payment'')) (\<lambda>_.
       send_message_to_player player ''Buy aborted: insufficient payment.'')))"

definition deposit_received_diamonds :: "i32 \<Rightarrow> i32 act" where
  "deposit_received_diamonds diamonds_received =
     (if diamonds_received > 0 then
        andthen (rollback_amount_to_storage ''diamond'' diamonds_received 64) (\<lambda>rb. ret (items_returned rb))
      else ret 0)"

text \<open>The balance side of the payment: what is deducted, and the surplus that is credited.\<close>

definition buy_settle_balance :: "buy_plan \<Rightarrow> i32 \<Rightarrow> i32 \<Rightarrow> f64 \<Rightarrow> (f64 \<times> f64) act" where
  "buy_settle_balance bp diamonds_received physical current_balance =
     (let balance_needed = f_sub (bp_total_cost bp) (f_of_int diamonds_received) in
      if f_lt (f_of_int 0) balance_needed then
        (let deduction = f_min balance_needed current_balance in
         andthen (writing (expect_user_mut (bp_user_uuid bp) ''buy/commit-deduct''
             (\<lambda>x. x\<lparr>balance := f_sub (balance x) deduction\<rparr>))) (\<lambda>_. ret (deduction, f_of_int 0)))
      else
        (let backed_surplus = f_max (f_sub (f_of_int physical) (bp_total_cost bp)) (f_of_int 0) in
         andthen (if f_lt (f_of_int 0) backed_surplus then
             writing (expect_user_mut (bp_user_uuid bp) ''buy/commit-surplus''
               (\<lambda>x. x\<lparr>balance := f_add (balance x) backed_surplus\<rparr>))
           else ret ()) (\<lambda>_. ret (f_of_int 0, backed_surplus))))"

definition buy_commit :: "string \<Rightarrow> item_id \<Rightarrow> buy_plan \<Rightarrow> i32 \<Rightarrow> f64 \<Rightarrow> unit act" where
  "buy_commit player item bp diamonds_received current_balance =
     andthen (deposit_received_diamonds diamonds_received) (\<lambda>physical.
     andthen (buy_settle_balance bp diamonds_received physical current_balance) (\<lambda>(deduction, surplus).
     andthen (writing (expect_user_mut (bp_user_uuid bp) ''buy/commit-username'' (\<lambda>x. x\<lparr>username := player\<rparr>))) (\<lambda>_.
     andthen (mark_user_dirty (bp_user_uuid bp)) (\<lambda>_.
     andthen (reading (\<lambda>s. total_item_amount (storage s) item)) (\<lambda>new_item_stock.
     andthen (writing (expect_pair_mut item ''buy/commit-pair'' (\<lambda>p. p\<lparr>item_stock := new_item_stock,
         currency_stock := f_add (currency_stock p) (f_add (f_of_int physical) deduction)\<rparr>))) (\<lambda>_.
     andthen (updating (\<lambda>s. s\<lparr>dirty := True\<rparr>)) (\<lambda>_.
     andthen (push_trade TradeBuy item (bp_qty bp) (bp_total_cost bp) (bp_user_uuid bp)) (\<lambda>_.
     andthen (push_order (order_buy item (bp_qty bp) (bp_total_cost bp) (bp_user_uuid bp))) (\<lambda>_.
     andthen (advance (commit item (bp_qty bp) (bp_total_cost bp))) (\<lambda>_.
     andthen post_check (\<lambda>_.
       send_message_to_player player ''Bought. Trade complete.'')))))))))))"

definition buy_settle :: "string \<Rightarrow> item_id \<Rightarrow> buy_plan \<Rightarrow> trade_item list \<Rightarrow> unit act" where
  "buy_settle player item bp received =
     (let diamonds_received = diamond_total received in
      andthen (reading (\<lambda>s. balance_of s (bp_user_uuid bp))) (\<lambda>current_balance.
        if f_lt (f_add (f_of_int diamonds_received) current_balance) (bp_total_cost bp)
        then buy_underpaid player item bp diamonds_received
        else buy_commit player item bp diamonds_received current_balance))"

definition buy_exchange :: "string \<Rightarrow> item_id \<Rightarrow> buy_plan \<Rightarrow> unit act" where
  "buy_exchange player item bp =
     andthen (send_message_to_player player ''Buy: trade terms'') (\<lambda>_.
     andthen (advance begin_trading) (\<lambda>_.
     andthen (attempt (perform_trade player [\<lparr>ti_item = item, ti_amount = bp_qty bp\<rparr>]
         (if bp_diamonds_to_offer bp > 0 then [\<lparr>ti_item = ''diamond'', ti_amount = bp_diamonds_to_offer bp\<rparr>] else [])
         False False)) (\<lambda>r.
       case r of
         Inl e \<Rightarrow>
           andthen (deposit_transfers (bp_withdraw_plan bp) item (bp_stack_size bp)) (\<lambda>rb.
           andthen (advance (rollback ''buy/trade-failed'')) (\<lambda>_.
             send_message_to_player player (''Buy aborted: trade failed: '' @ user_message e @
               (case partial_message rb of Some detail \<Rightarrow> ''. Rollback partial: '' @ detail @ ''.''
                | None \<Rightarrow> '' (items rolled back to storage)''))))
       | Inr received \<Rightarrow> buy_settle player item bp received)))"

definition handle_buy_order :: "string \<Rightarrow> string \<Rightarrow> item_id \<Rightarrow> nat \<Rightarrow> unit act" where
  "handle_buy_order player u item quantity =
     andthen (checked (\<lambda>s. assert_tradeable s item u)) (\<lambda>_.
     andthen (validate_and_plan_buy player u item quantity) (\<lambda>r.
       case r of
         None \<Rightarrow> ret ()
       | Some bp \<Rightarrow>
           andthen (advance (begin_withdrawal (bp_withdraw_plan bp))) (\<lambda>_.
           andthen (attempt (execute_chest_transfers (bp_withdraw_plan bp) item (bp_stack_size bp) DirWithdraw)) (\<lambda>x.
             case x of
               Inl e \<Rightarrow>
                 andthen (advance (rollback ''buy/chest-withdrawal-failed'')) (\<lambda>_.
                   send_message_to_player player
                     (''Buy aborted: bot failed chest withdrawal step: '' @ user_message e))
             | Inr _ \<Rightarrow> buy_exchange player item bp))))"

section \<open>Sell\<close>

record sell_plan =
  sp_user_uuid :: string
  sp_qty :: i32
  sp_total_payout :: f64
  sp_whole_diamonds :: i32
  sp_fractional :: f64
  sp_deposit_plan :: plan
  sp_stack_size :: i32

definition validate_and_plan_sell :: "string \<Rightarrow> string \<Rightarrow> item_id \<Rightarrow> nat \<Rightarrow> sell_plan option act" where
  "validate_and_plan_sell player u item quantity =
     andthen (updating (ensure_user_exists player u)) (\<lambda>_.
     andthen (reading id) (\<lambda>s.
       if \<not> has_key (pairs s) item then reject player ''not available for trading''
       else if int quantity > i32_max then fail (ValidationError ''Quantity too large'')
       else let qty = int quantity in
       if qty \<le> 0 then reject player ''Quantity must be positive''
       else case calculate_sell_payout s item qty of
         None \<Rightarrow> reject player ''no stock or reserves''
       | Some total_payout \<Rightarrow>
         if \<not> f_is_finite total_payout \<or> f_le total_payout (f_of_int 0)
           then reject player ''Internal error: computed payout is invalid.''
         else andthen (lift_err (expect_pair s item ''sell/reserve-check'')) (\<lambda>p.
           if f_lt (currency_stock p) total_payout then reject player ''Store has insufficient diamonds''
           else let stk = stack_size p in
           if qty > wrap_i32 (TRADE_OFFER_SLOTS_PER_SIDE * stk) then reject player ''Cannot sell in one trade''
           else (let (plan, planned_deposited) = simulate_deposit_plan (storage s) item qty stk in
             if planned_deposited < qty then reject player ''Storage space validation failed''
             else case split_sell_payout total_payout of
               None \<Rightarrow> reject player ''Payout amount too large (exceeds maximum diamond limit)''
             | Some (whole, fractional) \<Rightarrow>
                 ret (Some \<lparr>sp_user_uuid = u, sp_qty = qty, sp_total_payout = total_payout,
                   sp_whole_diamonds = whole, sp_fractional = fractional, sp_deposit_plan = plan,
                   sp_stack_size = stk\<rparr>)))))"

text \<open>The withdrawal of the diamonds that are paid in the trade; \<open>False\<close> after an abort that told the player.\<close>

definition sell_withdraw_diamonds :: "string \<Rightarrow> sell_plan \<Rightarrow> bool act" where
  "sell_withdraw_diamonds player sp =
     (if sp_whole_diamonds sp > 0 then
        andthen (reading (\<lambda>s. simulate_withdraw_plan (storage s) ''diamond'' (sp_whole_diamonds sp))) (\<lambda>(plan, planned_total).
          if planned_total < sp_whole_diamonds sp then
            andthen (advance (rollback ''sell/insufficient-physical-diamonds'')) (\<lambda>_.
            andthen (send_message_to_player player ''Store has insufficient physical diamonds.'') (\<lambda>_. ret False))
          else andthen (attempt (execute_chest_transfers plan ''diamond'' 64 DirWithdraw)) (\<lambda>x.
            case x of
              Inl e \<Rightarrow>
                andthen (advance (rollback ''sell/diamond-withdrawal-failed'')) (\<lambda>_.
                andthen (send_message_to_player player
                  (''Sell aborted: failed to get diamonds from storage: '' @ user_message e)) (\<lambda>_. ret False))
            | Inr _ \<Rightarrow> ret True))
      else ret True)"

definition sell_mismatch :: "string \<Rightarrow> item_id \<Rightarrow> sell_plan \<Rightarrow> i32 \<Rightarrow> unit act" where
  "sell_mismatch player item sp n_received =
     andthen (rollback_amount_to_storage ''diamond'' (sp_whole_diamonds sp) 64) (\<lambda>_.
     andthen (if n_received > 0 then
         andthen (attempt (perform_trade player [\<lparr>ti_item = item, ti_amount = n_received\<rparr>] [] False False)) (\<lambda>_. ret ())
       else ret ()) (\<lambda>_.
     andthen (advance (rollback ''sell/item-count-mismatch'')) (\<lambda>_.
       send_message_to_player player ''Sell REJECTED: Trade cancelled, items returned.'')))"

text \<open>The items could not be stored: they go back to the player, who keeps the diamonds.\<close>

definition sell_deposit_failed :: "string \<Rightarrow> item_id \<Rightarrow> sell_plan \<Rightarrow> store_error \<Rightarrow> unit act" where
  "sell_deposit_failed player item sp e =
     andthen (attempt (perform_trade player [\<lparr>ti_item = item, ti_amount = sp_qty sp\<rparr>] [] False False)) (\<lambda>back.
     andthen (updating (\<lambda>s. case hget (pairs s) item of
         Some p \<Rightarrow> s\<lparr>pairs := hput (pairs s) item (p\<lparr>currency_stock := f_sub (currency_stock p) (sp_total_payout sp)\<rparr>)\<rparr>
       | None \<Rightarrow> s)) (\<lambda>_.
     andthen (if f_lt (f_of_int 0) (sp_fractional sp) then updating (\<lambda>s.
         (case hget (users s) (sp_user_uuid sp) of
            Some x \<Rightarrow> s\<lparr>users := hput (users s) (sp_user_uuid sp) (x\<lparr>balance := f_add (balance x) (sp_fractional sp)\<rparr>)\<rparr>
          | None \<Rightarrow> s)\<lparr>dirty_users := insert (sp_user_uuid sp) (dirty_users s)\<rparr>)
       else ret ()) (\<lambda>_.
     andthen (updating (\<lambda>s. s\<lparr>dirty := True\<rparr>)) (\<lambda>_.
     andthen (advance (rollback ''sell/deposit-failed'')) (\<lambda>_.
       send_message_to_player player (''Sell aborted: failed to deposit items into storage: '' @ user_message e @
         (case back of Inr _ \<Rightarrow> ''. Diamonds paid; items returned via trade.''
          | Inl rerr \<Rightarrow> ''. Diamonds paid; return-trade also failed ('' @ user_message rerr @ '')'')))))))"

definition sell_commit :: "string \<Rightarrow> item_id \<Rightarrow> sell_plan \<Rightarrow> unit act" where
  "sell_commit player item sp =
     andthen (writing (expect_user_mut (sp_user_uuid sp) ''sell/commit-user''
         (\<lambda>x. x\<lparr>balance := f_add (balance x) (sp_fractional sp), username := player\<rparr>))) (\<lambda>_.
     andthen (mark_user_dirty (sp_user_uuid sp)) (\<lambda>_.
     andthen (reading (\<lambda>s. total_item_amount (storage s) item)) (\<lambda>new_item_stock.
     andthen (writing (expect_pair_mut item ''sell/commit-pair'' (\<lambda>p. p\<lparr>item_stock := new_item_stock,
         currency_stock := f_sub (currency_stock p) (sp_total_payout sp)\<rparr>))) (\<lambda>_.
     andthen (updating (\<lambda>s. s\<lparr>dirty := True\<rparr>)) (\<lambda>_.
     andthen (push_trade TradeSell item (sp_qty sp) (sp_total_payout sp) (sp_user_uuid sp)) (\<lambda>_.
     andthen (push_order (order_sell item (sp_qty sp) (sp_total_payout sp) (sp_user_uuid sp))) (\<lambda>_.
     andthen (advance (commit item (sp_qty sp) (sp_total_payout sp))) (\<lambda>_.
     andthen post_check (\<lambda>_.
       send_message_to_player player ''Sold. Trade complete.'')))))))))"

definition sell_store_items :: "string \<Rightarrow> item_id \<Rightarrow> sell_plan \<Rightarrow> trade_item list \<Rightarrow> unit act" where
  "sell_store_items player item sp received =
     (let n_received = wrap_i32 (sum_list (map ti_amount
            (filter (\<lambda>t. normalize_item_id (ti_item t) = normalize_item_id item) received))) in
      if n_received \<noteq> sp_qty sp then sell_mismatch player item sp n_received
      else
        andthen (advance (begin_depositing \<lparr>items_received = received\<rparr> (sp_deposit_plan sp))) (\<lambda>_.
        andthen (attempt (execute_chest_transfers (sp_deposit_plan sp) item (sp_stack_size sp) DirDeposit)) (\<lambda>x.
          case x of
            Inl e \<Rightarrow> sell_deposit_failed player item sp e
          | Inr _ \<Rightarrow> sell_commit player item sp)))"

definition sell_exchange :: "string \<Rightarrow> item_id \<Rightarrow> sell_plan \<Rightarrow> unit act" where
  "sell_exchange player item sp =
     andthen (advance begin_trading) (\<lambda>_.
     andthen (attempt (perform_trade player
         (if sp_whole_diamonds sp > 0 then [\<lparr>ti_item = ''diamond'', ti_amount = sp_whole_diamonds sp\<rparr>] else [])
         [\<lparr>ti_item = item, ti_amount = sp_qty sp\<rparr>] True False)) (\<lambda>r.
       case r of
         Inl e \<Rightarrow>
           andthen (rollback_amount_to_storage ''diamond'' (sp_whole_diamonds sp) 64) (\<lambda>rb.
           andthen (advance (rollback ''sell/trade-failed'')) (\<lambda>_.
             send_message_to_player player (''Sell aborted: trade failed: '' @ user_message e @
               (case partial_message rb of Some detail \<Rightarrow> ''. Rollback partial: '' @ detail @ ''.''
                | None \<Rightarrow> ''. Diamonds returned to storage.''))))
       | Inr received \<Rightarrow> sell_store_items player item sp received))"

definition handle_sell_order :: "string \<Rightarrow> string \<Rightarrow> item_id \<Rightarrow> nat \<Rightarrow> unit act" where
  "handle_sell_order player u item quantity =
     andthen (checked (\<lambda>s. assert_tradeable s item u)) (\<lambda>_.
     andthen (validate_and_plan_sell player u item quantity) (\<lambda>r.
       case r of
         None \<Rightarrow> ret ()
       | Some sp \<Rightarrow>
           andthen (advance (begin_withdrawal [])) (\<lambda>_.
           andthen (send_message_to_player player ''Sell: trade terms'') (\<lambda>_.
           andthen (sell_withdraw_diamonds player sp) (\<lambda>go.
             if go then sell_exchange player item sp else ret ())))))"

end
