(* ===== verification/Balance_Orders.thy ===== *)
theory Balance_Orders
  imports Orders
begin

text \<open>
  The queued deposits and withdrawals of a player's balance: \<^verbatim>\<open>src/store/handlers/deposit.rs\<close> and
  \<^verbatim>\<open>src/store/handlers/withdraw.rs\<close>, in the style of \<^verbatim>\<open>Orders\<close>.
\<close>

definition format_action_aborted :: "string \<Rightarrow> string \<Rightarrow> string option \<Rightarrow> string" where
  "format_action_aborted action reason sfx =
     action @ '' aborted: trade failed: '' @ reason @ (case sfx of Some x \<Rightarrow> ''.'' @ x | None \<Rightarrow> [])"

definition whisper_action_aborted :: "string \<Rightarrow> string \<Rightarrow> string \<Rightarrow> string option \<Rightarrow> unit act" where
  "whisper_action_aborted player action reason sfx =
     send_message_to_player player (format_action_aborted action reason sfx)"

section \<open>Deposit\<close>

text \<open>What the player must offer, and whether any amount is welcome; or the refusal.\<close>

definition deposit_request :: "f64 option \<Rightarrow> string + i32 \<times> bool" where
  "deposit_request amount =
     (case amount of
        Some amt \<Rightarrow>
          if \<not> f_is_finite amt \<or> f_le amt (f_of_int 0) then Inl ''Amount must be positive''
          else let diamonds = f_to_i32 (f_ceil amt) in
          if diamonds > MAX_TRADE_DIAMONDS then Inl ''Amount too large.'' else Inr (diamonds, False)
      | None \<Rightarrow> Inr (MAX_TRADE_DIAMONDS, True))"

definition deposit_commit :: "string \<Rightarrow> string \<Rightarrow> i32 \<Rightarrow> unit act" where
  "deposit_commit player u credited =
     (let actual_amount = f_of_int credited in
      andthen (writing (expect_user_mut u ''deposit-balance/credit''
          (\<lambda>x. x\<lparr>balance := f_add (balance x) actual_amount, username := player\<rparr>))) (\<lambda>_.
      andthen (mark_user_dirty u) (\<lambda>_.
      andthen (push_order (order_deposit_balance credited u)) (\<lambda>_.
      andthen (push_trade TradeDepositBalance ''diamond'' credited actual_amount u) (\<lambda>_.
      andthen (advance (commit ''diamond'' credited actual_amount)) (\<lambda>_.
      andthen post_check (\<lambda>_.
        send_message_to_player player ''Deposited.'')))))))"

definition deposit_store :: "string \<Rightarrow> string \<Rightarrow> i32 \<Rightarrow> unit act" where
  "deposit_store player u received =
     andthen (rollback_amount_to_storage ''diamond'' received 64) (\<lambda>rb.
       if items_returned rb \<le> 0 then
         send_message_to_player player (''Deposit failed: none of your diamonds could be deposited ('' @
           (case partial_message rb of Some d \<Rightarrow> d | None \<Rightarrow> ''no diamonds reached storage'') @ '')'')
       else deposit_commit player u (items_returned rb))"

definition handle_deposit_balance_queued :: "string \<Rightarrow> string \<Rightarrow> f64 option \<Rightarrow> unit act" where
  "handle_deposit_balance_queued player u amount =
     andthen (checked (assert_invariants False)) (\<lambda>_.
       case deposit_request amount of
         Inl msg \<Rightarrow> send_message_to_player player msg
       | Inr (diamonds, is_flexible) \<Rightarrow>
           andthen (updating (ensure_user_exists player u)) (\<lambda>_.
           andthen (send_message_to_player player ''Deposit: Please offer diamonds in the trade.'') (\<lambda>_.
           andthen (advance (begin_withdrawal [])) (\<lambda>_.
           andthen (advance begin_trading) (\<lambda>_.
           andthen (attempt (perform_trade player []
               [\<lparr>ti_item = ''diamond'', ti_amount = (if is_flexible then 1 else diamonds)\<rparr>] False is_flexible)) (\<lambda>r.
             case r of
               Inl (TradeRejected e) \<Rightarrow> whisper_action_aborted player ''Deposit'' e None
             | Inl other \<Rightarrow> andthen (advance (rollback ''deposit/trade-error'')) (\<lambda>_. fail other)
             | Inr received \<Rightarrow>
                 if diamond_total received \<le> 0 then
                   andthen (advance (rollback ''deposit/zero-diamonds'')) (\<lambda>_.
                     send_message_to_player player ''Deposit aborted: no diamonds received in trade'')
                 else deposit_store player u (diamond_total received)))))))"

section \<open>Withdrawal\<close>

text \<open>The amount to withdraw, with the notice that precedes it; or the refusal.\<close>

definition withdraw_amount :: "f64 option \<Rightarrow> f64 \<Rightarrow> string + f64 \<times> string option" where
  "withdraw_amount amount user_balance =
     (case amount of
        Some amt \<Rightarrow>
          if \<not> f_is_finite amt \<or> f_le amt (f_of_int 0) then Inl ''Amount must be positive''
          else let snapped = f_floor amt in
          if f_lt snapped (f_of_int 1) then Inl ''Withdraw amount must be at least 1 whole diamond''
          else Inr (snapped, if snapped \<noteq> amt then Some ''Fractional remainder ignored'' else None)
      | None \<Rightarrow>
          let whole_balance = f_floor user_balance in
          if f_le whole_balance (f_of_int 0) then Inl ''No whole diamonds to withdraw''
          else Inr (f_min whole_balance (f_of_int MAX_TRADE_DIAMONDS),
                    if f_lt (f_of_int MAX_TRADE_DIAMONDS) whole_balance then Some ''Balance exceeds the per-trade cap'' else None))"

definition withdraw_commit :: "string \<Rightarrow> string \<Rightarrow> f64 \<Rightarrow> i32 \<Rightarrow> unit act" where
  "withdraw_commit player u amount whole =
     andthen (writing (expect_user_mut u ''withdraw-balance/commit''
         (\<lambda>x. x\<lparr>balance := f_sub (balance x) amount, username := player\<rparr>))) (\<lambda>_.
     andthen (mark_user_dirty u) (\<lambda>_.
     andthen (push_order (order_withdraw_balance whole u)) (\<lambda>_.
     andthen (push_trade TradeWithdrawBalance ''diamond'' whole amount u) (\<lambda>_.
     andthen (advance (commit ''diamond'' whole amount)) (\<lambda>_.
     andthen post_check (\<lambda>_.
     andthen (reading (\<lambda>s. expect_user s u ''withdraw-balance/post-read'')) (\<lambda>r.
     andthen (lift_err r) (\<lambda>_.
       send_message_to_player player ''Withdrew.''))))))))"

text \<open>A failed hand-over: the diamonds go back to storage, then the trade is closed with \<open>reason\<close>.\<close>

definition withdraw_undo :: "i32 \<Rightarrow> string \<Rightarrow> string option act" where
  "withdraw_undo whole reason =
     andthen (rollback_amount_to_storage ''diamond'' whole 64) (\<lambda>rb.
     andthen (advance (rollback reason)) (\<lambda>_. ret (partial_message rb)))"

definition withdraw_trade :: "string \<Rightarrow> string \<Rightarrow> f64 \<Rightarrow> i32 \<Rightarrow> unit act" where
  "withdraw_trade player u amount whole w =
     (case ask_trade (TradeTask player [\<lparr>ti_item = ''diamond'', ti_amount = whole\<rparr>] [] False False) w of
        (SendFailed, w') \<Rightarrow>
          andthen (withdraw_undo whole ''withdraw/trade-send-failed'') (\<lambda>_. fail (BotSendFailed ''channel closed'')) w'
      | (Dropped, w') \<Rightarrow>
          andthen (withdraw_undo whole ''withdraw/channel-dropped'') (\<lambda>d.
            send_message_to_player player (''Withdraw aborted: bot response dropped: '' @
              user_message (BotResponseDropped ''channel closed'') @ ''.'' @
              (case d of Some x \<Rightarrow> '' Rollback partial: '' @ x @ ''.'' | None \<Rightarrow> []))) w'
      | (TimedOut, w') \<Rightarrow>
          andthen (withdraw_undo whole ''withdraw/trade-timeout'') (\<lambda>d.
            send_message_to_player player (''Withdraw aborted: bot timed out waiting for trade completion.'' @
              (case d of Some x \<Rightarrow> '' Rollback partial: '' @ x @ ''.'' | None \<Rightarrow> '' Diamonds returned to storage.''))) w'
      | (Answered (Inl e), w') \<Rightarrow>
          andthen (withdraw_undo whole ''withdraw/trade-rejected'') (\<lambda>d.
            send_message_to_player player (format_action_aborted ''Withdraw'' (user_message (BotReportedError e))
              (Some (case d of Some x \<Rightarrow> '' Rollback partial: '' @ x @ ''.'' | None \<Rightarrow> '' Diamonds returned to storage.'')))) w'
      | (Answered (Inr _), w') \<Rightarrow> withdraw_commit player u amount whole w')"

definition withdraw_fetch :: "string \<Rightarrow> string \<Rightarrow> f64 \<Rightarrow> i32 \<Rightarrow> unit act" where
  "withdraw_fetch player u amount whole =
     andthen (reading (\<lambda>s. simulate_withdraw_plan (storage s) ''diamond'' whole)) (\<lambda>(plan, planned).
       if planned < whole then
         andthen (advance (rollback ''withdraw/insufficient-physical-diamonds'')) (\<lambda>_.
           send_message_to_player player ''Insufficient physical diamonds in storage.'')
       else
         andthen (attempt (execute_chest_transfers plan ''diamond'' 64 DirWithdraw)) (\<lambda>x.
           case x of
             Inl e \<Rightarrow>
               andthen (advance (rollback ''withdraw/chest-pull-failed'')) (\<lambda>_.
               andthen (send_message_to_player player
                   (''Withdraw aborted: failed to get diamonds from storage: '' @ user_message e)) (\<lambda>_. fail e))
           | Inr _ \<Rightarrow>
               andthen (advance begin_trading) (\<lambda>_. withdraw_trade player u amount whole)))"

definition handle_withdraw_balance_queued :: "string \<Rightarrow> string \<Rightarrow> f64 option \<Rightarrow> unit act" where
  "handle_withdraw_balance_queued player u amount =
     andthen (checked (assert_invariants False)) (\<lambda>_.
     andthen (updating (ensure_user_exists player u)) (\<lambda>_.
     andthen (reading (\<lambda>s. expect_user s u ''withdraw-balance/pre-check'')) (\<lambda>r.
     andthen (lift_err r) (\<lambda>x.
       let user_balance = balance x in
       case withdraw_amount amount user_balance of
         Inl msg \<Rightarrow> send_message_to_player player msg
       | Inr (amt, notice) \<Rightarrow>
           andthen (case notice of None \<Rightarrow> ret () | Some msg \<Rightarrow> send_message_to_player player msg) (\<lambda>_.
             if f_lt user_balance amt then send_message_to_player player ''Insufficient balance.''
             else let whole = f_to_i32 (f_floor amt) in
             if whole > MAX_TRADE_DIAMONDS then send_message_to_player player ''Amount too large.''
             else if whole \<le> 0 then send_message_to_player player ''amount must be at least 1 whole diamond''
             else
               andthen (send_message_to_player player ''Withdraw: trade terms'') (\<lambda>_.
               andthen (advance (begin_withdrawal [])) (\<lambda>_. withdraw_fetch player u amt whole)))))))"

section \<open>Dispatch\<close>

text \<open>The summary is for the log only; its outcome is the trade state it inspects.\<close>

datatype order_summary = OrderCompleted | OrderAborted string | OrderNotCompleted | BalanceDone

definition buy_sell_outcome_summary :: "store \<Rightarrow> order_summary" where
  "buy_sell_outcome_summary s =
     (case current_trade s of
        Some (Committed _) \<Rightarrow> OrderCompleted
      | Some (RolledBack _ reason) \<Rightarrow> OrderAborted reason
      | _ \<Rightarrow> OrderNotCompleted)"

definition execute_queued_order :: "queued_order \<Rightarrow> order_summary act" where
  "execute_queued_order q =
     (case qo_order_type q of
        QBuy \<Rightarrow> andthen (handle_buy_order (qo_username q) (qo_user_uuid q) (qo_item q) (qo_quantity q))
          (\<lambda>_. reading buy_sell_outcome_summary)
      | QSell \<Rightarrow> andthen (handle_sell_order (qo_username q) (qo_user_uuid q) (qo_item q) (qo_quantity q))
          (\<lambda>_. reading buy_sell_outcome_summary)
      | QDeposit amount \<Rightarrow> andthen (handle_deposit_balance_queued (qo_username q) (qo_user_uuid q) amount) (\<lambda>_. ret BalanceDone)
      | QWithdraw amount \<Rightarrow> andthen (handle_withdraw_balance_queued (qo_username q) (qo_user_uuid q) amount) (\<lambda>_. ret BalanceDone))"

end
