(* ===== verification/Order_Plans.thy ===== *)
theory Order_Plans
  imports Balance_Orders
begin

text \<open>
  What the plan of an accepted buy or sell order guarantees: the quote it was priced with, the
  bounds that were checked and the chest plan it will execute. A refused order changes nothing
  but the registration of the player.
\<close>

lemma reject_result: "reject p m w = (r, w') \<Longrightarrow> r \<noteq> Ok (Some x)"
  by (auto simp: reject_def elim!: andthenE)

lemma lift_err_Ok [simp]: "lift_err r w = (Ok a, w') \<longleftrightarrow> r = Inr a \<and> w' = w"
  by (auto simp: lift_err_def split: sum.splits)

lemma expect_pair_Inr [simp]: "expect_pair s i c = Inr p \<longleftrightarrow> hget (pairs s) i = Some p"
  by (auto simp: expect_pair_def split: option.splits)

lemma andthen_Ok_iff: "andthen m k w = (Ok b, w') \<longleftrightarrow> (\<exists>a w1. m w = (Ok a, w1) \<and> k a w1 = (Ok b, w'))"
  by (cases "m w") (auto simp: andthen_def split: res.splits)

text \<open>The plan of an accepted order, in terms of the store after the player was registered.\<close>

definition buy_planned :: "string \<Rightarrow> item_id \<Rightarrow> nat \<Rightarrow> store \<Rightarrow> buy_plan \<Rightarrow> bool" where
  "buy_planned u item q s bp \<longleftrightarrow>
     bp_user_uuid bp = u \<and> bp_qty bp = int q \<and> 0 < q \<and> int q \<le> i32_max \<and>
     calculate_buy_cost s item (int q) = Some (bp_total_cost bp) \<and> f_is_finite (bp_total_cost bp) \<and>
     \<not> f_le (bp_total_cost bp) (f_of_int 0) \<and>
     simulate_withdraw_plan (storage s) item (int q) = (bp_withdraw_plan bp, int q) \<and>
     (\<exists>p. hget (pairs s) item = Some p \<and> int q \<le> item_stock p \<and> bp_stack_size bp = stack_size p \<and>
        int q \<le> wrap_i32 (TRADE_OFFER_SLOTS_PER_SIDE * stack_size p)) \<and>
     bp_physical_stock bp = total_item_amount (storage s) item \<and> int q \<le> bp_physical_stock bp \<and>
     diamonds_to_offer_for_buy (bp_total_cost bp) (balance_of s u) = Some (bp_diamonds_to_offer bp)"

definition sell_planned :: "string \<Rightarrow> item_id \<Rightarrow> nat \<Rightarrow> store \<Rightarrow> sell_plan \<Rightarrow> bool" where
  "sell_planned u item q s sp \<longleftrightarrow>
     sp_user_uuid sp = u \<and> sp_qty sp = int q \<and> 0 < q \<and> int q \<le> i32_max \<and>
     calculate_sell_payout s item (int q) = Some (sp_total_payout sp) \<and> f_is_finite (sp_total_payout sp) \<and>
     \<not> f_le (sp_total_payout sp) (f_of_int 0) \<and>
     (\<exists>p. hget (pairs s) item = Some p \<and> \<not> f_lt (currency_stock p) (sp_total_payout sp) \<and>
        sp_stack_size sp = stack_size p \<and> int q \<le> wrap_i32 (TRADE_OFFER_SLOTS_PER_SIDE * stack_size p) \<and>
        (\<exists>n. simulate_deposit_plan (storage s) item (int q) (stack_size p) = (sp_deposit_plan sp, n) \<and> int q \<le> n)) \<and>
     split_sell_payout (sp_total_payout sp) = Some (sp_whole_diamonds sp, sp_fractional sp)"

lemma validate_buy_Some:
  assumes "validate_and_plan_buy player u item q w = (Ok (Some bp), w')"
  shows "w' = w\<lparr>w_store := ensure_user_exists player u (w_store w)\<rparr> \<and>
    buy_planned u item q (ensure_user_exists player u (w_store w)) bp"
  using assms unfolding validate_and_plan_buy_def buy_planned_def Let_def
  by (auto simp: andthen_Ok_iff dest!: reject_result split: if_split_asm option.split_asm prod.split_asm)

lemma validate_sell_Some:
  assumes "validate_and_plan_sell player u item q w = (Ok (Some sp), w')"
  shows "w' = w\<lparr>w_store := ensure_user_exists player u (w_store w)\<rparr> \<and>
    sell_planned u item q (ensure_user_exists player u (w_store w)) sp"
  using assms unfolding validate_and_plan_sell_def sell_planned_def Let_def
  by (auto simp: andthen_Ok_iff dest!: reject_result split: if_split_asm option.split_asm prod.split_asm)

end
