(* ===== verification/Order_Frames.thy ===== *)
theory Order_Frames
  imports Order_Plans
begin

text \<open>
  What a queued order can touch. The bot's part respects every \<open>bot_relation\<close>; the locale
  \<open>ledger_relation\<close> adds the writes an order of user \<open>u\<close> on item \<open>item\<close> makes to the store's own books,
  and proves once that all four handlers stay within them. The interpretations give
  the ledgers of everyone else, the well-formed storage, the order of the trade in flight
  and the log of instructions.
\<close>

section \<open>The bot's part\<close>

lemma keeps_apply: "keeps R m \<Longrightarrow> m w = (r, w') \<Longrightarrow> R w w'"
  unfolding keeps_def by (metis snd_conv)

context bot_relation begin

lemma R_lift_err [intro]: "keeps R (lift_err r)"
  by (auto simp: lift_err_def)

lemma R_reject [intro]: "keeps R (reject p m)"
  by (auto simp: reject_def)

lemma R_perform_trade [intro]: "keeps R (perform_trade p bo po ex fl)"
  unfolding keeps_def perform_trade_def
  by (auto split: prod.splits reply.splits sum.splits dest: R_trade)

lemma R_failing: "keeps R (failing dir applied item stk e)"
  by (auto simp: failing_def rollback_applied_prefix_def)

lemma R_execute_steps: "keeps R (execute_steps ts applied item stk dir)"
proof (induction ts arbitrary: applied)
  case (Cons t ts)
  show ?case unfolding execute_steps.simps
    by (intro R_andthen R_node_position R_asking R_reply R_either R_syncing R_failing Cons.IH) (erule R_chest)
qed auto

lemma R_execute [intro]: "keeps R (execute_chest_transfers ts item stk dir)"
  by (simp add: execute_chest_transfers_def R_execute_steps)

end

section \<open>The books\<close>

locale ledger_relation = world_relation +
  fixes u :: string and item :: string
  assumes R_user: "hget (users (w_store w)) u = Some x \<Longrightarrow> operator y = operator x \<Longrightarrow> uuid y = uuid x \<Longrightarrow>
        R w (w\<lparr>w_store := (w_store w)\<lparr>users := hput (users (w_store w)) u y\<rparr>\<rparr>)"
    and R_pair: "hget (pairs (w_store w)) item = Some p \<Longrightarrow> pair_item q = pair_item p \<Longrightarrow> stack_size q = stack_size p \<Longrightarrow>
        R w (w\<lparr>w_store := (w_store w)\<lparr>pairs := hput (pairs (w_store w)) item q\<rparr>\<rparr>)"
    and R_ensure: "R w (w\<lparr>w_store := ensure_user_exists player u (w_store w)\<rparr>)"
    and R_audit: "R w (w\<lparr>w_store := snd (audit_state b (w_store w))\<rparr>)"
    and R_saved: "R w (snd (save_ignored w))"
    and R_flag: "R w (w\<lparr>w_store := (w_store w)\<lparr>dirty := True\<rparr>\<rparr>)"
    and R_flag_user: "R w (w\<lparr>w_store := (w_store w)\<lparr>dirty_users := insert u (dirty_users (w_store w))\<rparr>\<rparr>)"
    and R_trades: "R w (w\<lparr>w_store := (w_store w)\<lparr>trades := trades (w_store w) @ [t]\<rparr>\<rparr>)"
    and R_orders: "R w (w\<lparr>w_store := (w_store w)\<lparr>order_log := order_log (w_store w) @ [o1]\<rparr>\<rparr>)"
begin

lemma R_up_ensure [intro]: "keeps R (updating (ensure_user_exists player u))"
  by (rule R_updating) (rule R_ensure)

lemma R_up_dirty [intro]: "keeps R (updating (\<lambda>s. s\<lparr>dirty := True\<rparr>))"
  by (rule R_updating) (rule R_flag)

lemma R_mark [intro]: "keeps R (mark_user_dirty u)"
proof -
  have "R w (w\<lparr>w_store := (w_store w)\<lparr>dirty := True, dirty_users := insert u (dirty_users (w_store w))\<rparr>\<rparr>)" for w
    using R_trans [OF R_flag R_flag_user, of w] by simp
  then show ?thesis unfolding mark_user_dirty_def by (rule R_updating)
qed

lemma R_user_write:
  assumes "\<And>x. operator (f x) = operator x \<and> uuid (f x) = uuid x"
  shows "keeps R (writing (expect_user_mut u c f))"
  unfolding keeps_def writing_def expect_user_mut_def
  by (auto simp: R_refl assms intro: R_user split: option.splits)

lemma R_pair_write:
  assumes "\<And>x. pair_item (f x) = pair_item x \<and> stack_size (f x) = stack_size x"
  shows "keeps R (writing (expect_pair_mut item c f))"
  unfolding keeps_def writing_def expect_pair_mut_def
  by (auto simp: R_refl assms intro: R_pair split: option.splits)

text \<open>The writes that tolerate a missing record.\<close>

lemma R_user_credit:
  "keeps R (updating (\<lambda>s. (case hget (users s) u of
        Some x \<Rightarrow> s\<lparr>users := hput (users s) u (x\<lparr>balance := g x\<rparr>)\<rparr> | None \<Rightarrow> s)\<lparr>dirty_users := insert u (dirty_users s)\<rparr>))"
proof (rule R_updating)
  fix w
  show "R w (w\<lparr>w_store := (case hget (users (w_store w)) u of
        Some x \<Rightarrow> (w_store w)\<lparr>users := hput (users (w_store w)) u (x\<lparr>balance := g x\<rparr>)\<rparr>
      | None \<Rightarrow> w_store w)\<lparr>dirty_users := insert u (dirty_users (w_store w))\<rparr>\<rparr>)"
  proof (cases "hget (users (w_store w)) u")
    case None then show ?thesis by (simp add: R_flag_user)
  next
    case (Some x)
    show ?thesis using R_trans [OF R_user [OF Some, of "x\<lparr>balance := g x\<rparr>"] R_flag_user] Some by simp
  qed
qed

lemma R_pair_debit:
  "keeps R (updating (\<lambda>s. case hget (pairs s) item of
        Some p \<Rightarrow> s\<lparr>pairs := hput (pairs s) item (p\<lparr>currency_stock := g p\<rparr>)\<rparr> | None \<Rightarrow> s))"
  by (rule R_updating) (auto simp: R_refl intro: R_pair split: option.split)

lemma R_push_trade [intro]: "keeps R (push_trade ty i a c v)"
proof -
  have "keeps R (\<lambda>w. case now w of (t, w') \<Rightarrow> updating (\<lambda>s. s\<lparr>trades := trades s @ [trade_new ty j a c v t]\<rparr>) w')" for j
    unfolding keeps_def by (auto simp del: ask_store split: prod.split intro: R_trans [OF R_now R_trades])
  then show ?thesis unfolding push_trade_def by (intro R_andthen R_or_panic)
qed

lemma R_push_order [intro]: "keeps R (push_order x)"
  unfolding push_order_def by (intro R_andthen R_or_panic R_updating R_orders)

lemma R_gate [intro]: "keeps R (checked (\<lambda>s. assert_tradeable s i v))"
  by (simp add: keeps_def checked_def assert_tradeable_eq R_refl split: prod.split)

lemma R_assert [intro]: "keeps R (checked (assert_invariants b))"
proof -
  have "snd (assert_invariants b s) = snd (audit_state b s)" for s
    by (simp add: assert_invariants_def split: prod.split)
  then have "snd (checked (assert_invariants b) w) = w\<lparr>w_store := snd (audit_state b (w_store w))\<rparr>" for w
    by (simp add: checked_def split: prod.split) (metis snd_conv)
  then show ?thesis by (simp add: keeps_def R_audit)
qed

lemma R_post_check [intro]: "keeps R post_check"
  unfolding post_check_def
  by (intro R_andthen R_attempt R_assert R_sum R_ret) (simp add: keeps_def R_saved)

section \<open>The handlers\<close>

lemmas R_steps = R_andthen R_ret R_fail R_reading R_attempt R_if R_option R_sum R_prod R_send_message R_adv
  R_deposit_transfers R_rollback_amount R_execute R_perform_trade R_lift_err R_reject R_gate R_assert R_post_check
  R_up_ensure R_up_dirty R_mark R_push_trade R_push_order R_user_credit R_pair_debit legal_transitions

lemma R_andthen_dep:
  assumes "keeps R m" "\<And>a w w'. m w = (Ok a, w') \<Longrightarrow> keeps R (k a)"
  shows "keeps R (andthen m k)"
  unfolding keeps_def
proof
  fix w
  obtain r w' where m: "m w = (r, w')" by force
  have 1: "R w w'" using assms(1) m by (rule keeps_apply)
  have "R w (snd (k a w'))" if "r = Ok a" for a
    using R_trans [OF 1] assms(2) m that by (auto simp: keeps_def)
  with 1 m show "R w (snd (andthen m k w))" by (cases r) (auto simp: andthen_def)
qed

lemma R_validate_buy: "keeps R (validate_and_plan_buy player u i q)"
  unfolding validate_and_plan_buy_def Let_def by (intro R_steps)

lemma R_validate_sell: "keeps R (validate_and_plan_sell player u i q)"
  unfolding validate_and_plan_sell_def Let_def by (intro R_steps)

lemma R_buy_settle:
  assumes "bp_user_uuid bp = u"
  shows "keeps R (buy_settle player item bp received)"
proof -
  have "keeps R (buy_underpaid player item bp d)" for d
    unfolding buy_underpaid_def assms Let_def by (intro R_steps)
  moreover have "keeps R (buy_settle_balance bp d ph b)" for d ph b
    unfolding buy_settle_balance_def assms Let_def by (intro R_steps R_user_write) simp_all
  then have "keeps R (buy_commit player item bp d b)" for d b
    unfolding buy_commit_def deposit_received_diamonds_def assms
    by (intro R_steps R_user_write R_pair_write) simp_all
  ultimately show ?thesis unfolding buy_settle_def Let_def by (intro R_steps)
qed

lemma R_buy_exchange: "bp_user_uuid bp = u \<Longrightarrow> keeps R (buy_exchange player item bp)"
  unfolding buy_exchange_def by (intro R_steps R_buy_settle)

lemma R_handle_buy: "keeps R (handle_buy_order player u item q)"
  unfolding handle_buy_order_def
proof (rule R_andthen, rule R_gate, rule R_andthen_dep, rule R_validate_buy)
  fix r w w'
  assume v: "validate_and_plan_buy player u item q w = (Ok r, w')"
  show "keeps R (case r of None \<Rightarrow> ret () | Some bp \<Rightarrow>
      andthen (advance (begin_withdrawal (bp_withdraw_plan bp))) (\<lambda>_.
      andthen (attempt (execute_chest_transfers (bp_withdraw_plan bp) item (bp_stack_size bp) DirWithdraw)) (\<lambda>x.
        case x of
          Inl e \<Rightarrow>
            andthen (advance (rollback ''buy/chest-withdrawal-failed'')) (\<lambda>_.
              send_message_to_player player
                (''Buy aborted: bot failed chest withdrawal step: '' @ user_message e))
        | Inr _ \<Rightarrow> buy_exchange player item bp)))"
  proof (cases r)
    case None show ?thesis unfolding None option.case by (rule R_ret)
  next
    case (Some bp)
    have "bp_user_uuid bp = u" using v Some validate_buy_Some by (auto simp: buy_planned_def)
    then show ?thesis unfolding Some option.case by (intro R_steps R_buy_exchange)
  qed
qed

lemma R_sell_exchange:
  assumes "sp_user_uuid sp = u"
  shows "keeps R (sell_exchange player item sp)"
proof -
  have "keeps R (sell_mismatch player item sp n)" for n
    unfolding sell_mismatch_def by (intro R_steps)
  moreover have "keeps R (sell_deposit_failed player item sp e)" for e
    unfolding sell_deposit_failed_def assms by (intro R_steps)
  moreover have "keeps R (sell_commit player item sp)"
    unfolding sell_commit_def assms by (intro R_steps R_user_write R_pair_write) simp_all
  ultimately have "keeps R (sell_store_items player item sp received)" for received
    unfolding sell_store_items_def Let_def by (intro R_steps)
  then show ?thesis unfolding sell_exchange_def by (intro R_steps)
qed

lemma R_handle_sell: "keeps R (handle_sell_order player u item q)"
  unfolding handle_sell_order_def
proof (rule R_andthen, rule R_gate, rule R_andthen_dep, rule R_validate_sell)
  fix r w w'
  assume v: "validate_and_plan_sell player u item q w = (Ok r, w')"
  show "keeps R (case r of None \<Rightarrow> ret () | Some sp \<Rightarrow>
      andthen (advance (begin_withdrawal [])) (\<lambda>_.
      andthen (send_message_to_player player ''Sell: trade terms'') (\<lambda>_.
      andthen (sell_withdraw_diamonds player sp) (\<lambda>go.
        if go then sell_exchange player item sp else ret ()))))"
  proof (cases r)
    case None show ?thesis unfolding None option.case by (rule R_ret)
  next
    case (Some sp)
    have "sp_user_uuid sp = u" using v Some validate_sell_Some by (auto simp: sell_planned_def)
    moreover have "keeps R (sell_withdraw_diamonds player sp)"
      unfolding sell_withdraw_diamonds_def by (intro R_steps)
    ultimately show ?thesis unfolding Some option.case by (intro R_steps R_sell_exchange)
  qed
qed

lemma R_handle_deposit: "keeps R (handle_deposit_balance_queued player u amount)"
proof -
  have "keeps R (deposit_commit player u n)" for n
    unfolding deposit_commit_def Let_def by (intro R_steps R_user_write) simp_all
  then have d: "keeps R (deposit_store player u n)" for n
    unfolding deposit_store_def by (intro R_steps)
  have "keeps R (case e of TradeRejected m \<Rightarrow> whisper_action_aborted player ''Deposit'' m None
      | other \<Rightarrow> andthen (advance (rollback ''deposit/trade-error'')) (\<lambda>_. fail other))" for e :: store_error
    unfolding whisper_action_aborted_def by (cases e) (simp_all only: store_error.case, (intro R_steps)+)
  with d show ?thesis unfolding handle_deposit_balance_queued_def by (intro R_steps)
qed

lemma R_handle_withdraw: "keeps R (handle_withdraw_balance_queued player u amount)"
proof -
  have c: "keeps R (withdraw_commit player u a n)" for a n
    unfolding withdraw_commit_def by (intro R_steps R_user_write) simp_all
  have un: "keeps R (andthen (withdraw_undo n reason) k)" if "\<And>d. keeps R (k d)" for n reason k
    using that unfolding withdraw_undo_def by (intro R_steps)
  have "keeps R (withdraw_trade player u a n)" for a n
    unfolding keeps_def
  proof
    fix w
    obtain r w1 where a: "ask_trade (TradeTask player [\<lparr>ti_item = ''diamond'', ti_amount = n\<rparr>] [] False False) w = (r, w1)" by force
    have 1: "R w (snd (m w1))" if "keeps R m" for m :: "unit act"
      using R_trans [OF R_trade [OF a]] that by (auto simp: keeps_def)
    show "R w (snd (withdraw_trade player u a n w))"
    proof (cases r)
      case (Answered x)
      show ?thesis unfolding withdraw_trade_def a Answered prod.case reply.case
        by (cases x; simp only: sum.case) (intro 1 un R_steps c)+
    qed (unfold withdraw_trade_def a, simp_all only: prod.case reply.case, (intro 1 un R_steps)+)
  qed
  then have "keeps R (withdraw_fetch player u a n)" for a n
    unfolding withdraw_fetch_def by (intro R_steps)
  then show ?thesis unfolding handle_withdraw_balance_queued_def Let_def by (intro R_steps)
qed

lemma R_execute_order:
  assumes "qo_user_uuid q = u" "qo_item q = item"
  shows "keeps R (execute_queued_order q)"
  unfolding execute_queued_order_def assms
  by (cases "qo_order_type q"; simp only: queued_order_type.case)
    (intro R_steps R_handle_buy R_handle_sell R_handle_deposit R_handle_withdraw)+

end

section \<open>Instances\<close>

subsection \<open>Everyone else's books\<close>

text \<open>What \<open>u\<close> and \<open>item\<close> are not about: the other balances, the other reserves, and everybody's operator
  flag, the stack sizes and the configuration.\<close>

definition outside :: "string \<Rightarrow> item_id \<Rightarrow> store \<Rightarrow>
    (string \<Rightarrow> f64 option) \<times> (string \<Rightarrow> bool) \<times> (item_id \<Rightarrow> f64 option option) \<times> (item_id \<Rightarrow> i32 option) \<times> config" where
  "outside u item s =
     (\<lambda>v. if v = u then None else Some (balance_of s v), is_operator s,
      \<lambda>k. if k = item then None else Some (map_option currency_stock (hget (pairs s) k)),
      \<lambda>k. map_option stack_size (hget (pairs s) k), conf s)"

definition outsiders_kept :: "string \<Rightarrow> item_id \<Rightarrow> world \<Rightarrow> world \<Rightarrow> bool" where
  "outsiders_kept u item w w' \<longleftrightarrow> outside u item (w_store w') = outside u item (w_store w)"

lemma audit_pair_same: "audit_pair st b p = (is, c, q) \<Longrightarrow> currency_stock q = currency_stock p \<and> stack_size q = stack_size p"
  by (auto simp: audit_pair_def Let_def split: if_splits)

lemma audit_pairs_same:
  "audit_pairs st b ps = (is, c, qs) \<Longrightarrow>
     map_option currency_stock (hget qs k) = map_option currency_stock (hget ps k) \<and>
     map_option stack_size (hget qs k) = map_option stack_size (hget ps k)"
  by (induction ps arbitrary: "is" c qs) (auto split: prod.splits dest: audit_pair_same)

lemma audit_state_same:
  "map_option currency_stock (hget (pairs (snd (audit_state b s))) k) = map_option currency_stock (hget (pairs s) k)"
  "map_option stack_size (hget (pairs (snd (audit_state b s))) k) = map_option stack_size (hget (pairs s) k)"
  "users (snd (audit_state b s)) = users s" "conf (snd (audit_state b s)) = conf s"
  "storage (snd (audit_state b s)) = storage s" "current_trade (snd (audit_state b s)) = current_trade s"
  using audit_pairs_same by (auto simp: audit_state_def split: prod.split)

lemma trim_same [simp]:
  "pairs (trim_in_memory_to_caps s) = pairs s" "users (trim_in_memory_to_caps s) = users s"
  "conf (trim_in_memory_to_caps s) = conf s" "storage (trim_in_memory_to_caps s) = storage s"
  "current_trade (trim_in_memory_to_caps s) = current_trade s"
  by (simp_all add: trim_in_memory_to_caps_def Let_def)

lemma save_same:
  "save ok s = (r, s', t) \<Longrightarrow> pairs s' = pairs s \<and> users s' = users s \<and> conf s' = conf s \<and> storage s' = storage s \<and>
     current_trade s' = current_trade s"
  by (cases "trades_ok ok"; cases "length (trades (trim_in_memory_to_caps s)) < saved_trades_count (trim_in_memory_to_caps s)")
    (auto simp: save_def Let_def)

lemma save_ignored_same:
  "pairs (w_store (snd (save_ignored w))) = pairs (w_store w)" "users (w_store (snd (save_ignored w))) = users (w_store w)"
  "conf (w_store (snd (save_ignored w))) = conf (w_store w)" "storage (w_store (snd (save_ignored w))) = storage (w_store w)"
  "current_trade (w_store (snd (save_ignored w))) = current_trade (w_store w)" "sent (snd (save_ignored w)) = sent w"
  by (auto simp: save_ignored_def split: prod.split dest: save_same)

lemma ensure_user_balance [simp]: "balance_of (ensure_user_exists player u s) v = balance_of s v"
  by (auto simp: ensure_user_exists_def balance_of_def split: option.splits)

lemma ensure_user_has: "is_valid_uuid_shape u \<Longrightarrow> \<exists>x. hget (users (ensure_user_exists player u s)) u = Some x"
  by (auto simp: ensure_user_exists_def Let_def split: option.splits)

lemma ensure_user_operator [simp]: "is_operator (ensure_user_exists player u s) v = is_operator s v"
  by (auto simp: ensure_user_exists_def is_operator_def split: option.splits)

lemma ensure_user_same [simp]:
  "pairs (ensure_user_exists player u s) = pairs s" "conf (ensure_user_exists player u s) = conf s"
  "storage (ensure_user_exists player u s) = storage s" "current_trade (ensure_user_exists player u s) = current_trade s"
  by (auto simp: ensure_user_exists_def split: option.splits)

lemma apply_chest_sync_same [simp]:
  "pairs (snd (apply_chest_sync r s)) = pairs s" "users (snd (apply_chest_sync r s)) = users s"
  "conf (snd (apply_chest_sync r s)) = conf s" "current_trade (snd (apply_chest_sync r s)) = current_trade s"
  "st_position (storage (snd (apply_chest_sync r s))) = st_position (storage s)"
  by (auto simp: apply_chest_sync_def split: option.splits sum.splits)

lemma advance_trade_same [simp]:
  "pairs (advance_trade b t s) = pairs s" "users (advance_trade b t s) = users s"
  "conf (advance_trade b t s) = conf s" "storage (advance_trade b t s) = storage s"
  by (auto simp: advance_trade_def split: option.splits sum.splits)

lemma outside_cong:
  "users s' = users s \<Longrightarrow> pairs s' = pairs s \<Longrightarrow> conf s' = conf s \<Longrightarrow> outside u item s' = outside u item s"
  by (simp add: outside_def balance_of_def is_operator_def fun_eq_iff)

lemma outside_user:
  "hget (users s) u = Some x \<Longrightarrow> operator y = operator x \<Longrightarrow>
     outside u item (s\<lparr>users := hput (users s) u y\<rparr>) = outside u item s"
  by (auto simp: outside_def balance_of_def is_operator_def fun_eq_iff)

lemma outside_pair:
  "hget (pairs s) item = Some p \<Longrightarrow> stack_size q = stack_size p \<Longrightarrow>
     outside u item (s\<lparr>pairs := hput (pairs s) item q\<rparr>) = outside u item s"
  by (auto simp: outside_def balance_of_def is_operator_def fun_eq_iff)

lemma outside_ensure: "outside u item (ensure_user_exists player v s) = outside u item s"
  by (simp add: outside_def fun_eq_iff)

lemma outside_audit: "outside u item (snd (audit_state b s)) = outside u item s"
  using audit_state_same [of b s] by (simp add: outside_def balance_of_def is_operator_def fun_eq_iff)

interpretation outsiders: ledger_relation "outsiders_kept u item" u item for u item
  by (unfold_locales; unfold outsiders_kept_def;
      (simp; fail | rule outside_cong; simp add: save_ignored_same; fail
       | simp add: outside_user outside_pair outside_ensure outside_audit))

end
