(* ===== verification/Rollback_Properties.thy ===== *)
theory Rollback_Properties
  imports Rollback
begin

text \<open>
  What a rollback promises: every item it was given is accounted for as returned, stuck on the bot
  or unplaced; it grows the storage by at most 16 nodes; and it reports an error to nobody.
\<close>

section \<open>The planned amount\<close>

text \<open>The planner's state: what is planned and what remains always add up to the request.\<close>

definition covers :: "(i32 \<Rightarrow> bool) \<Rightarrow> i32 \<Rightarrow> i32 \<Rightarrow> plan \<Rightarrow> bool" where
  "covers P qty remaining p \<longleftrightarrow> 0 \<le> remaining \<and> plan_total p + remaining = qty \<and>
     (\<forall>t \<in> set p. 0 < tr_amount t \<and> P (tr_chest_id t))"

lemma plan_total_nonneg: "\<forall>t \<in> set ts. 0 \<le> tr_amount t \<Longrightarrow> 0 \<le> plan_total ts"
  by (induction ts) auto

lemma covers_total: "covers P qty r p \<Longrightarrow> 0 \<le> plan_total p"
  by (rule plan_total_nonneg) (auto simp: covers_def)

lemma covers_record:
  assumes c: "covers P qty r p" and a: "0 \<le> a" "a \<le> r" and q: "qty \<le> i32_max" and P: "P (chest_id c0)"
  shows "covers P qty (r - a) (record_transfer p c0 item a)"
proof (cases "0 < a \<and> p \<noteq> [] \<and> tr_chest_id (last p) = chest_id c0")
  case False then show ?thesis using c a P by (auto simp: record_transfer_def covers_def)
next
  case True
  define p1 l where "p1 = butlast p" and "l = last p"
  have p: "p = p1 @ [l]" using True by (simp add: p1_def l_def)
  have l: "0 < tr_amount l" using c p by (simp add: covers_def)
  have "0 \<le> plan_total p1" by (rule plan_total_nonneg) (use c p in \<open>auto simp: covers_def\<close>)
  then have "in_i32 (tr_amount l + a)"
    using c p q a l by (auto simp: covers_def in_i32_def i32_min_def)
  then show ?thesis using c True a l p P by (auto simp: record_transfer_def covers_def)
qed

lemma covers_slots:
  "sim_fill_slots cap item c xs r p = (r', p') \<Longrightarrow> covers P qty r p \<Longrightarrow> qty \<le> i32_max \<Longrightarrow> P (chest_id c) \<Longrightarrow> covers P qty r' p'"
proof (induction cap item c xs r p rule: sim_fill_slots.induct)
  case (2 cap item c current xs remaining plan)
  show ?case
  proof (cases "remaining \<le> 0 \<or> current < 0 \<or> current \<ge> cap")
    case True then show ?thesis using 2 by (auto split: if_splits)
  next
    case False
    let ?a = "min (cap - current) remaining"
    have "covers P qty (remaining - ?a) (record_transfer plan c item ?a)"
      using covers_record [OF 2(4) _ _ 2(5) 2(6)] False by auto
    then show ?thesis using 2 False by (auto simp: Let_def)
  qed
qed simp

lemma covers_chests:
  "sim_fill_chests cap item ni ci cs r p = (r', p') \<Longrightarrow> covers P qty r p \<Longrightarrow> qty \<le> i32_max \<Longrightarrow>
     \<forall>c \<in> set cs. P (chest_id c) \<Longrightarrow> covers P qty r' p'"
proof (induction cap item ni ci cs r p rule: sim_fill_chests.induct)
  case (2 cap item ni ci c cs remaining plan)
  then show ?case by (auto split: if_splits prod.splits dest!: covers_slots)
qed simp

lemma covers_nodes:
  "sim_fill_nodes cap item ni ns r p = (r', p') \<Longrightarrow> covers P qty r p \<Longrightarrow> qty \<le> i32_max \<Longrightarrow>
     \<forall>n \<in> set ns. \<forall>c \<in> set (chests n). P (chest_id c) \<Longrightarrow> covers P qty r' p'"
proof (induction cap item ni ns r p rule: sim_fill_nodes.induct)
  case (2 cap item ni n ns remaining plan)
  then show ?case by (auto split: if_splits prod.splits dest!: covers_chests)
qed simp

definition covers3 :: "(i32 \<Rightarrow> bool) \<Rightarrow> i32 \<Rightarrow> claim_state \<Rightarrow> bool" where
  "covers3 P qty s \<longleftrightarrow> covers P qty (fst s) (fst (snd s))"

lemma covers_claim: "covers3 P qty s \<Longrightarrow> qty \<le> i32_max \<Longrightarrow> 0 \<le> ecap \<Longrightarrow> P (chest_id c) \<Longrightarrow> covers3 P qty (try_claim ecap item c s)"
  by (cases s) (auto simp: covers3_def try_claim_def Let_def intro!: covers_record)

lemma covers_claim_chests: "covers3 P qty s \<Longrightarrow> qty \<le> i32_max \<Longrightarrow> 0 \<le> ecap \<Longrightarrow> \<forall>c \<in> set cs. P (chest_id c) \<Longrightarrow>
     covers3 P qty (claim_chests ecap item cs s)"
  by (induction ecap item cs s rule: claim_chests.induct) (auto intro: covers_claim)

lemma covers_claim_nodes: "covers3 P qty s \<Longrightarrow> qty \<le> i32_max \<Longrightarrow> 0 \<le> ecap \<Longrightarrow>
     \<forall>n \<in> set ns. \<forall>c \<in> set (chests n). P (chest_id c) \<Longrightarrow> covers3 P qty (claim_nodes ecap item ns s)"
  by (induction ecap item ns s rule: claim_nodes.induct) (auto intro: covers_claim_chests)

lemma covers_claim_node_0:
  assumes "covers3 P qty s" "qty \<le> i32_max" "0 \<le> ecap" "\<forall>n \<in> set ns. \<forall>c \<in> set (chests n). P (chest_id c)"
  shows "covers3 P qty (claim_node_0 ecap item ns s)"
proof (cases ns)
  case Nil then show ?thesis using assms by (simp add: claim_node_0_def)
next
  case (Cons n ms)
  have n: "\<forall>c \<in> set (chests n). P (chest_id c)" using assms(4) Cons by simp
  have at: "covers3 P qty (claim_at ecap item (chests n) k s')" if "covers3 P qty s'" for k s'
    using that covers_claim assms n by (auto simp: claim_at_def)
  have dr: "\<forall>c \<in> set (drop 2 (chests n)). P (chest_id c)" using n by (meson in_set_dropD)
  have cc: "covers3 P qty (claim_chests ecap item (drop 2 (chests n)) s')" if "covers3 P qty s'" for s'
    using covers_claim_chests [OF that assms(2,3) dr] .
  show ?thesis
    unfolding claim_node_0_def Let_def
    by (simp only: Cons list.sel split: if_split) (intro conjI impI cc at assms(1))
qed

lemma simulate_deposit_covers:
  assumes "simulate_deposit_plan st item qty stk = (p, planned)" "0 < qty" "qty \<le> i32_max" "stack_ok stk" "item \<noteq> []"
    and P: "\<forall>n \<in> set (nodes st). \<forall>c \<in> set (chests n). P (chest_id c)"
  shows "covers P qty (qty - planned) p"
proof -
  let ?cap = "shulker_capacity_for_stack_size stk"
  let ?ecap = "wrap_i32 (int SLOTS_PER_CHEST * ?cap)"
  obtain r q where rq: "sim_fill_nodes ?cap item 0 (nodes st) qty [] = (r, q)" by force
  have "covers P qty qty []" using assms by (simp add: covers_def)
  from covers_nodes [OF rq this assms(3) P] have c: "covers3 P qty (r, q, [])" by (simp add: covers3_def)
  have e: "0 \<le> ?ecap"
    using assms(4) by (simp add: capacity_stack ecap_stack) (simp add: stack_ok_def)
  let ?s = "claim_nodes ?ecap item (drop 1 (nodes st)) (claim_node_0 ?ecap item (nodes st) (r, q, []))"
  have "\<forall>n \<in> set (drop 1 (nodes st)). \<forall>c \<in> set (chests n). P (chest_id c)"
    using P by (meson in_set_dropD)
  then have "covers3 P qty ?s"
    using covers_claim_nodes [OF covers_claim_node_0 [OF c assms(3) e P] assms(3) e] by blast
  moreover have "p = fst (snd ?s)" "planned = qty - fst ?s"
    using assms rq by (auto simp: simulate_deposit_plan_def Let_def)
  ultimately show ?thesis by (simp add: covers3_def)
qed

lemma simulate_deposit_total:
  assumes "simulate_deposit_plan st item qty stk = (p, planned)" "0 < qty" "qty \<le> i32_max" "stack_ok stk" "item \<noteq> []"
  shows "plan_total p = planned \<and> 0 \<le> planned \<and> planned \<le> qty \<and> (\<forall>t \<in> set p. 0 < tr_amount t)"
proof -
  have "covers (\<lambda>_. True) qty (qty - planned) p" by (rule simulate_deposit_covers [OF assms]) simp
  with covers_total [OF this] show ?thesis by (auto simp: covers_def)
qed

section \<open>Accounting\<close>

text \<open>The steps done so far: what the counters add up to, before any saturation.\<close>

definition accounted :: "int \<Rightarrow> nat \<Rightarrow> rollback_result \<Rightarrow> bool" where
  "accounted tot steps rb \<longleftrightarrow> 0 \<le> items_returned rb \<and> 0 \<le> items_stuck_on_bot rb \<and> items_unplanned rb = 0 \<and>
     items_returned rb + items_stuck_on_bot rb = tot \<and> operations_succeeded rb + operations_failed rb = steps \<and>
     (operations_failed rb = 0 \<longrightarrow> items_stuck_on_bot rb = 0)"

lemma accounted_default [simp]: "accounted 0 0 rollback_default"
  by (simp add: accounted_def rollback_default_def)

lemma accounted_credit:
  "accounted tot k rb \<Longrightarrow> 0 \<le> a \<Longrightarrow> tot + a \<le> i32_max \<Longrightarrow> accounted (tot + a) (Suc k) (credit ok a rb)"
  by (auto simp: accounted_def credit_def sat_add_i32_def i32_min_def Let_def)

lemma accounted_strand:
  "accounted tot k rb \<Longrightarrow> 0 \<le> a \<Longrightarrow> tot + a \<le> i32_max \<Longrightarrow> accounted (tot + a) (Suc k) (strand a rb)"
  by (auto simp: accounted_def strand_def sat_add_i32_def i32_min_def)

lemma sum_amounts: "\<forall>t \<in> set ts. 0 \<le> tr_amount t \<Longrightarrow> sum_list (map (\<lambda>t. max (tr_amount t) 0) ts) = plan_total ts"
  by (induction ts) auto

lemma accounted_strand_tail:
  assumes "accounted tot k rb" "\<forall>t \<in> set ts. 0 \<le> tr_amount t" "tot + plan_total ts \<le> i32_max" "0 < operations_failed rb"
  shows "accounted (tot + plan_total ts) (k + length ts) (strand_tail ts rb)"
proof -
  have "0 \<le> plan_total ts" using assms(2) by (rule plan_total_nonneg)
  moreover have "0 \<le> tot" using assms(1) by (auto simp: accounted_def)
  ultimately have "in_i32 (plan_total ts)" using assms(3) by (simp add: in_i32_def i32_min_def)
  with \<open>0 \<le> plan_total ts\<close> show ?thesis
    using assms by (auto simp: accounted_def strand_tail_def sum_amounts sat_add_i32_def i32_min_def)
qed

lemma strand_failed [simp]: "0 < operations_failed (strand a rb)"
  by (simp add: strand_def)

lemma deposit_steps_accounted:
  assumes "deposit_steps ts item stk rb w = (r, w')" "accounted tot k rb"
    "\<forall>t \<in> set ts. 0 \<le> tr_amount t" "tot + plan_total ts \<le> i32_max"
  shows "r = Panicked \<or> (\<exists>rb'. r = Ok rb' \<and> accounted (tot + plan_total ts) (k + length ts) rb')"
  using assms
proof (induction ts arbitrary: rb w tot k)
  case Nil then show ?case by (auto simp: ret_def)
next
  case (Cons t ts)
  have t: "0 \<le> tr_amount t" "\<forall>t \<in> set ts. 0 \<le> tr_amount t" "0 \<le> plan_total ts"
    using Cons.prems plan_total_nonneg by auto
  have le: "tot + tr_amount t \<le> i32_max" "(tot + tr_amount t) + plan_total ts \<le> i32_max"
    using Cons.prems t by auto
  note step = Cons.IH [OF _ _ t(2) le(2)]
  have cr: "accounted (tot + tr_amount t) (Suc k) (credit b (tr_amount t) rb)" for b
    using accounted_credit Cons.prems t le by blast
  have st: "accounted (tot + tr_amount t) (Suc k) (strand (tr_amount t) rb)"
    using accounted_strand Cons.prems t le by blast
  have tail: "accounted (tot + tr_amount t + plan_total ts) (Suc k + length ts) (strand_tail ts (strand (tr_amount t) rb))"
    using accounted_strand_tail [OF st t(2) le(2)] by simp
  obtain np w1 where np: "node_position_of (tr_chest_id t) w = (np, w1)" by force
  show ?case
  proof (cases np)
    case (Ok p)
    obtain a w2 where a: "ask_chest (ChestTask (chest_from_transfer t) p (ActDeposit item (tr_amount t) stk)) w1 = (a, w2)" by force
    show ?thesis
      using Cons.prems(1) Ok a np step [OF _ cr] step [OF _ st] tail
      by (auto simp: andthen_def ret_def add.assoc split: reply.splits sum.splits prod.splits)
  next
    case (Err e)
    then show ?thesis using np by (auto simp: node_position_of_def andthen_def reading_def or_panic_def split: option.splits)
  next
    case Panicked then show ?thesis using Cons.prems(1) np by (auto simp: andthen_def)
  qed
qed

lemma deposit_transfers_accounted:
  assumes "deposit_transfers ts item stk w = (r, w')" "\<forall>t \<in> set ts. 0 \<le> tr_amount t" "plan_total ts \<le> i32_max"
  shows "r = Panicked \<or> (\<exists>rb. r = Ok rb \<and> accounted (plan_total ts) (length ts) rb)"
proof (cases "ts = []")
  case True
  then show ?thesis using assms accounted_default by (auto simp: deposit_transfers_def ret_def)
next
  case False
  then show ?thesis
    using deposit_steps_accounted [of ts item stk rollback_default w r w' 0 0] assms
    by (auto simp: deposit_transfers_def)
qed

section \<open>A rollback returns\<close>

text \<open>Chest ids whose node has a position, and storages that are well formed with room for
  \<open>k\<close> more nodes.\<close>

definition reachable_id :: "i32 \<Rightarrow> bool" where
  "reachable_id k \<longleftrightarrow> 0 \<le> k \<and> k div 4 \<le> max_node_id"

definition storage_ready :: "nat \<Rightarrow> storage \<Rightarrow> bool" where
  "storage_ready k st \<longleftrightarrow> list_all (node_wf (st_position st)) (nodes st) \<and> int (length (nodes st) + k) \<le> max_node_id"

lemma wf_chest_reachable: "node_wf sp n \<Longrightarrow> c \<in> set (chests n) \<Longrightarrow> reachable_id (chest_id c)"
proof -
  assume n: "node_wf sp n" and c: "c \<in> set (chests n)"
  then obtain i where i: "i < length (chests n)" "c = chests n ! i" by (auto simp: in_set_conv_nth)
  have "chest_id c = wrap_i32 (wrap_i32 (node_id n * 4) + chest_index c)" "valid_index (chest_index c)"
    using n i by (auto simp: node_wf_def node_check_def check_chests_iff check_invariants_iff CHESTS_PER_NODE_def split: if_splits)
  moreover have "0 \<le> node_id n" "node_id n \<le> 536870910" using n by (auto simp: node_wf_def max_node_id_val)
  moreover have "0 \<le> chest_index c" "chest_index c < 4" using \<open>valid_index (chest_index c)\<close> by (auto simp: valid_index_cases)
  ultimately have "chest_id c = node_id n * 4 + chest_index c" "0 \<le> node_id n" "node_id n \<le> 536870910"
    "0 \<le> chest_index c" "chest_index c < 4"
    by (auto simp: in_i32_def i32_min_def i32_max_def)
  then show ?thesis by (auto simp: reachable_id_def max_node_id_val)
qed

lemma storage_reachable:
  "storage_ready k st \<Longrightarrow> \<forall>n \<in> set (nodes st). \<forall>c \<in> set (chests n). reachable_id (chest_id c)"
  by (auto simp: storage_ready_def list_all_iff dest: wf_chest_reachable)

lemma get_node_position_total: "reachable_id k \<Longrightarrow> get_node_position s k \<noteq> None"
proof -
  assume k: "reachable_id k"
  then have "k sdiv int CHESTS_PER_NODE = k div 4" "0 \<le> k div 4" "k div 4 \<le> max_node_id"
    by (auto simp: reachable_id_def CHESTS_PER_NODE_def signed_divide_int_def sgn_if)
  then show ?thesis
    using node_position_spec [of "k div 4" "st_position (storage s)"]
    by (auto simp: get_node_position_def Let_def split: option.splits)
qed

lemma node_position_total: "reachable_id k \<Longrightarrow> \<exists>p. node_position_of k w = (Ok p, w)"
  using get_node_position_total [of k "w_store w"]
  by (auto simp: node_position_of_def andthen_def reading_def or_panic_def)

lemma sync_nodes_length: "sync_nodes r ns = Some (Inr ms) \<Longrightarrow> length ms = length ns"
  by (induction ns arbitrary: ms) (auto split: option.splits sum.splits)

lemma apply_chest_sync_length [simp]:
  "length (nodes (storage (snd (apply_chest_sync r s)))) = length (nodes (storage s))"
  by (auto simp: apply_chest_sync_def split: option.splits sum.splits dest: sync_nodes_length)

abbreviation node_count :: "world \<Rightarrow> nat" where
  "node_count w \<equiv> length (nodes (storage (w_store w)))"

lemma deposit_steps_total:
  assumes "\<forall>t \<in> set ts. reachable_id (tr_chest_id t)"
  shows "\<exists>rb' w'. deposit_steps ts item stk rb w = (Ok rb', w') \<and> node_count w' = node_count w"
  using assms
proof (induction ts arbitrary: rb w)
  case (Cons t ts)
  obtain p where p: "node_position_of (tr_chest_id t) w = (Ok p, w)" using node_position_total Cons.prems by fastforce
  obtain a w2 where a: "ask_chest (ChestTask (chest_from_transfer t) p (ActDeposit item (tr_amount t) stk)) w = (a, w2)" by force
  have w2: "w_store w2 = w_store w" using ask_store(2) [OF a] .
  have ih: "\<exists>rb' w'. deposit_steps ts item stk rb v = (Ok rb', w') \<and> node_count w' = node_count v" for rb v
    using Cons by simp
  show ?case
  proof (cases "\<exists>report. a = Answered (Inr report)")
    case True
    then obtain report where r: "a = Answered (Inr report)" by blast
    obtain q s where s: "apply_chest_sync report (w_store w2) = (q, s)" by force
    have "length (nodes (storage s)) = node_count w" by (metis apply_chest_sync_length s snd_conv w2)
    then show ?thesis using ih [of "credit (is_ok q) (tr_amount t) rb" "w2\<lparr>w_store := s\<rparr>"] p a r s
      by (simp add: andthen_def)
  next
    case False
    then show ?thesis using ih [of "strand (tr_amount t) rb" w2] p a w2
      by (auto simp: andthen_def ret_def split: reply.splits sum.splits)
  qed
qed (simp add: ret_def)

lemma deposit_transfers_total:
  "\<forall>t \<in> set ts. reachable_id (tr_chest_id t) \<Longrightarrow>
     \<exists>rb w'. deposit_transfers ts item stk w = (Ok rb, w') \<and> node_count w' = node_count w"
  using deposit_steps_total by (auto simp: deposit_transfers_def ret_def)

lemma add_node_ready:
  assumes "storage_ready (Suc k) st"
  obtains st' where "add_node st = Some st'" "storage_ready k st'" "length (nodes st') = Suc (length (nodes st))"
proof -
  let ?id = "lowest_unused (map node_id (nodes st)) 0"
  have "0 \<le> ?id" "?id \<le> max_node_id"
    using lowest_unused_le [of "map node_id (nodes st)"] assms by (auto simp: storage_ready_def)
  from node_new_wf [OF this, of "st_position st"] obtain n where
    "node_new ?id (st_position st) = Some n" "node_wf (st_position st) n" by blast
  with assms that [of "st\<lparr>nodes := nodes st @ [n]\<rparr>"] show thesis
    by (auto simp: add_node_def storage_ready_def)
qed

definition good_plan :: "i32 \<Rightarrow> i32 \<Rightarrow> plan \<Rightarrow> bool" where
  "good_plan amount planned p \<longleftrightarrow> covers reachable_id amount (amount - planned) p"

lemma good_plan_simulated:
  "simulate_deposit_plan st item amount stk = (p, planned) \<Longrightarrow> 0 < amount \<Longrightarrow> amount \<le> i32_max \<Longrightarrow> stack_ok stk \<Longrightarrow>
     item \<noteq> [] \<Longrightarrow> storage_ready k st \<Longrightarrow> good_plan amount planned p"
  unfolding good_plan_def by (rule simulate_deposit_covers) (auto dest: storage_reachable)

lemma grow_loop_spec:
  assumes "storage_ready n (storage (w_store w))" "0 < amount" "amount \<le> i32_max" "stack_ok stk" "item \<noteq> []"
    "good_plan amount planned p"
  shows "\<exists>p' u w'. grow_loop n item amount stk p planned w = (Ok (p', u), w') \<and> good_plan amount (amount - u) p' \<and>
    node_count w' \<le> node_count w + n"
  using assms
proof (induction n arbitrary: w p planned)
  case 0
  then have "good_plan amount (amount - max (amount - planned) 0) p" by (auto simp: good_plan_def covers_def max_def)
  then show ?case by (auto simp: grow_loop.simps ret_def Let_def)
next
  case (Suc n)
  let ?u = "max (amount - planned) 0"
  have g: "good_plan amount (amount - ?u) p" using Suc.prems(6) by (auto simp: good_plan_def covers_def max_def)
  show ?case
  proof (cases "?u \<le> 0")
    case True then show ?thesis using g by (auto simp: grow_loop.simps [of "Suc n"] ret_def Let_def)
  next
    case False
    obtain st where st: "add_node (storage (w_store w)) = Some st" "storage_ready n st"
      "length (nodes st) = Suc (node_count w)" by (rule add_node_ready [OF Suc.prems(1)])
    obtain b w1 where w1: "next_write (w\<lparr>w_store := (w_store w)\<lparr>storage := st\<rparr>\<rparr>) = (b, w1)" by force
    have s1: "storage (w_store w1) = st" using ask_store(4) [OF w1] by simp
    obtain rp rq where r: "simulate_deposit_plan st item amount stk = (rp, rq)" by force
    have "good_plan amount rq rp" using good_plan_simulated [OF r] Suc.prems st(2) by blast
    from Suc.IH [OF _ Suc.prems(2-5) this, of w1] s1 st(2) obtain p' u w' where ih:
      "grow_loop n item amount stk rp rq w1 = (Ok (p', u), w')" "good_plan amount (amount - u) p'"
      "node_count w' \<le> node_count w1 + n" by auto
    show ?thesis
    proof (cases "b \<and> \<not> rq \<le> planned")
      case True
      then have "grow_loop (Suc n) item amount stk p planned w = (Ok (p', u), w')"
        using False st(1) w1 s1 r ih(1) by (simp add: grow_loop.simps [of "Suc n"] Let_def)
      then show ?thesis using ih st(3) s1 by auto
    next
      case f: False
      then have "grow_loop (Suc n) item amount stk p planned w = (Ok (p, ?u), w1)"
        using False st(1) w1 s1 r by (auto simp: grow_loop.simps [of "Suc n"] Let_def ret_def split: bool.split)
      then show ?thesis using g st(3) s1 by auto
    qed
  qed
qed

lemma rollback_amount_spec:
  assumes "storage_ready MAX_GROW (storage (w_store w))" "0 < amount" "amount \<le> i32_max" "stack_ok stk" "item \<noteq> []"
  obtains rb w' where "rollback_amount_to_storage item amount stk w = (Ok rb, w')"
    "items_returned rb + items_stuck_on_bot rb + items_unplanned rb = amount"
    "0 \<le> items_returned rb" "0 \<le> items_stuck_on_bot rb" "0 \<le> items_unplanned rb"
    "\<not> has_failures rb \<longrightarrow> items_returned rb = amount"
    "node_count w' \<le> node_count w + MAX_GROW"
proof -
  obtain p planned where p: "simulate_deposit_plan (storage (w_store w)) item amount stk = (p, planned)" by force
  from grow_loop_spec [OF assms good_plan_simulated [OF p assms(2-5,1)]] obtain p' u w1 where g:
    "grow_loop MAX_GROW item amount stk p planned w = (Ok (p', u), w1)" "good_plan amount (amount - u) p'"
    "node_count w1 \<le> node_count w + MAX_GROW" by blast
  have c: "0 \<le> u" "plan_total p' + u = amount" "\<forall>t \<in> set p'. 0 \<le> tr_amount t" "\<forall>t \<in> set p'. reachable_id (tr_chest_id t)"
    using g(2) by (auto simp: good_plan_def covers_def)
  obtain rb w' where d: "deposit_transfers p' item stk w1 = (Ok rb, w')" "node_count w' = node_count w1"
    using deposit_transfers_total [OF c(4)] by blast
  have a: "accounted (plan_total p') (length p') rb"
    using deposit_transfers_accounted [OF d(1) c(3)] c assms(3) by auto
  have "rollback_amount_to_storage item amount stk w = (Ok (rb\<lparr>items_unplanned := u\<rparr>), w')"
    using p g(1) d(1) assms(2) by (simp add: rollback_amount_to_storage_def andthen_def ret_def)
  from that [OF this] a c d(2) g(3) show thesis by (auto simp: accounted_def has_failures_def)
qed

section \<open>Properties\<close>

text \<open>C20: A rollback always comes back with a report, whatever the bot answers: on a well-formed storage with
  room for 16 more nodes nothing panics and no error escapes, the growth loop ends after at most 16
  nodes, and every item is accounted for: it is back in storage, on the bot after a failed step, or
  could not be placed. When no failure is reported everything is back in storage.\<close>

theorem rollback_accounts:
  assumes "storage_ready MAX_GROW (storage (w_store w))" "0 < amount" "amount \<le> i32_max" "stack_ok stk" "item \<noteq> []"
  shows "\<exists>rb w'. rollback_amount_to_storage item amount stk w = (Ok rb, w') \<and>
    items_returned rb + items_stuck_on_bot rb + items_unplanned rb = amount \<and>
    0 \<le> items_returned rb \<and> 0 \<le> items_stuck_on_bot rb \<and> 0 \<le> items_unplanned rb \<and>
    (\<not> has_failures rb \<longrightarrow> items_returned rb = amount) \<and>
    node_count w' \<le> node_count w + MAX_GROW"
  by (rule rollback_amount_spec [OF assms]) blast

text \<open>Replaying a plan returns a report for any answers of the bot, counts every step once as succeeded
  or failed, and accounts for every item of the plan; the storage keeps its nodes.\<close>

theorem deposit_transfers_accounts:
  assumes "\<forall>t \<in> set ts. reachable_id (tr_chest_id t) \<and> 0 \<le> tr_amount t" "plan_total ts \<le> i32_max"
  shows "\<exists>rb w'. deposit_transfers ts item stk w = (Ok rb, w') \<and>
    items_returned rb + items_stuck_on_bot rb = plan_total ts \<and>
    operations_succeeded rb + operations_failed rb = length ts \<and>
    (\<not> has_failures rb \<longrightarrow> operations_succeeded rb = length ts \<and> items_returned rb = plan_total ts) \<and>
    node_count w' = node_count w"
proof -
  obtain rb w' where d: "deposit_transfers ts item stk w = (Ok rb, w')" "node_count w' = node_count w"
    using deposit_transfers_total assms by blast
  then have "accounted (plan_total ts) (length ts) rb"
    using deposit_transfers_accounted [OF d(1)] assms by auto
  with d show ?thesis by (auto simp: accounted_def has_failures_def)
qed

section \<open>Witnesses\<close>

definition sample_world :: world where
  "sample_world = \<lparr>w_store = sample_store, whisper_replies = [], chest_replies = [TimedOut], trade_replies = [],
     validate_replies = [], control_replies = [], write_oks = [], save_scripts = [], clock = [], sent = []\<rparr>"

lemma sample_ready: "storage_ready MAX_GROW (storage (w_store sample_world))"
proof -
  have "list_all (node_wf sample_origin) (nodes sample_storage)"
    using sample_store_wf by (simp add: sample_store_storage)
  then show ?thesis
    by (simp add: sample_world_def sample_store_storage storage_ready_def max_node_id_val MAX_GROW_def sample_storage_def)
qed

theorem rollback_accounts_witness:
  "\<exists>rb w'. rollback_amount_to_storage ''diamond'' 700 64 sample_world = (Ok rb, w') \<and>
    items_returned rb + items_stuck_on_bot rb + items_unplanned rb = 700 \<and> node_count w' \<le> node_count sample_world + MAX_GROW"
  using rollback_accounts [OF sample_ready, of 700 64 "''diamond''"] by (auto simp: i32_max_def stack_ok_def)

theorem deposit_transfers_accounts_witness:
  "\<exists>rb w'. deposit_transfers [transfer (chests sample_loaded ! 3) ''iron'' 7] ''iron'' 64 sample_world = (Ok rb, w') \<and>
    items_returned rb + items_stuck_on_bot rb = 7 \<and> operations_succeeded rb + operations_failed rb = 1"
proof -
  have "tr_chest_id (transfer (chests sample_loaded ! 3) ''iron'' 7) = 3" by code_simp
  then show ?thesis
    using deposit_transfers_accounts [of "[transfer (chests sample_loaded ! 3) ''iron'' 7]" "''iron''" 64 sample_world]
    by (auto simp: reachable_id_def max_node_id_val i32_max_def)
qed

end
