(* ===== verification/Order_Effects.thy ===== *)
theory Order_Effects
  imports Order_Frames Rollback_Properties
begin

text \<open>
  The remaining instances of \<open>ledger_relation\<close> and the properties of a queued order that follow from
  them: the storage stays well formed, the trade in flight moves only by its own transitions,
  and nobody else's books change.
\<close>

section \<open>Steps that cannot fail\<close>

lemma then_updating: "andthen (updating f) k w = k () (w\<lparr>w_store := f (w_store w)\<rparr>)"
  by (simp add: andthen_def updating_def)

lemma then_reading: "andthen (reading f) k w = k (f (w_store w)) w"
  by (simp add: andthen_def reading_def)

lemma then_user:
  "hget (users (w_store w)) u = Some x \<Longrightarrow> andthen (writing (expect_user_mut u c f)) k w
     = k () (w\<lparr>w_store := (w_store w)\<lparr>users := hput (users (w_store w)) u (f x)\<rparr>\<rparr>)"
  by (simp add: andthen_def writing_def expect_user_mut_def)

lemma then_pair:
  "hget (pairs (w_store w)) i = Some p \<Longrightarrow> andthen (writing (expect_pair_mut i c f)) k w
     = k () (w\<lparr>w_store := (w_store w)\<lparr>pairs := hput (pairs (w_store w)) i (f p)\<rparr>\<rparr>)"
  by (simp add: andthen_def writing_def expect_pair_mut_def)

lemmas then_steps = then_updating then_reading then_user then_pair

section \<open>Instances\<close>

definition wf_kept :: "world \<Rightarrow> world \<Rightarrow> bool" where
  "wf_kept w w' \<longleftrightarrow>
     (let st = storage (w_store w); st' = storage (w_store w') in
      st_position st' = st_position st \<and>
      (list_all (node_wf (st_position st)) (nodes st) \<and> int (length (nodes st')) \<le> max_node_id \<longrightarrow>
        list_all (node_wf (st_position st)) (nodes st')) \<and>
      length (nodes st) \<le> length (nodes st'))"

lemma wf_kept_storage: "storage (w_store w') = storage (w_store w) \<Longrightarrow> wf_kept w w'"
  by (simp add: wf_kept_def)

lemma wf_kept_sync: "wf_kept w (w\<lparr>w_store := snd (apply_chest_sync r (w_store w))\<rparr>)"
  by (simp add: wf_kept_def Let_def apply_chest_sync_wf_raw)

lemma wf_kept_grow:
  assumes "add_node (storage (w_store w)) = Some st"
  shows "wf_kept w (w\<lparr>w_store := (w_store w)\<lparr>storage := st\<rparr>\<rparr>)"
proof -
  let ?st = "storage (w_store w)" let ?id = "lowest_unused (map node_id (nodes ?st)) 0"
  obtain n where n: "node_new ?id (st_position ?st) = Some n" "st = ?st\<lparr>nodes := nodes ?st @ [n]\<rparr>"
    using assms by (auto simp: add_node_def)
  have "node_wf (st_position ?st) n" if "int (length (nodes ?st)) < max_node_id"
  proof -
    have "0 \<le> ?id" "?id \<le> max_node_id" using lowest_unused_le [of "map node_id (nodes ?st)"] that by auto
    from node_new_wf [OF this, of "st_position ?st"] n show ?thesis by auto
  qed
  then show ?thesis using n by (auto simp: wf_kept_def Let_def)
qed

lemma wf_kept_trans: "wf_kept w w' \<Longrightarrow> wf_kept w' w'' \<Longrightarrow> wf_kept w w''"
  by (auto simp: wf_kept_def Let_def)

interpretation wf: ledger_relation wf_kept u item for u item
  by (unfold_locales;
      (simp add: wf_kept_def; fail | erule (1) wf_kept_trans | rule wf_kept_sync | erule wf_kept_grow
       | rule wf_kept_storage; simp add: save_ignored_same audit_state_same))

text \<open>The trade in flight.\<close>

definition trade_moves :: "world \<Rightarrow> world \<Rightarrow> bool" where
  "trade_moves w w' \<longleftrightarrow>
     (case current_trade (w_store w) of None \<Rightarrow> current_trade (w_store w') = None
      | Some t \<Rightarrow> \<exists>t'. current_trade (w_store w') = Some t' \<and> trade_step\<^sup>*\<^sup>* t t')"

lemma trade_moves_same: "current_trade (w_store w') = current_trade (w_store w) \<Longrightarrow> trade_moves w w'"
  by (auto simp: trade_moves_def split: option.split)

lemma trade_moves_trans: "trade_moves w w' \<Longrightarrow> trade_moves w' w'' \<Longrightarrow> trade_moves w w''"
  by (fastforce simp: trade_moves_def split: option.splits)

lemma trade_moves_advance: "legal t \<Longrightarrow> trade_moves w (w\<lparr>w_store := advance_trade b t (w_store w)\<rparr>)"
  by (auto simp: trade_moves_def advance_trade_def legal_def split: option.splits sum.splits)

interpretation moves: ledger_relation trade_moves u item for u item
  by (unfold_locales;
      (erule (1) trade_moves_trans | erule trade_moves_advance
       | rule trade_moves_same; simp add: save_ignored_same audit_state_same))

lemma outsideD:
  assumes "outside u item s' = outside u item s"
  shows "v \<noteq> u \<Longrightarrow> balance_of s' v = balance_of s v" "is_operator s' v = is_operator s v"
    "k \<noteq> item \<Longrightarrow> map_option currency_stock (hget (pairs s') k) = map_option currency_stock (hget (pairs s) k)"
    "map_option stack_size (hget (pairs s') k) = map_option stack_size (hget (pairs s) k)" "conf s' = conf s"
  using assms by (auto simp: outside_def dest: fun_cong [of _ _ v] fun_cong [of _ _ k])

section \<open>Properties\<close>

text \<open>C3: Executing an order touches only the books it is about: every other player's balance, every operator
  flag, every other pair's reserve, all stack sizes and the configuration are what they were,
  whatever the bot answers and however the order ends.\<close>

theorem order_isolated:
  assumes "execute_queued_order q w = (r, w')"
  shows "(\<forall>v. v \<noteq> qo_user_uuid q \<longrightarrow> balance_of (w_store w') v = balance_of (w_store w) v) \<and>
    (\<forall>v. is_operator (w_store w') v = is_operator (w_store w) v) \<and>
    (\<forall>k. k \<noteq> qo_item q \<longrightarrow> map_option currency_stock (hget (pairs (w_store w')) k) =
       map_option currency_stock (hget (pairs (w_store w)) k)) \<and>
    (\<forall>k. map_option stack_size (hget (pairs (w_store w')) k) = map_option stack_size (hget (pairs (w_store w)) k)) \<and>
    conf (w_store w') = conf (w_store w)"
proof -
  have "outsiders_kept (qo_user_uuid q) (qo_item q) w w'"
    using outsiders.R_execute_order [OF refl refl] assms by (rule keeps_apply)
  then have "outside (qo_user_uuid q) (qo_item q) (w_store w') = outside (qo_user_uuid q) (qo_item q) (w_store w)"
    by (simp add: outsiders_kept_def)
  from outsideD [OF this] show ?thesis by (intro conjI allI impI)
qed

text \<open>Executing an order keeps a well-formed storage well formed, as long as its nodes fit the id range,
  and never drops a node.\<close>

theorem order_keeps_storage:
  assumes "execute_queued_order q w = (r, w')" "list_all (node_wf sp) (nodes (storage (w_store w)))"
    "st_position (storage (w_store w)) = sp" "int (node_count w') \<le> max_node_id"
  shows "list_all (node_wf sp) (nodes (storage (w_store w'))) \<and> st_position (storage (w_store w')) = sp \<and>
    node_count w \<le> node_count w'"
proof -
  have "wf_kept w w'"
    using wf.R_execute_order [OF refl refl] assms(1) by (rule keeps_apply)
  then show ?thesis using assms by (auto simp: wf_kept_def Let_def)
qed


section \<open>Witnesses\<close>

definition sample_order :: queued_order where
  "sample_order = \<lparr>qo_id = 1, qo_user_uuid = sample_uuid, qo_username = ''alice'', qo_order_type = QBuy,
     qo_item = ''iron'', qo_quantity = 1, qo_queued_at = 0\<rparr>"

definition sample_started :: "trade_state \<Rightarrow> world" where
  "sample_started t = sample_world\<lparr>w_store := sample_store\<lparr>current_trade := Some t\<rparr>\<rparr>"

lemma sample_started_store:
  "current_trade (w_store (sample_started t)) = Some t" "storage (w_store (sample_started t)) = sample_storage"
  "pairs (w_store (sample_started t)) = pairs sample_store" "users (w_store (sample_started t)) = users sample_store"
  by (simp_all add: sample_started_def sample_store_storage)

theorem order_isolated_witness:
  "\<exists>r w'. execute_queued_order sample_order (sample_started (Queued sample_order)) = (r, w') \<and>
    conf (w_store w') = conf (w_store (sample_started (Queued sample_order)))"
proof -
  obtain r w' where run: "execute_queued_order sample_order (sample_started (Queued sample_order)) = (r, w')" by force
  from order_isolated [OF run] run show ?thesis by blast
qed

text \<open>An order on an item the store does not trade is refused before it touches the storage.\<close>

lemma refused_storage:
  assumes "handle_buy_order player u item q w = (r, w')" "\<not> has_key (pairs (w_store w)) item"
  shows "storage (w_store w') = storage (w_store w)"
proof -
  have m: "send_message_to_player p msg v = (x, v') \<Longrightarrow> w_store v' = w_store v" for p msg v v' and x :: "unit res"
    by (auto simp: send_message_to_player_def split: prod.splits reply.splits sum.splits)
  have v: "validate_and_plan_buy player u item q w = (x, v) \<Longrightarrow> storage (w_store v) = storage (w_store w) \<and> (\<forall>bp. x \<noteq> Ok (Some bp))" for x v
    using assms(2) by (auto simp: validate_and_plan_buy_def reject_def andthen_Ok elim!: andthenE dest!: m)
  have c: "checked (\<lambda>s. assert_tradeable s item u) w = (y, w1) \<Longrightarrow> w1 = w" for y w1
    by (simp add: checked_def assert_tradeable_eq split: prod.splits if_splits)
  from assms(1) show ?thesis unfolding handle_buy_order_def
    by (auto elim!: andthenE dest!: c v split: option.splits)
qed

definition sample_refused :: queued_order where
  "sample_refused = sample_order\<lparr>qo_item := ''gold''\<rparr>"

theorem order_keeps_storage_witness:
  "\<exists>r w'. execute_queued_order sample_refused (sample_started (Queued sample_refused)) = (r, w') \<and>
    list_all (node_wf sample_origin) (nodes (storage (w_store w')))"
proof -
  let ?w = "sample_started (Queued sample_refused)"
  obtain r w' where run: "execute_queued_order sample_refused ?w = (r, w')" by force
  have wf: "list_all (node_wf sample_origin) (nodes (storage (w_store ?w)))"
    using sample_store_wf by (simp add: sample_started_store sample_store_storage)
  have "\<not> has_key (pairs (w_store ?w)) ''gold''" by (simp add: sample_started_store sample_store_def has_key_def)
  with run have "storage (w_store w') = sample_storage"
    by (auto simp: execute_queued_order_def sample_refused_def sample_order_def sample_started_store dest!: refused_storage elim!: andthenE)
  with order_keeps_storage [OF run wf, of] run show ?thesis
    by (auto simp: sample_started_store sample_storage_def max_node_id_val)
qed


end
