(* ===== verification/Transfer_Log.thy ===== *)
theory Transfer_Log
  imports Order_Effects
begin

text \<open>
  The chest operations a plan sends to the bot, read off the instruction log: a plan that is executed
  to its end sends each transfer once in order, and a withdrawal that fails is followed by the
  deposits of the transfers that had been applied.
\<close>

fun chest_op :: "instruction \<Rightarrow> (i32 \<times> chest_action) list" where
  "chest_op (ChestTask c p a) = [(chest_id c, a)]"
| "chest_op _ = []"

definition chest_ops :: "world \<Rightarrow> (i32 \<times> chest_action) list" where
  "chest_ops w = concat (map chest_op (sent w))"

definition plan_ops :: "(i32 \<Rightarrow> chest_action) \<Rightarrow> plan \<Rightarrow> (i32 \<times> chest_action) list" where
  "plan_ops a ts = map (\<lambda>t. (tr_chest_id t, a (tr_amount t))) ts"

text \<open>The bot's channel stays open for the next \<open>n\<close> operations.\<close>

definition open_for :: "nat \<Rightarrow> world \<Rightarrow> bool" where
  "open_for n w \<longleftrightarrow> n \<le> length (chest_replies w) \<and> SendFailed \<notin> set (chest_replies w)"

lemma plan_ops_simps [simp]: "plan_ops a [] = []" "plan_ops a (t # ts) = (tr_chest_id t, a (tr_amount t)) # plan_ops a ts"
  "plan_ops a (ts @ us) = plan_ops a ts @ plan_ops a us"
  by (simp_all add: plan_ops_def)

lemma chest_ops_store [simp]: "chest_ops (w\<lparr>w_store := s\<rparr>) = chest_ops w" "open_for n (w\<lparr>w_store := s\<rparr>) = open_for n w"
  by (simp_all add: chest_ops_def open_for_def)

lemma ask_chest_logged:
  assumes "ask_chest (ChestTask c p a) w = (r, w')" "open_for (Suc n) w"
  shows "r \<noteq> SendFailed" "chest_ops w' = chest_ops w @ [(chest_id c, a)]" "open_for n w'"
proof -
  from assms(2) obtain x xs where x: "chest_replies w = x # xs" "x \<noteq> SendFailed"
    by (cases "chest_replies w") (auto simp: open_for_def)
  have "r = x \<and> w' = w\<lparr>chest_replies := xs, sent := sent w @ [ChestTask c p a]\<rparr>"
    using assms(1) x by (cases x) (auto simp: ask_chest_def next_of_def log_sent_def)
  with x assms(2) show "r \<noteq> SendFailed" "chest_ops w' = chest_ops w @ [(chest_id c, a)]" "open_for n w'"
    by (auto simp: chest_ops_def open_for_def)
qed

lemma node_position_same: "node_position_of k w = (r, w') \<Longrightarrow> w' = w \<and> (\<forall>e. r \<noteq> Err e)"
  by (auto simp: node_position_of_def andthen_def or_panic_def split: option.splits)

lemma chest_from_transfer_id [simp]: "chest_id (chest_from_transfer t) = tr_chest_id t"
  by (simp add: chest_from_transfer_def)

section \<open>Deposits of a rollback\<close>

text \<open>The answer is some report counter update; what matters is that the loop goes on.\<close>

lemma deposit_steps_ops:
  "\<forall>t \<in> set ts. reachable_id (tr_chest_id t) \<Longrightarrow> open_for (length ts + n) w \<Longrightarrow>
     \<exists>rb' w'. deposit_steps ts item stk rb w = (Ok rb', w') \<and>
       chest_ops w' = chest_ops w @ plan_ops (\<lambda>a. ActDeposit item a stk) ts \<and> open_for n w'"
proof (induction ts arbitrary: rb w)
  case (Cons t ts)
  obtain np where np: "node_position_of (tr_chest_id t) w = (Ok np, w)" using node_position_total Cons.prems by fastforce
  obtain a w1 where a: "ask_chest (ChestTask (chest_from_transfer t) np (ActDeposit item (tr_amount t) stk)) w = (a, w1)" by force
  have o: "open_for (Suc (length ts + n)) w" using Cons.prems(2) by simp
  note l = ask_chest_logged [OF a o]
  have ih: "\<exists>rb' w'. deposit_steps ts item stk rb v = (Ok rb', w') \<and>
       chest_ops w' = chest_ops w @ plan_ops (\<lambda>a. ActDeposit item a stk) (t # ts) \<and> open_for n w'"
    if "v = w1 \<or> (\<exists>s. v = w1\<lparr>w_store := s\<rparr>)" for rb v
  proof -
    have "open_for (length ts + n) v" "chest_ops v = chest_ops w1" using l(3) that by auto
    then show ?thesis using Cons.IH [of v rb] Cons.prems(1) l(2) by simp
  qed
  have "\<exists>rb' w'. deposit_steps ts item stk rb w1 = (Ok rb', w') \<and>
       chest_ops w' = chest_ops w @ plan_ops (\<lambda>a. ActDeposit item a stk) (t # ts) \<and> open_for n w'" for rb by (rule ih) simp
  moreover have "\<exists>rb' w'. deposit_steps ts item stk rb (w1\<lparr>w_store := s\<rparr>) = (Ok rb', w') \<and>
       chest_ops w' = chest_ops w @ plan_ops (\<lambda>a. ActDeposit item a stk) (t # ts) \<and> open_for n w'" for rb s by (rule ih) blast
  ultimately show ?case using l(1) by (auto simp: andthen_Ok np a split: reply.splits sum.splits prod.splits)
qed auto

lemma deposit_transfers_ops:
  "\<forall>t \<in> set ts. reachable_id (tr_chest_id t) \<Longrightarrow> open_for (length ts + n) w \<Longrightarrow>
     \<exists>rb' w'. deposit_transfers ts item stk w = (Ok rb', w') \<and>
       chest_ops w' = chest_ops w @ plan_ops (\<lambda>a. ActDeposit item a stk) ts \<and> open_for n w'"
  using deposit_steps_ops by (cases "ts = []") (auto simp: deposit_transfers_def open_for_def)

section \<open>Execution of a plan\<close>

lemma failing_ops:
  assumes "\<forall>t \<in> set applied. reachable_id (tr_chest_id t)" "open_for (length applied) w"
  shows "\<exists>w'. failing dir applied item stk e w = (Err e, w') \<and>
    chest_ops w' = chest_ops w @ (if dir = DirWithdraw then plan_ops (\<lambda>a. ActDeposit item a stk) applied else [])"
proof -
  obtain rb w1 where d: "deposit_transfers applied item stk w = (Ok rb, w1)"
    "chest_ops w1 = chest_ops w @ plan_ops (\<lambda>a. ActDeposit item a stk) applied"
    using deposit_transfers_ops [OF assms(1), of 0 w item stk] assms(2) by auto
  then show ?thesis by (auto simp: failing_def rollback_applied_prefix_def andthen_Ok andthen_def)
qed

lemma execute_steps_ops:
  "\<forall>t \<in> set (applied @ ts). reachable_id (tr_chest_id t) \<Longrightarrow> open_for (length applied + 2 * length ts) w \<Longrightarrow>
     execute_steps ts applied item stk dir w = (r, w') \<Longrightarrow>
     (case r of
        Ok _ \<Rightarrow> chest_ops w' = chest_ops w @ plan_ops (\<lambda>a. action_for dir item a stk) ts
      | Err e \<Rightarrow> \<exists>k < length ts. chest_ops w' = chest_ops w @ plan_ops (\<lambda>a. action_for dir item a stk) (take (Suc k) ts) @
          (if dir = DirWithdraw then plan_ops (\<lambda>a. ActDeposit item a stk) (applied @ take k ts) else [])
      | Panicked \<Rightarrow> False)"
proof (induction ts arbitrary: applied w)
  case (Cons t ts)
  obtain np where np: "node_position_of (tr_chest_id t) w = (Ok np, w)" using node_position_total Cons.prems by fastforce
  obtain a w1 where a: "ask_chest (ChestTask (chest_from_transfer t) np (action_for dir item (tr_amount t) stk)) w = (a, w1)" by force
  have o: "open_for (Suc (Suc (length applied + 2 * length ts))) w" using Cons.prems(2) by simp
  note l = ask_chest_logged [OF a o]
  have stop: ?case if "failing dir applied item stk e v = (r, w')" "chest_ops v = chest_ops w1" "open_for (length applied) v" for e v
    using failing_ops [OF _ that(3), of dir item stk e] Cons.prems(1) that l(2) by (auto intro!: exI [of _ 0])
  have go: ?case if "execute_steps ts (applied @ [t]) item stk dir (w1\<lparr>w_store := s\<rparr>) = (r, w')" for s
  proof -
    have "open_for (length (applied @ [t]) + 2 * length ts) (w1\<lparr>w_store := s\<rparr>)" using l(3) by simp
    note ih = Cons.IH [OF _ this that]
    show ?thesis
    proof (cases r)
      case (Err e)
      then obtain k where "k < length ts" "chest_ops w' = chest_ops w1 @ plan_ops (\<lambda>a. action_for dir item a stk) (take (Suc k) ts) @
          (if dir = DirWithdraw then plan_ops (\<lambda>a. ActDeposit item a stk) ((applied @ [t]) @ take k ts) else [])"
        using ih Cons.prems(1) by auto
      then show ?thesis using Err l(2) by (auto intro!: exI [of _ "Suc k"])
    qed (use ih Cons.prems(1) l(2) in auto)
  qed
  have ol: "open_for (length applied) w1" using l(3) by (auto simp: open_for_def)
  consider (stopped) e v where "failing dir applied item stk e v = (r, w')" "v = w1 \<or> (\<exists>s. v = w1\<lparr>w_store := s\<rparr>)"
    | (going) s where "execute_steps ts (applied @ [t]) item stk dir (w1\<lparr>w_store := s\<rparr>) = (r, w')"
    using Cons.prems(3) l(1) by (auto simp: andthen_Ok np a split: reply.splits sum.splits prod.splits)
  then show ?case
  proof cases
    case stopped
    moreover from this(2) have "chest_ops v = chest_ops w1" "open_for (length applied) v" using ol by auto
    ultimately show ?thesis by (elim stop)
  qed (rule go)
qed auto

section \<open>The property\<close>

text \<open>C18: With the bot's channel open, a plan that is executed to the end has sent the bot exactly its transfers in
  order; a plan that fails at its step k has sent the first k+1 transfers, and when it was a withdrawal,
  they are followed by the deposits of exactly the k transfers that had been applied.\<close>

theorem transfers_or_undone:
  assumes "execute_chest_transfers ts item stk dir w = (r, w')" "\<forall>t \<in> set ts. reachable_id (tr_chest_id t)"
    "2 * length ts \<le> length (chest_replies w)" "SendFailed \<notin> set (chest_replies w)"
  shows "case r of
        Ok _ \<Rightarrow> chest_ops w' = chest_ops w @ plan_ops (\<lambda>a. action_for dir item a stk) ts
      | Err e \<Rightarrow> \<exists>k < length ts. chest_ops w' = chest_ops w @ plan_ops (\<lambda>a. action_for dir item a stk) (take (Suc k) ts) @
          (if dir = DirWithdraw then plan_ops (\<lambda>a. ActDeposit item a stk) (take k ts) else [])
      | Panicked \<Rightarrow> False"
  using execute_steps_ops [of "[]" ts w item stk dir r w'] assms
  by (cases r) (auto simp: execute_chest_transfers_def open_for_def)

theorem transfers_or_undone_witness:
  "\<exists>r w'. execute_chest_transfers [transfer (chests sample_loaded ! 3) ''iron'' 7] ''iron'' 64 DirWithdraw
      (sample_world\<lparr>chest_replies := [TimedOut, TimedOut]\<rparr>) = (r, w') \<and>
    (r = Ok () \<longrightarrow> chest_ops w' = [(3, ActWithdraw ''iron'' 7 64)]) \<and> r \<noteq> Panicked"
proof -
  let ?w = "sample_world\<lparr>chest_replies := [TimedOut, TimedOut]\<rparr>"
  obtain r w' where run: "execute_chest_transfers [transfer (chests sample_loaded ! 3) ''iron'' 7] ''iron'' 64 DirWithdraw ?w = (r, w')"
    by force
  have t: "tr_chest_id (transfer (chests sample_loaded ! 3) ''iron'' 7) = 3" "tr_amount (transfer (chests sample_loaded ! 3) ''iron'' 7) = 7"
    by code_simp+
  have "chest_ops ?w = []" by (simp add: chest_ops_def sample_world_def)
  with transfers_or_undone [OF run] run t show ?thesis
    by (auto simp: reachable_id_def max_node_id_val split: res.splits)
qed

end
