(* ===== verification/Rate_Limit.thy ===== *)
theory Rate_Limit
  imports Constants
begin

text \<open>
  The per-user rate limiter of \<^verbatim>\<open>src/store/rate_limit.rs\<close>. An \<open>Instant\<close> and a \<open>Duration\<close> are
  numbers of nanoseconds; \<open>duration_since\<close> saturates at zero, which is subtraction on the
  naturals. An operation takes the clock reading it makes; \<open>check\<close> takes a second one for the
  sweep it may run. The \<open>warn!\<close> and \<open>debug!\<close> output is not modelled, the fields that gate it are.
\<close>

section \<open>State\<close>

type_synonym instant = nat
type_synonym duration = nat

definition from_millis :: "nat \<Rightarrow> duration" where
  "from_millis ms = ms * 1000000"

definition duration_since :: "instant \<Rightarrow> instant \<Rightarrow> duration" where
  "duration_since now t = now - t"

definition checked_sub :: "instant \<Rightarrow> duration \<Rightarrow> instant option" where
  "checked_sub now d = (if d \<le> now then Some (now - d) else None)"

definition SATURATION_THRESHOLD :: nat where
  "SATURATION_THRESHOLD = 5"

definition MAX_RATE_LIMIT_ENTRIES :: nat where
  "MAX_RATE_LIMIT_ENTRIES = 10000"

record user_rate_limit =
  last_message_time :: instant
  last_attempt_time :: instant
  consecutive_violations :: nat
  last_warn_time :: "instant option"
  last_whisper_time :: "instant option"

definition user_rate_limit_new :: "instant \<Rightarrow> user_rate_limit" where
  "user_rate_limit_new now = \<lparr>last_message_time = now, last_attempt_time = now,
     consecutive_violations = 0, last_warn_time = None, last_whisper_time = None\<rparr>"

datatype throttle_reason = PerUser | GlobalCap

record throttled =
  th_wait :: duration
  th_should_whisper :: bool
  th_reason :: throttle_reason

record rate_limiter =
  limits :: "(string, user_rate_limit) hmap"
  clamp_warned :: bool
  cap_refusal_last_whisper :: "instant option"
  last_inline_sweep :: "instant option"

definition rate_limiter_new :: rate_limiter where
  "rate_limiter_new = \<lparr>limits = [], clamp_warned = False, cap_refusal_last_whisper = None,
     last_inline_sweep = None\<rparr>"

section \<open>Operations\<close>

definition calculate_cooldown :: "nat \<Rightarrow> duration" where
  "calculate_cooldown violations =
     (let multiplier = 2 ^ min violations 10;
          cooldown_ms = sat_mul_u64 RATE_LIMIT_BASE_COOLDOWN_MS multiplier
      in from_millis (min cooldown_ms RATE_LIMIT_MAX_COOLDOWN_MS))"

definition reset_window :: duration where
  "reset_window = from_millis RATE_LIMIT_RESET_AFTER_MS"

definition is_none_or :: "'a option \<Rightarrow> ('a \<Rightarrow> bool) \<Rightarrow> bool" where
  "is_none_or x p = (case x of None \<Rightarrow> True | Some a \<Rightarrow> p a)"

definition clamp_stale_threshold :: "rate_limiter \<Rightarrow> duration \<Rightarrow> duration \<times> rate_limiter" where
  "clamp_stale_threshold rl stale_threshold =
     (let clamped = max stale_threshold reset_window
      in (clamped, if stale_threshold < clamped then rl\<lparr>clamp_warned := True\<rparr> else rl))"

definition cleanup_stale :: "duration \<Rightarrow> instant \<Rightarrow> rate_limiter \<Rightarrow> rate_limiter" where
  "cleanup_stale threshold now rl =
     (let (stale_threshold, rl1) = clamp_stale_threshold rl threshold;
          before = length (limits rl1);
          kept = filter (\<lambda>(_, l). duration_since now (last_attempt_time l) < stale_threshold) (limits rl1);
          dropped = before - length kept;
          rl2 = rl1\<lparr>limits := kept\<rparr>
      in if dropped > 0 then rl2\<lparr>cap_refusal_last_whisper := None\<rparr> else rl2)"

text \<open>The part of \<open>check\<close> that works on the caller's entry.\<close>

definition check_entry :: "instant \<Rightarrow> user_rate_limit \<Rightarrow> (throttled + unit) \<times> user_rate_limit" where
  "check_entry now l =
     (let elapsed = duration_since now (last_message_time l);
          attempt_elapsed = duration_since now (last_attempt_time l);
          l1 = (if attempt_elapsed \<ge> reset_window
                then l\<lparr>consecutive_violations := 0, last_warn_time := None, last_whisper_time := None\<rparr> else l);
          l2 = l1\<lparr>last_attempt_time := now\<rparr>;
          required_cooldown = calculate_cooldown (consecutive_violations l2)
      in if elapsed \<ge> required_cooldown then (Inr (), l2\<lparr>last_message_time := now\<rparr>)
         else
           (let l3 = l2\<lparr>consecutive_violations := sat_add_u32 (consecutive_violations l2) 1\<rparr>;
                new_required = calculate_cooldown (consecutive_violations l3);
                remaining = new_required - elapsed;
                saturation_transition = (consecutive_violations l3 = SATURATION_THRESHOLD);
                should_warn = (case last_warn_time l3 of None \<Rightarrow> True
                  | Some prev \<Rightarrow> saturation_transition \<or> duration_since now prev \<ge> reset_window);
                l4 = (if should_warn then l3\<lparr>last_warn_time := Some now\<rparr> else l3);
                should_whisper = (case last_whisper_time l4 of None \<Rightarrow> True
                  | Some prev \<Rightarrow> saturation_transition \<or> duration_since now prev \<ge> reset_window);
                l5 = (if should_whisper then l4\<lparr>last_whisper_time := Some now\<rparr> else l4)
            in (Inl \<lparr>th_wait = remaining, th_should_whisper = should_whisper, th_reason = PerUser\<rparr>, l5)))"

definition fresh_entry :: "instant \<Rightarrow> user_rate_limit" where
  "fresh_entry now =
     (let backdate = from_millis (RATE_LIMIT_MAX_COOLDOWN_MS + 1) in
      (user_rate_limit_new now)\<lparr>last_message_time := (case checked_sub now backdate of Some t \<Rightarrow> t | None \<Rightarrow> now)\<rparr>)"

definition check_user :: "string \<Rightarrow> instant \<Rightarrow> rate_limiter \<Rightarrow> (throttled + unit) \<times> rate_limiter" where
  "check_user k now rl =
     (let l = (case hget (limits rl) k of Some e \<Rightarrow> e | None \<Rightarrow> fresh_entry now);
          (r, l') = check_entry now l
      in (r, rl\<lparr>limits := hput (limits rl) k l'\<rparr>))"

definition check :: "string \<Rightarrow> instant \<Rightarrow> instant \<Rightarrow> rate_limiter \<Rightarrow> (throttled + unit) \<times> rate_limiter" where
  "check k now sweep_now rl =
     (if \<not> has_key (limits rl) k \<and> length (limits rl) \<ge> MAX_RATE_LIMIT_ENTRIES then
        (let sweep_due = is_none_or (last_inline_sweep rl)
               (\<lambda>t. duration_since now t \<ge> from_millis RATE_LIMIT_BASE_COOLDOWN_MS);
             rl1 = (if sweep_due then (cleanup_stale reset_window sweep_now rl)\<lparr>last_inline_sweep := Some now\<rparr> else rl)
         in if length (limits rl1) \<ge> MAX_RATE_LIMIT_ENTRIES then
              (let should_whisper = is_none_or (cap_refusal_last_whisper rl1)
                     (\<lambda>t. duration_since now t \<ge> reset_window);
                   rl2 = (if should_whisper then rl1\<lparr>cap_refusal_last_whisper := Some now\<rparr> else rl1)
               in (Inl \<lparr>th_wait = reset_window, th_should_whisper = should_whisper, th_reason = GlobalCap\<rparr>, rl2))
            else check_user k now rl1)
      else check_user k now rl)"

section \<open>The cooldown\<close>

lemma calculate_cooldown_eq:
  "calculate_cooldown v = from_millis (min (2000 * 2 ^ min v 10) 60000)"
proof -
  have "(2::nat) ^ min v 10 \<le> 2 ^ 10" by (rule power_increasing) auto
  then have "2000 * 2 ^ min v 10 \<le> u64_max" by (simp add: u64_max_def)
  then show ?thesis by (simp add: calculate_cooldown_def sat_mul_u64_def consts_defs Let_def min.absorb2)
qed

lemma cooldown_bounds: "2000000000 \<le> calculate_cooldown v \<and> calculate_cooldown v \<le> 60000000000"
proof -
  have "(1::nat) \<le> 2 ^ min v 10" by simp
  then have "2000 \<le> min (2000 * 2 ^ min v 10) (60000::nat)" by auto
  moreover have "min (2000 * 2 ^ min v 10) (60000::nat) \<le> 60000" by simp
  ultimately show ?thesis
    unfolding calculate_cooldown_eq from_millis_def by linarith
qed

lemma cooldown_mono: "v \<le> v' \<Longrightarrow> calculate_cooldown v \<le> calculate_cooldown v'"
  unfolding calculate_cooldown_eq from_millis_def
  by (intro mult_right_mono min.mono mult_left_mono power_increasing) auto

lemma reset_window_val: "reset_window = 90000000000"
  by (simp add: reset_window_def from_millis_def consts_defs)

section \<open>One attempt\<close>

lemma check_entry_attempt: "check_entry now l = (r, l') \<Longrightarrow> last_attempt_time l' = now"
  by (auto simp: check_entry_def Let_def split: if_splits)

lemma check_entry_accept:
  assumes "check_entry now l = (Inr u, l')"
  shows "last_message_time l' = now \<and> 2000000000 \<le> now - last_message_time l"
  using assms cooldown_bounds
  by (auto simp: check_entry_def Let_def duration_since_def split: if_splits intro: order_trans)

lemma check_entry_reject:
  assumes "check_entry now l = (Inl t, l')"
  shows "last_message_time l' = last_message_time l \<and> th_reason t = PerUser \<and>
    th_wait t = calculate_cooldown (consecutive_violations l') - (now - last_message_time l) \<and>
    th_wait t \<le> 60000000000"
proof -
  have "last_message_time l' = last_message_time l \<and> th_reason t = PerUser \<and>
    th_wait t = calculate_cooldown (consecutive_violations l') - (now - last_message_time l)"
    using assms by (auto simp: check_entry_def Let_def duration_since_def split: if_splits)
  then show ?thesis using cooldown_bounds [of "consecutive_violations l'"] by auto
qed

lemma check_entry_violations:
  assumes "check_entry now l = (r, l')" "now - last_attempt_time l < reset_window" "consecutive_violations l \<le> u32_max"
  shows "consecutive_violations l \<le> consecutive_violations l' \<and> consecutive_violations l' \<le> u32_max"
  using assms by (auto simp: check_entry_def Let_def duration_since_def sat_add_u32_def split: if_splits)

text \<open>After a rejection the wait it named is long enough.\<close>

lemma check_entry_retry:
  assumes "check_entry now l = (Inl t, l')" "now + th_wait t \<le> now'" "last_message_time l \<le> now"
  shows "\<exists>l2. check_entry now' l' = (Inr (), l2)"
proof -
  note r = check_entry_reject [OF assms(1)]
  have "calculate_cooldown (consecutive_violations l') \<le> now' - last_message_time l'"
    using r assms(2,3) by linarith
  moreover have "calculate_cooldown 0 \<le> calculate_cooldown (consecutive_violations l')" by (rule cooldown_mono) simp
  ultimately show ?thesis
    by (auto simp: check_entry_def Let_def duration_since_def)
qed

section \<open>Events\<close>

text \<open>What happens to the limiter: checks of a key, with both clock readings, and sweeps.\<close>

datatype rl_event = Check string instant instant | Sweep duration instant

fun apply_event :: "rl_event \<Rightarrow> rate_limiter \<Rightarrow> rate_limiter" where
  "apply_event (Check k now sweep_now) rl = snd (check k now sweep_now rl)"
| "apply_event (Sweep threshold now) rl = cleanup_stale threshold now rl"

fun event_key :: "rl_event \<Rightarrow> string option" where
  "event_key (Check k _ _) = Some k"
| "event_key (Sweep _ _) = None"

text \<open>The latest clock reading of an event.\<close>

fun event_time :: "rl_event \<Rightarrow> instant" where
  "event_time (Check k now sweep_now) = max now sweep_now"
| "event_time (Sweep _ now) = now"

definition limiter_ok :: "rate_limiter \<Rightarrow> bool" where
  "limiter_ok rl \<longleftrightarrow> hmap_ok (limits rl) \<and> length (limits rl) \<le> MAX_RATE_LIMIT_ENTRIES"

lemma cleanup_limits:
  "limits (cleanup_stale threshold now rl) =
     filter (\<lambda>(_, l). now - last_attempt_time l < max threshold reset_window) (limits rl)"
  by (simp add: cleanup_stale_def clamp_stale_threshold_def Let_def duration_since_def)

lemma cleanup_ok: "limiter_ok rl \<Longrightarrow> limiter_ok (cleanup_stale threshold now rl)"
  by (auto simp: limiter_ok_def cleanup_limits intro: order_trans [OF length_filter_le])

lemma cleanup_get:
  "hmap_ok (limits rl) \<Longrightarrow> hget (limits (cleanup_stale threshold now rl)) k =
     (case hget (limits rl) k of None \<Rightarrow> None
      | Some l \<Rightarrow> if now - last_attempt_time l < max threshold reset_window then Some l else None)"
  by (simp add: cleanup_limits hget_filter)

lemma check_user_limits:
  "limits (snd (check_user k now rl)) =
     hput (limits rl) k (snd (check_entry now (case hget (limits rl) k of Some e \<Rightarrow> e | None \<Rightarrow> fresh_entry now)))"
  by (simp add: check_user_def Let_def split: prod.split)

lemma check_ok: "limiter_ok rl \<Longrightarrow> limiter_ok (snd (check k now sn rl))"
proof -
  assume ok: "limiter_ok rl"
  have cu: "limiter_ok (snd (check_user k now r))"
    if "limiter_ok r" "has_key (limits r) k \<or> length (limits r) < MAX_RATE_LIMIT_ENTRIES" for r
    using that by (auto simp: limiter_ok_def check_user_limits length_put)
  have "limiter_ok ((cleanup_stale reset_window sn rl)\<lparr>last_inline_sweep := Some now\<rparr>)"
    using cleanup_ok [OF ok] by (simp add: limiter_ok_def)
  then show ?thesis using ok cu by (auto simp: check_def Let_def limiter_ok_def)
qed

lemma apply_event_ok: "limiter_ok rl \<Longrightarrow> limiter_ok (apply_event e rl)"
  by (cases e) (auto simp: check_ok cleanup_ok)

interpretation limiter_invariant: step_invariant "\<lambda>rl rl'. \<exists>e. rl' = apply_event e rl" limiter_ok
  by unfold_locales (auto simp: apply_event_ok)

lemma inside_window: "(a::nat) < m + w \<Longrightarrow> 0 < w \<Longrightarrow> a - m < w"
  by arith

lemma limiter_okD [dest]: "limiter_ok rl \<Longrightarrow> hmap_ok (limits rl)"
  by (simp add: limiter_ok_def)

text \<open>An event of another key leaves an entry alone as long as it is inside its reset window.\<close>

lemma event_frame:
  assumes "limiter_ok rl" "hget (limits rl) k = Some l" "event_key e \<noteq> Some k"
    "event_time e - last_attempt_time l < reset_window"
  shows "hget (limits (apply_event e rl)) k = Some l"
proof (cases e)
  case (Sweep threshold now)
  then show ?thesis using assms cleanup_get [of rl threshold now k] by auto
next
  case (Check k' now sn)
  have sw: "hget (limits (cleanup_stale reset_window sn rl)) k = Some l"
    using assms Check cleanup_get [of rl reset_window sn k] by auto
  have cu: "hget (limits (snd (check_user k' now r))) k = hget (limits r) k" for r
    using assms(3) Check by (simp add: check_user_limits)
  show ?thesis using Check assms(2) sw cu by (simp add: check_def Let_def)
qed

lemma own_check_present:
  assumes "hget (limits rl) k = Some l"
  shows "check k now sn rl = (fst (check_entry now l), rl\<lparr>limits := hput (limits rl) k (snd (check_entry now l))\<rparr>)"
  using assms by (simp add: check_def check_user_def has_key_def Let_def split: prod.split)

lemma check_cases:
  assumes "check k now sn rl = (x, rl')" "limiter_ok rl"
  shows "(\<exists>t. x = Inl t \<and> th_reason t = GlobalCap) \<or>
    (\<exists>l l'. check_entry now l = (x, l') \<and> hget (limits rl') k = Some l' \<and>
       (hget (limits rl) k = Some l \<or> l = fresh_entry now))"
proof -
  have cu: "\<exists>l l'. check_entry now l = (x, l') \<and> hget (limits rl') k = Some l' \<and>
       (hget (limits r) k = Some l \<or> l = fresh_entry now)"
    if "check_user k now r = (x, rl')" for r
  proof -
    define l where "l = (case hget (limits r) k of Some e \<Rightarrow> e | None \<Rightarrow> fresh_entry now)"
    obtain y l' where ce: "check_entry now l = (y, l')" by force
    then have "y = x" "rl' = r\<lparr>limits := hput (limits r) k l'\<rparr>"
      using that by (simp_all add: check_user_def l_def [symmetric] Let_def)
    moreover have "hget (limits r) k = Some l \<or> l = fresh_entry now" by (auto simp: l_def split: option.splits)
    ultimately show ?thesis using ce by auto
  qed
  have cl: "hget (limits (cleanup_stale reset_window sn rl)) k = Some l \<Longrightarrow> hget (limits rl) k = Some l" for l
    using cleanup_get [of rl reset_window sn k] assms(2) by (auto split: option.splits if_splits)
  consider t where "x = Inl t" "th_reason t = GlobalCap" | "check_user k now rl = (x, rl')"
    | "check_user k now ((cleanup_stale reset_window sn rl)\<lparr>last_inline_sweep := Some now\<rparr>) = (x, rl')"
    using assms(1) by (auto simp: check_def Let_def split: if_splits)
  then show ?thesis
  proof cases
    case 3
    from cu [OF 3] cl show ?thesis by auto
  qed (use cu in auto)
qed

lemma fresh_entry_past: "last_message_time (fresh_entry now) \<le> now"
  by (auto simp: fresh_entry_def user_rate_limit_new_def checked_sub_def Let_def)

lemma fresh_entry_fields [simp]:
  "last_attempt_time (fresh_entry now) = now" "consecutive_violations (fresh_entry now) = 0"
  by (simp_all add: fresh_entry_def user_rate_limit_new_def Let_def)

text \<open>An entry survives, unchanged, every event of the others inside its reset window.\<close>

lemma events_frame:
  assumes "limiter_ok rl" "hget (limits rl) k = Some l"
    "list_all (\<lambda>e. event_key e \<noteq> Some k \<and> event_time e - last_attempt_time l < reset_window) es"
  shows "hget (limits (fold apply_event es rl)) k = Some l \<and> limiter_ok (fold apply_event es rl)"
  using assms by (induction es arbitrary: rl) (auto simp: event_frame apply_event_ok)

section \<open>Properties\<close>

text \<open>The number of tracked users never exceeds the cap, whatever keys are tried and however the
  sweeps are scheduled.\<close>

theorem limiter_bounded:
  "length (limits (fold apply_event es rate_limiter_new)) \<le> MAX_RATE_LIMIT_ENTRIES"
proof -
  have "limiter_ok (fold apply_event es rl)" if "limiter_ok rl" for rl
    using that by (induction es arbitrary: rl) (auto simp: apply_event_ok)
  then show ?thesis by (auto simp: limiter_ok_def rate_limiter_new_def)
qed

text \<open>The wait told to a throttled user is honest: whatever other users and the sweeps do in the
  meantime, a retry after that wait is accepted (up to the reset window, after which the
  entry may be gone).\<close>

theorem honest_wait:
  assumes "limiter_ok rl" "\<forall>l. hget (limits rl) k = Some l \<longrightarrow> last_message_time l \<le> now"
    and "check k now sn rl = (Inl t, rl')" "th_reason t = PerUser"
    and "now + th_wait t \<le> now'" "now' < now + reset_window"
    and "list_all (\<lambda>e. event_key e \<noteq> Some k \<and> event_time e \<le> now') es"
  shows "\<exists>rl2. check k now' sn' (fold apply_event es rl') = (Inr (), rl2)"
proof -
  obtain l l' where l: "check_entry now l = (Inl t, l')" "hget (limits rl') k = Some l'"
       "hget (limits rl) k = Some l \<or> l = fresh_entry now"
    using check_cases [OF assms(3,1)] assms(4) by auto
  have ok: "limiter_ok rl'" using check_ok [OF assms(1), of k now sn] assms(3) by simp
  have "last_attempt_time l' = now" by (rule check_entry_attempt [OF l(1)])
  then have "list_all (\<lambda>e. event_key e \<noteq> Some k \<and> event_time e - last_attempt_time l' < reset_window) es"
    using assms(6,7) by (auto simp: list_all_iff reset_window_val intro!: inside_window)
  from events_frame [OF ok l(2) this]
  have e: "hget (limits (fold apply_event es rl')) k = Some l'" by simp
  have "last_message_time l \<le> now" using l(3) assms(2) fresh_entry_past by auto
  from check_entry_retry [OF l(1) assms(5) this] obtain l2 where "check_entry now' l' = (Inr (), l2)" by blast
  then show ?thesis using own_check_present [OF e, of now' sn'] by simp
qed

text \<open>No amnesty inside the reset window: no event before the window has passed since a user's
  last attempt, be it an attempt of that user, of others or a sweep, removes the user's entry or
  lowers its violation count.\<close>

theorem violations_kept:
  assumes "limiter_ok rl" "hget (limits rl) k = Some l" "consecutive_violations l \<le> u32_max"
    and "event_time e - last_attempt_time l < reset_window"
  shows "\<exists>l'. hget (limits (apply_event e rl)) k = Some l' \<and>
    consecutive_violations l \<le> consecutive_violations l' \<and> consecutive_violations l' \<le> u32_max"
proof (cases "event_key e = Some k")
  case True
  then obtain now sn where e: "e = Check k now sn" by (cases e) auto
  obtain r l' where c: "check_entry now l = (r, l')" by force
  have "now - last_attempt_time l < reset_window" using assms(4) e by auto
  from check_entry_violations [OF c this assms(3)] show ?thesis
    using own_check_present [OF assms(2), of now sn] e c by simp
next
  case False
  then show ?thesis using event_frame [OF assms(1,2) _ assms(4)] assms(3) by auto
qed

text \<open>Two accepted messages of one user are at least the base cooldown of two seconds apart,
  whatever happens between them, sweeps included.\<close>

theorem accepted_spacing:
  assumes "limiter_ok rl" "check k t sn rl = (Inr (), rl1)"
    and "list_all (\<lambda>e. t \<le> event_time e \<and> event_time e \<le> t' \<and> (case e of Check k' now _ \<Rightarrow> k' = k \<longrightarrow> t \<le> now | _ \<Rightarrow> True)) es"
    and "check k t' sn' (fold apply_event es rl1) = (Inr (), rl2)"
  shows "t + 2000000000 \<le> t'"
proof (rule ccontr)
  assume "\<not> t + 2000000000 \<le> t'"
  then have near: "t' < t + 2000000000" by simp
  obtain l l' where l: "check_entry t l = (Inr (), l')" "hget (limits rl1) k = Some l'"
    using check_cases [OF assms(2,1)] by auto
  have "limiter_ok rl1 \<and> (\<exists>l. hget (limits rl1) k = Some l \<and> t \<le> last_message_time l \<and> t \<le> last_attempt_time l)"
    using l check_entry_accept [OF l(1)] check_entry_attempt [OF l(1)] check_ok [OF assms(1), of k t sn] assms(2) by auto
  then have "limiter_ok (fold apply_event es rl1) \<and>
      (\<exists>l. hget (limits (fold apply_event es rl1)) k = Some l \<and> t \<le> last_message_time l \<and> t \<le> last_attempt_time l)"
    using assms(3)
  proof (induction es arbitrary: rl1)
    case (Cons e es)
    then obtain m where m: "hget (limits rl1) k = Some m" "t \<le> last_message_time m" "t \<le> last_attempt_time m" by auto
    have "limiter_ok (apply_event e rl1)" using Cons.prems(1) by (simp add: apply_event_ok)
    moreover have "\<exists>l. hget (limits (apply_event e rl1)) k = Some l \<and> t \<le> last_message_time l \<and> t \<le> last_attempt_time l"
    proof (cases "event_key e = Some k")
      case True
      then obtain now sn where e: "e = Check k now sn" by (cases e) auto
      then have now: "t \<le> now" using Cons.prems(2) by simp
      obtain r m' where c: "check_entry now m = (r, m')" by force
      have "t \<le> last_message_time m'"
      proof (cases r)
        case (Inl th) then show ?thesis using check_entry_reject [of now m th m'] c m(2) by simp
      next
        case (Inr u) then show ?thesis using check_entry_accept [of now m u m'] c now by simp
      qed
      then show ?thesis using own_check_present [OF m(1), of now sn] e c now check_entry_attempt [OF c] by simp
    next
      case False
      have "event_time e - last_attempt_time m < reset_window"
        using Cons.prems(2) near m(3) by (intro inside_window) (auto simp: reset_window_val)
      then show ?thesis using event_frame [OF _ m(1) False] Cons.prems(1) m by auto
    qed
    ultimately show ?case using Cons.IH Cons.prems(2) by simp
  qed simp
  then obtain m where m: "hget (limits (fold apply_event es rl1)) k = Some m" "t \<le> last_message_time m" by auto
  have "fst (check_entry t' m) = Inr ()" using assms(4) own_check_present [OF m(1), of t' sn'] by simp
  then obtain m' where "check_entry t' m = (Inr (), m')" by (metis prod.collapse)
  from check_entry_accept [OF this] have "2000000000 \<le> t' - last_message_time m" by simp
  with m(2) near show False by arith
qed

text \<open>A user without an entry is accepted at once when the limiter has room, provided the clock
  reads more than the maximal cooldown.\<close>

theorem first_message_accepted:
  assumes "hget (limits rl) k = None" "length (limits rl) < MAX_RATE_LIMIT_ENTRIES" "60001000000 \<le> now"
  shows "\<exists>rl'. check k now sn rl = (Inr (), rl')"
proof -
  have "calculate_cooldown 0 \<le> now - last_message_time (fresh_entry now)"
    using assms(3) cooldown_bounds [of 0]
    by (simp add: fresh_entry_def checked_sub_def from_millis_def consts_defs Let_def)
  then have "\<exists>l'. check_entry now (fresh_entry now) = (Inr (), l')"
    by (auto simp: check_entry_def Let_def duration_since_def)
  then show ?thesis using assms(1,2) by (auto simp: check_def check_user_def Let_def)
qed

section \<open>Witnesses\<close>

text \<open>A user who writes at second 100 and again at second 101.\<close>

definition sample_limiter :: rate_limiter where
  "sample_limiter = snd (check ''a'' 100000000000 100000000000 rate_limiter_new)"

definition sample_throttled :: rate_limiter where
  "sample_throttled = snd (check ''a'' 101000000000 101000000000 sample_limiter)"

named_theorems sample_evals

lemmas [sample_evals] = check_def check_user_def check_entry_def rate_limiter_new_def fresh_entry_def
  user_rate_limit_new_def duration_since_def checked_sub_def from_millis_def consts_defs has_key_def
  MAX_RATE_LIMIT_ENTRIES_def calculate_cooldown_eq reset_window_val sat_add_u32_def u32_max_def Let_def
  SATURATION_THRESHOLD_def hmap_ok_def

lemma sample_checks:
  "check ''a'' 100000000000 100000000000 rate_limiter_new = (Inr (), sample_limiter)"
  "check ''a'' 101000000000 101000000000 sample_limiter =
     (Inl \<lparr>th_wait = 3000000000, th_should_whisper = True, th_reason = PerUser\<rparr>, sample_throttled)"
  by (simp_all add: sample_throttled_def sample_limiter_def sample_evals)

lemma sample_limiter_ok: "limiter_ok rate_limiter_new" "limiter_ok sample_limiter" "limiter_ok sample_throttled"
  by (simp_all add: limiter_ok_def sample_throttled_def sample_limiter_def sample_evals)

lemma sample_entry:
  "hget (limits sample_limiter) ''a'' = Some \<lparr>last_message_time = 100000000000, last_attempt_time = 100000000000,
     consecutive_violations = 0, last_warn_time = None, last_whisper_time = None\<rparr>"
  by (simp add: sample_limiter_def sample_evals)

theorem honest_wait_witness:
  "\<exists>rl2. check ''a'' 104000000000 104000000000
     (fold apply_event [Check ''b'' 102000000000 102000000000, Sweep 0 103000000000] sample_throttled) = (Inr (), rl2)"
  by (rule honest_wait [OF sample_limiter_ok(2) _ sample_checks(2)])
    (simp add: sample_entry, simp, simp, simp add: reset_window_val, simp)

theorem violations_kept_witness:
  "\<exists>l'. hget (limits (apply_event (Sweep 0 150000000000) sample_limiter)) ''a'' = Some l' \<and>
    (0::nat) \<le> consecutive_violations l' \<and> consecutive_violations l' \<le> u32_max"
  using violations_kept [OF sample_limiter_ok(2) sample_entry, of "Sweep 0 150000000000"]
  by (simp add: reset_window_val u32_max_def)

lemma sample_retry:
  "\<exists>rl2. check ''a'' 104000000000 104000000000
     (fold apply_event [Check ''a'' 101000000000 101000000000] sample_limiter) = (Inr (), rl2)"
proof -
  have "fst (check ''a'' 104000000000 104000000000
     (fold apply_event [Check ''a'' 101000000000 101000000000] sample_limiter)) = Inr ()"
    by (simp add: sample_limiter_def sample_evals)
  then show ?thesis by (metis prod.collapse)
qed

theorem accepted_spacing_witness: "(100000000000 + 2000000000 :: nat) \<le> 104000000000"
proof -
  obtain rl2 where "check ''a'' 104000000000 104000000000
     (fold apply_event [Check ''a'' 101000000000 101000000000] sample_limiter) = (Inr (), rl2)"
    using sample_retry by blast
  from accepted_spacing [OF sample_limiter_ok(1) sample_checks(1) _ this] show ?thesis by simp
qed

theorem first_message_accepted_witness:
  "\<exists>rl'. check ''c'' 100000000000 100000000000 sample_limiter = (Inr (), rl')"
  by (rule first_message_accepted) (simp_all add: sample_limiter_def sample_evals)

end
