(* ===== verification/Order_Money.thy ===== *)
theory Order_Money
  imports Order_Effects
begin

text \<open>
  The money of a buy order: what the store's books say after every way the order can end. The bot's
  own part leaves the books alone (\<open>books_kept\<close>), so an order is followed through its phases with
  the books of the beginning, up to the commit that writes them.
\<close>

section \<open>The bot leaves the books alone\<close>

definition books :: "store \<Rightarrow> (item_id, pair) hmap \<times> (string, user) hmap \<times> config \<times> trade list \<times> order list \<times> trade_state option" where
  "books s = (pairs s, users s, conf s, trades s, order_log s, current_trade s)"

definition books_kept :: "world \<Rightarrow> world \<Rightarrow> bool" where
  "books_kept w w' \<longleftrightarrow> books (w_store w') = books (w_store w)"

lemma books_sync: "books (snd (apply_chest_sync r s)) = books s"
  by (auto simp: books_def apply_chest_sync_def split: option.split sum.split)

interpretation quiet: bot_relation books_kept
  by (unfold_locales; unfold books_kept_def; (simp; fail | simp add: books_sync; fail | simp add: books_def))

lemmas quietD = quiet.R_deposit_transfers [THEN keeps_apply] quiet.R_rollback_amount [THEN keeps_apply]
  quiet.R_execute [THEN keeps_apply] quiet.R_perform_trade [THEN keeps_apply] quiet.R_send_message [THEN keeps_apply]
  quiet.R_reject [THEN keeps_apply]

lemma books_kept_refl [simp]: "books_kept w w"
  by (simp add: books_kept_def)

lemma books_kept_trans [trans]: "books_kept w w' \<Longrightarrow> books_kept w' w'' \<Longrightarrow> books_kept w w''"
  by (simp add: books_kept_def)

section \<open>Outcomes of the shared steps\<close>

lemma send_no_panic: "send_message_to_player p m w = (r, w') \<Longrightarrow> r \<noteq> Panicked"
  by (auto simp: send_message_to_player_def split: prod.splits reply.splits sum.splits)

lemma advance_Ok: "advance t w = (r, w') \<Longrightarrow> r = Ok ()"
  by (auto simp: advance_def split: option.splits prod.splits)

text \<open>A step of the trade in flight leaves the rest of the books alone.\<close>

lemma advance_books:
  assumes "advance t w = (r, w')" "current_trade (w_store w) = Some x"
  shows "pairs (w_store w') = pairs (w_store w)" "users (w_store w') = users (w_store w)"
    "trades (w_store w') = trades (w_store w)" "order_log (w_store w') = order_log (w_store w)"
    "conf (w_store w') = conf (w_store w)" "storage (w_store w') = storage (w_store w)"
    "current_trade (w_store w') = Some (case t x of Inr y \<Rightarrow> y | Inl e \<Rightarrow> x)"
  using assms by (auto simp: advance_def advance_trade_def split: prod.splits sum.splits)

lemma post_check_books:
  assumes "post_check w = (r, w')"
  shows "users (w_store w') = users (w_store w)" "current_trade (w_store w') = current_trade (w_store w)"
    "storage (w_store w') = storage (w_store w)" "\<exists>b. r = Ok b"
    "map_option currency_stock (hget (pairs (w_store w')) k) = map_option currency_stock (hget (pairs (w_store w)) k)"
proof -
  let ?s = "snd (assert_invariants True (w_store w))"
  have s: "?s = snd (audit_state True (w_store w))" by (simp add: assert_invariants_def split: prod.split)
  have "(r, w') = (Ok True, w\<lparr>w_store := ?s\<rparr>) \<or> (r = Ok False \<and> w' = snd (save_ignored (w\<lparr>w_store := ?s\<rparr>)))"
    using assms by (auto simp: post_check_def andthen_def attempt_def checked_def ret_def save_ignored_def Let_def
        split: prod.splits sum.splits)
  then show "users (w_store w') = users (w_store w)" "current_trade (w_store w') = current_trade (w_store w)"
    "storage (w_store w') = storage (w_store w)" "\<exists>b. r = Ok b"
    "map_option currency_stock (hget (pairs (w_store w')) k) = map_option currency_stock (hget (pairs (w_store w)) k)"
    by (auto simp: s audit_state_same save_ignored_same)
qed

lemma writing_user_E:
  assumes "writing (expect_user_mut u c f) w = (r, w')"
  obtains x where "hget (users (w_store w)) u = Some x" "r = Ok ()"
      "w' = w\<lparr>w_store := (w_store w)\<lparr>users := hput (users (w_store w)) u (f x)\<rparr>\<rparr>"
    | "hget (users (w_store w)) u = None" "r = Err (UnknownUser u c)" "w' = w"
  using assms by (auto simp: writing_def expect_user_mut_def split: option.splits)

lemma writing_pair_E:
  assumes "writing (expect_pair_mut i c f) w = (r, w')"
  obtains p where "hget (pairs (w_store w)) i = Some p" "r = Ok ()"
      "w' = w\<lparr>w_store := (w_store w)\<lparr>pairs := hput (pairs (w_store w)) i (f p)\<rparr>\<rparr>"
    | "hget (pairs (w_store w)) i = None" "r = Err (UnknownPair i c)" "w' = w"
  using assms by (auto simp: writing_def expect_pair_mut_def split: option.splits)

lemma push_trade_books:
  assumes "push_trade ty i a c u w = (r, w')" "i \<noteq> []"
  shows "r = Ok ()" "\<exists>t. w_store w' = (w_store w)\<lparr>trades := trades (w_store w) @ [trade_new ty i a c u t]\<rparr>"
  using assms by (auto simp: push_trade_def andthen_def or_panic_def from_normalized_def split: prod.splits)

lemma push_order_books:
  assumes "push_order (Some x) w = (r, w')"
  shows "r = Ok ()" "w_store w' = (w_store w)\<lparr>order_log := order_log (w_store w) @ [x]\<rparr>"
  using assms by (auto simp: push_order_def andthen_def or_panic_def)

section \<open>How much a rollback can return\<close>

lemma grow_loop_covers:
  "grow_loop n item amount stk p planned w = (Ok (p', u), w') \<Longrightarrow> covers (\<lambda>_. True) amount (amount - planned) p \<Longrightarrow>
     0 < amount \<Longrightarrow> amount \<le> i32_max \<Longrightarrow> stack_ok stk \<Longrightarrow> item \<noteq> [] \<Longrightarrow> covers (\<lambda>_. True) amount u p'"
proof (induction n arbitrary: p planned w)
  case 0
  then show ?case by (auto simp: grow_loop.simps Let_def covers_def max_def split: if_splits)
next
  case (Suc n)
  have z: "covers (\<lambda>_. True) amount (max (amount - planned) 0) p" using Suc.prems(2) by (auto simp: covers_def max_def)
  show ?case
  proof (cases "max (amount - planned) 0 \<le> 0 \<or> add_node (storage (w_store w)) = None")
    case True then show ?thesis using Suc.prems(1) z by (auto simp: grow_loop.simps [of "Suc n"] Let_def split: if_splits)
  next
    case False
    then obtain st where st: "add_node (storage (w_store w)) = Some st" by auto
    obtain b w1 where w1: "next_write (w\<lparr>w_store := (w_store w)\<lparr>storage := st\<rparr>\<rparr>) = (b, w1)" by force
    obtain rp rq where rp: "simulate_deposit_plan (storage (w_store w1)) item amount stk = (rp, rq)" by force
    have c: "covers (\<lambda>_. True) amount (amount - rq) rp" by (rule simulate_deposit_covers [OF rp Suc.prems(3-6)]) simp
    show ?thesis
      using Suc.prems(1) False st w1 rp z Suc.IH [OF _ c Suc.prems(3-6), of w1]
      by (auto simp: grow_loop.simps [of "Suc n"] Let_def split: bool.splits if_splits)
  qed
qed

lemma rollback_returns_at_most:
  assumes "rollback_amount_to_storage item amount stk w = (Ok rb, w')" "0 < amount" "amount \<le> i32_max" "stack_ok stk" "item \<noteq> []"
  shows "0 \<le> items_returned rb \<and> items_returned rb \<le> amount"
proof -
  obtain p planned where p: "simulate_deposit_plan (storage (w_store w)) item amount stk = (p, planned)" by force
  have c: "covers (\<lambda>_. True) amount (amount - planned) p" by (rule simulate_deposit_covers [OF p assms(2-5)]) simp
  obtain p' u w1 rb1 where g: "grow_loop MAX_GROW item amount stk p planned w = (Ok (p', u), w1)"
    "deposit_transfers p' item stk w1 = (Ok rb1, w')" "rb = rb1\<lparr>items_unplanned := u\<rparr>"
    using assms(1,2) p by (auto simp: rollback_amount_to_storage_def andthen_Ok_iff split: prod.splits)
  have "covers (\<lambda>_. True) amount u p'" by (rule grow_loop_covers [OF g(1) c assms(2-5)])
  then have "\<forall>t \<in> set p'. 0 \<le> tr_amount t" "plan_total p' \<le> amount" by (auto simp: covers_def)
  with deposit_transfers_accounted [OF g(2)] assms(3) g(3) show ?thesis by (auto simp: accounted_def)
qed

end
