(* ===== verification/Order_Processing.thy ===== *)
theory Order_Processing
  imports Transfer_Log Rate_Limit Order_Money
begin

text \<open>
  \<open>Store::process_next_order\<close> of \<^verbatim>\<open>src/store/mod.rs\<close>: the handover of the order at the front of the queue
  file to the mirror file of the trade in flight, its execution and the release of the trade. The
  \<open>shop\<close> joins the world with the queue, the limiter and the flag of the actor loop.
\<close>

section \<open>Definitions\<close>

record shop =
  sh_world :: world
  sh_queue :: queue_sys
  sh_limiter :: rate_limiter
  sh_processing :: bool

definition set_mirror :: "trade_state file_state \<Rightarrow> world \<Rightarrow> world" where
  "set_mirror f w = w\<lparr>w_store := (w_store w)\<lparr>trade_mirror := f\<rparr>\<rparr>"

text \<open>The first step of the handover: the mirror of the queued trade is written.\<close>

definition write_mirror :: "trade_state \<Rightarrow> world \<Rightarrow> bool \<times> world" where
  "write_mirror t w =
     (let (ok, w1) = next_write w; (done, f) = persist ok t (trade_mirror (w_store w1)) in (done, set_mirror f w1))"

definition clear_mirror :: "world \<Rightarrow> bool \<times> world" where
  "clear_mirror w =
     (let (ok, w1) = next_write w; (done, f) = clear_persisted ok (trade_mirror (w_store w1)) in (done, set_mirror f w1))"

text \<open>The second step: the order leaves the queue file.\<close>

definition take_order :: "queued_order \<Rightarrow> shop \<Rightarrow> bool \<times> shop" where
  "take_order o1 s =
     (let (ok, w1) = next_write (sh_world s);
          (r, q) = pop_committed (qo_id o1, ok) (sh_queue s)
      in (case r of Inr _ \<Rightarrow> True | Inl _ \<Rightarrow> False, s\<lparr>sh_world := w1, sh_queue := q\<rparr>))"

text \<open>The end of an order: a trade that did not finish is kept for the operator, a finished one is released.\<close>

definition close_trade :: "world \<Rightarrow> world" where
  "close_trade w = (case clear_mirror w of
      (True, w1) \<Rightarrow> w1\<lparr>w_store := (w_store w1)\<lparr>current_trade := None\<rparr>\<rparr>
    | (False, w1) \<Rightarrow> w1)"

definition release_trade :: "world \<Rightarrow> world" where
  "release_trade w =
     (let w1 = (case current_trade (w_store w) of
          Some t \<Rightarrow> if \<not> is_terminal t then snd (write_mirror t w) else close_trade w
        | None \<Rightarrow> close_trade w)
      in w1\<lparr>w_store := (w_store w1)\<lparr>dirty := True\<rparr>\<rparr>)"

definition run_order :: "queued_order \<Rightarrow> order_summary act" where
  "run_order o1 =
     andthen (updating (\<lambda>st. st\<lparr>current_trade := Some (trade_state_new o1)\<rparr>)) (\<lambda>_.
     andthen (attempt (send_message_to_player (qo_username o1) ''Now processing'')) (\<lambda>_.
       execute_queued_order o1))"

text \<open>The result is \<open>None\<close> when no order was executed; a panic ends the store's task.\<close>

definition process_next_order :: "shop \<Rightarrow> order_summary res option \<times> shop" where
  "process_next_order s =
     (case peek_front (mem (sh_queue s)) of
        None \<Rightarrow> (None, s)
      | Some o1 \<Rightarrow>
          (case write_mirror (trade_state_new o1) (sh_world s) of
             (False, w1) \<Rightarrow> (None, s\<lparr>sh_world := w1\<rparr>)
           | (True, w1) \<Rightarrow>
               (case take_order o1 (s\<lparr>sh_world := w1\<rparr>) of
                  (False, s2) \<Rightarrow> (None, s2\<lparr>sh_world := snd (clear_mirror (sh_world s2))\<rparr>)
                | (True, s2) \<Rightarrow>
                    (case run_order o1 (sh_world s2) of
                       (Panicked, w3) \<Rightarrow> (Some Panicked, s2\<lparr>sh_world := w3, sh_processing := True\<rparr>)
                     | (r, w3) \<Rightarrow> (Some r, s2\<lparr>sh_world := release_trade w3, sh_processing := False\<rparr>)))))"

section \<open>The evidence of a trade\<close>

text \<open>The trade in flight and its mirror name the order.\<close>

definition evidence :: "queued_order \<Rightarrow> world \<Rightarrow> bool" where
  "evidence o1 w \<longleftrightarrow> (\<exists>t. current_trade (w_store w) = Some t \<and> trade_order t = o1) \<and>
     (\<exists>t. trade_mirror (w_store w) = Parsed t \<and> trade_order t = o1)"

definition evidence_kept :: "queued_order \<Rightarrow> world \<Rightarrow> world \<Rightarrow> bool" where
  "evidence_kept o1 w w' \<longleftrightarrow> (evidence o1 w \<longrightarrow> evidence o1 w')"

lemma evidence_same:
  "current_trade (w_store w') = current_trade (w_store w) \<Longrightarrow> trade_mirror (w_store w') = trade_mirror (w_store w) \<Longrightarrow>
     evidence_kept o1 w w'"
  by (simp add: evidence_kept_def evidence_def)

lemma evidence_trans: "evidence_kept o1 w w' \<Longrightarrow> evidence_kept o1 w' w'' \<Longrightarrow> evidence_kept o1 w w''"
  by (simp add: evidence_kept_def)

lemma evidence_advance: "legal t \<Longrightarrow> evidence_kept o1 w (w\<lparr>w_store := advance_trade b t (w_store w)\<rparr>)"
  by (auto simp: evidence_kept_def evidence_def advance_trade_def legal_def persist_def
      dest: trade_step_order split: option.splits sum.splits)

lemma audit_state_mirror: "trade_mirror (snd (audit_state b s)) = trade_mirror s"
  by (auto simp: audit_state_def split: prod.split)

lemma trim_mirror [simp]: "trade_mirror (trim_in_memory_to_caps s) = trade_mirror s"
  by (simp add: trim_in_memory_to_caps_def Let_def)

lemma save_ignored_mirror: "trade_mirror (w_store (snd (save_ignored w))) = trade_mirror (w_store w)"
proof -
  have "save ok s = (r, s', t) \<Longrightarrow> trade_mirror s' = trade_mirror s" for ok s r s' t
    by (cases "trades_ok ok"; cases "length (trades (trim_in_memory_to_caps s)) < saved_trades_count (trim_in_memory_to_caps s)")
      (auto simp: save_def Let_def)
  then show ?thesis by (auto simp: save_ignored_def split: prod.split)
qed

lemma ensure_user_mirror: "trade_mirror (ensure_user_exists player u s) = trade_mirror s"
  by (auto simp: ensure_user_exists_def split: option.splits)

lemma sync_mirror: "trade_mirror (snd (apply_chest_sync r s)) = trade_mirror s"
  by (auto simp: apply_chest_sync_def split: option.split sum.split)

interpretation evidence: ledger_relation "evidence_kept o1" u item for o1 u item
  by unfold_locales
    (erule (1) evidence_trans | erule evidence_advance
     | rule evidence_same; simp add: save_ignored_same audit_state_same audit_state_mirror save_ignored_mirror
         ensure_user_mirror sync_mirror)+

section \<open>The handover\<close>

text \<open>The order is in the queue file or in the mirror file.\<close>

definition on_record :: "queued_order \<Rightarrow> shop \<Rightarrow> bool" where
  "on_record o1 s \<longleftrightarrow> (\<exists>q. disk (sh_queue s) = Parsed q \<and> o1 \<in> set (orders q)) \<or>
     (\<exists>t. trade_mirror (w_store (sh_world s)) = Parsed t \<and> trade_order t = o1)"

lemma trade_order_new [simp]: "trade_order (trade_state_new o1) = o1"
  by (simp add: trade_state_new_def)

lemma write_mirror_spec:
  "write_mirror t w = (m, w1) \<Longrightarrow> trade_mirror (w_store w1) = (if m then Parsed t else trade_mirror (w_store w)) \<and>
     current_trade (w_store w1) = current_trade (w_store w)"
  by (auto simp: write_mirror_def set_mirror_def persist_def split: prod.splits if_splits)

lemma clear_mirror_spec:
  "clear_mirror w = (m, w1) \<Longrightarrow> trade_mirror (w_store w1) = (if m then Absent else trade_mirror (w_store w)) \<and>
     current_trade (w_store w1) = current_trade (w_store w)"
  by (auto simp: clear_mirror_def set_mirror_def clear_persisted_def split: prod.splits if_splits file_state.splits)

lemma take_order_spec:
  assumes "take_order o1 s = (p, s2)" "peek_front (mem (sh_queue s)) = Some o1" "queue_inv (sh_queue s)"
  shows "w_store (sh_world s2) = w_store (sh_world s)" "sh_processing s2 = sh_processing s" "sh_limiter s2 = sh_limiter s"
    "disk (sh_queue s) = Parsed (mem (sh_queue s))"
    "if p then orders (mem (sh_queue s)) = o1 # orders (mem (sh_queue s2)) \<and> disk (sh_queue s2) = Parsed (mem (sh_queue s2))
     else sh_queue s2 = sh_queue s"
proof -
  obtain b w1 where w1: "next_write (sh_world s) = (b, w1)" by force
  obtain r q where r: "pop_committed (qo_id o1, b) (sh_queue s) = (r, q)" by force
  have o1: "orders (mem (sh_queue s)) \<noteq> []" using assms(2) by (auto simp: peek_front_def split: list.splits)
  have s2: "p = (case r of Inr _ \<Rightarrow> True | Inl _ \<Rightarrow> False)" "s2 = s\<lparr>sh_world := w1, sh_queue := q\<rparr>"
    using assms(1) w1 r by (auto simp: take_order_def)
  show "w_store (sh_world s2) = w_store (sh_world s)" "sh_processing s2 = sh_processing s" "sh_limiter s2 = sh_limiter s"
    using s2 w1 by simp_all
  show d: "disk (sh_queue s) = Parsed (mem (sh_queue s))"
  proof -
    have "mem (sh_queue s) \<noteq> queue_new" using o1 by (auto simp: queue_new_def)
    then show ?thesis using assms(3) by (auto simp: queue_inv_def durable_def queue_load_def split: file_state.splits)
  qed
  show "if p then orders (mem (sh_queue s)) = o1 # orders (mem (sh_queue s2)) \<and> disk (sh_queue s2) = Parsed (mem (sh_queue s2))
     else sh_queue s2 = sh_queue s"
    using r s2 assms(2) by (cases r) (auto dest: pop_committed_ok pop_committed_err simp: peek_front_def split: list.splits)
qed


section \<open>A whole order\<close>

lemma run_order_evidence:
  assumes "run_order o1 w = (r, w')" "trade_mirror (w_store w) = Parsed (trade_state_new o1)"
  shows "evidence o1 w'"
proof -
  let ?w = "w\<lparr>w_store := (w_store w)\<lparr>current_trade := Some (trade_state_new o1)\<rparr>\<rparr>"
  have "evidence o1 ?w" using assms(2) by (simp add: evidence_def)
  moreover have "keeps (evidence_kept o1) (andthen (attempt (send_message_to_player (qo_username o1) ''Now processing'')) (\<lambda>_.
       execute_queued_order o1))"
    by (intro evidence.R_andthen evidence.R_attempt evidence.R_send_message evidence.R_execute_order [OF refl refl])
  then have "evidence_kept o1 ?w w'" using assms(1) by (auto simp: run_order_def then_updating intro: keeps_apply)
  ultimately show ?thesis by (simp add: evidence_kept_def)
qed

lemma release_trade_spec:
  assumes "evidence o1 w"
  shows "(current_trade (w_store (release_trade w)) = None \<and> trade_mirror (w_store (release_trade w)) = Absent \<and>
      (\<exists>t. current_trade (w_store w) = Some t \<and> is_terminal t)) \<or> evidence o1 (release_trade w)"
proof -
  obtain t where t: "current_trade (w_store w) = Some t" "trade_order t = o1" using assms by (auto simp: evidence_def)
  obtain m w1 where m: "write_mirror t w = (m, w1)" by force
  obtain c w2 where c: "clear_mirror w = (c, w2)" by force
  show ?thesis using t assms write_mirror_spec [OF m] clear_mirror_spec [OF c] m c
    by (auto simp: release_trade_def close_trade_def evidence_def Let_def split: bool.splits)
qed

lemma write_mirror_pairs: "write_mirror t w = (m, w1) \<Longrightarrow> pairs (w_store w1) = pairs (w_store w)"
  by (auto simp: write_mirror_def set_mirror_def split: prod.splits)

lemma process_executed:
  assumes "process_next_order s = (Some x, s')" "queue_inv (sh_queue s)"
  obtains o1 w w3 where "peek_front (mem (sh_queue s)) = Some o1" "run_order o1 w = (x, w3)"
    "trade_mirror (w_store w) = Parsed (trade_state_new o1)" "pairs (w_store w) = pairs (w_store (sh_world s))"
    "orders (mem (sh_queue s)) = o1 # orders (mem (sh_queue s'))" "disk (sh_queue s') = Parsed (mem (sh_queue s'))"
    "sh_world s' = (if x = Panicked then w3 else release_trade w3)" "sh_processing s' = (x = Panicked)"
proof -
  obtain o1 where Some: "peek_front (mem (sh_queue s)) = Some o1"
    using assms(1) by (auto simp: process_next_order_def split: option.splits)
  obtain m w1 where m: "write_mirror (trade_state_new o1) (sh_world s) = (m, w1)" by force
  obtain p s2 where p: "take_order o1 (s\<lparr>sh_world := w1\<rparr>) = (p, s2)" by force
  obtain y w3 where y: "run_order o1 (sh_world s2) = (y, w3)" by force
  have peek: "peek_front (mem (sh_queue (s\<lparr>sh_world := w1\<rparr>))) = Some o1" "queue_inv (sh_queue (s\<lparr>sh_world := w1\<rparr>))"
    using Some assms(2) by simp_all
  note t = take_order_spec [OF p peek]
  have mp: "m \<and> p" using assms(1) Some m p by (auto simp: process_next_order_def split: bool.splits)
  then have r: "y = x" "s' = (if x = Panicked then s2\<lparr>sh_world := w3, sh_processing := True\<rparr>
        else s2\<lparr>sh_world := release_trade w3, sh_processing := False\<rparr>)"
    using assms(1) Some m p y by (auto simp: process_next_order_def split: res.splits)
  show ?thesis
    by (rule that [of o1 "sh_world s2" w3]) (use Some y r t mp write_mirror_spec [OF m] write_mirror_pairs [OF m] in \<open>auto split: if_splits\<close>)
qed

lemma process_not_executed:
  assumes "process_next_order s = (None, s')" "queue_inv (sh_queue s)"
  shows "sh_queue s' = sh_queue s"
proof (cases "peek_front (mem (sh_queue s))")
  case None then show ?thesis using assms by (auto simp: process_next_order_def)
next
  case (Some o1)
  obtain m w1 where m: "write_mirror (trade_state_new o1) (sh_world s) = (m, w1)" by force
  obtain p s2 where p: "take_order o1 (s\<lparr>sh_world := w1\<rparr>) = (p, s2)" by force
  have peek: "peek_front (mem (sh_queue (s\<lparr>sh_world := w1\<rparr>))) = Some o1" "queue_inv (sh_queue (s\<lparr>sh_world := w1\<rparr>))"
    using Some assms(2) by simp_all
  show ?thesis using assms(1) Some m p take_order_spec(5) [OF p peek]
    by (auto simp: process_next_order_def split: bool.splits res.splits prod.splits)
qed

lemma executed_end:
  assumes "run_order o1 w = (x, w3)" "trade_mirror (w_store w) = Parsed (trade_state_new o1)"
    "w' = (if x = Panicked then w3 else release_trade w3)"
  shows "evidence o1 w' \<or> x \<noteq> Panicked \<and> current_trade (w_store w') = None \<and> trade_mirror (w_store w') = Absent \<and>
    (\<exists>t. current_trade (w_store w3) = Some t \<and> is_terminal t)"
  using run_order_evidence [OF assms(1,2)] release_trade_spec [of o1 w3] assms(3) by auto


section \<open>Two consequences for the operator\<close>

text \<open>A buy of an item the store does not trade never starts its trade.\<close>

lemma refused_not_started:
  assumes "handle_buy_order player u item q w = (r, w')" "\<not> has_key (pairs (w_store w)) item"
  shows "current_trade (w_store w') = current_trade (w_store w) \<and> trade_mirror (w_store w') = trade_mirror (w_store w) \<and> r \<noteq> Panicked"
proof -
  have m: "send_message_to_player p msg v = (x, v') \<Longrightarrow> w_store v' = w_store v \<and> x \<noteq> Panicked" for p msg v v' and x :: "unit res"
    by (auto simp: send_message_to_player_def split: prod.splits reply.splits sum.splits)
  have v: "validate_and_plan_buy player u item q w = (x, v) \<Longrightarrow> current_trade (w_store v) = current_trade (w_store w) \<and>
      trade_mirror (w_store v) = trade_mirror (w_store w) \<and> (\<forall>bp. x \<noteq> Ok (Some bp)) \<and> x \<noteq> Panicked" for x v
    using assms(2) by (auto simp: validate_and_plan_buy_def reject_def andthen_Ok ensure_user_mirror elim!: andthenE dest!: m)
  have c: "checked (\<lambda>s. assert_tradeable s item u) w = (y, w1) \<Longrightarrow> w1 = w \<and> y \<noteq> Panicked" for y w1
    by (auto simp add: checked_def assert_tradeable_eq split: prod.splits if_splits)
  from assms(1) show ?thesis unfolding handle_buy_order_def
    by (auto elim!: andthenE dest!: c v split: option.splits)
qed

lemma refused_order_state:
  assumes "process_next_order s = (Some r, s')" "queue_inv (sh_queue s)"
    "peek_front (mem (sh_queue s)) = Some o1" "qo_order_type o1 = QBuy" "\<not> has_key (pairs (w_store (sh_world s))) (qo_item o1)"
  shows "r \<noteq> Panicked \<and> current_trade (w_store (sh_world s')) = Some (Queued o1) \<and> trade_mirror (w_store (sh_world s')) = Parsed (Queued o1)"
proof -
  obtain w w3 where e: "run_order o1 w = (r, w3)" "trade_mirror (w_store w) = Parsed (trade_state_new o1)"
    "pairs (w_store w) = pairs (w_store (sh_world s))" "sh_world s' = (if r = Panicked then w3 else release_trade w3)"
    by (rule process_executed [OF assms(1,2)]) (use assms(3) in auto)
  let ?w = "w\<lparr>w_store := (w_store w)\<lparr>current_trade := Some (Queued o1)\<rparr>\<rparr>"
  obtain v where v: "w_store v = w_store ?w" "execute_queued_order o1 v = (r, w3)"
  proof -
    obtain y v where y: "send_message_to_player (qo_username o1) ''Now processing'' ?w = (y, v)" by force
    have "w_store v = w_store ?w" "y \<noteq> Panicked" using y send_no_panic [OF y]
      by (auto simp: send_message_to_player_def split: prod.splits reply.splits sum.splits)
    moreover have "execute_queued_order o1 v = (r, w3)" using e(1) y \<open>y \<noteq> Panicked\<close>
      by (cases y) (auto simp: run_order_def then_updating andthen_def attempt_def trade_state_new_def)
    ultimately show ?thesis using that by blast
  qed
  have "\<not> has_key (pairs (w_store v)) (qo_item o1)" using assms(5) e(3) v(1) by (simp add: has_key_def)
  with v(2) assms(4) have "r \<noteq> Panicked \<and> current_trade (w_store w3) = Some (Queued o1) \<and> trade_mirror (w_store w3) = Parsed (Queued o1)"
    using v(1) e(2) by (auto simp: execute_queued_order_def trade_state_new_def elim!: andthenE dest!: refused_not_started)
  then show ?thesis using e(4) write_mirror_spec [OF prod.collapse [symmetric]]
    by (simp add: release_trade_def Let_def)
qed


text \<open>C27: A trade that is preserved for the operator does not block the shop: whatever unfinished trade is in flight and
  in the mirror file, the next order that is executed replaces both, and nothing names the earlier one any more.\<close>

theorem preserved_trade_overwritten:
  assumes "process_next_order s = (Some r, s')" "queue_inv (sh_queue s)" "evidence o2 (sh_world s)"
    "peek_front (mem (sh_queue s)) = Some o1" "o1 \<noteq> o2"
  shows "(\<forall>t. current_trade (w_store (sh_world s')) = Some t \<longrightarrow> trade_order t \<noteq> o2) \<and>
    (\<forall>t. trade_mirror (w_store (sh_world s')) = Parsed t \<longrightarrow> trade_order t \<noteq> o2)"
proof -
  obtain w w3 where e: "run_order o1 w = (r, w3)" "trade_mirror (w_store w) = Parsed (trade_state_new o1)"
    "sh_world s' = (if r = Panicked then w3 else release_trade w3)"
    by (rule process_executed [OF assms(1,2)]) (use assms(4) in auto)
  from executed_end [OF e] assms(5) show ?thesis by (auto simp: evidence_def)
qed

section \<open>Witnesses\<close>

definition sample_waiting :: "queue_sys" where
  "sample_waiting = \<lparr>mem = \<lparr>orders = [sample_refused], next_id = 2\<rparr>, disk = Parsed \<lparr>orders = [sample_refused], next_id = 2\<rparr>\<rparr>"

definition sample_shop :: "trade_state option \<Rightarrow> shop" where
  "sample_shop t = \<lparr>sh_world = sample_world\<lparr>write_oks := [True, True, True],
     w_store := sample_store\<lparr>current_trade := t, trade_mirror := (case t of None \<Rightarrow> Absent | Some x \<Rightarrow> Parsed x)\<rparr>\<rparr>,
     sh_queue = sample_waiting, sh_limiter = rate_limiter_new, sh_processing = False\<rparr>"

lemma sample_shop_facts:
  "queue_inv (sh_queue (sample_shop t))" "peek_front (mem (sh_queue (sample_shop t))) = Some sample_refused"
  "\<not> has_key (pairs (w_store (sh_world (sample_shop t)))) (qo_item sample_refused)" "qo_order_type sample_refused = QBuy"
  by (auto simp: sample_shop_def sample_waiting_def queue_inv_def queue_wf_def durable_def queue_load_def user_order_count_def
      sample_refused_def sample_order_def MAX_QUEUE_SIZE_def MAX_ORDERS_PER_USER_def peek_front_def has_key_def sample_store_def)

lemma sample_shop_runs:
  obtains r s' where "process_next_order (sample_shop t) = (Some r, s')"
proof -
  obtain r s' where p: "process_next_order (sample_shop t) = (r, s')" by force
  have "r \<noteq> None" using p
    by (auto simp: process_next_order_def sample_shop_facts write_mirror_def next_write_def next_of_def sample_shop_def persist_def
        set_mirror_def take_order_def pop_committed_def sample_waiting_def queue_save_def peek_front_def
        simp del: ask_store split: prod.splits res.splits)
  then show ?thesis using p that by auto
qed




theorem preserved_trade_overwritten_witness:
  "\<exists>r s'. process_next_order (sample_shop (Some (Trading sample_order []))) = (Some r, s') \<and>
    (\<forall>t. trade_mirror (w_store (sh_world s')) \<noteq> Parsed (Trading sample_order t))"
proof -
  let ?t = "Some (Trading sample_order [])"
  obtain r s' where p: "process_next_order (sample_shop ?t) = (Some r, s')" by (rule sample_shop_runs)
  have "evidence sample_order (sh_world (sample_shop ?t))" by (simp add: evidence_def sample_shop_def)
  moreover have "qo_item sample_refused \<noteq> qo_item sample_order" by (simp add: sample_refused_def sample_order_def)
  then have "sample_refused \<noteq> sample_order" by metis
  ultimately show ?thesis
    using preserved_trade_overwritten [OF p sample_shop_facts(1) _ sample_shop_facts(2)] p by fastforce
qed

end
