(* ===== verification/Buy_Books.thy ===== *)
theory Buy_Books
  imports Order_Money
begin

text \<open>
  A buy order followed from the queue to its end: which money moves on which path.
\<close>

section \<open>The settlement\<close>

text \<open>What the settlement takes from the balance and what it gives back, as the source computes it.\<close>

definition buy_deduction :: "f64 \<Rightarrow> i32 \<Rightarrow> f64 \<Rightarrow> f64" where
  "buy_deduction cost d bal =
     (if f_lt (f_of_int 0) (f_sub cost (f_of_int d)) then f_min (f_sub cost (f_of_int d)) bal else f_of_int 0)"

definition buy_surplus :: "f64 \<Rightarrow> i32 \<Rightarrow> i32 \<Rightarrow> f64" where
  "buy_surplus cost d physical =
     (if f_lt (f_of_int 0) (f_sub cost (f_of_int d)) then f_of_int 0
      else f_max (f_sub (f_of_int physical) cost) (f_of_int 0))"

definition buy_new_balance :: "f64 \<Rightarrow> i32 \<Rightarrow> i32 \<Rightarrow> f64 \<Rightarrow> f64" where
  "buy_new_balance cost d physical bal =
     (if f_lt (f_of_int 0) (f_sub cost (f_of_int d)) then f_sub bal (buy_deduction cost d bal)
      else if f_lt (f_of_int 0) (buy_surplus cost d physical) then f_add bal (buy_surplus cost d physical) else bal)"

definition buy_new_reserve :: "f64 \<Rightarrow> i32 \<Rightarrow> i32 \<Rightarrow> f64 \<Rightarrow> f64 \<Rightarrow> f64" where
  "buy_new_reserve cost d physical bal reserve = f_add reserve (f_add (f_of_int physical) (buy_deduction cost d bal))"

text \<open>The money of the two parties: the reserves and the balances.\<close>

abbreviation reserve_of :: "store \<Rightarrow> item_id \<Rightarrow> f64 option" where
  "reserve_of s k \<equiv> map_option currency_stock (hget (pairs s) k)"

definition money_kept :: "world \<Rightarrow> world \<Rightarrow> bool" where
  "money_kept w w' \<longleftrightarrow> (\<forall>v. balance_of (w_store w') v = balance_of (w_store w) v) \<and>
     (\<forall>k. reserve_of (w_store w') k = reserve_of (w_store w) k)"

definition committed :: "world \<Rightarrow> bool" where
  "committed w \<longleftrightarrow> (\<exists>c. current_trade (w_store w) = Some (Committed c))"

lemma money_kept_books: "books_kept w w' \<Longrightarrow> money_kept w w'"
  by (simp add: books_kept_def books_def money_kept_def balance_of_def)

lemma money_kept_trans [trans]: "money_kept w w' \<Longrightarrow> money_kept w' w'' \<Longrightarrow> money_kept w w''"
  by (simp add: money_kept_def)

lemma books_keptD:
  "books_kept w w' \<Longrightarrow> pairs (w_store w') = pairs (w_store w)" "books_kept w w' \<Longrightarrow> users (w_store w') = users (w_store w)"
  "books_kept w w' \<Longrightarrow> current_trade (w_store w') = current_trade (w_store w)"
  "books_kept w w' \<Longrightarrow> trades (w_store w') = trades (w_store w)"
  by (simp_all add: books_kept_def books_def)

text \<open>How the deposit of the received diamonds ends.\<close>

lemma deposit_received_spec:
  assumes "deposit_received_diamonds d w = (r, w')" "d \<le> i32_max"
  shows "books_kept w w' \<and> (\<forall>ph. r = Ok ph \<longrightarrow> 0 \<le> ph \<and> ph \<le> max d 0)"
proof (cases "d > 0")
  case False then show ?thesis using assms by (auto simp: deposit_received_diamonds_def)
next
  case True
  obtain r1 w1 where r1: "rollback_amount_to_storage ''diamond'' d 64 w = (r1, w1)" by force
  have b: "books_kept w w1" using quietD(2) r1 by blast
  have ok: "0 \<le> items_returned rb \<and> items_returned rb \<le> d" if "r1 = Ok rb" for rb
    using rollback_returns_at_most [of "''diamond''" d 64 w rb w1] r1 that True assms(2) by (simp add: stack_ok_def)
  show ?thesis using assms(1) True r1 b ok
    by (auto simp: deposit_received_diamonds_def andthen_def split: res.splits)
qed

text \<open>The balance side writes nothing but the balance of the buyer.\<close>

lemma settle_balance_spec:
  assumes run: "buy_settle_balance bp d ph bal w = (r, w')" and bal: "bal = balance_of (w_store w) (bp_user_uuid bp)"
    and u: "hget (users (w_store w)) (bp_user_uuid bp) = Some x"
  shows "r = Ok (buy_deduction (bp_total_cost bp) d bal, buy_surplus (bp_total_cost bp) d ph)"
    "\<exists>us y. w' = w\<lparr>w_store := (w_store w)\<lparr>users := us\<rparr>\<rparr> \<and> hget us (bp_user_uuid bp) = Some y \<and>
       balance y = buy_new_balance (bp_total_cost bp) d ph bal \<and>
       (\<forall>v. v \<noteq> bp_user_uuid bp \<longrightarrow> hget us v = hget (users (w_store w)) v)"
proof -
  have eq: "w = w\<lparr>w_store := (w_store w)\<lparr>users := users (w_store w)\<rparr>\<rparr>" by simp
  have b: "bal = balance x" using bal u by (simp add: balance_of_def)
  have o1: "r = Ok (buy_deduction (bp_total_cost bp) d bal, buy_surplus (bp_total_cost bp) d ph) \<and>
     w' = (if f_lt (f_of_int 0) (f_sub (bp_total_cost bp) (f_of_int d)) \<or> f_lt (f_of_int 0) (buy_surplus (bp_total_cost bp) d ph)
       then w\<lparr>w_store := (w_store w)\<lparr>users := hput (users (w_store w)) (bp_user_uuid bp)
         (x\<lparr>balance := buy_new_balance (bp_total_cost bp) d ph bal\<rparr>)\<rparr>\<rparr> else w)"
    using run b u by (simp add: buy_settle_balance_def andthen_def writing_def expect_user_mut_def ret_def Let_def
        buy_new_balance_def buy_deduction_def buy_surplus_def split: if_splits)
  then show "r = Ok (buy_deduction (bp_total_cost bp) d bal, buy_surplus (bp_total_cost bp) d ph)" by simp
  show "\<exists>us y. w' = w\<lparr>w_store := (w_store w)\<lparr>users := us\<rparr>\<rparr> \<and> hget us (bp_user_uuid bp) = Some y \<and>
       balance y = buy_new_balance (bp_total_cost bp) d ph bal \<and>
       (\<forall>v. v \<noteq> bp_user_uuid bp \<longrightarrow> hget us v = hget (users (w_store w)) v)"
  proof (cases "f_lt (f_of_int 0) (f_sub (bp_total_cost bp) (f_of_int d)) \<or> f_lt (f_of_int 0) (buy_surplus (bp_total_cost bp) d ph)")
    case True
    then show ?thesis using o1
      by (intro exI [of _ "hput (users (w_store w)) (bp_user_uuid bp) (x\<lparr>balance := buy_new_balance (bp_total_cost bp) d ph bal\<rparr>)"]) simp
  next
    case False
    then show ?thesis using o1 eq u b by (intro exI [of _ "users (w_store w)"]) (simp add: buy_new_balance_def)
  qed
qed

text \<open>The end of a commit: the logs, the transition and the check leave the money alone.\<close>

lemma finish_spec:
  assumes run: "andthen (push_trade ty i a c u) (\<lambda>_. andthen (push_order (Some o2)) (\<lambda>_.
      andthen (advance (commit item n e)) (\<lambda>_. andthen post_check (\<lambda>_. send_message_to_player player msg)))) w = (r, w')"
    and i: "i \<noteq> []" and t: "current_trade (w_store w) = Some (Trading o1 plan) \<or> current_trade (w_store w) = Some (Depositing o1 tr plan)"
  shows "money_kept w w'" "current_trade (w_store w') = Some (Committed \<lparr>ct_order = o1, ct_item = item, ct_quantity = n,
    ct_currency_amount = e\<rparr>)"
proof -
  obtain r1 w1 where w1: "push_trade ty i a c u w = (r1, w1)" by force
  from push_trade_books [OF w1 i] obtain tn where e1: "r1 = Ok ()" "w_store w1 = (w_store w)\<lparr>trades := trades (w_store w) @ [tn]\<rparr>" by blast
  obtain r2 w2 where w2: "push_order (Some o2) w1 = (r2, w2)" by force
  note e2 = push_order_books [OF w2]
  obtain r3 w3 where w3: "advance (commit item n e) w2 = (r3, w3)" by force
  obtain x where x: "current_trade (w_store w2) = Some x" using t e1 e2 by auto
  note e3 = advance_Ok [OF w3] advance_books [OF w3 x]
  obtain r4 w4 where w4: "post_check w3 = (r4, w4)" by force
  note e4 = post_check_books [OF w4]
  obtain r5 where w5: "send_message_to_player player msg w4 = (r5, w')"
    using run w1 w2 w3 w4 e1(1) e2(1) e3(1) e4(4) by (auto simp: andthen_Ok)
  have b: "books_kept w4 w'" using quietD(5) w5 by blast
  note e5 = books_keptD [OF b]
  show "money_kept w w'" using e1 e2 e3 e4 e5 by (simp add: money_kept_def balance_of_def)
  show "current_trade (w_store w') = Some (Committed \<lparr>ct_order = o1, ct_item = item, ct_quantity = n, ct_currency_amount = e\<rparr>)"
    using t x e1 e2 e3 e4 e5 by auto
qed

text \<open>The books after a commit that went through.\<close>

definition buy_booked :: "string \<Rightarrow> item_id \<Rightarrow> f64 \<Rightarrow> i32 \<Rightarrow> i32 \<Rightarrow> store \<Rightarrow> store \<Rightarrow> bool" where
  "buy_booked u item cost d ph s s' \<longleftrightarrow>
     (\<forall>v. balance_of s' v = (if v = u then buy_new_balance cost d ph (balance_of s u) else balance_of s v)) \<and>
     (\<forall>k. reserve_of s' k = (if k = item
        then map_option (buy_new_reserve cost d ph (balance_of s u)) (reserve_of s item) else reserve_of s k))"

lemma buy_commit_spec:
  assumes run: "buy_commit player item bp d bal w = (r, w')"
    and d: "d \<le> i32_max" and item: "item \<noteq> []" and t: "current_trade (w_store w) = Some (Trading o1 plan)"
    and o2: "order_buy item (bp_qty bp) (bp_total_cost bp) (bp_user_uuid bp) = Some o2"
    and bal: "bal = balance_of (w_store w) (bp_user_uuid bp)"
    and p: "hget (pairs (w_store w)) item = Some p" and u: "hget (users (w_store w)) (bp_user_uuid bp) = Some x"
  shows "(money_kept w w' \<and> \<not> committed w' \<and> (\<forall>ph w1. deposit_received_diamonds d w \<noteq> (Ok ph, w1))) \<or>
    (\<exists>ph. 0 \<le> ph \<and> ph \<le> max d 0 \<and> buy_booked (bp_user_uuid bp) item (bp_total_cost bp) d ph (w_store w) (w_store w') \<and>
      current_trade (w_store w') = Some (Committed \<lparr>ct_order = o1, ct_item = item, ct_quantity = bp_qty bp,
        ct_currency_amount = bp_total_cost bp\<rparr>))"
  using run unfolding buy_commit_def
proof (cases rule: andthenE)
  case (ok ph w1)
  from deposit_received_spec [OF ok(1) d] have b1: "books_kept w w1" and ph: "0 \<le> ph" "ph \<le> max d 0" by auto
  note e1 = books_keptD [OF b1]
  have bal1: "bal = balance_of (w_store w1) (bp_user_uuid bp)" using bal e1 by (simp add: balance_of_def)
  obtain r2 w2 where r2: "buy_settle_balance bp d ph bal w1 = (r2, w2)" by force
  have u1: "hget (users (w_store w1)) (bp_user_uuid bp) = Some x" using u e1 by simp
  obtain us y where w2: "w2 = w1\<lparr>w_store := (w_store w1)\<lparr>users := us\<rparr>\<rparr>" and y: "hget us (bp_user_uuid bp) = Some y"
      "balance y = buy_new_balance (bp_total_cost bp) d ph bal" and us: "\<And>v. v \<noteq> bp_user_uuid bp \<Longrightarrow> hget us v = hget (users (w_store w1)) v"
    using settle_balance_spec(2) [OF r2 bal1 u1] by blast
  have p1: "hget (pairs (w_store w1)) item = Some p" using p e1 by simp
  have t1: "current_trade (w_store w1) = Some (Trading o1 plan)" using t e1 by simp
  define us' where "us' = hput us (bp_user_uuid bp) (y\<lparr>username := player\<rparr>)"
  define ps' where "ps' = hput (pairs (w_store w1)) item (p\<lparr>item_stock := total_item_amount (storage (w_store w1)) item,
     currency_stock := buy_new_reserve (bp_total_cost bp) d ph bal (currency_stock p)\<rparr>)"
  let ?w6 = "w1\<lparr>w_store := (w_store w1)\<lparr>users := us', dirty := True,
     dirty_users := insert (bp_user_uuid bp) (dirty_users (w_store w1)), pairs := ps', dirty := True\<rparr>\<rparr>"
  have "andthen (push_trade TradeBuy item (bp_qty bp) (bp_total_cost bp) (bp_user_uuid bp)) (\<lambda>_.
     andthen (push_order (order_buy item (bp_qty bp) (bp_total_cost bp) (bp_user_uuid bp))) (\<lambda>_.
     andthen (advance (commit item (bp_qty bp) (bp_total_cost bp))) (\<lambda>_.
     andthen post_check (\<lambda>_. send_message_to_player player ''Bought. Trade complete.'')))) ?w6 = (r, w')"
    using ok(2) r2 [unfolded settle_balance_spec(1) [OF r2 bal1 u1]] y(1) p1
    by (simp add: andthen_Ok then_steps w2 mark_user_dirty_def us'_def ps'_def buy_new_reserve_def)
  note f = finish_spec [OF this [unfolded o2] item, of o1 plan]
  have m: "money_kept ?w6 w'" and c: "current_trade (w_store w') = Some (Committed \<lparr>ct_order = o1, ct_item = item,
      ct_quantity = bp_qty bp, ct_currency_amount = bp_total_cost bp\<rparr>)" using f t1 by simp_all
  have "buy_booked (bp_user_uuid bp) item (bp_total_cost bp) d ph (w_store w) (w_store w')"
    using m y us e1 p1 p bal by (auto simp: buy_booked_def money_kept_def us'_def ps'_def balance_of_def)
  then show ?thesis using ph c by blast
next
  case (err e) then show ?thesis using deposit_received_spec [OF err(1) d] t
    by (auto simp: money_kept_books committed_def dest: books_keptD)
next
  case panicked then show ?thesis using deposit_received_spec [OF panicked(1) d] t
    by (auto simp: money_kept_books committed_def dest: books_keptD)
qed

section \<open>The rest of the order\<close>

definition tame :: "world \<Rightarrow> world \<Rightarrow> bool" where
  "tame w w' \<longleftrightarrow> money_kept w w' \<and> current_trade (w_store w') = current_trade (w_store w)"

lemma tame_books: "books_kept w w' \<Longrightarrow> tame w w'"
  by (simp add: tame_def money_kept_books books_keptD)

interpretation tame: bot_relation tame
proof (unfold_locales)
  show "tame w w" for w by (simp add: tame_books)
  show "tame w w' \<Longrightarrow> tame w' w'' \<Longrightarrow> tame w w''" for w w' w'' by (simp add: tame_def money_kept_def)
qed (erule quiet.R_whisper [THEN tame_books] quiet.R_chest [THEN tame_books] quiet.R_trade [THEN tame_books]
       quiet.R_write [THEN tame_books] quiet.R_now [THEN tame_books] quiet.R_grow [THEN tame_books]
     | rule quiet.R_sync [THEN tame_books])+

lemma ensure_user_cost [simp]: "calculate_buy_cost (ensure_user_exists player u s) i n = calculate_buy_cost s i n"
  by (simp add: calculate_buy_cost_def split: option.split)

context bot_relation begin

lemma R_validate:
  assumes "\<And>w. R w (w\<lparr>w_store := ensure_user_exists player u (w_store w)\<rparr>)"
  shows "keeps R (validate_and_plan_buy player u i q)" "keeps R (validate_and_plan_sell player u i q)"
  unfolding validate_and_plan_buy_def validate_and_plan_sell_def Let_def
  by (intro R_andthen R_updating assms R_reading R_if R_option R_prod R_reject R_ret R_fail R_lift_err)+

end

lemma validate_tame:
  "validate_and_plan_buy player u i q w = (r, w') \<Longrightarrow> tame w w'"
  "validate_and_plan_sell player u i q w = (rs, w') \<Longrightarrow> tame w w'"
  by (rule tame.R_validate [THEN keeps_apply]; simp add: tame_def money_kept_def)+

text \<open>A player who put too little into the trade keeps the credit of the diamonds that were stored.\<close>

lemma underpaid_spec:
  assumes run: "buy_underpaid player item bp d w = (r, w')" and d: "d \<le> i32_max"
    and t: "current_trade (w_store w) = Some (Trading o1 plan)"
    and u: "hget (users (w_store w)) (bp_user_uuid bp) = Some x"
  shows "\<not> committed w'" "\<And>k. reserve_of (w_store w') k = reserve_of (w_store w) k"
    "\<exists>n. 0 \<le> n \<and> n \<le> max d 0 \<and> (\<forall>v. balance_of (w_store w') v = (if v = bp_user_uuid bp \<and> 0 < n
       then f_add (balance_of (w_store w) v) (f_of_int n) else balance_of (w_store w) v))"
proof -
  define credit where "credit n v = (if v = bp_user_uuid bp \<and> 0 < n then f_add (balance_of (w_store w) v) (f_of_int n)
    else balance_of (w_store w) v)" for n v
  define good where "good w1 \<longleftrightarrow> (\<forall>k. reserve_of (w_store w1) k = reserve_of (w_store w) k) \<and>
    (\<exists>n. 0 \<le> n \<and> n \<le> max d 0 \<and> (\<forall>v. balance_of (w_store w1) v = credit n v))" for w1 :: world
  have g0: "good w1" if "money_kept w w1" for w1
    using that by (auto simp: good_def money_kept_def credit_def intro!: exI [of _ 0])
  have gm: "good w2" if "good w1" "money_kept w1 w2" for w1 w2
    using that by (auto simp: good_def money_kept_def)
  have quiet_end: "good w1 \<and> \<not> committed w1" if "books_kept w w1" for w1
    using books_keptD [OF that] g0 [OF money_kept_books [OF that]] t by (simp add: committed_def)
  have "good w' \<and> \<not> committed w'"
    using run unfolding buy_underpaid_def
  proof (cases rule: andthenE)
    case (ok a w1)
    have b1: "books_kept w w1" using quietD(1) ok(1) by blast
    note e1 = books_keptD [OF b1]
    from ok(2) show ?thesis
    proof (cases rule: andthenE)
      case inner: (ok b w2)
      have s2: "good w2 \<and> current_trade (w_store w2) = Some (Trading o1 plan)"
      proof (cases "d > 0")
        case False then show ?thesis using inner(1) e1 t b1 g0 by (auto simp: money_kept_books)
      next
        case True
        then obtain rb w3 where rb: "rollback_amount_to_storage ''diamond'' d 64 w1 = (Ok rb, w3)"
          "(if items_returned rb > 0 then updating (\<lambda>s.
             (case hget (users s) (bp_user_uuid bp) of
                Some x \<Rightarrow> s\<lparr>users := hput (users s) (bp_user_uuid bp) (x\<lparr>balance := f_add (balance x) (f_of_int (items_returned rb))\<rparr>)\<rparr>
              | None \<Rightarrow> s)\<lparr>dirty_users := insert (bp_user_uuid bp) (dirty_users s)\<rparr>) else ret ()) w3 = (Ok b, w2)"
          using inner(1) by (auto simp: andthen_Ok_iff Let_def)
        have b3: "books_kept w w3" using b1 quietD(2) rb(1) books_kept_trans by blast
        note e3 = books_keptD [OF b3]
        have n: "0 \<le> items_returned rb \<and> items_returned rb \<le> d"
          using rollback_returns_at_most [OF rb(1) True d] by (simp add: stack_ok_def)
        show ?thesis
        proof (cases "items_returned rb > 0")
          case False then show ?thesis using rb(2) e3 t b3 g0 by (auto simp: money_kept_books)
        next
          case True
          have w2: "w2 = w3\<lparr>w_store := (w_store w3)\<lparr>users := hput (users (w_store w3)) (bp_user_uuid bp)
             (x\<lparr>balance := f_add (balance x) (f_of_int (items_returned rb))\<rparr>), dirty_users := insert (bp_user_uuid bp) (dirty_users (w_store w3))\<rparr>\<rparr>"
            using rb(2) True u e3 by simp
          have "good w2" unfolding good_def using n u e3 True
            by (auto simp: w2 balance_of_def credit_def intro!: exI [of _ "items_returned rb"])
          then show ?thesis using w2 e3 t by simp
        qed
      qed
      from inner(2) obtain w3 r3 where w3: "advance (rollback ''buy/insufficient-payment'') w2 = (r3, w3)" "r3 = Ok ()"
        "send_message_to_player player ''Buy aborted: insufficient payment.'' w3 = (r, w')"
        by (rule andthenE) (auto dest: advance_Ok)
      note e3 = advance_books [OF w3(1) s2 [THEN conjunct2]]
      have m: "money_kept w2 w3" using e3 by (simp add: money_kept_def balance_of_def)
      have b: "books_kept w3 w'" using quietD(5) w3(3) by blast
      have "good w'" using gm [OF gm [OF s2 [THEN conjunct1] m] money_kept_books [OF b]] .
      then show ?thesis using e3(7) books_keptD(3) [OF b] by (simp add: committed_def)
    next
      case (err e)
      then have "books_kept w1 w'" by (auto simp: Let_def dest: quietD(2) elim!: andthenE split: if_splits)
      then have b: "books_kept w w'" using b1 books_kept_trans by blast
      show ?thesis using quiet_end b by blast
    next
      case panicked
      then have "books_kept w1 w'" by (auto simp: Let_def dest: quietD(2) elim!: andthenE split: if_splits)
      then have b: "books_kept w w'" using b1 books_kept_trans by blast
      show ?thesis using quiet_end b by blast
    qed
  next
    case (err e)
    have b1: "books_kept w w'" using quietD(1) err(1) by blast
    show ?thesis using quiet_end b1 by blast
  next
    case panicked
    have b1: "books_kept w w'" using quietD(1) panicked(1) by blast
    show ?thesis using quiet_end b1 by blast
  qed
  then show "\<not> committed w'" "\<And>k. reserve_of (w_store w') k = reserve_of (w_store w) k"
    "\<exists>n. 0 \<le> n \<and> n \<le> max d 0 \<and> (\<forall>v. balance_of (w_store w') v = (if v = bp_user_uuid bp \<and> 0 < n
       then f_add (balance_of (w_store w) v) (f_of_int n) else balance_of (w_store w) v))"
    by (auto simp: good_def credit_def)
qed

text \<open>From the exchange on: either everything is booked, or nothing but a deposit.\<close>

definition buy_aborted :: "string \<Rightarrow> world \<Rightarrow> world \<Rightarrow> bool" where
  "buy_aborted u w w' \<longleftrightarrow> \<not> committed w' \<and> (\<forall>k. reserve_of (w_store w') k = reserve_of (w_store w) k) \<and>
     (\<exists>n. 0 \<le> n \<and> (\<forall>v. balance_of (w_store w') v = (if v = u \<and> 0 < n
        then f_add (balance_of (w_store w) v) (f_of_int n) else balance_of (w_store w) v)))"

lemma buy_abortedI: "money_kept w w' \<Longrightarrow> \<not> committed w' \<Longrightarrow> buy_aborted u w w'"
  by (auto simp: buy_aborted_def money_kept_def intro!: exI [of _ 0])

definition buy_done :: "string \<Rightarrow> item_id \<Rightarrow> i32 \<Rightarrow> f64 \<Rightarrow> queued_order \<Rightarrow> world \<Rightarrow> world \<Rightarrow> bool" where
  "buy_done u item n cost o1 w w' \<longleftrightarrow>
     (\<exists>d ph. 0 \<le> ph \<and> ph \<le> max d 0 \<and> \<not> f_lt (f_add (f_of_int d) (balance_of (w_store w) u)) cost \<and>
        buy_booked u item cost d ph (w_store w) (w_store w')) \<and>
     current_trade (w_store w') = Some (Committed \<lparr>ct_order = o1, ct_item = item, ct_quantity = n, ct_currency_amount = cost\<rparr>)"

lemma i32_bounds: "wrap_i32 x \<le> i32_max"
  unfolding wrap_i32_def i32_max_def by simp

lemma money_kept_before:
  assumes "money_kept w w1"
  shows "buy_aborted u w1 w' \<Longrightarrow> buy_aborted u w w'"
    "buy_done u item n cost o1 w1 w' \<Longrightarrow> buy_done u item n cost o1 w w'"
proof -
  have "buy_booked u item cost d ph (w_store w1) s' = buy_booked u item cost d ph (w_store w) s'" for d ph s'
    using assms by (simp add: buy_booked_def money_kept_def)
  then show "buy_done u item n cost o1 w1 w' \<Longrightarrow> buy_done u item n cost o1 w w'"
    using assms by (simp add: buy_done_def money_kept_def)
  have eqs: "balance_of (w_store w1) v = balance_of (w_store w) v" "reserve_of (w_store w1) k = reserve_of (w_store w) k" for v k
    using assms by (simp_all add: money_kept_def)
  show "buy_aborted u w1 w' \<Longrightarrow> buy_aborted u w w'" unfolding buy_aborted_def eqs .
qed

lemma buy_settle_spec:
  assumes run: "buy_settle player item bp received w = (r, w')"
    and item: "item \<noteq> []" and t: "current_trade (w_store w) = Some (Trading o1 plan)"
    and o2: "order_buy item (bp_qty bp) (bp_total_cost bp) (bp_user_uuid bp) = Some o2"
    and p: "hget (pairs (w_store w)) item = Some p" and u: "hget (users (w_store w)) (bp_user_uuid bp) = Some x"
  shows "buy_aborted (bp_user_uuid bp) w w' \<or> buy_done (bp_user_uuid bp) item (bp_qty bp) (bp_total_cost bp) o1 w w'"
proof -
  let ?d = "diamond_total received" let ?bal = "balance_of (w_store w) (bp_user_uuid bp)"
  have d: "?d \<le> i32_max" by (simp add: diamond_total_def i32_bounds)
  show ?thesis
  proof (cases "f_lt (f_add (f_of_int ?d) ?bal) (bp_total_cost bp)")
    case True
    then have "buy_underpaid player item bp ?d w = (r, w')" using run by (simp add: buy_settle_def then_reading Let_def)
    from underpaid_spec [OF this d t u] show ?thesis by (auto simp: buy_aborted_def)
  next
    case False
    then have "buy_commit player item bp ?d ?bal w = (r, w')" using run by (simp add: buy_settle_def then_reading Let_def)
    from buy_commit_spec [OF this d item t o2 refl p u] False show ?thesis
      by (auto simp: buy_done_def intro: buy_abortedI)
  qed
qed

lemma advance_ledger:
  assumes "advance f w = (r, w')" "current_trade (w_store w) = Some y"
  shows "r = Ok ()" "money_kept w w'" "pairs (w_store w') = pairs (w_store w)" "users (w_store w') = users (w_store w)"
    "current_trade (w_store w') = Some (case f y of Inr z \<Rightarrow> z | Inl e \<Rightarrow> y)"
  using advance_books [OF assms] advance_Ok [OF assms(1)] by (simp_all add: money_kept_def balance_of_def)

text \<open>A step that leaves the trade as it is, followed by nothing else.\<close>

lemma tame_aborted: "tame w w' \<Longrightarrow> \<not> committed w \<Longrightarrow> buy_aborted u w w'"
  by (rule buy_abortedI) (simp_all add: tame_def committed_def)

text \<open>Whatever a whispered message answers, the trade has been rolled back before.\<close>

lemma rollback_then_message:
  assumes "andthen (advance (rollback reason)) (\<lambda>_. send_message_to_player player msg) w = (r, w')"
    "current_trade (w_store w) = Some y" "\<not> committed w"
  shows "buy_aborted u w w'"
proof -
  obtain r1 w1 where a: "advance (rollback reason) w = (r1, w1)" by force
  note e = advance_ledger [OF a assms(2)]
  have b: "books_kept w1 w'" using assms(1) a e(1) quietD(5) by (auto simp: andthen_Ok)
  have "current_trade (w_store w1) \<noteq> Some (Committed c)" for c
    using e(5) assms(2,3) by (cases y) (auto simp: committed_def)
  then show ?thesis using e(2) b
    by (intro buy_abortedI) (auto simp: committed_def books_keptD intro: money_kept_trans dest: money_kept_books)
qed

lemma buy_exchange_spec:
  assumes run: "buy_exchange player item bp w = (r, w')"
    and item: "item \<noteq> []" and t: "current_trade (w_store w) = Some (Withdrawing o1 plan)"
    and o2: "order_buy item (bp_qty bp) (bp_total_cost bp) (bp_user_uuid bp) = Some o2"
    and p: "hget (pairs (w_store w)) item = Some p" and u: "hget (users (w_store w)) (bp_user_uuid bp) = Some x"
  shows "buy_aborted (bp_user_uuid bp) w w' \<or> buy_done (bp_user_uuid bp) item (bp_qty bp) (bp_total_cost bp) o1 w w'"
  using run unfolding buy_exchange_def
proof (cases rule: andthenE)
  case (ok a w1)
  have b1: "books_kept w w1" using quietD(5) ok(1) by blast
  note e1 = books_keptD [OF b1]
  obtain r2 w2 where w2: "advance begin_trading w1 = (r2, w2)" by force
  have t1: "current_trade (w_store w1) = Some (Withdrawing o1 plan)" using t e1 by simp
  note e2 = advance_ledger [OF w2 t1]
  have m2: "money_kept w w2" using money_kept_trans [OF money_kept_books [OF b1] e2(2)] .
  have t2: "current_trade (w_store w2) = Some (Trading o1 plan)" using e2(5) by simp
  then have nc2: "\<not> committed w2" by (simp add: committed_def)
  note money_kept_before [OF m2]
  moreover
  note rest = ok(2) [unfolded andthen_Ok [where m = "advance begin_trading", OF w2 [unfolded e2(1)]]]
  from rest have "buy_aborted (bp_user_uuid bp) w2 w' \<or> buy_done (bp_user_uuid bp) item (bp_qty bp) (bp_total_cost bp) o1 w2 w'"
  proof (cases rule: andthenE)
    case inner: (ok b w3)
    have b3: "books_kept w2 w3" using inner(1) quietD(4) by (auto elim!: attemptE)
    note e3 = books_keptD [OF b3]
    note m3 = money_kept_before [OF money_kept_books [OF b3]]
    show ?thesis
    proof (cases b)
      case (Inr received)
      have "buy_settle player item bp received w3 = (r, w')" using inner(2) Inr by simp
      from buy_settle_spec [OF this item _ o2, of o1 plan p x] m3 e3 t2 p u e1 e2 show ?thesis by auto
    next
      case (Inl e)
      from inner(2) [unfolded Inl sum.case] show ?thesis
      proof (cases rule: andthenE)
        case dt: (ok rb w4)
        have b4: "books_kept w2 w4" using books_kept_trans [OF b3] quietD(1) dt(1) by blast
        note e4 = books_keptD [OF b4]
        have "buy_aborted (bp_user_uuid bp) w4 w'"
          by (rule rollback_then_message [OF dt(2)]) (use e4 t2 in \<open>auto simp: committed_def\<close>)
        then show ?thesis using money_kept_before(1) [OF money_kept_books [OF b4]] by blast
      next
        case (err e)
        have "books_kept w2 w'" using books_kept_trans [OF b3] quietD(1) err(1) by blast
        then show ?thesis using tame_aborted [OF tame_books nc2] by blast
      next
        case panicked
        have "books_kept w2 w'" using books_kept_trans [OF b3] quietD(1) panicked(1) by blast
        then show ?thesis using tame_aborted [OF tame_books nc2] by blast
      qed
    qed
  next
    case (err e)
    then show ?thesis by (auto elim: attemptE)
  next
    case panicked
    then have "books_kept w2 w'" using quietD(4) by (auto elim!: attemptE)
    then show ?thesis using tame_aborted [OF tame_books nc2] by blast
  qed
  ultimately show ?thesis by blast
next
  case (err e)
  have "books_kept w w'" using quietD(5) err(1) by blast
  then show ?thesis using tame_aborted [OF tame_books, of w w'] t by (auto simp: committed_def)
next
  case panicked
  have "books_kept w w'" using quietD(5) panicked(1) by blast
  then show ?thesis using tame_aborted [OF tame_books, of w w'] t by (auto simp: committed_def)
qed

section \<open>The whole order\<close>

lemma not_le_zero: "f_is_finite x \<Longrightarrow> \<not> f_le x (f_of_int 0) \<Longrightarrow> f_le (f_of_int 0) x"
  by (cases x) (auto simp: f_of_int_exact)

lemma handle_buy_spec:
  assumes run: "handle_buy_order player u item q w = (r, w')"
    and item: "item \<noteq> []" and t: "current_trade (w_store w) = Some (Queued o1)" and u: "is_valid_uuid_shape u"
  shows "buy_aborted u w w' \<or>
    (\<exists>cost. calculate_buy_cost (w_store w) item (int q) = Some cost \<and> buy_done u item (int q) cost o1 w w')"
proof -
  have nc: "\<not> committed w" using t by (simp add: committed_def)
  have gate: "(checked (\<lambda>s. assert_tradeable s item u) w) = (Ok (), w) \<or>
      (\<exists>e. checked (\<lambda>s. assert_tradeable s item u) w = (Err e, w))"
    by (simp add: checked_def assert_tradeable_eq)
  from run [unfolded handle_buy_order_def] show ?thesis
  proof (cases rule: andthenE)
    case (ok a w0)
    then have w0: "w0 = w" using gate by auto
    from ok(2) [unfolded w0] show ?thesis
    proof (cases rule: andthenE)
      case v: (ok bpo w1)
      have m1: "tame w w1" using validate_tame(1) v(1) by blast
      show ?thesis
      proof (cases bpo)
        case None then show ?thesis using v(2) tame_aborted [OF m1 nc] by simp
      next
        case (Some bp)
        let ?s = "ensure_user_exists player u (w_store w)"
        have w1: "w1 = w\<lparr>w_store := ?s\<rparr>" and bp: "buy_planned u item q ?s bp"
          using validate_buy_Some v(1) Some by blast+
        obtain x where x: "hget (users ?s) u = Some x" using ensure_user_has [OF u] by blast
        obtain p where p: "hget (pairs (w_store w)) item = Some p" using bp by (auto simp: buy_planned_def)
        have cost: "calculate_buy_cost (w_store w) item (int q) = Some (bp_total_cost bp)"
          using bp by (simp add: buy_planned_def)
        have ids: "bp_user_uuid bp = u" "bp_qty bp = int q" using bp by (auto simp: buy_planned_def)
        obtain o2 where o2: "order_buy item (bp_qty bp) (bp_total_cost bp) (bp_user_uuid bp) = Some o2"
          using bp item by (auto simp: order_buy_def buy_planned_def finite_nonneg_def not_le_zero)
        obtain r2 w2 where w2: "advance (begin_withdrawal (bp_withdraw_plan bp)) w1 = (r2, w2)" by force
        have t1: "current_trade (w_store w1) = Some (Queued o1)" using w1 t by simp
        note e2 = advance_ledger [OF w2 t1]
        have t2: "current_trade (w_store w2) = Some (Withdrawing o1 (bp_withdraw_plan bp))" using e2(5) by simp
        then have nc2: "\<not> committed w2" by (simp add: committed_def)
        have m2: "money_kept w w2" using m1 e2(2) by (auto simp: tame_def intro: money_kept_trans)
        note before = money_kept_before [OF m2]
        have "buy_aborted u w2 w' \<or> buy_done u item (int q) (bp_total_cost bp) o1 w2 w'"
          using v(2) [unfolded Some option.case andthen_Ok [where m = "advance (begin_withdrawal (bp_withdraw_plan bp))", OF w2 [unfolded e2(1)]]]
        proof (cases rule: andthenE)
          case inner: (ok b w3)
          have b3: "books_kept w2 w3" using inner(1) quietD(3) by (auto elim!: attemptE)
          note e3 = books_keptD [OF b3]
          note m3 = money_kept_before [OF money_kept_books [OF b3]]
          show ?thesis
          proof (cases b)
            case (Inl e)
            have "buy_aborted u w3 w'"
              by (rule rollback_then_message [OF inner(2) [unfolded Inl sum.case]]) (use e3 t2 in \<open>auto simp: committed_def\<close>)
            then show ?thesis using m3 by blast
          next
            case (Inr c)
            have "buy_exchange player item bp w3 = (r, w')" using inner(2) Inr by simp
            from buy_exchange_spec [OF this item _ o2, of o1 "bp_withdraw_plan bp" p x] ids m3 e3 t2 p x w1 e2 show ?thesis by auto
          qed
        next
          case (err e)
          then show ?thesis by (auto elim: attemptE)
        next
          case panicked
          then have "books_kept w2 w'" using quietD(3) by (auto elim!: attemptE)
          then show ?thesis using tame_aborted [OF tame_books nc2] by blast
        qed
        then show ?thesis using before cost by blast
      qed
    next
      case (err e)
      then show ?thesis using validate_tame(1) tame_aborted nc by blast
    next
      case panicked
      then show ?thesis using validate_tame(1) tame_aborted nc by blast
    qed
  next
    case (err e)
    then show ?thesis using gate nc buy_abortedI [of w w] by (auto simp: money_kept_def)
  next
    case panicked
    then show ?thesis using gate by auto
  qed
qed

section \<open>The property\<close>


section \<open>A surplus is booked twice\<close>

lemma to_f64_int: "\<bar>n\<bar> \<le> 2 ^ 53 \<Longrightarrow> to_f64 (of_int n) = Fin (of_int n)"
  by (rule to_f64_representable [OF representable_of_int])

lemma overpaid_books:
  assumes "0 \<le> c" "c \<le> d" "d \<le> i32_max" "0 \<le> ph" "ph \<le> d" "\<bar>b\<bar> \<le> 2 ^ 50" "\<bar>res\<bar> \<le> 2 ^ 50"
  shows "buy_new_balance (Fin (of_int c)) d ph (Fin (of_int b)) = Fin (of_int (b + max (ph - c) 0))"
    "buy_new_reserve (Fin (of_int c)) d ph (Fin (of_int b)) (Fin (of_int res)) = Fin (of_int (res + ph))"
proof -
  have small: "\<bar>d\<bar> \<le> 2 ^ 53" "\<bar>ph\<bar> \<le> 2 ^ 53" "\<bar>c - d\<bar> \<le> 2 ^ 53" "\<bar>ph - c\<bar> \<le> 2 ^ 53" "\<bar>b + (ph - c)\<bar> \<le> 2 ^ 53" "\<bar>res + ph\<bar> \<le> 2 ^ 53"
    using assms by (auto simp: i32_max_def)
  have z: "f_of_int 0 = Fin 0" using f_of_int_exact [of 0] by simp
  note ints = f_of_int_exact [OF small(1)] f_of_int_exact [OF small(2)] z
    to_f64_int [OF small(2), simplified] to_f64_int [OF small(3), simplified] to_f64_int [OF small(4), simplified]
    to_f64_int [OF small(5), simplified] to_f64_int [OF small(6), simplified]
  have n: "\<not> f_lt (f_of_int 0) (f_sub (Fin (of_int c)) (f_of_int d))" using assms(2) by (simp add: ints)
  have s: "buy_surplus (Fin (of_int c)) d ph = Fin (of_int (max (ph - c) 0))"
    using n by (simp add: buy_surplus_def ints max_def)
  show "buy_new_balance (Fin (of_int c)) d ph (Fin (of_int b)) = Fin (of_int (b + max (ph - c) 0))"
    using n s by (simp add: buy_new_balance_def ints max_def)
  show "buy_new_reserve (Fin (of_int c)) d ph (Fin (of_int b)) (Fin (of_int res)) = Fin (of_int (res + ph))"
    using n by (simp add: buy_new_reserve_def buy_deduction_def ints)
qed


section \<open>Witnesses\<close>



end
