(* ===== verification/Commands.thy ===== *)
theory Commands
  imports Rollback
begin

text \<open>
  The parser of whispered commands, \<^verbatim>\<open>src/store/command.rs\<close>, with the validators of
  \<^verbatim>\<open>src/store/handlers/validation.rs\<close> and the number parsers of the standard library they use. A string is the list
  of its UTF-8 bytes; the error texts are the source's.
\<close>

section \<open>Splitting at white space\<close>

text \<open>The number of bytes of the white space character a valid UTF-8 string starts with, 0 if none.\<close>

definition ws_len :: "string \<Rightarrow> nat" where
  "ws_len cs =
     (case map code (take 3 cs) of
        [] \<Rightarrow> 0
      | b # bs \<Rightarrow>
          if 9 \<le> b \<and> b \<le> 13 \<or> b = 32 then 1
          else if b = 194 \<and> (case bs of c # _ \<Rightarrow> c = 133 \<or> c = 160 | [] \<Rightarrow> False) then 2
          else if (b, bs) = (225, [154, 128]) \<or> (b, bs) = (226, [129, 159]) \<or> (b, bs) = (227, [128, 128]) then 3
          else if b = 226 \<and> (case bs of [c, d] \<Rightarrow> c = 128 \<and> (128 \<le> d \<and> d \<le> 138 \<or> d = 168 \<or> d = 169 \<or> d = 175) | _ \<Rightarrow> False) then 3
          else 0)"

function split_tokens :: "string \<Rightarrow> string \<Rightarrow> string list" where
  "split_tokens cur [] = (if cur = [] then [] else [rev cur])"
| "split_tokens cur (c # cs) =
     (let k = ws_len (c # cs) in
      if k = 0 then split_tokens (c # cur) cs
      else (if cur = [] then [] else [rev cur]) @ split_tokens [] (drop k (c # cs)))"
  by pat_completeness auto
termination by (relation "measure (\<lambda>(_, cs). length cs)") auto

definition split_whitespace :: "string \<Rightarrow> string list" where
  "split_whitespace s = split_tokens [] s"

section \<open>Numbers\<close>

text \<open>\<open>str::parse\<close> of an unsigned integer of at most \<open>max_value\<close>.\<close>

definition parse_unsigned :: "nat \<Rightarrow> string \<Rightarrow> nat option" where
  "parse_unsigned max_value s =
     (let digits = (case s of c # cs \<Rightarrow> if c = CHR ''+'' then cs else s | [] \<Rightarrow> s) in
      if digits = [] then None
      else case parse_digits digits 0 of
        None \<Rightarrow> None
      | Some n \<Rightarrow> if n \<le> max_value then Some n else None)"

definition u32_top :: nat where
  "u32_top = 4294967295"

definition u64_top :: nat where
  "u64_top = 18446744073709551615"

text \<open>\<open>str::parse::<f64>\<close>: the exact decimal value is rounded to nearest. Digits of an exponent
  beyond 65536 are ignored, as in the library.\<close>

fun exponent_digits :: "nat \<Rightarrow> string \<Rightarrow> nat option" where
  "exponent_digits e [] = Some e"
| "exponent_digits e (c # cs) =
     (if is_ascii_digit c then exponent_digits (if e < 65536 then 10 * e + (code c - 48) else e) cs else None)"

definition parse_exponent :: "string \<Rightarrow> int option" where
  "parse_exponent s =
     (case s of
        [] \<Rightarrow> Some 0
      | c # cs \<Rightarrow>
          if c = CHR ''e'' \<or> c = CHR ''E'' then
            (let neg = (case cs of d # _ \<Rightarrow> d = CHR ''-'' | [] \<Rightarrow> False);
                 digits = (case cs of d # ds \<Rightarrow> if d = CHR ''-'' \<or> d = CHR ''+'' then ds else cs | [] \<Rightarrow> [])
             in if digits = [] then None
                else map_option (\<lambda>e. if neg then - int e else int e) (exponent_digits 0 digits))
          else None)"

definition decimal_value :: "nat \<Rightarrow> int \<Rightarrow> rat" where
  "decimal_value m e = (if 0 \<le> e then of_nat (m * 10 ^ nat e) else of_nat m / of_nat (10 ^ nat (- e)))"

definition parse_number :: "string \<Rightarrow> rat option" where
  "parse_number s =
     (let whole = takeWhile is_ascii_digit s;
          rest = dropWhile is_ascii_digit s;
          dotted = (case rest of c # _ \<Rightarrow> c = CHR ''.'' | [] \<Rightarrow> False);
          frac = (if dotted then takeWhile is_ascii_digit (tl rest) else []);
          rest' = (if dotted then dropWhile is_ascii_digit (tl rest) else rest)
      in if whole @ frac = [] then None
         else case parse_exponent rest' of
           None \<Rightarrow> None
         | Some e \<Rightarrow>
             map_option (\<lambda>m. decimal_value m (e - int (length frac))) (parse_digits (whole @ frac) 0))"

definition parse_f64 :: "string \<Rightarrow> f64 option" where
  "parse_f64 s =
     (let neg = (case s of c # _ \<Rightarrow> c = CHR ''-'' | [] \<Rightarrow> False);
          body = (case s of c # cs \<Rightarrow> if c = CHR ''-'' \<or> c = CHR ''+'' then cs else s | [] \<Rightarrow> []);
          low = map to_ascii_lowercase body
      in case parse_number body of
           Some v \<Rightarrow> Some (to_f64 (if neg then - v else v))
         | None \<Rightarrow>
             if low = ''nan'' then Some NaN
             else if low = ''inf'' \<or> low = ''infinity'' then Some (if neg then NegInf else PosInf)
             else None)"

section \<open>Validators\<close>

text \<open>The first character of a UTF-8 string, for messages that quote it.\<close>

definition first_char :: "string \<Rightarrow> string" where
  "first_char s = (case s of
     [] \<Rightarrow> []
   | c # _ \<Rightarrow> take (if code c < 128 then 1 else if code c < 224 then 2 else if code c < 240 then 3 else 4) s)"

definition item_char :: "char \<Rightarrow> bool" where
  "item_char c \<longleftrightarrow> is_ascii_alphanumeric c \<or> c = CHR ''_'' \<or> c = CHR '':''"

definition validate_item_name :: "string \<Rightarrow> string + item_id" where
  "validate_item_name item =
     (if item = [] then Inl ''Item name cannot be empty. Example: buy cobblestone 64''
      else case dropWhile item_char item of
        c # cs \<Rightarrow> Inl (''Item name contains invalid character '' @ [CHR 0x27] @ first_char (c # cs) @ [CHR 0x27] @
          ''. Use only ASCII letters, numbers, and underscores.'')
      | [] \<Rightarrow>
          (case item_new item of
             Inl _ \<Rightarrow> Inl ''Invalid item name. Example items: cobblestone, iron_ingot, diamond''
           | Inr i \<Rightarrow> Inr i))"

definition quoted :: "string \<Rightarrow> string" where
  "quoted s = [CHR 0x27] @ s @ [CHR 0x27]"

definition validate_quantity :: "string \<Rightarrow> string \<Rightarrow> string + nat" where
  "validate_quantity quantity_str operation =
     (case parse_unsigned u32_top quantity_str of
        None \<Rightarrow> Inl (''Invalid quantity '' @ quoted quantity_str @ ''. Please enter a whole number. Example: '' @
          operation @ '' cobblestone 64'')
      | Some quantity \<Rightarrow>
          if quantity = 0 then Inl (''Quantity must be at least 1. Example: '' @ operation @ '' cobblestone 64'')
          else if int quantity > MAX_TRANSACTION_QUANTITY then
            Inl (''Quantity '' @ dec quantity @ '' is too large. Maximum is '' @ dec (nat MAX_TRANSACTION_QUANTITY) @
              '' items per transaction.'')
          else Inr quantity)"

definition username_char :: "char \<Rightarrow> bool" where
  "username_char c \<longleftrightarrow> is_ascii_alphanumeric c \<or> c = CHR ''_''"

definition is_valid_username_shape :: "string \<Rightarrow> bool" where
  "is_valid_username_shape u \<longleftrightarrow> 3 \<le> length u \<and> length u \<le> 16 \<and> list_all username_char u"

definition validate_username :: "string \<Rightarrow> string + unit" where
  "validate_username u =
     (if length u < 3 \<or> length u > 16
        then Inl (''Invalid username '' @ quoted u @ ''. Minecraft usernames are 3-16 characters.'')
      else if \<not> list_all username_char u
        then Inl (''Invalid username '' @ quoted u @ ''. Usernames contain only ASCII letters, numbers, and underscores.'')
      else if \<not> is_valid_username_shape u
        then Inl (''Invalid username '' @ quoted u @ ''. Usernames contain only ASCII letters, numbers, and underscores.'')
      else Inr ())"

section \<open>Commands\<close>

datatype command =
    CmdBuy item_id nat
  | CmdSell item_id nat
  | CmdDeposit "f64 option"
  | CmdWithdraw "f64 option"
  | CmdPrice item_id "nat option"
  | CmdBalance "string option"
  | CmdPay string f64
  | CmdItems nat
  | CmdQueue nat
  | CmdCancel "64 word"
  | CmdStatus
  | CmdHelp "string option"
  | CmdAddItem item_id nat
  | CmdRemoveItem item_id nat
  | CmdAddCurrency item_id f64
  | CmdRemoveCurrency item_id f64

text \<open>The question mark after a validator.\<close>

definition bind_ok :: "string + 'a \<Rightarrow> ('a \<Rightarrow> string + 'b) \<Rightarrow> string + 'b" where
  "bind_ok r k = (case r of Inl e \<Rightarrow> Inl e | Inr a \<Rightarrow> k a)"

definition parse_item_quantity :: "string list \<Rightarrow> string \<Rightarrow> string + item_id \<times> nat" where
  "parse_item_quantity parts verb =
     (if length parts < 3
        then Inl (''Usage: '' @ verb @ '' <item> <quantity>. Example: '' @ verb @ '' cobblestone 64'')
      else bind_ok (validate_item_name (parts ! 1)) (\<lambda>item.
           bind_ok (validate_quantity (parts ! 2) verb) (\<lambda>quantity. Inr (item, quantity))))"

definition parse_item_amount :: "string list \<Rightarrow> string \<Rightarrow> string + item_id \<times> f64" where
  "parse_item_amount parts verb =
     (if length parts < 3 then Inl (''Usage: '' @ verb @ '' <item> <amount>'')
      else bind_ok (validate_item_name (parts ! 1)) (\<lambda>item.
        case parse_f64 (parts ! 2) of
          None \<Rightarrow> Inl (''Invalid amount '' @ quoted (parts ! 2) @ ''. Please enter a number.'')
        | Some amount \<Rightarrow>
            if \<not> f_is_finite amount then Inl ''Amount must be a finite number.''
            else if f_le amount (f_of_int 0) then Inl ''Amount must be positive''
            else if f_lt (f_of_int 1000000) amount then Inl ''Amount too large. Maximum is 1,000,000.''
            else Inr (item, amount)))"

definition parse_optional_amount :: "string list \<Rightarrow> string \<Rightarrow> string + f64 option" where
  "parse_optional_amount parts verb =
     (if length parts < 2 then Inr None
      else case parse_f64 (parts ! 1) of
        None \<Rightarrow> Inl (''Invalid amount '' @ quoted (parts ! 1) @ ''. Use a number. Example: '' @ verb @ '' 64'')
      | Some amt \<Rightarrow>
          if \<not> f_is_finite amt \<or> f_le amt (f_of_int 0) then Inl ''Amount must be positive''
          else if f_lt (f_of_int MAX_TRADE_DIAMONDS) amt
            then Inl (''Amount too large. Maximum is '' @ dec (nat MAX_TRADE_DIAMONDS) @ '' diamonds (12 stacks).'')
          else Inr (Some amt))"

definition parse_price :: "string list \<Rightarrow> string + command" where
  "parse_price parts =
     (if length parts < 2 then Inl ''Usage: price <item> [quantity]. Example: price cobblestone 64''
      else bind_ok (validate_item_name (parts ! 1)) (\<lambda>item.
        if length parts \<ge> 3 then
          (case parse_unsigned u32_top (parts ! 2) of
             Some q \<Rightarrow>
               if q > 0 then Inr (CmdPrice item (Some q))
               else Inl (''Invalid quantity '' @ quoted (parts ! 2) @ ''. Use a positive number.'')
           | None \<Rightarrow> Inl (''Invalid quantity '' @ quoted (parts ! 2) @ ''. Use a positive number.''))
        else Inr (CmdPrice item None)))"

definition parse_balance :: "string list \<Rightarrow> string + command" where
  "parse_balance parts =
     (if length parts \<ge> 2
      then bind_ok (validate_username (parts ! 1)) (\<lambda>_. Inr (CmdBalance (Some (parts ! 1))))
      else Inr (CmdBalance None))"

definition parse_pay :: "string list \<Rightarrow> string + command" where
  "parse_pay parts =
     (if length parts < 3 then Inl ''Usage: pay <player> <amount>. Example: pay Steve 10.5''
      else bind_ok (validate_username (parts ! 1)) (\<lambda>_.
        case parse_f64 (parts ! 2) of
          None \<Rightarrow> Inl (''Invalid amount '' @ quoted (parts ! 2) @ ''. Please enter a number. Example: pay Steve 10.5'')
        | Some amount \<Rightarrow>
            if \<not> f_is_finite amount \<or> f_le amount (f_of_int 0) then Inl ''Amount must be positive. Example: pay Steve 10.5''
            else if f_lt (f_of_int 1000000) amount then Inl ''Amount too large. Maximum is 1,000,000 per payment.''
            else Inr (CmdPay (parts ! 1) amount)))"

definition parse_page :: "string list \<Rightarrow> nat" where
  "parse_page parts =
     (if length parts \<ge> 2
      then max (case parse_unsigned u64_top (parts ! 1) of Some n \<Rightarrow> n | None \<Rightarrow> 1) 1 else 1)"

definition parse_cancel :: "string list \<Rightarrow> string + command" where
  "parse_cancel parts =
     (if length parts < 2 then Inl (''Usage: cancel <order_id>. Use '' @ quoted ''queue'' @ '' to see your orders.'')
      else case parse_unsigned u64_top (dropWhile (\<lambda>c. c = CHR ''#'') (parts ! 1)) of
        None \<Rightarrow> Inl (''Invalid order ID '' @ quoted (parts ! 1) @ ''. Use: cancel <order_id>'')
      | Some n \<Rightarrow> Inr (CmdCancel (of_nat n)))"

definition parse_command :: "string \<Rightarrow> string + command" where
  "parse_command input =
     (let parts = split_whitespace input in
      case parts of
        [] \<Rightarrow> Inl (''Use '' @ quoted ''help'' @ '' to see available commands.'')
      | verb # args \<Rightarrow>
          if verb = ''buy'' \<or> verb = ''b'' then bind_ok (parse_item_quantity parts ''buy'') (\<lambda>(i, q). Inr (CmdBuy i q))
          else if verb = ''sell'' \<or> verb = ''s'' then bind_ok (parse_item_quantity parts ''sell'') (\<lambda>(i, q). Inr (CmdSell i q))
          else if verb = ''deposit'' \<or> verb = ''d'' then bind_ok (parse_optional_amount parts ''deposit'') (\<lambda>a. Inr (CmdDeposit a))
          else if verb = ''withdraw'' \<or> verb = ''w'' then bind_ok (parse_optional_amount parts ''withdraw'') (\<lambda>a. Inr (CmdWithdraw a))
          else if verb = ''price'' \<or> verb = ''p'' then parse_price parts
          else if verb = ''balance'' \<or> verb = ''bal'' then parse_balance parts
          else if verb = ''pay'' then parse_pay parts
          else if verb = ''items'' then Inr (CmdItems (parse_page parts))
          else if verb = ''queue'' \<or> verb = ''q'' then Inr (CmdQueue (parse_page parts))
          else if verb = ''cancel'' \<or> verb = ''c'' then parse_cancel parts
          else if verb = ''status'' then Inr CmdStatus
          else if verb = ''help'' \<or> verb = ''h'' then Inr (CmdHelp (case args of [] \<Rightarrow> None | t # _ \<Rightarrow> Some t))
          else if verb = ''additem'' \<or> verb = ''ai'' then bind_ok (parse_item_quantity parts ''additem'') (\<lambda>(i, q). Inr (CmdAddItem i q))
          else if verb = ''removeitem'' \<or> verb = ''ri'' then bind_ok (parse_item_quantity parts ''removeitem'') (\<lambda>(i, q). Inr (CmdRemoveItem i q))
          else if verb = ''addcurrency'' \<or> verb = ''ac'' then bind_ok (parse_item_amount parts ''addcurrency'') (\<lambda>(i, a). Inr (CmdAddCurrency i a))
          else if verb = ''removecurrency'' \<or> verb = ''rc'' then bind_ok (parse_item_amount parts ''removecurrency'') (\<lambda>(i, a). Inr (CmdRemoveCurrency i a))
          else Inl (''Unknown command '' @ quoted verb @ ''. Use '' @ quoted ''help'' @ '' to see available commands.''))"

section \<open>Every parsed command is sound\<close>

definition positive_upto :: "int \<Rightarrow> f64 \<Rightarrow> bool" where
  "positive_upto n x \<longleftrightarrow> f_is_finite x \<and> \<not> f_le x (f_of_int 0) \<and> \<not> f_lt (f_of_int n) x"

definition quantity_ok :: "nat \<Rightarrow> bool" where
  "quantity_ok q \<longleftrightarrow> 0 < q \<and> int q \<le> MAX_TRANSACTION_QUANTITY"

fun command_ok :: "command \<Rightarrow> bool" where
  "command_ok (CmdBuy i q) = (is_canonical i \<and> quantity_ok q)"
| "command_ok (CmdSell i q) = (is_canonical i \<and> quantity_ok q)"
| "command_ok (CmdDeposit a) = (case a of None \<Rightarrow> True | Some x \<Rightarrow> positive_upto MAX_TRADE_DIAMONDS x)"
| "command_ok (CmdWithdraw a) = (case a of None \<Rightarrow> True | Some x \<Rightarrow> positive_upto MAX_TRADE_DIAMONDS x)"
| "command_ok (CmdPrice i q) = (is_canonical i \<and> (case q of None \<Rightarrow> True | Some n \<Rightarrow> 0 < n \<and> n \<le> u32_top))"
| "command_ok (CmdBalance t) = (case t of None \<Rightarrow> True | Some u \<Rightarrow> is_valid_username_shape u)"
| "command_ok (CmdPay u x) = (is_valid_username_shape u \<and> positive_upto 1000000 x)"
| "command_ok (CmdItems p) = (1 \<le> p \<and> p \<le> u64_top)"
| "command_ok (CmdQueue p) = (1 \<le> p \<and> p \<le> u64_top)"
| "command_ok (CmdCancel _) = True"
| "command_ok CmdStatus = True"
| "command_ok (CmdHelp _) = True"
| "command_ok (CmdAddItem i q) = (is_canonical i \<and> quantity_ok q)"
| "command_ok (CmdRemoveItem i q) = (is_canonical i \<and> quantity_ok q)"
| "command_ok (CmdAddCurrency i x) = (is_canonical i \<and> positive_upto 1000000 x)"
| "command_ok (CmdRemoveCurrency i x) = (is_canonical i \<and> positive_upto 1000000 x)"

lemma bind_ok_Inr [simp]: "bind_ok r k = Inr b \<longleftrightarrow> (\<exists>a. r = Inr a \<and> k a = Inr b)"
  by (auto simp: bind_ok_def split: sum.splits)

lemma parse_unsigned_le: "parse_unsigned m s = Some n \<Longrightarrow> n \<le> m"
  by (auto simp: parse_unsigned_def Let_def split: if_splits option.splits)

lemma item_name_ok: "validate_item_name s = Inr i \<Longrightarrow> is_canonical i"
  using item_new_canonical by (auto simp: validate_item_name_def split: if_splits list.splits sum.splits)

lemma username_ok: "validate_username u = Inr x \<longleftrightarrow> is_valid_username_shape u"
  by (auto simp: validate_username_def is_valid_username_shape_def)

lemma quantity_parsed_ok: "validate_quantity s v = Inr q \<Longrightarrow> quantity_ok q"
  by (auto simp: validate_quantity_def quantity_ok_def split: option.splits if_splits)

lemma item_quantity_ok: "parse_item_quantity ps v = Inr (i, q) \<Longrightarrow> is_canonical i \<and> quantity_ok q"
  by (auto simp: parse_item_quantity_def item_name_ok quantity_parsed_ok split: if_splits)

lemma page_ok: "1 \<le> parse_page ps" "Suc 0 \<le> parse_page ps" "parse_page ps \<le> u64_top"
  using parse_unsigned_le by (auto simp: parse_page_def u64_top_def split: option.splits)

text \<open>A branch of a conditional, without its condition.\<close>

lemma if_InrE: "(if b then x else y) = Inr c \<Longrightarrow> (x = Inr c \<Longrightarrow> P) \<Longrightarrow> (y = Inr c \<Longrightarrow> P) \<Longrightarrow> P"
  by (cases b) auto

lemma item_amount_ok: "parse_item_amount ps v = Inr (i, x) \<Longrightarrow> is_canonical i \<and> positive_upto 1000000 x"
  unfolding parse_item_amount_def positive_upto_def bind_ok_Inr
  by (simp del: f_of_int_i32 split: if_split_asm option.split_asm) (blast dest: item_name_ok)

lemma optional_amount_ok:
  "parse_optional_amount ps v = Inr a \<Longrightarrow> (case a of None \<Rightarrow> True | Some x \<Rightarrow> positive_upto MAX_TRADE_DIAMONDS x)"
  unfolding parse_optional_amount_def positive_upto_def
  by (elim if_InrE) (auto simp del: f_of_int_i32 split: if_split_asm option.split option.split_asm)

lemma price_ok: "parse_price ps = Inr c \<Longrightarrow> command_ok c"
  unfolding parse_price_def
  by (elim if_InrE) (auto dest: item_name_ok parse_unsigned_le split: if_split_asm option.split_asm)

lemma balance_ok: "parse_balance ps = Inr c \<Longrightarrow> command_ok c"
  unfolding parse_balance_def by (elim if_InrE) (auto simp: username_ok)

lemma pay_ok: "parse_pay ps = Inr c \<Longrightarrow> command_ok c"
  unfolding parse_pay_def
  by (elim if_InrE) (auto simp: username_ok positive_upto_def simp del: f_of_int_i32 split: if_split_asm option.split_asm)

lemma cancel_ok: "parse_cancel ps = Inr c \<Longrightarrow> command_ok c"
  unfolding parse_cancel_def by (elim if_InrE) (auto split: option.split_asm)

lemmas branches_ok = price_ok balance_ok pay_ok cancel_ok

text \<open>C28: Whatever a player whispers, a command that is accepted is sound: items are canonical identifiers, quantities
  lie between 1 and the transaction cap, amounts are finite, positive and at most the cap of their command, names have
  the shape of a Minecraft name and pages start at 1.\<close>

theorem parse_command_sound:
  "parse_command input = Inr c \<Longrightarrow> command_ok c"
proof -
  assume "parse_command input = Inr c"
  then obtain verb args where "split_whitespace input = verb # args"
    by (cases "split_whitespace input") (auto simp: parse_command_def)
  with \<open>parse_command input = Inr c\<close> show ?thesis
    unfolding parse_command_def Let_def
    by (simp only: list.case)
      (elim if_InrE; auto simp: page_ok dest: branches_ok item_quantity_ok item_amount_ok optional_amount_ok)
qed

section \<open>Rendering and parsing\<close>

text \<open>The text a player types for a command, amounts as whole numbers.\<close>

definition whole_text :: "f64 \<Rightarrow> string" where
  "whole_text x = dec (nat (f_to_i32 x))"

definition whole_amount :: "f64 \<Rightarrow> bool" where
  "whole_amount x \<longleftrightarrow> x = f_of_int (f_to_i32 x) \<and> 0 \<le> f_to_i32 x"

fun command_words :: "command \<Rightarrow> string list" where
  "command_words (CmdBuy i q) = [''buy'', i, dec q]"
| "command_words (CmdSell i q) = [''sell'', i, dec q]"
| "command_words (CmdDeposit a) = ''deposit'' # (case a of None \<Rightarrow> [] | Some x \<Rightarrow> [whole_text x])"
| "command_words (CmdWithdraw a) = ''withdraw'' # (case a of None \<Rightarrow> [] | Some x \<Rightarrow> [whole_text x])"
| "command_words (CmdPrice i q) = [''price'', i] @ (case q of None \<Rightarrow> [] | Some n \<Rightarrow> [dec n])"
| "command_words (CmdBalance t) = ''balance'' # (case t of None \<Rightarrow> [] | Some u \<Rightarrow> [u])"
| "command_words (CmdPay u x) = [''pay'', u, whole_text x]"
| "command_words (CmdItems p) = [''items'', dec p]"
| "command_words (CmdQueue p) = [''queue'', dec p]"
| "command_words (CmdCancel k) = [''cancel'', dec (unat k)]"
| "command_words CmdStatus = [''status'']"
| "command_words (CmdHelp t) = ''help'' # (case t of None \<Rightarrow> [] | Some u \<Rightarrow> [u])"
| "command_words (CmdAddItem i q) = [''additem'', i, dec q]"
| "command_words (CmdRemoveItem i q) = [''removeitem'', i, dec q]"
| "command_words (CmdAddCurrency i x) = [''addcurrency'', i, whole_text x]"
| "command_words (CmdRemoveCurrency i x) = [''removecurrency'', i, whole_text x]"

text \<open>A word of printable ASCII characters is one token.\<close>

definition word_char :: "char \<Rightarrow> bool" where
  "word_char c \<longleftrightarrow> 33 \<le> code c \<and> code c < 128"

definition is_word :: "string \<Rightarrow> bool" where
  "is_word s \<longleftrightarrow> s \<noteq> [] \<and> list_all word_char s"

text \<open>A command with such a text.\<close>

fun typeable :: "command \<Rightarrow> bool" where
  "typeable (CmdDeposit (Some x)) = whole_amount x"
| "typeable (CmdWithdraw (Some x)) = whole_amount x"
| "typeable (CmdPay _ x) = whole_amount x"
| "typeable (CmdAddCurrency _ x) = whole_amount x"
| "typeable (CmdRemoveCurrency _ x) = whole_amount x"
| "typeable (CmdHelp (Some t)) = is_word t"
| "typeable _ = True"

lemma ws_len_word: "word_char c \<Longrightarrow> ws_len (c # cs) = 0"
  by (auto simp: ws_len_def word_char_def split: list.splits)

lemma ws_len_space: "ws_len (CHR '' '' # cs) = 1"
  by (simp add: ws_len_def code_def)

lemma split_word: "list_all word_char s \<Longrightarrow> split_tokens cur (s @ cs) = split_tokens (rev s @ cur) cs"
  by (induction s arbitrary: cur) (auto simp: ws_len_word)

lemma split_words:
  "list_all is_word ws \<Longrightarrow> split_whitespace (join_with '' '' ws) = ws"
proof (induction ws rule: induct_list012)
  case (2 x)
  then show ?case using split_word [of x "[]" "[]"] by (auto simp: split_whitespace_def is_word_def)
next
  case (3 x y zs)
  then have x: "list_all word_char x" "x \<noteq> []" and ih: "split_whitespace (join_with '' '' (y # zs)) = y # zs"
    by (auto simp: is_word_def)
  have "split_whitespace (x @ '' '' @ join_with '' '' (y # zs)) = x # split_tokens [] (join_with '' '' (y # zs))"
    using x split_word [OF x(1), of "[]" "'' '' @ join_with '' '' (y # zs)"]
    by (simp add: split_whitespace_def ws_len_space)
  then show ?case using ih by (simp add: split_whitespace_def)
qed (simp add: split_whitespace_def)

lemma parse_digits_append:
  "parse_digits (xs @ ys) n = (case parse_digits xs n of None \<Rightarrow> None | Some m \<Rightarrow> parse_digits ys m)"
  by (induction xs arbitrary: n) auto

lemma digit_char: "(n::nat) < 10 \<Longrightarrow> code (char_of (48 + n)) = 48 + n"
  by (rule code_char_of) simp

lemma digit_is_digit: "(n::nat) < 10 \<Longrightarrow> is_ascii_digit (char_of (48 + n))"
  using digit_char by (simp add: is_ascii_digit_def)

lemma parse_digits_dec: "parse_digits (dec n) 0 = Some n"
proof (induction n rule: dec.induct)
  case (1 n)
  then show ?case
    using digit_char [of n] digit_char [of "n mod 10"]
    by (subst dec.simps) (auto simp: is_ascii_digit_def parse_digits_append)
qed

lemma dec_digits: "dec n \<noteq> [] \<and> list_all is_ascii_digit (dec n)"
proof (induction n rule: dec.induct)
  case (1 n)
  then show ?case
    using digit_is_digit [of n] digit_is_digit [of "n mod 10"] by (subst (1 2) dec.simps) auto
qed

lemma dec_head: obtains c cs where "dec n = c # cs" "is_ascii_digit c"
  using dec_digits [of n] by (cases "dec n") auto

lemma parse_unsigned_dec: "n \<le> m \<Longrightarrow> parse_unsigned m (dec n) = Some n"
proof -
  assume "n \<le> m"
  obtain c cs where c: "dec n = c # cs" "is_ascii_digit c" by (rule dec_head)
  have "c \<noteq> CHR ''+''" using c(2) by (auto simp: is_ascii_digit_def code_def)
  then show ?thesis using \<open>n \<le> m\<close> parse_digits_dec [of n] c by (auto simp: parse_unsigned_def)
qed

lemma parse_f64_dec: "parse_f64 (dec n) = Some (to_f64 (of_nat n))"
proof -
  obtain c cs where c: "dec n = c # cs" "is_ascii_digit c" by (rule dec_head)
  have ne: "c \<noteq> CHR ''-''" "c \<noteq> CHR ''+''" using c(2) by (auto simp: is_ascii_digit_def code_def)
  have all: "takeWhile is_ascii_digit (dec n) = dec n" "dropWhile is_ascii_digit (dec n) = []"
    using dec_digits [of n] by (auto simp: takeWhile_eq_all_conv dropWhile_eq_Nil_conv list_all_iff)
  have "parse_number (dec n) = Some (of_nat n)"
    unfolding parse_number_def Let_def all using dec_digits [of n] parse_digits_dec [of n]
    by (simp add: parse_exponent_def decimal_value_def)
  then show ?thesis using ne c by (simp add: parse_f64_def)
qed

lemma parse_f64_whole: "whole_amount x \<Longrightarrow> parse_f64 (whole_text x) = Some x"
  by (auto simp: whole_amount_def whole_text_def parse_f64_dec f_of_int_def)

lemma word_dec: "is_word (dec n)"
  using dec_digits [of n] by (auto simp: is_word_def word_char_def is_ascii_digit_def list_all_iff)

lemma word_item: "is_canonical i \<Longrightarrow> is_word i"
  by (auto simp: is_canonical_def is_word_def word_char_def list_all_iff is_ascii_lowercase_def is_ascii_digit_def code_def)

lemma word_username: "is_valid_username_shape u \<Longrightarrow> is_word u"
  by (fastforce simp: is_valid_username_shape_def is_word_def word_char_def list_all_iff username_char_def
      is_ascii_alphanumeric_def is_ascii_lowercase_def is_ascii_uppercase_def is_ascii_digit_def code_def)

lemma validate_canonical: "is_canonical i \<Longrightarrow> validate_item_name i = Inr i"
proof -
  assume c: "is_canonical i"
  then have "list_all item_char i"
    by (auto simp: is_canonical_def list_all_iff item_char_def is_ascii_alphanumeric_def)
  then have d: "dropWhile item_char i = []" by (simp only: dropWhile_eq_Nil_conv list_all_iff)
  have "i \<noteq> []" using c by (simp add: is_canonical_def)
  then show ?thesis unfolding validate_item_name_def d using item_new_fixed [OF c] by simp
qed

lemma validate_quantity_dec: "quantity_ok q \<Longrightarrow> validate_quantity (dec q) v = Inr q"
  using parse_unsigned_dec [of q u32_top]
  by (simp add: quantity_ok_def validate_quantity_def u32_top_def MAX_TRANSACTION_QUANTITY_def)

lemma word_verbs:
  "is_word ''buy''" "is_word ''sell''" "is_word ''deposit''" "is_word ''withdraw''" "is_word ''price''" "is_word ''balance''"
  "is_word ''pay''" "is_word ''items''" "is_word ''queue''" "is_word ''cancel''" "is_word ''status''" "is_word ''help''"
  "is_word ''additem''" "is_word ''removeitem''" "is_word ''addcurrency''" "is_word ''removecurrency''"
  by (simp_all add: is_word_def word_char_def code_def)

lemma words_of_command: "command_ok c \<Longrightarrow> typeable c \<Longrightarrow> list_all is_word (command_words c)"
  by (cases c) (auto simp: word_item word_dec word_username word_verbs whole_text_def split: option.splits)

lemma username_accepted: "is_valid_username_shape u \<Longrightarrow> validate_username u = Inr ()"
  by (simp add: username_ok)

lemma amount_parsed:
  assumes "positive_upto n x" "whole_amount x"
  shows "parse_f64 (whole_text x) = Some x" "f_is_finite x" "\<not> f_le x (f_of_int 0)" "\<not> f_lt (f_of_int n) x"
  using assms parse_f64_whole by (simp_all add: positive_upto_def)

lemma item_quantity_words: "is_canonical i \<Longrightarrow> quantity_ok q \<Longrightarrow> parse_item_quantity [w, i, dec q] v = Inr (i, q)"
  by (simp add: parse_item_quantity_def validate_canonical validate_quantity_dec)

lemma item_amount_words:
  "is_canonical i \<Longrightarrow> positive_upto 1000000 x \<Longrightarrow> whole_amount x \<Longrightarrow> parse_item_amount [w, i, whole_text x] v = Inr (i, x)"
  using amount_parsed [of 1000000 x] by (simp add: parse_item_amount_def validate_canonical bind_ok_def del: f_of_int_i32)

lemma optional_amount_words:
  "positive_upto MAX_TRADE_DIAMONDS x \<Longrightarrow> whole_amount x \<Longrightarrow> parse_optional_amount [w, whole_text x] v = Inr (Some x)"
  "parse_optional_amount [w] v = Inr None"
  using amount_parsed [of MAX_TRADE_DIAMONDS x] by (simp_all add: parse_optional_amount_def del: f_of_int_i32)

lemma page_words: "1 \<le> p \<Longrightarrow> p \<le> u64_top \<Longrightarrow> parse_page [w, dec p] = p"
  by (simp add: parse_page_def parse_unsigned_dec)

lemma price_words:
  "is_canonical i \<Longrightarrow> parse_price [w, i] = Inr (CmdPrice i None)"
  "is_canonical i \<Longrightarrow> 0 < n \<and> n \<le> u32_top \<Longrightarrow> parse_price [w, i, dec n] = Inr (CmdPrice i (Some n))"
  by (simp_all add: parse_price_def validate_canonical parse_unsigned_dec bind_ok_def)

lemma pay_words:
  "is_valid_username_shape u \<Longrightarrow> positive_upto 1000000 x \<Longrightarrow> whole_amount x \<Longrightarrow> parse_pay [w, u, whole_text x] = Inr (CmdPay u x)"
  using amount_parsed [of 1000000 x] by (simp add: parse_pay_def username_accepted bind_ok_def del: f_of_int_i32)

lemma balance_words:
  "parse_balance [w] = Inr (CmdBalance None)"
  "is_valid_username_shape u \<Longrightarrow> parse_balance [w, u] = Inr (CmdBalance (Some u))"
  by (simp_all add: parse_balance_def username_accepted bind_ok_def)

lemma cancel_words: "parse_cancel [w, dec (unat k)] = Inr (CmdCancel k)"
proof -
  obtain c cs where c: "dec (unat k) = c # cs" "is_ascii_digit c" by (rule dec_head)
  have "c \<noteq> CHR ''#''" using c(2) by (auto simp: is_ascii_digit_def code_def)
  then have "dropWhile (\<lambda>c. c = CHR ''#'') (dec (unat k)) = dec (unat k)" using c by simp
  moreover have "(unsigned k :: nat) < 2 ^ LENGTH(64)" by (rule unsigned_less)
  then have "unat k \<le> u64_top" by (simp add: u64_top_def)
  ultimately show ?thesis by (simp add: parse_cancel_def parse_unsigned_dec)
qed

lemmas words_parsed = item_quantity_words item_amount_words optional_amount_words page_words price_words pay_words
  balance_words cancel_words

lemma command_text_parsed:
  assumes "command_ok c" "typeable c"
  shows "parse_command (join_with '' '' (command_words c)) = Inr c"
proof -
  have "split_whitespace (join_with '' '' (command_words c)) = command_words c"
    by (rule split_words [OF words_of_command [OF assms]])
  then show ?thesis unfolding parse_command_def Let_def using assms
    by (cases c) (simp_all add: words_parsed bind_ok_def split: option.splits)
qed

lemma sample_item_ok: "quantity_ok 64" "is_canonical ''iron_ingot''"
  by (simp add: quantity_ok_def MAX_TRANSACTION_QUANTITY_def) code_simp

theorem parse_command_sound_witness:
  "parse_command ''buy iron_ingot 64'' = Inr (CmdBuy ''iron_ingot'' 64) \<and> command_ok (CmdBuy ''iron_ingot'' 64)"
proof -
  have "dec 64 = ''64''" by code_simp
  then have p: "parse_command ''buy iron_ingot 64'' = Inr (CmdBuy ''iron_ingot'' 64)"
    using command_text_parsed [of "CmdBuy ''iron_ingot'' 64"] by (simp add: sample_item_ok)
  show ?thesis using p parse_command_sound [OF p] by (rule conjI)
qed

text \<open>C29: Every command can be given: the text of a sound command, its words joined by spaces with whole-number amounts,
  parses back to exactly that command.\<close>

theorem parse_command_roundtrip:
  assumes "command_ok c" "typeable c"
  shows "parse_command (join_with '' '' (command_words c)) = Inr c"
  using assms by (rule command_text_parsed)

theorem parse_command_roundtrip_witness:
  "parse_command (join_with '' '' (command_words (CmdBuy ''iron_ingot'' 64))) = Inr (CmdBuy ''iron_ingot'' 64)"
  by (rule parse_command_roundtrip) (simp_all add: sample_item_ok)

section \<open>Aliases\<close>

definition aliases :: "(string \<times> string) list" where
  "aliases = [(''b'', ''buy''), (''s'', ''sell''), (''d'', ''deposit''), (''w'', ''withdraw''), (''p'', ''price''),
     (''bal'', ''balance''), (''q'', ''queue''), (''c'', ''cancel''), (''h'', ''help''), (''ai'', ''additem''),
     (''ri'', ''removeitem''), (''ac'', ''addcurrency''), (''rc'', ''removecurrency'')]"

text \<open>The parsers of the arguments do not look at the verb.\<close>

lemma nth_args: "(v # args) ! 1 = args ! 0" "(v # args) ! 2 = args ! 1"
  by simp_all

lemma parts_verb:
  "v \<noteq> [] \<Longrightarrow> parse_item_quantity (v # args) x = parse_item_quantity ([] # args) x"
  "v \<noteq> [] \<Longrightarrow> parse_item_amount (v # args) x = parse_item_amount ([] # args) x"
  "v \<noteq> [] \<Longrightarrow> parse_optional_amount (v # args) x = parse_optional_amount ([] # args) x"
  "v \<noteq> [] \<Longrightarrow> parse_price (v # args) = parse_price ([] # args)"
  "v \<noteq> [] \<Longrightarrow> parse_balance (v # args) = parse_balance ([] # args)"
  "v \<noteq> [] \<Longrightarrow> parse_page (v # args) = parse_page ([] # args)"
  "v \<noteq> [] \<Longrightarrow> parse_cancel (v # args) = parse_cancel ([] # args)"
  unfolding parse_item_quantity_def parse_item_amount_def parse_optional_amount_def parse_price_def parse_balance_def
    parse_page_def parse_cancel_def nth_args list.size
  by (rule refl)+

lemma parse_split: "split_whitespace s = split_whitespace t \<Longrightarrow> parse_command s = parse_command t"
  by (simp add: parse_command_def)

lemma split_first: "is_word a \<Longrightarrow> split_whitespace (a @ '' '' @ rest) = a # split_whitespace rest"
  using split_word [of a "[]" "'' '' @ rest"] by (auto simp: is_word_def split_whitespace_def ws_len_space)

text \<open>A short verb means exactly what its long form means: whatever follows it, the two texts parse to the same
  command or are refused with the same message.\<close>

theorem alias_equivalent:
  assumes "(a, l) \<in> set aliases"
  shows "parse_command (a @ '' '' @ rest) = parse_command (l @ '' '' @ rest)"
proof -
  have w: "is_word a" "is_word l" using assms
    by (auto simp: aliases_def is_word_def word_char_def code_def)
  note parts = split_first [OF w(1), of rest] split_first [OF w(2), of rest]
  show ?thesis
    unfolding parse_command_def Let_def parts list.case
    using assms unfolding aliases_def list.set insert_iff prod.inject empty_iff
    by (elim disjE conjE FalseE; hypsubst; simp add: parts_verb)
qed

theorem alias_equivalent_witness:
  "parse_command ''b iron 64'' = parse_command ''buy iron 64''"
proof -
  have "(''b'', ''buy'') \<in> set aliases" by (simp add: aliases_def)
  from alias_equivalent [OF this, of "''iron 64''"] show ?thesis by simp
qed

end
