(* ===== verification/Texts.thy ===== *)
theory Texts
  imports Order_Processing Commands
begin

text \<open>
  The texts the quick commands answer with: the formatting of a number with a fixed number of decimals,
  the descriptions of \<^verbatim>\<open>src/store/queue.rs\<close> and \<^verbatim>\<open>src/store/trade_state.rs\<close>, the queue's refusals and the cooldown
  notice of \<^verbatim>\<open>src/store/handlers/player.rs\<close>.
\<close>

section \<open>Numbers\<close>

text \<open>\<open>{:.d}\<close>: the exact value, rounded half to even. A negative zero is not a value of the model.\<close>

definition pad_zeros :: "nat \<Rightarrow> string \<Rightarrow> string" where
  "pad_zeros d s = replicate (d - length s) (CHR ''0'') @ s"

definition fmt_fixed :: "nat \<Rightarrow> f64 \<Rightarrow> string" where
  "fmt_fixed d x = (case x of
      NaN \<Rightarrow> ''NaN''
    | PosInf \<Rightarrow> ''inf''
    | NegInf \<Rightarrow> ''-inf''
    | Fin r \<Rightarrow> (let n = nat (round_half_even (\<bar>r\<bar> * 10 ^ d)) in
        (if r < 0 then ''-'' else []) @ dec (n div 10 ^ d) @
        (if d = 0 then [] else ''.'' @ pad_zeros d (dec (n mod 10 ^ d)))))"

text \<open>\<open>x as u64\<close>.\<close>

fun f_to_u64 :: "f64 \<Rightarrow> nat" where
  "f_to_u64 (Fin a) = min u64_top (nat (trunc_rat a))"
| "f_to_u64 PosInf = u64_top"
| "f_to_u64 NegInf = 0"
| "f_to_u64 NaN = 0"

definition as_secs_f64 :: "duration \<Rightarrow> f64" where
  "as_secs_f64 d = f_add (f_of_int (int (d div 1000000000))) (f_div (f_of_int (int (d mod 1000000000))) (f_of_int 1000000000))"

section \<open>Orders and trades\<close>

definition description :: "queued_order \<Rightarrow> string" where
  "description o1 = (case qo_order_type o1 of
      QBuy \<Rightarrow> ''buy '' @ qo_item o1 @ '' '' @ dec (qo_quantity o1)
    | QSell \<Rightarrow> ''sell '' @ qo_item o1 @ '' '' @ dec (qo_quantity o1)
    | QDeposit (Some amt) \<Rightarrow> ''deposit '' @ fmt_fixed 2 amt
    | QDeposit None \<Rightarrow> ''deposit (flexible)''
    | QWithdraw (Some amt) \<Rightarrow> ''withdraw '' @ fmt_fixed 2 amt
    | QWithdraw None \<Rightarrow> ''withdraw (full balance)'')"

fun trade_display :: "trade_state \<Rightarrow> string" where
  "trade_display (Queued o1) = ''Queued: '' @ description o1"
| "trade_display (Withdrawing o1 _) = ''Withdrawing for: '' @ description o1"
| "trade_display (Trading o1 _) = ''Trading with player: '' @ description o1"
| "trade_display (Depositing o1 _ _) = ''Depositing after: '' @ description o1"
| "trade_display (Committed c) = ''Committed: '' @ dec_i32 (ct_quantity c) @ ''x '' @ ct_item c @ '' ('' @
     fmt_fixed 2 (ct_currency_amount c) @ '' diamonds)''"
| "trade_display (RolledBack o1 reason) = ''Rolled back '' @ description o1 @ '': '' @ reason"

fun queue_error_text :: "queue_error \<Rightarrow> string" where
  "queue_error_text (QueueFull n) =
     ''The store queue is currently full ('' @ dec n @ '' orders). Please try again later.''"
| "queue_error_text (TooManyPending n) = ''Queue full. You have '' @ dec n @ '' pending orders (max '' @
     dec MAX_ORDERS_PER_USER @ ''). Wait for some to complete.''"
| "queue_error_text TemporarilyUnavailable = ''Queue temporarily unavailable, please retry.''"
| "queue_error_text QueueEmpty = ''queue head changed: queue is empty''"
| "queue_error_text (HeadChanged a b) =
     ''queue head changed: expected #'' @ dec (unat a) @ '', found #'' @ dec (unat b)"
| "queue_error_text PopNotPersisted = ''failed to persist queue after pop''"
| "queue_error_text CancelNotPersisted = ''Cancellation failed to persist; please retry.''"
| "queue_error_text NotYourOrder = ''You can only cancel your own orders.''"
| "queue_error_text (OrderNotFound i) = ''Order #'' @ dec (unat i) @ '' not found in queue.''"

section \<open>The cooldown notice\<close>

definition rate_limit_notice :: "throttled \<Rightarrow> string" where
  "rate_limit_notice t =
     (let wait_ms = th_wait t div 1000000;
          secs_ceil = f_to_u64 (f_max (f_ceil (as_secs_f64 (th_wait t))) (f_of_int 1))
      in case th_reason t of
        GlobalCap \<Rightarrow> ''Server is busy with too many active users; please try again in '' @ dec secs_ceil @ ''s.''
      | PerUser \<Rightarrow>
          if wait_ms < 1000 then ''Please wait '' @ dec (max wait_ms 1) @ '' ms before sending another message.''
          else ''Please wait '' @ dec secs_ceil @ ''s before sending another message.'')"

section \<open>Transfers\<close>

definition summarize_transfers :: "plan \<Rightarrow> nat \<Rightarrow> string" where
  "summarize_transfers transfers n =
     (if transfers = [] then ''none''
      else join_with ''; '' (map (\<lambda>t. dec_i32 (tr_amount t) @ ''x '' @ tr_item t) (take n transfers) @
        (if length transfers > n then [''(+'' @ dec (length transfers - n) @ '' more)''] else [])))"

end
