(* ===== verification/Operators.thy ===== *)
theory Operators
  imports Texts
begin

text \<open>
  The operator commands of \<^verbatim>\<open>src/store/handlers/operator.rs\<close>: stock is added and removed through a one-sided trade with the
  operator, the reserve of a pair is adjusted by bookkeeping alone. The answer of the name resolution an
  operator command makes is its argument \<open>found\<close>.
\<close>

section \<open>Shared steps\<close>

definition whisper_error_to_player :: "string \<Rightarrow> store_error \<Rightarrow> unit act" where
  "whisper_error_to_player player e = send_message_to_player player (user_message e)"

definition resolve_operator_uuid :: "mojang_error + string \<Rightarrow> string \<Rightarrow> string option act" where
  "resolve_operator_uuid found player =
     (case found of
        Inr u \<Rightarrow> ret (Some u)
      | Inl reason \<Rightarrow> andthen (whisper_error_to_player player (store_error_of_mojang reason)) (\<lambda>_. ret None))"

text \<open>The stock of the pair is read back from the storage, whatever happened before.\<close>

definition resync_stock :: "item_id \<Rightarrow> string \<Rightarrow> i32 act" where
  "resync_stock item context =
     andthen (reading (\<lambda>s. total_item_amount (storage s) item)) (\<lambda>new_stock.
     andthen (writing (expect_pair_mut item context (\<lambda>p. p\<lparr>item_stock := new_stock\<rparr>))) (\<lambda>_.
       if new_stock < 0 then panic
       else andthen (updating (\<lambda>s. s\<lparr>dirty := True\<rparr>)) (\<lambda>_. ret new_stock)))"

text \<open>The last whisper; an error of the handler takes precedence over its outcome.\<close>

definition conclude :: "string \<Rightarrow> string \<Rightarrow> store_error option \<Rightarrow> unit act" where
  "conclude player msg final =
     andthen (attempt (send_message_to_player player msg)) (\<lambda>whispered.
       case final of Some e \<Rightarrow> fail e | None \<Rightarrow> lift_err whispered)"

section \<open>Adding stock\<close>

text \<open>What was deposited, and why the steps ended early.\<close>

fun additem_steps :: "plan \<Rightarrow> item_id \<Rightarrow> i32 \<Rightarrow> i32 \<Rightarrow> (i32 \<times> string option) act" where
  "additem_steps [] item stk stored = ret (stored, None)"
| "additem_steps (t # ts) item stk stored =
     andthen (node_position_of (tr_chest_id t)) (\<lambda>np w.
       (case ask_chest (ChestTask (chest_from_transfer t) np (ActDeposit item (tr_amount t) stk)) w of
          (SendFailed, w') \<Rightarrow> ret (stored, Some (user_message (BotSendFailed ''channel closed''))) w'
        | (Dropped, w') \<Rightarrow> ret (stored, Some (user_message (BotResponseDropped ''channel closed''))) w'
        | (TimedOut, w') \<Rightarrow> ret (stored, Some (user_message (ChestTimeout (CHEST_OP_TIMEOUT_SECS * 1000)))) w'
        | (Answered (Inl e), w') \<Rightarrow> ret (stored, Some (user_message (BotReportedError e))) w'
        | (Answered (Inr report), w') \<Rightarrow>
            additem_steps ts item stk (wrap_i32 (stored + tr_amount t))
              (w'\<lparr>w_store := snd (apply_chest_sync report (w_store w'))\<rparr>)))"

text \<open>The reverse trade with what the bot still holds: the status for the operator, or the error.\<close>

definition additem_return :: "string \<Rightarrow> item_id \<Rightarrow> i32 \<Rightarrow> i32 \<Rightarrow> string \<Rightarrow> (string option \<times> store_error option) act" where
  "additem_return player item on_bot stored reason w =
     (case ask_trade (TradeTask player [\<lparr>ti_item = item, ti_amount = on_bot\<rparr>] [] False False) w of
        (SendFailed, w') \<Rightarrow> ret (None, Some (BotSendFailed (''return-to-operator trade instruction after deposit failure ('' @
          dec_i32 on_bot @ '' '' @ item @ '' stuck in bot)''))) w'
      | (Answered (Inr _), w') \<Rightarrow> ret (Some (''Additem failed: '' @ reason @ ''. '' @ dec_i32 on_bot @
          '' items were returned to you. '' @ dec_i32 stored @ '' items were stored successfully.''), None) w'
      | (Answered (Inl e), w') \<Rightarrow> ret (Some (''Additem CRITICAL ERROR: '' @ reason @ ''. '' @ dec_i32 on_bot @
          '' items stuck in bot inventory (bot rejected return trade: '' @ e @ ''). Contact administrator. '' @
          dec_i32 stored @ '' items were stored.''), None) w'
      | (Dropped, w') \<Rightarrow> ret (Some (''Additem CRITICAL ERROR: '' @ reason @ ''. '' @ dec_i32 on_bot @
          '' items stuck in bot inventory (bot dropped response). Contact administrator. '' @
          dec_i32 stored @ '' items were stored.''), None) w'
      | (TimedOut, w') \<Rightarrow> ret (Some (''Additem CRITICAL ERROR: '' @ reason @ ''. '' @ dec_i32 on_bot @
          '' items stuck in bot inventory (return trade timed out). Contact administrator. '' @
          dec_i32 stored @ '' items were stored.''), None) w')"

definition additem_finish :: "string \<Rightarrow> string \<Rightarrow> item_id \<Rightarrow> i32 \<Rightarrow> bool \<Rightarrow> string option \<times> store_error option \<Rightarrow> unit act" where
  "additem_finish player u item qty record_audit = (\<lambda>(status, final).
     andthen (resync_stock item ''additem/commit'') (\<lambda>new_stock.
     andthen (if record_audit then
         andthen (push_trade AddStock item qty (f_of_int 0) u) (\<lambda>_. push_order (order_add_item item qty u))
       else ret ()) (\<lambda>_.
     andthen post_check (\<lambda>_.
       conclude player (case status of Some msg \<Rightarrow> msg
         | None \<Rightarrow> ''Added '' @ dec_i32 qty @ '' '' @ item @ '' to storage. New stock: '' @ dec_i32 new_stock) final))))"

definition additem_store :: "string \<Rightarrow> string \<Rightarrow> item_id \<Rightarrow> i32 \<Rightarrow> plan \<Rightarrow> i32 \<Rightarrow> unit act" where
  "additem_store player u item qty plan stk =
     andthen (additem_steps plan item stk 0) (\<lambda>(stored, failed).
       case failed of
         None \<Rightarrow> additem_finish player u item qty True (None, None)
       | Some reason \<Rightarrow>
           let on_bot = wrap_i32 (qty - stored) in
           andthen (if on_bot > 0 then additem_return player item on_bot stored reason
               else ret (Some (''Additem failed: '' @ reason), None))
             (additem_finish player u item qty False))"

definition handle_additem_order :: "mojang_error + string \<Rightarrow> string \<Rightarrow> item_id \<Rightarrow> nat \<Rightarrow> unit act" where
  "handle_additem_order found player item quantity =
     andthen (checked (assert_invariants False)) (\<lambda>_.
     andthen (resolve_operator_uuid found player) (\<lambda>r.
       case r of
         None \<Rightarrow> ret ()
       | Some u \<Rightarrow>
           andthen (updating (ensure_user_exists player u)) (\<lambda>_.
           andthen (reading id) (\<lambda>s.
             if \<not> has_key (pairs s) item then
               send_message_to_player player (''Item '' @ quoted item @ '' is not available. Use CLI to add it first.'')
             else if int quantity > i32_max then fail (ValidationError ''Quantity too large'')
             else let qty = int quantity in
             if qty \<le> 0 then send_message_to_player player ''Quantity must be positive''
             else andthen (lift_err (expect_pair s item ''additem/preview'')) (\<lambda>p.
               let stk = stack_size p; (plan, planned) = simulate_deposit_plan (storage s) item qty stk in
               if planned \<noteq> qty then
                 send_message_to_player player (''Insufficient storage capacity for '' @ quoted item @ '': can only place '' @
                   dec_i32 planned @ '' of '' @ dec_i32 qty @ '' items. Operator should add a storage node.'')
               else
                 andthen (send_message_to_player player
                   (''Additem '' @ dec quantity @ '' '' @ item @ '': Please offer the items in the trade.'')) (\<lambda>_.
                 andthen (attempt (perform_trade player [] [\<lparr>ti_item = item, ti_amount = qty\<rparr>] True False)) (\<lambda>x.
                   case x of
                     Inr _ \<Rightarrow> additem_store player u item qty plan stk
                   | Inl (TradeRejected e) \<Rightarrow> whisper_action_aborted player ''Additem'' e None
                   | Inl other \<Rightarrow> fail other)))))))"

section \<open>Removing stock\<close>

definition removeitem_finish :: "string \<Rightarrow> string \<Rightarrow> item_id \<Rightarrow> i32 \<Rightarrow> bool \<Rightarrow> string option \<times> store_error option \<Rightarrow> unit act" where
  "removeitem_finish player u item qty record_audit = (\<lambda>(status, final).
     andthen (resync_stock item ''removeitem/commit'') (\<lambda>new_stock.
     andthen (if record_audit then
         andthen (push_trade RemoveStock item qty (f_of_int 0) u) (\<lambda>_. push_order (order_remove_item item qty u))
       else ret ()) (\<lambda>_.
     andthen post_check (\<lambda>_.
       conclude player (case status of Some msg \<Rightarrow> msg
         | None \<Rightarrow> ''Removed '' @ dec_i32 qty @ '' '' @ item @ '' from storage. Remaining stock: '' @ dec_i32 new_stock) final))))"

text \<open>The stack size a rollback uses: read again, 64 if the pair is gone.\<close>

definition current_stack_size :: "item_id \<Rightarrow> i32 act" where
  "current_stack_size item = reading (\<lambda>s. case hget (pairs s) item of Some p \<Rightarrow> stack_size p | None \<Rightarrow> 64)"

definition removeitem_trade :: "string \<Rightarrow> string \<Rightarrow> item_id \<Rightarrow> i32 \<Rightarrow> plan \<Rightarrow> unit act" where
  "removeitem_trade player u item qty plan =
     andthen (attempt (perform_trade player [\<lparr>ti_item = item, ti_amount = qty\<rparr>] [] False False)) (\<lambda>x.
       case x of
         Inr _ \<Rightarrow> removeitem_finish player u item qty True (None, None)
       | Inl BotDisconnected \<Rightarrow>
           andthen (current_stack_size item) (\<lambda>stk.
           andthen (deposit_transfers plan item stk) (\<lambda>_.
             removeitem_finish player u item qty False (None, Some BotDisconnected)))
       | Inl (TradeRejected e) \<Rightarrow>
           andthen (current_stack_size item) (\<lambda>stk.
           andthen (deposit_transfers plan item stk) (\<lambda>rb.
             removeitem_finish player u item qty False
               (Some (if has_failures rb then
                   ''Removeitem CRITICAL ERROR: trade failed and rollback also partially failed. '' @
                   dec_i32 (wrap_i32 (qty - items_returned rb)) @
                   '' item(s) may be stuck in bot inventory. Contact administrator. trade_error='' @ quoted e
                 else format_action_aborted ''Removeitem'' e (Some '' Items returned to storage.'')), None)))
       | Inl other \<Rightarrow> fail other)"

definition removeitem_fetch :: "string \<Rightarrow> string \<Rightarrow> item_id \<Rightarrow> i32 \<Rightarrow> plan \<Rightarrow> unit act" where
  "removeitem_fetch player u item qty plan =
     andthen (current_stack_size item) (\<lambda>stk.
     andthen (attempt (execute_chest_transfers plan item stk DirWithdraw)) (\<lambda>x.
       case x of
         Inl e \<Rightarrow>
           andthen (send_message_to_player player
               (''Removeitem aborted: bot failed chest withdrawal step: '' @ user_message e)) (\<lambda>_. fail e)
       | Inr _ \<Rightarrow> removeitem_trade player u item qty plan))"

definition handle_removeitem_order :: "mojang_error + string \<Rightarrow> string \<Rightarrow> item_id \<Rightarrow> nat \<Rightarrow> unit act" where
  "handle_removeitem_order found player item quantity =
     andthen (checked (assert_invariants False)) (\<lambda>_.
     andthen (resolve_operator_uuid found player) (\<lambda>r.
       case r of
         None \<Rightarrow> ret ()
       | Some u \<Rightarrow>
           andthen (updating (ensure_user_exists player u)) (\<lambda>_.
           andthen (reading id) (\<lambda>s.
             if \<not> has_key (pairs s) item then
               send_message_to_player player (''Item '' @ quoted item @ '' is not available.'')
             else if int quantity > i32_max then fail (ValidationError ''Quantity too large'')
             else let qty = int quantity in
             if qty \<le> 0 then send_message_to_player player ''Quantity must be positive''
             else let physical_stock = total_item_amount (storage s) item in
             if physical_stock < qty then
               send_message_to_player player (''Out of physical stock for '' @ quoted item @ ''. Storage has '' @
                 dec_i32 physical_stock @ '', requested '' @ dec_i32 qty @ ''.'')
             else (let (plan, planned) = simulate_withdraw_plan (storage s) item qty in
               if planned \<noteq> qty then
                 send_message_to_player player (''Failed to plan withdrawal for '' @ quoted item @ '' from storage. Planned '' @
                   dec_i32 planned @ '', needed '' @ dec_i32 qty @ ''.'')
               else
                 andthen (send_message_to_player player
                   (''Removeitem '' @ dec quantity @ '' '' @ item @ '': Withdrawing from storage, then trading to you.''))
                   (\<lambda>_. removeitem_fetch player u item qty plan))))))"

section \<open>Adjusting the reserve\<close>

text \<open>The new reserve is asserted to be a finite non-negative number.\<close>

definition adjust_reserve :: "item_id \<Rightarrow> string \<Rightarrow> (f64 \<Rightarrow> f64) \<Rightarrow> f64 act" where
  "adjust_reserve item context f =
     andthen (writing (expect_pair_mut item context (\<lambda>p. p\<lparr>currency_stock := f (currency_stock p)\<rparr>))) (\<lambda>_.
     andthen (reading (\<lambda>s. expect_pair s item context)) (\<lambda>r.
     andthen (lift_err r) (\<lambda>p.
       if \<not> finite_nonneg (currency_stock p) then panic
       else andthen (updating (\<lambda>s. s\<lparr>dirty := True\<rparr>)) (\<lambda>_. ret (currency_stock p)))))"

definition handle_add_currency :: "mojang_error + string \<Rightarrow> string \<Rightarrow> item_id \<Rightarrow> f64 \<Rightarrow> unit act" where
  "handle_add_currency found player item amount =
     andthen (checked (assert_invariants False)) (\<lambda>_.
     andthen (resolve_operator_uuid found player) (\<lambda>r.
       case r of
         None \<Rightarrow> ret ()
       | Some u \<Rightarrow>
           andthen (reading id) (\<lambda>s.
             if \<not> has_key (pairs s) item then
               send_message_to_player player (''Item '' @ quoted item @ '' is not available. Use CLI to add it first.'')
             else if \<not> f_is_finite amount \<or> f_le amount (f_of_int 0) then
               send_message_to_player player ''Amount must be positive''
             else
               andthen (updating (ensure_user_exists player u)) (\<lambda>_.
               andthen (adjust_reserve item ''add-currency/commit'' (\<lambda>c. f_add c amount)) (\<lambda>new_reserve.
               andthen (push_trade TradeAddCurrency item 0 amount u) (\<lambda>_.
               andthen (push_order (order_add_currency item amount u)) (\<lambda>_.
               andthen post_check (\<lambda>_.
                 send_message_to_player player (''Added '' @ fmt_fixed 2 amount @ '' diamonds to '' @ item @
                   '' reserve. New reserve: '' @ fmt_fixed 2 new_reserve)))))))))"

definition handle_remove_currency :: "mojang_error + string \<Rightarrow> string \<Rightarrow> item_id \<Rightarrow> f64 \<Rightarrow> unit act" where
  "handle_remove_currency found player item amount =
     andthen (checked (assert_invariants False)) (\<lambda>_.
     andthen (resolve_operator_uuid found player) (\<lambda>r.
       case r of
         None \<Rightarrow> ret ()
       | Some u \<Rightarrow>
           andthen (reading id) (\<lambda>s.
             if \<not> has_key (pairs s) item then
               send_message_to_player player (''Item '' @ quoted item @ '' is not available.'')
             else if \<not> f_is_finite amount \<or> f_le amount (f_of_int 0) then
               send_message_to_player player ''Amount must be positive''
             else andthen (lift_err (expect_pair s item ''remove-currency/check'')) (\<lambda>p.
               if f_lt (currency_stock p) amount then
                 send_message_to_player player (''Insufficient currency reserve. Available: '' @
                   fmt_fixed 2 (currency_stock p) @ '', requested: '' @ fmt_fixed 2 amount)
               else
                 andthen (updating (ensure_user_exists player u)) (\<lambda>_.
                 andthen (adjust_reserve item ''remove-currency/commit'' (\<lambda>c. f_sub c amount)) (\<lambda>new_reserve.
                 andthen (push_trade TradeRemoveCurrency item 0 amount u) (\<lambda>_.
                 andthen (push_order (order_remove_currency item amount u)) (\<lambda>_.
                 andthen post_check (\<lambda>_.
                   send_message_to_player player (''Removed '' @ fmt_fixed 2 amount @ '' diamonds from '' @ item @
                     '' reserve. Remaining reserve: '' @ fmt_fixed 2 new_reserve))))))))))"

end
