(* ===== verification/Player.thy ===== *)
theory Player
  imports Operators "HOL-Library.List_Lexorder" "HOL-Library.Char_ord"
begin

text \<open>
  The dispatch of a whispered command, \<^verbatim>\<open>src/store/handlers/player.rs\<close>, with the handlers that only enqueue an order
  (\<^verbatim>\<open>buy.rs\<close>, \<^verbatim>\<open>sell.rs\<close>, the enqueue functions of \<^verbatim>\<open>deposit.rs\<close> and \<^verbatim>\<open>withdraw.rs\<close>) and the quick commands of
  \<^verbatim>\<open>info.rs\<close>. A handler acts on the whole \<open>shop\<close>. The clock readings of the two rate-limit gates and the answers of
  the name resolution, one for the sender and one for a handler's own look-up, are the record \<open>sender\<close>.
\<close>

section \<open>Actions on the shop\<close>

type_synonym 'a shop_act = "shop \<Rightarrow> 'a res \<times> shop"

abbreviation the_store :: "shop \<Rightarrow> store" where
  "the_store s \<equiv> w_store (sh_world s)"

definition on_world :: "'a act \<Rightarrow> 'a shop_act" where
  "on_world m s = (case m (sh_world s) of (r, w) \<Rightarrow> (r, s\<lparr>sh_world := w\<rparr>))"

definition tell :: "string \<Rightarrow> string \<Rightarrow> unit shop_act" where
  "tell player msg = on_world (send_message_to_player player msg)"

section \<open>Commands that enqueue an order\<close>

definition enqueue :: "string \<Rightarrow> string \<Rightarrow> queued_order_type \<Rightarrow> string \<Rightarrow> nat \<Rightarrow> shop \<Rightarrow> (queue_error + u64 \<times> nat) \<times> shop" where
  "enqueue player u ty item quantity s =
     (let (t, w1) = now (sh_world s); (ok, w2) = next_write w1;
          (r, q) = queue_add \<lparr>ar_user_uuid = u, ar_username = player, ar_order_type = ty, ar_item = item,
            ar_quantity = quantity, ar_now = t, ar_write_ok = ok\<rparr> (sh_queue s)
      in (r, s\<lparr>sh_world := w2, sh_queue := q\<rparr>))"

definition place_text :: "nat \<Rightarrow> shop \<Rightarrow> string" where
  "place_text position s = ''queued (position '' @ dec position @ ''/'' @ dec (length (orders (mem (sh_queue s)))) @
     ''). Est. wait: '' @ estimate_wait position @ ''.''"

definition enqueue_item :: "string \<Rightarrow> string \<Rightarrow> queued_order_type \<Rightarrow> item_id \<Rightarrow> nat \<Rightarrow> unit shop_act" where
  "enqueue_item player u ty item quantity s =
     (if \<not> has_key (pairs (the_store s)) item then
        tell player (''Item '' @ quoted item @ '' is not available for trading'') s
      else case enqueue player u ty item quantity s of
        (Inr (i, position), s1) \<Rightarrow>
          tell player (''Order #'' @ dec (unat i) @ '' '' @ place_text position s1 @ '' You have '' @
            dec (user_order_count (mem (sh_queue s1)) u) @ '' order(s) pending.'') s1
      | (Inl e, s1) \<Rightarrow> tell player (queue_error_text e) s1)"

definition buy_handle :: "string \<Rightarrow> string \<Rightarrow> item_id \<Rightarrow> nat \<Rightarrow> unit shop_act" where
  "buy_handle player u item quantity = enqueue_item player u QBuy item quantity"

definition sell_handle :: "string \<Rightarrow> string \<Rightarrow> item_id \<Rightarrow> nat \<Rightarrow> unit shop_act" where
  "sell_handle player u item quantity = enqueue_item player u QSell item quantity"

definition deposit_enqueue :: "string \<Rightarrow> string \<Rightarrow> f64 option \<Rightarrow> unit shop_act" where
  "deposit_enqueue player u amount s =
     (case enqueue player u (QDeposit amount) ''diamond'' 0 s of
        (Inr (i, position), s1) \<Rightarrow>
          tell player (''Deposit '' @ (case amount of Some amt \<Rightarrow> fmt_fixed 2 amt @ '' diamonds'' | None \<Rightarrow> ''diamonds (flexible)'') @
            '' order #'' @ dec (unat i) @ '' '' @ place_text position s1) s1
      | (Inl e, s1) \<Rightarrow> tell player (queue_error_text e) s1)"

definition withdraw_enqueue :: "string \<Rightarrow> string \<Rightarrow> f64 option \<Rightarrow> unit shop_act" where
  "withdraw_enqueue player u amount s =
     (case enqueue player u (QWithdraw amount) ''diamond'' 0 s of
        (Inr (i, position), s1) \<Rightarrow>
          tell player (''Withdraw '' @ (case amount of Some amt \<Rightarrow> fmt_fixed 2 amt @ '' diamonds'' | None \<Rightarrow> ''full balance'') @
            '' order #'' @ dec (unat i) @ '' '' @ place_text position s1) s1
      | (Inl e, s1) \<Rightarrow> tell player (queue_error_text e) s1)"

section \<open>Price\<close>

definition price_text :: "store \<Rightarrow> item_id \<Rightarrow> nat option \<Rightarrow> string" where
  "price_text s item quantity =
     (case hget (pairs s) item of
        None \<Rightarrow> ''Item '' @ quoted item @ '' is not available for trading.''
      | Some p \<Rightarrow>
          (let qty = (case quantity of Some q \<Rightarrow> q | None \<Rightarrow> nat (stack_size p mod 4294967296));
               qty_i32 = wrap_i32 (int qty);
               each = (\<lambda>t. fmt_fixed 4 (f_div t (f_of_int (int qty))) @ ''/ea)'');
               head = item @ '' x'' @ dec qty @ '': Buy ''
           in case (calculate_buy_cost s item qty_i32, calculate_sell_payout s item qty_i32) of
             (Some buy_cost, Some sell_payout) \<Rightarrow>
               head @ ''for '' @ fmt_fixed 2 buy_cost @ '' diamonds ('' @ each buy_cost @ '', Sell for '' @
               fmt_fixed 2 sell_payout @ '' diamonds ('' @ each sell_payout @ ''. Stock: '' @ dec_i32 (item_stock p)
           | (None, Some sell_payout) \<Rightarrow>
               head @ ''unavailable (exceeds stock '' @ dec_i32 (item_stock p) @ ''), Sell for '' @
               fmt_fixed 2 sell_payout @ '' diamonds ('' @ each sell_payout
           | _ \<Rightarrow>
               if item_stock p = 0 then item @ '': No stock available (item_stock: 0)''
               else if f_le (currency_stock p) (f_of_int 0) then item @ '': No currency reserve (currency_stock: 0)''
               else item @ '': Price unavailable (insufficient reserves)''))"

definition handle_price :: "string \<Rightarrow> item_id \<Rightarrow> nat option \<Rightarrow> unit shop_act" where
  "handle_price player item quantity s = tell player (price_text (the_store s) item quantity) s"

section \<open>Balances and payments\<close>

definition bad_balance :: "f64 \<Rightarrow> bool" where
  "bad_balance b \<longleftrightarrow> \<not> f_is_finite b \<or> f_lt b (f_of_int 0)"

definition no_account_text :: "string \<Rightarrow> string" where
  "no_account_text name = name @ '' has no account yet (balance: 0 diamonds)''"

definition balance_text :: "string \<Rightarrow> f64 \<Rightarrow> string" where
  "balance_text name b = name @ [CHR 0x27] @ ''s balance: '' @ fmt_fixed 2 b @ '' diamonds''"

definition get_user_balance :: "mojang_error + string \<Rightarrow> string \<Rightarrow> f64 act" where
  "get_user_balance found name =
     andthen (checked (assert_invariants False)) (\<lambda>_.
       case found of
         Inl e \<Rightarrow> fail (store_error_of_mojang e)
       | Inr u \<Rightarrow> andthen (reading (\<lambda>s. hget (users s) u)) (\<lambda>x.
           case x of
             None \<Rightarrow> fail (UserNotFound name)
           | Some y \<Rightarrow> if bad_balance (balance y) then fail (InvariantViolation ''balance'') else ret (balance y)))"

definition self_balance :: "string \<Rightarrow> string \<Rightarrow> unit act" where
  "self_balance player u =
     andthen (reading (\<lambda>s. hget (users s) u)) (\<lambda>x.
       case x of
         None \<Rightarrow> send_message_to_player player (no_account_text player)
       | Some y \<Rightarrow> if bad_balance (balance y) then whisper_error_to_player player (InvariantViolation ''balance'')
           else send_message_to_player player (balance_text player (balance y)))"

definition other_balance :: "mojang_error + string \<Rightarrow> string \<Rightarrow> string \<Rightarrow> unit act" where
  "other_balance found player target =
     andthen (attempt (get_user_balance found target)) (\<lambda>r.
       case r of
         Inr b \<Rightarrow> send_message_to_player player (balance_text target b)
       | Inl (UserNotFound _) \<Rightarrow> send_message_to_player player (no_account_text target)
       | Inl e \<Rightarrow> whisper_error_to_player player e)"

definition handle_balance :: "(string \<Rightarrow> mojang_error + string) \<Rightarrow> string \<Rightarrow> string \<Rightarrow> string option \<Rightarrow> unit shop_act" where
  "handle_balance resolve player u target =
     on_world (case target of None \<Rightarrow> self_balance player u | Some t \<Rightarrow> other_balance (resolve t) player t)"

text \<open>The transfer proper, once both records are known.\<close>

definition pay_move :: "string \<Rightarrow> string \<Rightarrow> string \<Rightarrow> f64 \<Rightarrow> unit act" where
  "pay_move payer payer_uuid payee_uuid amount =
     andthen (writing (expect_user_mut payer_uuid ''pay/payer-debit''
         (\<lambda>x. x\<lparr>balance := f_sub (balance x) amount, username := payer\<rparr>))) (\<lambda>_.
     andthen (writing (expect_user_mut payee_uuid ''pay/payee-credit''
         (\<lambda>x. x\<lparr>balance := f_add (balance x) amount\<rparr>))) (\<lambda>_.
     andthen (updating (\<lambda>s. s\<lparr>dirty := True, dirty_users := insert payee_uuid (insert payer_uuid (dirty_users s))\<rparr>)) (\<lambda>_.
       checked (assert_invariants True))))"

definition pay_async :: "mojang_error + string \<Rightarrow> string \<Rightarrow> string \<Rightarrow> string \<Rightarrow> f64 \<Rightarrow> unit act" where
  "pay_async found payer payer_uuid payee amount =
     andthen (checked (assert_invariants False)) (\<lambda>_.
       if \<not> f_is_finite amount \<or> f_le amount (f_of_int 0) then fail (ValidationError ''Amount must be positive'')
       else case found of
         Inl e \<Rightarrow> fail (store_error_of_mojang e)
       | Inr payee_uuid \<Rightarrow>
           if payer_uuid = payee_uuid then fail (ValidationError ''You cannot pay yourself.'')
           else andthen (reading id) (\<lambda>s.
             if \<not> has_key (users s) payer_uuid then
               fail (ValidationError (''Payer '' @ quoted payer @ '' not found in store records''))
             else
               andthen (if \<not> has_key (users s) payee_uuid then updating (ensure_user_exists payee payee_uuid) else ret ()) (\<lambda>_.
               andthen (reading (\<lambda>s. expect_user s payer_uuid ''pay/payer-balance'')) (\<lambda>r.
               andthen (lift_err r) (\<lambda>x.
                 if f_lt (balance x) amount then fail (ValidationError ''Insufficient balance.'')
                 else pay_move payer payer_uuid payee_uuid amount)))))"

definition handle_pay :: "(string \<Rightarrow> mojang_error + string) \<Rightarrow> string \<Rightarrow> string \<Rightarrow> string \<Rightarrow> f64 \<Rightarrow> unit shop_act" where
  "handle_pay resolve player u recipient amount =
     on_world (andthen (attempt (pay_async (resolve recipient) player u recipient amount)) (\<lambda>r.
       case r of
         Inr _ \<Rightarrow>
           andthen (attempt (send_message_to_player recipient
               (''You received '' @ fmt_fixed 2 amount @ '' diamonds from '' @ player))) (\<lambda>_.
             send_message_to_player player (''Paid '' @ fmt_fixed 2 amount @ '' diamonds to '' @ recipient))
       | Inl e \<Rightarrow> whisper_error_to_player player e))"

section \<open>Lists and the queue\<close>

definition PER_PAGE :: nat where
  "PER_PAGE = 4"

definition page_of :: "nat \<Rightarrow> 'a list \<Rightarrow> 'a list" where
  "page_of page xs = take PER_PAGE (drop ((page - 1) * PER_PAGE) xs)"

definition total_pages :: "'a list \<Rightarrow> nat" where
  "total_pages xs = (length xs + PER_PAGE - 1) div PER_PAGE"

definition items_text :: "store \<Rightarrow> nat \<Rightarrow> string" where
  "items_text s page =
     (let items = sort (map fst (pairs s)); pages = total_pages items in
      if items = [] then ''No items available for trading.''
      else if page > pages then
        ''Invalid page. Use '' @ quoted ''items 1'' @ '' to '' @ quoted (''items '' @ dec pages) @ ''.''
      else (let items_list = join_with '', '' (page_of page items) in
        if pages = 1 then ''Items: '' @ items_list
        else ''Items (page '' @ dec page @ ''/'' @ dec pages @ ''): '' @ items_list))"

definition handle_items :: "string \<Rightarrow> nat \<Rightarrow> unit shop_act" where
  "handle_items player page s = tell player (items_text (the_store s) page) s"

definition queue_text :: "order_queue \<Rightarrow> string \<Rightarrow> nat \<Rightarrow> string" where
  "queue_text q u page =
     (let mine = get_user_orders q u; waiting = length (orders q); pages = total_pages mine in
      if mine = [] then
        (if waiting > 0 then ''You have no orders queued. ('' @ dec waiting @ '' orders in queue from other players)''
         else ''You have no orders queued. Queue is empty.'')
      else if page > pages then
        ''Invalid page. You have '' @ dec (length mine) @ '' order(s), use '' @ quoted ''queue 1'' @ '' to '' @
        quoted (''queue '' @ dec pages) @ ''.''
      else (let orders_str = join_with '', '' (map (\<lambda>(o1, pos). ''#'' @ dec (unat (qo_id o1)) @ '' '' @ description o1 @
            '' (pos '' @ dec pos @ '')'') (page_of page mine));
          counts = dec (length mine) @ ''/'' @ dec waiting @ ''): ''
        in if pages = 1 then ''Your queue ('' @ counts @ orders_str
           else ''Your queue (page '' @ dec page @ ''/'' @ dec pages @ '', '' @ counts @ orders_str))"

definition handle_queue :: "string \<Rightarrow> string \<Rightarrow> nat \<Rightarrow> unit shop_act" where
  "handle_queue player u page s = tell player (queue_text (mem (sh_queue s)) u page) s"

text \<open>The order of the trade in flight is not in the queue any more.\<close>

definition handle_cancel :: "string \<Rightarrow> string \<Rightarrow> u64 \<Rightarrow> unit shop_act" where
  "handle_cancel player u order_id s =
     (case filter (\<lambda>t. qo_id (trade_order t) = order_id)
             (case current_trade (the_store s) of None \<Rightarrow> [] | Some t \<Rightarrow> [t]) of
        t # _ \<Rightarrow> tell player (''Order #'' @ dec (unat order_id) @ '' is currently being processed ('' @ phase t @
          '') and cannot be cancelled.'') s
      | [] \<Rightarrow>
          (let (ok, w1) = next_write (sh_world s);
               (r, q) = queue_cancel (u, order_id, ok) (sh_queue s);
               s1 = s\<lparr>sh_world := w1, sh_queue := q\<rparr>
           in case r of
             Inr _ \<Rightarrow> tell player (''Order #'' @ dec (unat order_id) @ '' cancelled.'') s1
           | Inl e \<Rightarrow> tell player (queue_error_text e) s1))"

section \<open>Status and help\<close>

definition status_text :: "shop \<Rightarrow> string" where
  "status_text s =
     (let waiting = length (orders (mem (sh_queue s))) in
      if sh_processing s then
        (case current_trade (the_store s) of
           Some t \<Rightarrow>
             (let activity = trade_display t @ '' ['' @ phase t @ '']'' in
              if waiting > 0 then ''Status: '' @ activity @ ''. '' @ dec waiting @ '' order(s) waiting in queue.''
              else ''Status: '' @ activity @ ''.'')
         | None \<Rightarrow>
             if waiting > 0 then ''Status: Processing order. '' @ dec waiting @ '' order(s) waiting in queue.''
             else ''Status: Processing order.'')
      else if waiting > 0 then
        ''Status: Ready. '' @ dec waiting @ '' order(s) in queue, processing will start shortly.''
      else ''Status: Idle. No orders being processed. Queue is empty.'')"

definition handle_status :: "string \<Rightarrow> unit shop_act" where
  "handle_status player s = tell player (status_text s) s"

definition base_commands :: string where
  "base_commands = ''Commands: buy (b), sell (s), price (p), items, balance (bal), pay, deposit (d), withdraw (w), queue (q), cancel (c), status, help (h). Use '' @ quoted ''help <command>'' @ '' for details.''"

definition help_text :: "bool \<Rightarrow> string option \<Rightarrow> string" where
  "help_text is_op topic =
     (case topic of
        None \<Rightarrow> if is_op
          then base_commands @ '' Operator: additem (ai), removeitem (ri), addcurrency (ac), removecurrency (rc)''
          else base_commands
      | Some v \<Rightarrow>
          if v = ''buy'' \<or> v = ''b'' then ''buy <item> <quantity> - Buy items from the store. Example: buy cobblestone 64''
          else if v = ''sell'' \<or> v = ''s'' then ''sell <item> <quantity> - Sell items to the store. Example: sell iron_ingot 128''
          else if v = ''price'' \<or> v = ''p'' then ''price <item> [quantity] - Check buy/sell prices. Defaults to one stack. Example: price cobblestone 64''
          else if v = ''balance'' \<or> v = ''bal'' then ''balance [player] (or bal) - Check your balance, or another player'' @ [CHR 0x27] @ ''s. Example: bal Steve''
          else if v = ''pay'' then ''pay <player> <amount> - Pay diamonds to another player. Example: pay Steve 10.5''
          else if v = ''deposit'' \<or> v = ''d'' then ''deposit [amount] - Deposit physical diamonds into your balance. If no amount specified, credits whatever you put in the trade (max 768 / 12 stacks). Example: deposit, deposit 64''
          else if v = ''withdraw'' \<or> v = ''w'' then ''withdraw [amount] - Withdraw diamonds from your balance. If no amount specified, withdraws your full balance (whole diamonds only, max 768 / 12 stacks). Example: withdraw, withdraw 32''
          else if v = ''items'' then ''items [page] - List available items for trading. Shows 4 items per page. Example: items 2''
          else if v = ''queue'' \<or> v = ''q'' then ''queue [page] (or q) - Show your pending orders (4 per page). Example: queue, queue 2''
          else if v = ''cancel'' \<or> v = ''c'' then ''cancel <order_id> (or c) - Cancel a pending order. Use '' @ quoted ''queue'' @ '' to see your order IDs. Example: c 5''
          else if v = ''status'' then ''status - Check what the bot is currently doing (idle, buying, selling, etc.) and queue status.''
          else if (v = ''additem'' \<or> v = ''ai'') \<and> is_op then ''additem <item> <quantity> - (Operator) Add items to store stock. Example: additem diamond 100''
          else if (v = ''removeitem'' \<or> v = ''ri'') \<and> is_op then ''removeitem <item> <quantity> - (Operator) Remove items from store stock. Example: removeitem coal 50''
          else if (v = ''addcurrency'' \<or> v = ''ac'') \<and> is_op then ''addcurrency <item> <amount> - (Operator) Add diamonds to item'' @ [CHR 0x27] @ ''s reserve. Example: addcurrency cobblestone 1000''
          else if (v = ''removecurrency'' \<or> v = ''rc'') \<and> is_op then ''removecurrency <item> <amount> - (Operator) Remove diamonds from item'' @ [CHR 0x27] @ ''s reserve. Example: removecurrency cobblestone 500''
          else ''Unknown command '' @ quoted v @ ''. Use '' @ quoted ''help'' @ '' to see available commands.'')"

definition handle_help :: "string \<Rightarrow> string \<Rightarrow> string option \<Rightarrow> unit shop_act" where
  "handle_help player u topic s = tell player (help_text (is_operator (the_store s) u) topic) s"

section \<open>The dispatcher\<close>

record sender =
  name_gate :: "instant \<times> instant"
  user_gate :: "instant \<times> instant"
  lookup :: "string \<Rightarrow> mojang_error + string"
  handler_lookup :: "string \<Rightarrow> mojang_error + string"

definition name_rate_limit_key :: "string \<Rightarrow> string" where
  "name_rate_limit_key player =
     (if list_ex is_ascii_uppercase player then ''n:'' @ map to_ascii_lowercase player else ''n:'' @ player)"

definition ensure_operator :: "string \<Rightarrow> string \<Rightarrow> bool shop_act" where
  "ensure_operator player u s =
     (if is_operator (the_store s) u then (Ok True, s)
      else on_world (andthen (send_message_to_player player ''This command is only available to operators.'') (\<lambda>_. ret False)) s)"

definition as_operator :: "string \<Rightarrow> string \<Rightarrow> unit act \<Rightarrow> unit shop_act" where
  "as_operator player u m s =
     (case ensure_operator player u s of
        (Ok True, s1) \<Rightarrow> on_world m s1
      | (Ok False, s1) \<Rightarrow> (Ok (), s1)
      | (Err e, s1) \<Rightarrow> (Err e, s1)
      | (Panicked, s1) \<Rightarrow> (Panicked, s1))"

fun dispatch :: "sender \<Rightarrow> string \<Rightarrow> string \<Rightarrow> command \<Rightarrow> unit shop_act" where
  "dispatch env player u (CmdBuy item q) = buy_handle player u item q"
| "dispatch env player u (CmdSell item q) = sell_handle player u item q"
| "dispatch env player u (CmdDeposit amount) = deposit_enqueue player u amount"
| "dispatch env player u (CmdWithdraw amount) = withdraw_enqueue player u amount"
| "dispatch env player u (CmdPrice item q) = handle_price player item q"
| "dispatch env player u (CmdBalance target) = handle_balance (handler_lookup env) player u target"
| "dispatch env player u (CmdPay target amount) = handle_pay (handler_lookup env) player u target amount"
| "dispatch env player u (CmdItems page) = handle_items player page"
| "dispatch env player u (CmdQueue page) = handle_queue player u page"
| "dispatch env player u (CmdCancel i) = handle_cancel player u i"
| "dispatch env player u CmdStatus = handle_status player"
| "dispatch env player u (CmdHelp topic) = handle_help player u topic"
| "dispatch env player u (CmdAddItem item q) =
     as_operator player u (handle_additem_order (handler_lookup env player) player item q)"
| "dispatch env player u (CmdRemoveItem item q) =
     as_operator player u (handle_removeitem_order (handler_lookup env player) player item q)"
| "dispatch env player u (CmdAddCurrency item amount) =
     as_operator player u (handle_add_currency (handler_lookup env player) player item amount)"
| "dispatch env player u (CmdRemoveCurrency item amount) =
     as_operator player u (handle_remove_currency (handler_lookup env player) player item amount)"

text \<open>A gate: refused with or without a notice, or passed.\<close>

definition gated :: "string \<Rightarrow> instant \<times> instant \<Rightarrow> string \<Rightarrow> unit shop_act \<Rightarrow> unit shop_act" where
  "gated key t player pass s =
     (case check key (fst t) (snd t) (sh_limiter s) of
        (Inl th, rl) \<Rightarrow>
          if \<not> th_should_whisper th then (Ok (), s\<lparr>sh_limiter := rl\<rparr>)
          else tell player (rate_limit_notice th) (s\<lparr>sh_limiter := rl\<rparr>)
      | (Inr _, rl) \<Rightarrow> pass (s\<lparr>sh_limiter := rl\<rparr>))"

definition run_command :: "sender \<Rightarrow> string \<Rightarrow> string \<Rightarrow> string \<Rightarrow> unit shop_act" where
  "run_command env player u command s =
     (case parse_command command of
        Inl msg \<Rightarrow> tell player msg s
      | Inr cmd \<Rightarrow> dispatch env player u cmd s)"

definition handle_player_command :: "sender \<Rightarrow> string \<Rightarrow> string \<Rightarrow> unit shop_act" where
  "handle_player_command env player command s =
     (case validate_username player of
        Inl _ \<Rightarrow> (Ok (), s)
      | Inr _ \<Rightarrow>
          gated (name_rate_limit_key player) (name_gate env) player (\<lambda>s1.
            case lookup env player of
              Inl reason \<Rightarrow> on_world (whisper_error_to_player player (store_error_of_mojang reason)) s1
            | Inr u \<Rightarrow>
                (case on_world (updating (ensure_user_exists player u)) s1 of
                   (_, s2) \<Rightarrow> gated (''u:'' @ u) (user_gate env) player (run_command env player u command) s2)) s)"

end
