(* ===== verification/Operator_Effects.thy ===== *)
theory Operator_Effects
  imports Operators
begin

text \<open>
  What an operator command can do. The handlers respect every \<open>ledger_relation\<close> of the operator and the item, so the
  frames proved for queued orders hold for them too; the stock of the pair is read back from the storage
  on every path after the trade, except the ones that return the error of the trade.
\<close>

section \<open>Operator commands in a relation the books respect\<close>

context act_relation begin

lemma R_whisper_error [intro]: "keeps R (whisper_error_to_player player e)"
  unfolding whisper_error_to_player_def by (rule R_send_message)

lemma R_resolve_operator [intro]: "keeps R (resolve_operator_uuid found player)"
  unfolding resolve_operator_uuid_def by (intro R_sum R_andthen R_ret R_whisper_error)

end

context bot_relation begin

lemma R_additem_steps: "keeps R (additem_steps ts item stk n)"
proof (induction ts arbitrary: n)
  case (Cons t ts)
  show ?case unfolding additem_steps.simps
    by (intro R_andthen R_node_position R_asking R_reply R_either R_synced Cons.IH R_ret) (erule R_chest)
qed auto

lemma R_additem_return: "keeps R (additem_return player item n k reason)"
  unfolding additem_return_def by (intro R_asking R_reply R_either R_ret) (erule R_trade)

lemma R_conclude [intro]: "keeps R (conclude player msg final)"
  unfolding conclude_def by (intro R_andthen R_attempt R_send_message R_option R_fail R_lift_err)

lemma R_current_stack_size [intro]: "keeps R (current_stack_size item)"
  unfolding current_stack_size_def by (rule R_reading)

end

context ledger_relation begin

lemmas R_op_steps = R_steps R_whisper_error R_resolve_operator R_conclude R_current_stack_size R_additem_steps R_additem_return
  R_panic

lemma R_resync [intro]: "keeps R (resync_stock item context)"
  unfolding resync_stock_def by (intro R_op_steps R_pair_write) simp_all

lemma R_adjust [intro]: "keeps R (adjust_reserve item context f)"
  unfolding adjust_reserve_def by (intro R_op_steps R_pair_write) simp_all

lemma R_additem_finish: "keeps R (additem_finish player v item qty b x)"
  unfolding additem_finish_def by (intro R_op_steps R_resync)

lemma R_removeitem_finish: "keeps R (removeitem_finish player v item qty b x)"
  unfolding removeitem_finish_def by (intro R_op_steps R_resync)

lemma R_additem_store: "keeps R (additem_store player v item qty plan stk)"
  unfolding additem_store_def Let_def by (intro R_op_steps R_additem_finish)

lemma R_removeitem_trade: "keeps R (removeitem_trade player v item qty plan)"
proof -
  have "keeps R (case x of
         Inr _ \<Rightarrow> removeitem_finish player v item qty True (None, None)
       | Inl BotDisconnected \<Rightarrow>
           andthen (current_stack_size item) (\<lambda>stk.
           andthen (deposit_transfers plan item stk) (\<lambda>_.
             removeitem_finish player v item qty False (None, Some BotDisconnected)))
       | Inl (TradeRejected e) \<Rightarrow>
           andthen (current_stack_size item) (\<lambda>stk.
           andthen (deposit_transfers plan item stk) (\<lambda>rb.
             removeitem_finish player v item qty False
               (Some (if has_failures rb then
                   ''Removeitem CRITICAL ERROR: trade failed and rollback also partially failed. '' @
                   dec_i32 (wrap_i32 (qty - items_returned rb)) @
                   '' item(s) may be stuck in bot inventory. Contact administrator. trade_error='' @ quoted e
                 else format_action_aborted ''Removeitem'' e (Some '' Items returned to storage.'')), None)))
       | Inl other \<Rightarrow> fail other)" for x :: "store_error + trade_item list"
    by (cases x; (rename_tac e, case_tac e)?; simp only: sum.case store_error.case)
      (intro R_op_steps R_removeitem_finish)+
  then show ?thesis unfolding removeitem_trade_def by (intro R_andthen R_attempt R_perform_trade)
qed

lemma R_removeitem_fetch: "keeps R (removeitem_fetch player v item qty plan)"
  unfolding removeitem_fetch_def by (intro R_op_steps R_removeitem_trade)

text \<open>The name resolution answers for the user whose books these are.\<close>

lemma R_resolved:
  fixes k :: "string \<Rightarrow> unit act"
  assumes "\<And>v. found = Inr v \<Longrightarrow> v = u" "keeps R (k u)"
  shows "keeps R (andthen (resolve_operator_uuid found player) (\<lambda>r. case r of None \<Rightarrow> ret () | Some v \<Rightarrow> k v))"
proof (cases found)
  case (Inl e)
  have "keeps R (andthen (andthen (whisper_error_to_player player (store_error_of_mojang e)) (\<lambda>_. ret (None :: string option)))
      (\<lambda>r. case r of None \<Rightarrow> ret () | Some v \<Rightarrow> k v))"
  proof (rule R_andthen_dep)
    fix r :: "string option" and w w'
    assume "andthen (whisper_error_to_player player (store_error_of_mojang e)) (\<lambda>_. ret None) w = (Ok r, w')"
    then have "r = None" by (auto elim: andthenE)
    then show "keeps R (case r of None \<Rightarrow> ret () | Some v \<Rightarrow> k v)" by auto
  qed (intro R_op_steps)
  then show ?thesis unfolding resolve_operator_uuid_def Inl sum.case .
next
  case (Inr v)
  then have "v = u" using assms(1) by blast
  then show ?thesis using assms(2) unfolding resolve_operator_uuid_def Inr sum.case
    by (auto simp: keeps_def andthen_def ret_def)
qed

lemma R_checked_resolved:
  fixes k :: "string \<Rightarrow> unit act"
  assumes "\<And>v. found = Inr v \<Longrightarrow> v = u" "keeps R (k u)"
  shows "keeps R (andthen (checked (assert_invariants False)) (\<lambda>_.
    andthen (resolve_operator_uuid found player) (\<lambda>r. case r of None \<Rightarrow> ret () | Some v \<Rightarrow> k v)))"
  by (rule R_andthen [OF R_assert], rule R_resolved; fact assms)

lemma R_handle_additem:
  assumes "\<And>v. found = Inr v \<Longrightarrow> v = u"
  shows "keeps R (handle_additem_order found player item quantity)"
proof -
  have reject: "keeps R (case e of TradeRejected m \<Rightarrow> whisper_action_aborted player ''Additem'' m None | other \<Rightarrow> fail other)"
    for e :: store_error
    by (cases e; simp only: store_error.case whisper_action_aborted_def) (intro R_op_steps)+
  show ?thesis unfolding handle_additem_order_def Let_def
    by (rule R_checked_resolved, erule assms) (intro R_op_steps R_additem_store reject)
qed

lemma R_handle_removeitem:
  assumes "\<And>v. found = Inr v \<Longrightarrow> v = u"
  shows "keeps R (handle_removeitem_order found player item quantity)"
  unfolding handle_removeitem_order_def Let_def 
  by (rule R_checked_resolved, erule assms) (intro R_op_steps R_removeitem_fetch)+

lemma R_handle_currency:
  assumes "\<And>v. found = Inr v \<Longrightarrow> v = u"
  shows "keeps R (handle_add_currency found player item amount)" "keeps R (handle_remove_currency found player item amount)"
  unfolding handle_add_currency_def handle_remove_currency_def
  by (rule R_checked_resolved, erule assms; intro R_op_steps R_adjust)+

end

end
