(* ===== verification/Operator_Properties.thy ===== *)
theory Operator_Properties
  imports Operator_Effects
begin

text \<open>
  The properties of the operator commands: the stock of the pair is the stock of the storage after every outcome
  that reaches the end of the handler, the errors that do not reach it leave the stock stale, and a
  change of the reserve is exact.
\<close>

section \<open>The stock read back\<close>

definition stock_true :: "item_id \<Rightarrow> store \<Rightarrow> bool" where
  "stock_true item s \<longleftrightarrow> (\<exists>p. hget (pairs s) item = Some p \<and> pair_item p = item \<and>
     item_stock p = total_item_amount (storage s) item)"

definition pair_known :: "item_id \<Rightarrow> store \<Rightarrow> bool" where
  "pair_known item s \<longleftrightarrow> (\<exists>p. hget (pairs s) item = Some p \<and> pair_item p = item)"

lemma stock_true_cong: "pairs s' = pairs s \<Longrightarrow> storage s' = storage s \<Longrightarrow> stock_true item s' = stock_true item s"
  by (simp add: stock_true_def)

lemma pair_known_cong: "pairs s' = pairs s \<Longrightarrow> pair_known item s' = pair_known item s"
  by (simp add: pair_known_def)

lemma resync_true:
  assumes "resync_stock item context w = (r, w')" "pair_known item (w_store w)" "r \<noteq> Panicked"
  shows "\<exists>n. r = Ok n \<and> stock_true item (w_store w')"
  using assms
  by (auto simp: resync_stock_def pair_known_def stock_true_def then_steps split: if_splits)

lemma audit_pairs_get:
  "audit_pairs st b ps = (is, c, qs) \<Longrightarrow> hget qs k = map_option (\<lambda>p. snd (snd (audit_pair st b p))) (hget ps k)"
  by (induction ps arbitrary: "is" c qs) (auto split: prod.splits)

lemma audit_state_true:
  assumes "stock_true item s"
  shows "stock_true item (snd (audit_state b s))"
proof -
  obtain p where p: "hget (pairs s) item = Some p" "pair_item p = item" "item_stock p = total_item_amount (storage s) item"
    using assms by (auto simp: stock_true_def)
  then have "snd (snd (audit_pair (storage s) b p)) = p" by (simp add: audit_pair_def)
  moreover obtain ai ac qs where a: "audit_pairs (storage s) b (pairs s) = (ai, ac, qs)" by (metis prod_cases3)
  ultimately have "hget (pairs (snd (audit_state b s))) item = Some p"
    using audit_pairs_get [OF a, of item] p(1) by (simp add: audit_state_def)
  then show ?thesis using p by (simp add: stock_true_def audit_state_same)
qed

lemma post_check_pairs:
  assumes "post_check w = (r, w')"
  shows "pairs (w_store w') = pairs (snd (audit_state True (w_store w)))"
proof -
  let ?s = "snd (assert_invariants True (w_store w))"
  have s: "?s = snd (audit_state True (w_store w))" by (simp add: assert_invariants_def split: prod.split)
  have "w' = w\<lparr>w_store := ?s\<rparr> \<or> w' = snd (save_ignored (w\<lparr>w_store := ?s\<rparr>))"
    using assms by (auto simp: post_check_def andthen_def attempt_def checked_def ret_def save_ignored_def Let_def
        split: prod.splits sum.splits)
  then show ?thesis by (auto simp: s save_ignored_same)
qed

lemma post_check_true: "post_check w = (r, w') \<Longrightarrow> stock_true item (w_store w) \<Longrightarrow> stock_true item (w_store w')"
  by (subst stock_true_cong [of "w_store w'" "snd (audit_state True (w_store w))"])
    (simp_all add: post_check_pairs post_check_books(3) audit_state_same audit_state_true)

lemma send_store: "send_message_to_player p msg w = (r, w') \<Longrightarrow> w_store w' = w_store w"
  by (auto simp: send_message_to_player_def split: prod.splits reply.splits sum.splits)

lemma conclude_store: "conclude player msg final w = (r, w') \<Longrightarrow> w_store w' = w_store w"
  by (auto simp: conclude_def lift_err_def elim!: andthenE attemptE dest!: send_store split: option.splits sum.splits)

lemma push_true:
  "push_trade ty i a c u w = (r, w') \<Longrightarrow> stock_true item (w_store w') = stock_true item (w_store w)"
  "push_order x w = (r2, w') \<Longrightarrow> stock_true item (w_store w') = stock_true item (w_store w)"
  by (auto simp: push_trade_def push_order_def andthen_def or_panic_def stock_true_def split: prod.splits option.splits)

text \<open>The end of both handlers.\<close>

lemma additem_finish_true:
  assumes "additem_finish player u item qty b x w = (r, w')" "pair_known item (w_store w)" "r \<noteq> Panicked"
  shows "stock_true item (w_store w')"
  using assms unfolding additem_finish_def
  by (cases x) (auto elim!: andthenE dest!: resync_true conclude_store push_true post_check_true split: if_splits)

lemma removeitem_finish_true:
  assumes "removeitem_finish player u item qty b x w = (r, w')" "pair_known item (w_store w)" "r \<noteq> Panicked"
  shows "stock_true item (w_store w')"
  using assms unfolding removeitem_finish_def
  by (cases x) (auto elim!: andthenE dest!: resync_true conclude_store push_true post_check_true split: if_splits)

lemma quiet_known: "books_kept w w' \<Longrightarrow> pair_known item (w_store w') = pair_known item (w_store w)"
  by (simp add: books_kept_def books_def pair_known_def)

lemmas quiet_steps = quiet.R_additem_steps [THEN keeps_apply, THEN quiet_known]
  quiet.R_additem_return [THEN keeps_apply, THEN quiet_known] quiet.R_deposit_transfers [THEN keeps_apply, THEN quiet_known]
  quiet.R_perform_trade [THEN keeps_apply, THEN quiet_known]

lemma additem_steps_no_err: "additem_steps ts item stk n w \<noteq> (Err e, w')"
proof (induction ts arbitrary: n w)
  case (Cons t ts)
  then show ?case
    by (auto simp: node_position_of_def or_panic_def elim!: andthenE split: reply.splits sum.splits prod.splits option.splits)
qed simp

lemma additem_return_no_err: "additem_return player item n k reason w \<noteq> (Err e, w')"
  by (auto simp: additem_return_def split: reply.splits sum.splits prod.splits)

text \<open>A step that cannot fail.\<close>

lemma andthen_noerrE:
  assumes "andthen m k w = (r, w')" "r \<noteq> Panicked" "\<And>e v. m w \<noteq> (Err e, v)"
  obtains a w1 where "m w = (Ok a, w1)" "k a w1 = (r, w')"
  by (rule andthenE [OF assms(1)]) (use assms that in auto)

lemma additem_store_true:
  assumes "additem_store player u item qty plan stk w = (r, w')" "pair_known item (w_store w)" "r \<noteq> Panicked"
  shows "stock_true item (w_store w')"
proof -
  obtain n failed w1 where s: "additem_steps plan item stk 0 w = (Ok (n, failed), w1)"
    and k: "(case failed of None \<Rightarrow> additem_finish player u item qty True (None, None)
       | Some reason \<Rightarrow> andthen (if wrap_i32 (qty - n) > 0 then additem_return player item (wrap_i32 (qty - n)) n reason
               else ret (Some (''Additem failed: '' @ reason), None)) (additem_finish player u item qty False)) w1 = (r, w')"
    using assms(1,3) unfolding additem_store_def Let_def
    by (auto elim!: andthen_noerrE simp: additem_steps_no_err)
  have w1: "pair_known item (w_store w1)" using quiet_steps(1) [OF s] assms(2) by simp
  show ?thesis
  proof (cases failed)
    case None
    then show ?thesis using k additem_finish_true [OF _ w1 assms(3)] by simp
  next
    case (Some reason)
    let ?m = "if wrap_i32 (qty - n) > 0 then additem_return player item (wrap_i32 (qty - n)) n reason
               else ret (Some (''Additem failed: '' @ reason), None)"
    have "andthen ?m (additem_finish player u item qty False) w1 = (r, w')" using k Some by simp
    then obtain x w2 where x: "?m w1 = (Ok x, w2)" "additem_finish player u item qty False x w2 = (r, w')"
      using assms(3) by (rule andthen_noerrE) (simp_all add: additem_return_no_err)
    then have "pair_known item (w_store w2)"
      using w1 quiet_steps(2) [where item = item] by (auto split: if_splits)
    then show ?thesis using additem_finish_true [OF x(2) _ assms(3)] by simp
  qed
qed

lemma deposit_steps_no_err: "deposit_steps ts item stk rb w \<noteq> (Err e, w')"
proof (induction ts arbitrary: rb w)
  case (Cons t ts)
  then show ?case
    by (auto elim!: andthenE dest: node_position_same split: reply.splits sum.splits prod.splits)
qed simp

lemma deposit_transfers_no_err: "deposit_transfers ts item stk w \<noteq> (Err e, w')"
  by (simp add: deposit_transfers_def deposit_steps_no_err)

lemma removeitem_trade_true:
  assumes "removeitem_trade player u item qty plan w = (r, w')" "pair_known item (w_store w)" "r \<noteq> Panicked"
    "\<forall>n. r \<noteq> Err (TradeTimeout n)" "\<forall>e. r \<noteq> Err (BotResponseDropped e)"
  shows "stock_true item (w_store w')"
proof -
  obtain x w1 where x: "perform_trade player [\<lparr>ti_item = item, ti_amount = qty\<rparr>] [] False False w = (x, w1)" by force
  have w1: "pair_known item (w_store w1)" using quiet_steps(4) [OF x] assms(2) by simp
  have undone: "stock_true item (w_store w')"
    if h: "andthen (current_stack_size item) (\<lambda>stk. andthen (deposit_transfers plan item stk) (\<lambda>rb.
             removeitem_finish player u item qty False (f rb))) w1 = (r, w')" for f
  proof -
    obtain stk where "andthen (deposit_transfers plan item stk) (\<lambda>rb. removeitem_finish player u item qty False (f rb)) w1 = (r, w')"
      using h by (auto simp: current_stack_size_def then_steps)
    then obtain rb w2 where d: "deposit_transfers plan item stk w1 = (Ok rb, w2)"
      "removeitem_finish player u item qty False (f rb) w2 = (r, w')"
      using assms(3) by (rule andthen_noerrE) (simp_all add: deposit_transfers_no_err)
    then show ?thesis using removeitem_finish_true [OF d(2) _ assms(3)] quiet_steps(3) [OF d(1)] w1 by simp
  qed
  consider items where "x = Ok items" | e where "x = Err (TradeRejected e)" | "x = Err BotDisconnected"
    | n where "x = Err (TradeTimeout n)" | m where "x = Err (BotResponseDropped m)"
    using x by (auto simp: perform_trade_def split: prod.splits reply.splits sum.splits)
  then show ?thesis
    using assms(1,3-5) x w1 undone
    by cases (auto simp: removeitem_trade_def andthen_def attempt_def dest: removeitem_finish_true)
qed

section \<open>Properties of stock commands\<close>


text \<open>C30: When the hand-over trade of a removal is never answered, the handler returns the timeout at once: the withdrawn
  items stay on the bot, no deposit is sent after the trade, and the pair keeps the stock it had before the
  storage was emptied.\<close>

theorem removeitem_timeout_strands:
  assumes "execute_chest_transfers plan item stk DirWithdraw w = (Ok (), w1)"
    "hget (pairs (w_store w)) item = Some p" "stack_size p = stk"
    "ask_trade (TradeTask player [\<lparr>ti_item = item, ti_amount = qty\<rparr>] [] False False) w1 = (TimedOut, w2)"
  shows "removeitem_fetch player u item qty plan w = (Err (TradeTimeout (trade_timeout_ms (conf (w_store w)))), w2) \<and>
    storage (w_store w2) = storage (w_store w1) \<and> hget (pairs (w_store w2)) item = Some p \<and>
    sent w2 = sent w1 @ [TradeTask player [\<lparr>ti_item = item, ti_amount = qty\<rparr>] [] False False]"
proof -
  have b: "pairs (w_store w1) = pairs (w_store w)" "conf (w_store w1) = conf (w_store w)"
    using quietD(3) [OF assms(1)] by (simp_all add: books_kept_def books_def)
  have s: "w_store w2 = w_store w1" using assms(4) by simp
  have "sent w2 = sent w1 @ [TradeTask player [\<lparr>ti_item = item, ti_amount = qty\<rparr>] [] False False]"
    using assms(4) by (auto simp: ask_trade_def log_sent_def Let_def simp del: ask_store split: prod.splits)
  then show ?thesis using assms b s
    by (simp add: removeitem_fetch_def removeitem_trade_def current_stack_size_def then_steps perform_trade_def
        andthen_def attempt_def)
qed

section \<open>The reserve\<close>

lemma checked_assert_False:
  "checked (assert_invariants False) w = (r, w') \<Longrightarrow> w' = w \<and> r \<noteq> Panicked"
  using audit_false_id [of "w_store w"]
  by (auto simp: checked_def assert_invariants_def split: prod.splits sum.splits if_splits)

lemma reserve_sub:
  assumes "f_is_finite c" "f64_ok c" "f_is_finite a" "\<not> f_le a (f_of_int 0)" "\<not> f_lt c a"
  shows "finite_nonneg (f_sub c a)" "f_le a c"
proof -
  obtain x y where xy: "c = Fin x" "a = Fin y" using assms by (auto simp: f_is_finite_iff)
  have z: "f_of_int 0 = Fin 0" by (simp add: in_i32_def i32_min_def i32_max_def)
  from assms xy z have r: "representable x" "0 \<le> x - y" "x - y \<le> x" by auto
  from to_f64_sandwich [OF r(2,3,1)] show "finite_nonneg (f_sub c a)" using xy z by (simp add: finite_nonneg_def)
  show "f_le a c" using xy assms by auto
qed

lemma no_panics:
  "whisper_error_to_player p e w \<noteq> (Panicked, w')" "conclude p m f w \<noteq> (Panicked, w')" "send_message_to_player p m w \<noteq> (Panicked, w')"
  using send_no_panic by (fastforce simp: whisper_error_to_player_def conclude_def lift_err_def elim!: andthenE attemptE
      split: option.splits sum.splits)+

lemma post_check_money: "post_check w = (r, w') \<Longrightarrow> (\<exists>b. r = Ok b) \<and>
    map_option currency_stock (hget (pairs (w_store w')) k) = map_option currency_stock (hget (pairs (w_store w)) k)"
  using post_check_books(4,5) by blast

lemma push_ends:
  "push_trade ty i a c u w = (r, w') \<Longrightarrow> i \<noteq> [] \<Longrightarrow> r = Ok () \<and> (\<exists>t. w_store w' = (w_store w)\<lparr>trades := trades (w_store w) @ [t]\<rparr>)"
  "push_order (Some x) w = (r, w') \<Longrightarrow> r = Ok () \<and> w_store w' = (w_store w)\<lparr>order_log := order_log (w_store w) @ [x]\<rparr>"
  by (auto dest: push_trade_books push_order_books)

lemma remove_currency_end:
  assumes "andthen (updating (ensure_user_exists player u)) (\<lambda>_.
       andthen (adjust_reserve item ''remove-currency/commit'' (\<lambda>c. f_sub c amount)) (\<lambda>new_reserve.
       andthen (push_trade TradeRemoveCurrency item 0 amount u) (\<lambda>_.
       andthen (push_order (order_remove_currency item amount u)) (\<lambda>_.
       andthen post_check (\<lambda>_. send_message_to_player player (msg new_reserve)))))) w = (r, w')"
    "hget (pairs (w_store w)) item = Some p" "item \<noteq> []" "f_is_finite amount" "\<not> f_le amount (f_of_int 0)"
    "finite_nonneg (f_sub (currency_stock p) amount)"
  shows "r \<noteq> Panicked \<and> map_option currency_stock (hget (pairs (w_store w')) item) = Some (f_sub (currency_stock p) amount)"
proof -
  have "finite_nonneg amount"
    using assms(4,5) by (auto simp: finite_nonneg_def f_is_finite_iff in_i32_def i32_min_def i32_max_def)
  then obtain x where x: "order_remove_currency item amount u = Some x" by (simp add: order_remove_currency_def)
  show ?thesis using assms
    by (auto simp: then_updating adjust_reserve_def then_pair then_reading expect_pair_def lift_err_def andthen_Ok x
        elim!: andthenE dest!: push_ends post_check_money [where k = item] dest: send_no_panic send_store)
qed

text \<open>Removing currency never fails an assertion and never takes more than there is: the reserve of the pair is what
  it was, or exactly the amount less and still a finite number that is not negative.\<close>

theorem remove_currency_exact:
  assumes "handle_remove_currency (Inr u) player item amount w = (r, w')" "hget (pairs (w_store w)) item = Some p"
    "f_is_finite (currency_stock p)" "f64_ok (currency_stock p)" "item \<noteq> []"
  shows "r \<noteq> Panicked \<and>
    (map_option currency_stock (hget (pairs (w_store w')) item) = Some (currency_stock p) \<or>
     f_le amount (currency_stock p) \<and> finite_nonneg (f_sub (currency_stock p) amount) \<and>
     map_option currency_stock (hget (pairs (w_store w')) item) = Some (f_sub (currency_stock p) amount))"
proof -
  have k: "has_key (pairs (w_store w)) item" using assms(2) by (simp add: has_key_def)
  obtain c w1 where c: "checked (assert_invariants False) w = (c, w1)" by force
  note c' = checked_assert_False [OF c]
  show ?thesis
  proof (cases "c = Ok () \<and> f_is_finite amount \<and> \<not> f_le amount (f_of_int 0) \<and> \<not> f_lt (currency_stock p) amount")
    case True
    then have e: "finite_nonneg (f_sub (currency_stock p) amount)" "f_le amount (currency_stock p)"
      using reserve_sub [OF assms(3,4)] by auto
    then show ?thesis using assms(1) True c c' remove_currency_end [OF _ assms(2,5) _ _ e(1)]
      by (auto simp: handle_remove_currency_def andthen_Ok resolve_operator_uuid_def then_reading k expect_pair_def assms(2) lift_err_def)
  next
    case False
    then have "(\<exists>e. r = Err e) \<and> w' = w \<or> (\<exists>m. send_message_to_player player m w = (r, w'))"
      using assms(1) c c'
      by (cases c) (auto simp: handle_remove_currency_def andthen_def resolve_operator_uuid_def ret_def reading_def k
          expect_pair_def assms(2) lift_err_def split: if_splits)
    then show ?thesis using assms(2) send_store send_no_panic by fastforce
  qed
qed

section \<open>Witnesses\<close>

lemma sample_iron: "hget (pairs (w_store sample_world)) ''iron'' = Some sample_pair" "pair_known ''iron'' (w_store sample_world)"
  by (simp_all add: sample_world_def sample_store_def sample_pair_def pair_known_def)

theorem remove_currency_exact_witness:
  "\<exists>r w'. handle_remove_currency (Inr sample_uuid) ''op'' ''iron'' (Fin 10) sample_world = (r, w') \<and> r \<noteq> Panicked"
proof -
  obtain r w' where run: "handle_remove_currency (Inr sample_uuid) ''op'' ''iron'' (Fin 10) sample_world = (r, w')" by force
  have "f64_ok (currency_stock sample_pair)" using representable_of_int [of 100] by (simp add: sample_pair_def)
  with remove_currency_exact [OF run sample_iron(1)] run show ?thesis by (auto simp: sample_pair_def)
qed

text \<open>The chest is emptied; the hand-over trade is never answered.\<close>

definition sample_emptying :: world where
  "sample_emptying = sample_world\<lparr>chest_replies := [Answered (Inr \<lparr>r_chest_id = 3, r_item = ''iron'', r_amounts = [0, 0, 0]\<rparr>)],
     trade_replies := [TimedOut]\<rparr>"

theorem removeitem_timeout_strands_witness:
  "\<exists>w2. removeitem_fetch ''op'' sample_uuid ''iron'' 7 [transfer (chests sample_loaded ! 3) ''iron'' 7] sample_emptying =
      (Err (TradeTimeout 45000), w2) \<and> hget (pairs (w_store w2)) ''iron'' = Some sample_pair"
proof -
  let ?plan = "[transfer (chests sample_loaded ! 3) ''iron'' 7]"
  obtain r w1 where run: "execute_chest_transfers ?plan ''iron'' 64 DirWithdraw sample_emptying = (r, w1)" by force
  have t: "tr_chest_id (transfer (chests sample_loaded ! 3) ''iron'' 7) = 3" by code_simp
  have "(case sync_nodes \<lparr>r_chest_id = 3, r_item = ''iron'', r_amounts = [0, 0, 0]\<rparr> (nodes sample_storage) of Some (Inr ns) \<Rightarrow> True | _ \<Rightarrow> False)"
    by code_simp
  then have ok: "fst (apply_chest_sync \<lparr>r_chest_id = 3, r_item = ''iron'', r_amounts = [0, 0, 0]\<rparr> sample_store) = Inr ()"
    by (auto simp: apply_chest_sync_def sample_store_storage split: option.splits sum.splits)
  have np: "\<exists>np. get_node_position sample_store 3 = Some np"
  proof -
    have "node_id sample_loaded = 3 sdiv int CHESTS_PER_NODE" by code_simp
    then show ?thesis by (simp add: get_node_position_def sample_store_storage sample_storage_def)
  qed
  have "r = Ok () \<and> trade_replies w1 = [TimedOut]"
    using run ok np t
    by (auto simp: execute_chest_transfers_def sample_emptying_def sample_world_def node_position_of_def then_reading or_panic_def
        andthen_def ask_chest_def next_of_def log_sent_def Let_def simp del: ask_store split: prod.splits sum.splits)
  moreover obtain w2 where "ask_trade (TradeTask ''op'' [\<lparr>ti_item = ''iron'', ti_amount = 7\<rparr>] [] False False) w1 = (TimedOut, w2)"
    using calculation by (auto simp: ask_trade_def next_of_def Let_def simp del: ask_store)
  ultimately have e: "execute_chest_transfers ?plan ''iron'' 64 DirWithdraw sample_emptying = (Ok (), w1)"
    "ask_trade (TradeTask ''op'' [\<lparr>ti_item = ''iron'', ti_amount = 7\<rparr>] [] False False) w1 = (TimedOut, w2)" using run by simp_all
  have p: "hget (pairs (w_store sample_emptying)) ''iron'' = Some sample_pair" "stack_size sample_pair = 64"
    "conf (w_store sample_emptying) = conf sample_store"
    using sample_iron(1) by (simp_all add: sample_emptying_def sample_pair_def sample_world_def)
  show ?thesis
    using removeitem_timeout_strands [OF e(1) p(1,2) e(2), of sample_uuid] p(3) by (auto simp: sample_store_def)
qed


end
