(* ===== verification/Payments.thy ===== *)
theory Payments
  imports Player Operator_Properties
begin

text \<open>
  The payment between players (\<open>pay_async\<close> of handlers/player.rs) on every branch: what it moves, what it leaves, and
  when the closing audit can fail it after the money has moved.
\<close>

section \<open>The audit after a payment\<close>

definition user_fine :: "user \<Rightarrow> bool" where
  "user_fine x \<longleftrightarrow> audit_user x = []"

lemma user_fine_iff: "user_fine x \<longleftrightarrow> finite_nonneg (balance x)"
  by (cases "balance x") (auto simp: user_fine_def audit_user_def finite_nonneg_def in_i32_def i32_min_def i32_max_def)

lemma hput_all: "\<forall>kx\<in>set m. P (snd kx) \<Longrightarrow> P v \<Longrightarrow> \<forall>kx\<in>set (hput m k v). P (snd kx)"
  by (induction m) auto

lemma audit_pairs_repaired:
  "fst (audit_pairs st False ps) = [] \<Longrightarrow> fst (audit_pairs st True ps) = []"
proof (induction ps)
  case (Cons kp ps)
  obtain k p where kp: "kp = (k, p)" by force
  obtain i1 b1 p1 where f: "audit_pairs st False ps = (i1, b1, p1)" by (metis prod_cases3)
  obtain i2 b2 p2 where t: "audit_pairs st True ps = (i2, b2, p2)" by (metis prod_cases3)
  from Cons f t kp show ?case by (auto simp: audit_pair_def Let_def split: if_splits prod.splits)
qed simp

lemma audit_clean_iff:
  "issues (fst (audit_state b s)) = [] \<longleftrightarrow> (\<forall>kx\<in>set (users s). user_fine (snd kx)) \<and>
     (\<forall>c\<in>set (all_chests (storage s)). audit_chest_of s c = []) \<and> fst (audit_pairs (storage s) b (pairs s)) = []"
  by (auto simp: audit_state_def Let_def user_fine_def split: prod.split)

lemma audit_still_clean:
  assumes "issues (fst (audit_state False s)) = []" "pairs s' = pairs s" "storage s' = storage s"
    "\<forall>kx\<in>set (users s'). user_fine (snd kx)"
  shows "issues (fst (audit_state True s')) = []"
proof -
  have "audit_chest_of s' c = audit_chest_of s c" for c
    by (simp add: audit_chest_of_def item_capacity_def assms(2))
  then show ?thesis using assms audit_pairs_repaired by (simp add: audit_clean_iff)
qed

lemma checked_assert_ok: "checked (assert_invariants b) w = (Ok x, w') \<Longrightarrow> issues (fst (audit_state b (w_store w))) = []"
  by (auto simp: checked_def assert_invariants_def split: prod.splits sum.splits if_splits)

lemma checked_assert_cases:
  assumes "checked (assert_invariants b) w = (r, w')"
  shows "r \<noteq> Panicked" "users (w_store w') = users (w_store w)" "issues (fst (audit_state b (w_store w))) = [] \<Longrightarrow> r = Ok ()"
  using assms audit_state_same(3) [of b "w_store w"]
  by (auto simp: checked_def assert_invariants_def split: prod.splits sum.splits if_splits)

section \<open>The payment\<close>

lemma ensure_fine:
  assumes "\<forall>kx\<in>set (users s). user_fine (snd kx)"
  shows "\<forall>kx\<in>set (users (ensure_user_exists p v s)). user_fine (snd kx)"
proof -
  have new: "user_fine \<lparr>uuid = v, username = p, balance = f_of_int 0, operator = False\<rparr>"
    by (simp add: user_fine_iff finite_nonneg_def in_i32_def i32_min_def i32_max_def)
  show ?thesis
  proof (cases "hget (users s) v")
    case None
    then show ?thesis using hput_all [OF assms new, of v] assms by (simp add: ensure_user_exists_def)
  next
    case (Some x)
    have "user_fine (x\<lparr>username := p\<rparr>)" using bspec [OF assms map_of_SomeD [OF Some]] by (simp add: user_fine_iff)
    then show ?thesis using Some hput_all [OF assms, of "x\<lparr>username := p\<rparr>" v] assms by (simp add: ensure_user_exists_def)
  qed
qed

lemma credit_fine:
  assumes "finite_nonneg b" "f_is_finite a" "\<not> f_le a (f_of_int 0)" "f_is_finite (f_add b a)"
  shows "finite_nonneg (f_add b a)"
proof -
  obtain x y where xy: "b = Fin x" "a = Fin y" using assms by (auto simp: f_is_finite_iff finite_nonneg_def)
  have z: "f_of_int 0 = Fin 0" by (simp add: in_i32_def i32_min_def i32_max_def)
  with assms xy have p: "0 \<le> x + y" by (simp add: finite_nonneg_def)
  from rnd_nonneg [OF p] show ?thesis using assms(4) xy z
    by (auto simp: to_f64_def finite_nonneg_def Let_def split: if_splits)
qed

text \<open>The two writes, and the audit that closes them.\<close>

lemma pay_move_moves:
  assumes run: "pay_move payer u v amount w = (r, w')"
    and x: "hget (users (w_store w)) u = Some x" and y: "hget (users (w_store w)) v = Some y" and "u \<noteq> v"
    and clean: "issues (fst (audit_state False s0)) = []" "pairs (w_store w) = pairs s0" "storage (w_store w) = storage s0"
      "\<forall>kx\<in>set (users (w_store w)). user_fine (snd kx)"
    and amount: "f_is_finite amount" "\<not> f_le amount (f_of_int 0)" "\<not> f_lt (balance x) amount" "f64_ok (balance x)"
  shows "r \<noteq> Panicked \<and> balance_of (w_store w') = (balance_of (w_store w))(u := f_sub (balance x) amount, v := f_add (balance y) amount) \<and>
    (r = Ok () \<or> \<not> f_is_finite (f_add (balance y) amount))"
proof -
  let ?x = "x\<lparr>balance := f_sub (balance x) amount, username := payer\<rparr>"
  let ?y = "y\<lparr>balance := f_add (balance y) amount\<rparr>"
  let ?us = "hput (hput (users (w_store w)) u ?x) v ?y"
  let ?w = "w\<lparr>w_store := (w_store w)\<lparr>users := ?us, dirty := True, dirty_users := insert v (insert u (dirty_users (w_store w)))\<rparr>\<rparr>"
  have c: "checked (assert_invariants True) ?w = (r, w')"
    using run x y \<open>u \<noteq> v\<close> by (simp add: pay_move_def andthen_def writing_def expect_user_mut_def updating_def)
  note end1 = checked_assert_cases [OF c]
  have b: "balance_of (w_store w') = (balance_of (w_store w))(u := f_sub (balance x) amount, v := f_add (balance y) amount)"
    using end1(2) \<open>u \<noteq> v\<close> by (auto simp: balance_of_def fun_eq_iff)
  have "r = Ok ()" if fin: "f_is_finite (f_add (balance y) amount)"
  proof -
    have m: "(u, x) \<in> set (users (w_store w))" "(v, y) \<in> set (users (w_store w))" using x y by (auto dest: map_of_SomeD)
    have "finite_nonneg (balance x)" "finite_nonneg (balance y)"
      using bspec [OF clean(4) m(1)] bspec [OF clean(4) m(2)] by (simp_all add: user_fine_iff)
    then have "user_fine ?x" "user_fine ?y"
      using reserve_sub(1) [of "balance x" amount] credit_fine fin amount
      by (auto simp: user_fine_iff finite_nonneg_def)
    then have "\<forall>kx\<in>set ?us. user_fine (snd kx)" using clean(4) by (intro hput_all)
    then show ?thesis using audit_still_clean [OF clean(1), of "w_store ?w"] clean(2,3) end1(3) by simp
  qed
  with b end1(1) show ?thesis by blast
qed

text \<open>C9: A payment is all or nothing. Either no balance changes and the payer is told an error; or the amount was positive,
  finite and covered, the payer's balance falls by it, the payee's rises by it and nobody else's moves. After the
  money has moved it still reports an error only if the payee's new balance is no longer finite.\<close>

theorem pay_exact:
  assumes run: "pay_async found payer u payee amount w = (r, w')"
    and shape: "\<forall>v. found = Inr v \<longrightarrow> is_valid_uuid_shape v"
    and ok: "f64_ok (balance_of (w_store w) u)"
  shows "r \<noteq> Panicked \<and>
    ((\<exists>e. r = Err e) \<and> balance_of (w_store w') = balance_of (w_store w) \<or>
     (\<exists>v. found = Inr v \<and> v \<noteq> u \<and> f_is_finite amount \<and> \<not> f_le amount (f_of_int 0) \<and>
        \<not> f_lt (balance_of (w_store w) u) amount \<and>
        balance_of (w_store w') = (balance_of (w_store w))
          (u := f_sub (balance_of (w_store w) u) amount, v := f_add (balance_of (w_store w) v) amount) \<and>
        (r = Ok () \<or> \<not> f_is_finite (f_add (balance_of (w_store w) v) amount))))"
proof -
  obtain r0 where c: "checked (assert_invariants False) w = (r0, w)" "r0 \<noteq> Panicked"
    using checked_assert_False by (metis prod.collapse)
  show ?thesis
  proof (cases "\<exists>v x. r0 = Ok () \<and> found = Inr v \<and> u \<noteq> v \<and> f_is_finite amount \<and> \<not> f_le amount (f_of_int 0) \<and>
      hget (users (w_store w)) u = Some x")
    case False
    then have "(\<exists>e. r = Err e) \<and> w' = w" using run c
      by (cases found; cases r0) (auto simp: pay_async_def andthen_def fail_def reading_def has_key_def split: if_splits)
    then show ?thesis by auto
  next
    case True
    then obtain v x where r0: "r0 = Ok ()" and v: "found = Inr v" "u \<noteq> v" and a: "f_is_finite amount" "\<not> f_le amount (f_of_int 0)"
      and x: "hget (users (w_store w)) u = Some x" by blast
    define w1 where "w1 = (if has_key (users (w_store w)) v then w else w\<lparr>w_store := ensure_user_exists payee v (w_store w)\<rparr>)"
    have b1: "balance_of (w_store w1) = balance_of (w_store w)" by (simp add: w1_def fun_eq_iff)
    have w1: "hget (users (w_store w1)) u = Some x"
      "pairs (w_store w1) = pairs (w_store w)" "storage (w_store w1) = storage (w_store w)"
      using x v(2) by (auto simp: w1_def fun_eq_iff ensure_user_exists_def split: option.split)
    obtain y where y: "hget (users (w_store w1)) v = Some y"
      using ensure_user_has shape v(1) by (fastforce simp: w1_def has_key_def)
    have clean: "issues (fst (audit_state False (w_store w))) = []" using checked_assert_ok c(1) r0 by blast
    then have fine: "\<forall>kx\<in>set (users (w_store w1)). user_fine (snd kx)"
      using ensure_fine [of "w_store w"] by (auto simp: w1_def audit_clean_iff)
    have go: "pay_async found payer u payee amount w =
        (if f_lt (balance x) amount then fail (ValidationError ''Insufficient balance.'') else pay_move payer u v amount) w1"
      using c r0 v a x w1(1) by (simp add: pay_async_def andthen_def reading_def updating_def ret_def expect_user_def lift_err_def
          has_key_def w1_def split: if_splits)
    have bal: "balance x = balance_of (w_store w) u" "balance y = balance_of (w_store w) v"
      using x y b1 by (auto simp: balance_of_def fun_eq_iff dest: spec [of _ v] split: option.splits)
    show ?thesis
    proof (cases "f_lt (balance x) amount")
      case True
      then show ?thesis using run go b1 by (auto simp: fail_def)
    next
      case False
      with go run have "pay_move payer u v amount w1 = (r, w')" by simp
      from pay_move_moves [OF this w1(1) y v(2) clean w1(2,3) fine a False] ok bal v a False b1 show ?thesis by simp
    qed
  qed
qed

theorem pay_exact_witness:
  "\<exists>r w'. pay_async (Inr ''fedcba9876543210fedcba9876543210'') ''alice'' sample_uuid ''bob'' (Fin 5) sample_world = (r, w') \<and>
    r \<noteq> Panicked \<and> (r = Ok () \<longrightarrow> balance_of (w_store w') sample_uuid = f_sub (Fin 50) (Fin 5))"
proof -
  let ?v = "''fedcba9876543210fedcba9876543210''"
  obtain r w' where run: "pay_async (Inr ?v) ''alice'' sample_uuid ''bob'' (Fin 5) sample_world = (r, w')" by force
  have v: "is_valid_uuid_shape ?v" by code_simp
  have b: "balance_of (w_store sample_world) sample_uuid = Fin 50" by (simp add: balance_of_def sample_world_def sample_store_def)
  have "f64_ok (balance_of (w_store sample_world) sample_uuid)" using representable_of_int [of 50] by (simp add: b)
  from pay_exact [OF run _ this] v run b show ?thesis by auto
qed

end
