(* ===== verification/Terminal.thy ===== *)
theory Terminal
  imports Player
begin

text \<open>
  The messages of the operator's terminal menu (\<^verbatim>\<open>src/store/handlers/cli.rs\<close>): queries, operator flags, nodes with and
  without a check by the bot, pairs, the manual audit, the discovery of storage, the release of a stuck order and
  the shutdown. A message is answered over its own channel, and the handler may fail besides. Deleting a
  file and saving a node only log their failures; neither is part of the state.
\<close>

section \<open>Messages and answers\<close>

datatype cli_message =
    QueryBalances
  | QueryPairs
  | QueryFee
  | SetOperator string bool
  | AddNode
  | AddNodeWithValidation
  | RemoveNode i32
  | AddPair string i32
  | RemovePair string
  | QueryStorage
  | QueryTrades nat
  | RestartBot
  | AuditState bool
  | DiscoverStorage
  | ClearStuckOrder
  | CliShutdown

datatype cli_reply =
    RUsers "user list"
  | RPairs "pair list"
  | RFee f64
  | RDone "string + unit"
  | RNode "string + i32"
  | RStorage storage
  | RTrades "trade list"
  | RReport audit_report
  | RCount "string + nat"
  | RStuck "string option"
  | RStopped

text \<open>\<open>str::trim\<close> over UTF-8 bytes.\<close>

function trim_start :: "string \<Rightarrow> string" where
  "trim_start s = (if ws_len s = 0 \<or> s = [] then s else trim_start (drop (ws_len s) s))"
  by pat_completeness auto
termination by (relation "measure length") auto

declare trim_start.simps [simp del]

fun trim_end :: "string \<Rightarrow> string" where
  "trim_end [] = []"
| "trim_end (c # cs) = (if trim_start (c # cs) = [] then [] else c # trim_end cs)"

definition trim :: "string \<Rightarrow> string" where
  "trim s = trim_end (trim_start s)"

section \<open>Operators\<close>

definition em_dash :: string where
  "em_dash = [CHR 0xE2, CHR 0x80, CHR 0x94]"

definition set_operator_flag :: "string \<Rightarrow> bool \<Rightarrow> cli_reply act" where
  "set_operator_flag u flag =
     andthen (reading (\<lambda>s. has_key (users s) u)) (\<lambda>known.
       if known then
         andthen (writing (expect_user_mut u ''set-operator'' (\<lambda>x. x\<lparr>operator := flag\<rparr>))) (\<lambda>_.
         andthen (updating (\<lambda>s. s\<lparr>dirty := True, dirty_users := insert u (dirty_users s)\<rparr>)) (\<lambda>_.
           ret (RDone (Inr ()))))
       else ret (RDone (Inl ''User not found'')))"

text \<open>A typed uuid must be known, and its name is kept; a typed name is resolved and registered.\<close>

definition set_operator :: "(string \<Rightarrow> mojang_error + string) \<Rightarrow> string \<Rightarrow> bool \<Rightarrow> cli_reply act" where
  "set_operator resolve username_or_uuid flag =
     (let trimmed = trim username_or_uuid in
      if is_valid_uuid_shape trimmed then
        andthen (reading (\<lambda>s. hget (users s) trimmed)) (\<lambda>existing.
          case existing of
            None \<Rightarrow> ret (RDone (Inl (''unknown UUID '' @ em_dash @
              '' grant operator by username instead, or pre-onboard the user first'')))
          | Some x \<Rightarrow>
              andthen (updating (ensure_user_exists (username x) trimmed)) (\<lambda>_. set_operator_flag trimmed flag))
      else case validate_username trimmed of
        Inl _ \<Rightarrow> ret (RDone (Inl ''input is neither a valid Minecraft username nor a canonical/bare-hex UUID''))
      | Inr _ \<Rightarrow>
          (case resolve trimmed of
             Inl e \<Rightarrow> fail (store_error_of_mojang e)
           | Inr u \<Rightarrow> andthen (updating (ensure_user_exists trimmed u)) (\<lambda>_. set_operator_flag u flag)))"

section \<open>Nodes\<close>

text \<open>A new node is at the end of the list; the first two chests of node 0 have fixed items.\<close>

definition force_node_0 :: "node \<Rightarrow> node" where
  "force_node_0 n =
     (if node_id n \<noteq> 0 then n
      else let cs = chests n;
               cs1 = (if 0 < length cs then cs[0 := (cs ! 0)\<lparr>chest_item := BASE_CURRENCY_ITEM\<rparr>] else cs);
               cs2 = (if 1 < length cs1 then cs1[1 := (cs1 ! 1)\<lparr>chest_item := OVERFLOW_CHEST_ITEM\<rparr>] else cs1)
           in n\<lparr>chests := cs2\<rparr>)"

definition claim_node :: "i32 act" where
  "claim_node =
     andthen (reading (\<lambda>s. add_node (storage s))) (\<lambda>grown.
     andthen (or_panic grown) (\<lambda>st.
       let n = last (nodes st) in
       andthen (updating (\<lambda>s. s\<lparr>storage := st\<lparr>nodes := butlast (nodes st) @ [force_node_0 n]\<rparr>, dirty := True\<rparr>)) (\<lambda>_.
         ret (node_id n))))"

definition cli_add_node :: "cli_reply act" where
  "cli_add_node = andthen claim_node (\<lambda>i. ret (RNode (Inr i)))"

definition next_node :: "store \<Rightarrow> i32" where
  "next_node s = lowest_unused (map node_id (nodes (storage s))) 0"

definition position_of_node :: "i32 \<Rightarrow> position act" where
  "position_of_node i = andthen (reading (\<lambda>s. node_calc_position i (st_position (storage s)))) or_panic"

definition add_node_with_validation :: "cli_reply act" where
  "add_node_with_validation =
     andthen (reading next_node) (\<lambda>i.
     andthen (position_of_node i) (\<lambda>pos w.
       (case ask_validate (ValidateTask i pos) w of
          (SendFailed, w') \<Rightarrow> ret (RNode (Inl ''Failed to send validation request to bot: channel closed'')) w'
        | (Answered (Inr _), w') \<Rightarrow> cli_add_node w'
        | (Answered (Inl e), w') \<Rightarrow> ret (RNode (Inl e)) w'
        | (Dropped, w') \<Rightarrow> ret (RNode (Inl ''Bot validation response dropped'')) w'
        | (TimedOut, w') \<Rightarrow> ret (RNode (Inl ''Node validation timed out after 120 seconds'')) w')))"

fun drop_node :: "i32 \<Rightarrow> node list \<Rightarrow> node list" where
  "drop_node i [] = []"
| "drop_node i (n # ns) = (if node_id n = i then ns else n # drop_node i ns)"

definition remove_node :: "i32 \<Rightarrow> cli_reply act" where
  "remove_node i =
     andthen (reading (\<lambda>s. list_ex (\<lambda>n. node_id n = i) (nodes (storage s)))) (\<lambda>found.
       if found then
         andthen (updating (\<lambda>s. s\<lparr>storage := (storage s)\<lparr>nodes := drop_node i (nodes (storage s))\<rparr>, dirty := True\<rparr>)) (\<lambda>_.
           ret (RDone (Inr ())))
       else ret (RDone (Inl (''Node '' @ dec_i32 i @ '' not found''))))"

lemma claim_node_replies: "claim_node w = (r, w') \<Longrightarrow> validate_replies w' = validate_replies w"
  by (cases "add_node (storage (w_store w))")
    (auto simp: claim_node_def andthen_def reading_def or_panic_def updating_def ret_def Let_def)

lemma validate_consumes:
  assumes "ask_validate i w = (Answered x, w')"
  shows "length (validate_replies w') < length (validate_replies w)"
proof (cases "validate_replies w")
  case (Cons q qs)
  then have "snd (ask_validate i w) = log_sent q i (w\<lparr>validate_replies := qs\<rparr>)"
    by (simp add: ask_validate_def next_of_def)
  then show ?thesis using Cons assms by (simp add: log_sent_def split: reply.splits)
qed (use assms in \<open>simp add: ask_validate_def next_of_def log_sent_def\<close>)

text \<open>The discovery asks the bot about one slot after the other and stops at the first that is refused or late. Each
  round uses up an answer of the bot, so it ends.\<close>

function discover :: "i32 list \<Rightarrow> i32 \<Rightarrow> nat \<Rightarrow> (string + nat) act" where
  "discover existing k n w =
     (let i = lowest_unused existing k in
      case node_calc_position i (st_position (storage (w_store w))) of
        None \<Rightarrow> (Panicked, w)
      | Some pos \<Rightarrow>
          (case ask_validate (ValidateTask i pos) w of
             (SendFailed, w') \<Rightarrow> (Ok (Inl ''Failed to send validation request: channel closed''), w')
           | (Answered (Inr _), w') \<Rightarrow>
               (case claim_node w' of
                  (Ok _, w'') \<Rightarrow> discover existing (i + 1) (Suc n) w''
                | (Err e, w'') \<Rightarrow> (Err e, w'')
                | (Panicked, w'') \<Rightarrow> (Panicked, w''))
           | (Answered (Inl _), w') \<Rightarrow> (Ok (Inr n), w')
           | (Dropped, w') \<Rightarrow> (Ok (Inl ''Bot validation response dropped''), w')
           | (TimedOut, w') \<Rightarrow> (Ok (Inr n), w')))"
  by pat_completeness auto
termination
proof (relation "measure (\<lambda>(_, _, _, w). length (validate_replies w))", goal_cases)
  case 2
  then show ?case by (auto dest!: sym [of "(Answered _, _)"] sym [of "(Ok _, _)"] validate_consumes claim_node_replies)
qed simp

declare discover.simps [simp del]

definition discover_storage :: "cli_reply act" where
  "discover_storage =
     andthen (reading (\<lambda>s. map node_id (nodes (storage s)))) (\<lambda>existing.
     andthen (discover existing 0 0) (\<lambda>r. ret (RCount r)))"

section \<open>Pairs\<close>

definition add_pair :: "string \<Rightarrow> i32 \<Rightarrow> cli_reply act" where
  "add_pair item_name stk =
     (if trim item_name = [] then ret (RDone (Inl ''Item name cannot be empty''))
      else if stk \<noteq> 1 \<and> stk \<noteq> 16 \<and> stk \<noteq> 64 then
        ret (RDone (Inl (''Invalid stack size: '' @ dec_i32 stk @ ''. Must be 1, 16, or 64'')))
      else case item_new item_name of
        Inl _ \<Rightarrow> ret (RDone (Inl ''Invalid item name''))
      | Inr item \<Rightarrow>
          if item = OVERFLOW_CHEST_ITEM \<or> item = BASE_CURRENCY_ITEM then
            ret (RDone (Inl (quoted item @ '' is a reserved chest sentinel and cannot be a tradeable pair'')))
          else andthen (reading (\<lambda>s. has_key (pairs s) item)) (\<lambda>known.
            if known then ret (RDone (Inl (''Pair '' @ quoted item @ '' already exists'')))
            else
              andthen (updating (\<lambda>s. s\<lparr>pairs := hput (pairs s) item
                  \<lparr>pair_item = item, stack_size = stk, item_stock = 0, currency_stock = f_of_int 0\<rparr>, dirty := True\<rparr>)) (\<lambda>_.
                ret (RDone (Inr ())))))"

definition remove_pair :: "string \<Rightarrow> cli_reply act" where
  "remove_pair item_name =
     (if trim item_name = [] then ret (RDone (Inl ''Item name cannot be empty''))
      else case item_new item_name of
        Inl _ \<Rightarrow> ret (RDone (Inl ''Invalid item name''))
      | Inr item \<Rightarrow>
          if item = BASE_CURRENCY_ITEM then
            ret (RDone (Inl ''Cannot remove diamond pair (used as currency)''))
          else andthen (reading (\<lambda>s. has_key (pairs s) item)) (\<lambda>known.
            if known then
              andthen (updating (\<lambda>s. s\<lparr>pairs := AList.delete item (pairs s), dirty := True\<rparr>)) (\<lambda>_.
                ret (RDone (Inr ())))
            else ret (RDone (Inl (''Pair '' @ quoted item @ '' not found'')))))"

definition audit_on_demand :: "bool \<Rightarrow> cli_reply act" where
  "audit_on_demand repair w =
     (case audit_state repair (w_store w) of (report, s) \<Rightarrow>
        (Ok (RReport report), w\<lparr>w_store := if repair_applied report then s\<lparr>dirty := True\<rparr> else s\<rparr>))"

section \<open>The order in flight, and the end\<close>

definition stuck_text :: "shop \<Rightarrow> string option" where
  "stuck_text s =
     (if \<not> sh_processing s then None
      else case current_trade (the_store s) of
        Some t \<Rightarrow> Some (''Order #'' @ dec (unat (qo_id (trade_order t))) @ '' ['' @ phase t @ '']: '' @ trade_display t)
      | None \<Rightarrow> Some ''Unknown order (inconsistent state)'')"

text \<open>The order in flight is given up: flag, trade and mirror file are cleared, and the queue is written again.\<close>

definition clear_stuck_order :: "shop \<Rightarrow> shop" where
  "clear_stuck_order s =
     (let w = (sh_world s)\<lparr>w_store := (the_store s)\<lparr>current_trade := None, dirty := True\<rparr>\<rparr>;
          (_, w1) = clear_mirror w; (ok, w2) = next_write w1;
          (_, f) = queue_save ok (mem (sh_queue s)) (disk (sh_queue s))
      in s\<lparr>sh_world := w2, sh_queue := (sh_queue s)\<lparr>disk := f\<rparr>, sh_processing := False\<rparr>)"

text \<open>The answer of the bot is awaited for as long as it takes, and its absence is only logged.\<close>

definition cli_shutdown :: "cli_reply act" where
  "cli_shutdown w =
     (case ask_control ShutdownTask w of (_, w1) \<Rightarrow> andthen save_ignored (\<lambda>_. ret RStopped) w1)"

section \<open>The handler\<close>

type_synonym answered = "(cli_reply option \<times> unit res) \<times> shop"

definition menu :: "cli_reply act \<Rightarrow> shop \<Rightarrow> answered" where
  "menu m s =
     (case m (sh_world s) of
        (Ok r, w) \<Rightarrow> ((Some r, Ok ()), s\<lparr>sh_world := w\<rparr>)
      | (Err e, w) \<Rightarrow> ((None, Err e), s\<lparr>sh_world := w\<rparr>)
      | (Panicked, w) \<Rightarrow> ((None, Panicked), s\<lparr>sh_world := w\<rparr>))"

definition query :: "(store \<Rightarrow> cli_reply) \<Rightarrow> shop \<Rightarrow> answered" where
  "query f = menu (reading f)"

fun handle_cli_message :: "(string \<Rightarrow> mojang_error + string) \<Rightarrow> cli_message \<Rightarrow> shop \<Rightarrow> answered" where
  "handle_cli_message resolve QueryBalances s = query (\<lambda>s. RUsers (map snd (users s))) s"
| "handle_cli_message resolve QueryPairs s = query (\<lambda>s. RPairs (map snd (pairs s))) s"
| "handle_cli_message resolve QueryFee s = query (\<lambda>s. RFee (fee (conf s))) s"
| "handle_cli_message resolve (SetOperator name flag) s = menu (set_operator resolve name flag) s"
| "handle_cli_message resolve AddNode s = menu cli_add_node s"
| "handle_cli_message resolve AddNodeWithValidation s = menu add_node_with_validation s"
| "handle_cli_message resolve (RemoveNode i) s = menu (remove_node i) s"
| "handle_cli_message resolve (AddPair name stk) s = menu (add_pair name stk) s"
| "handle_cli_message resolve (RemovePair name) s = menu (remove_pair name) s"
| "handle_cli_message resolve QueryStorage s = query (\<lambda>s. RStorage (storage s)) s"
| "handle_cli_message resolve (QueryTrades limit) s = query (\<lambda>s. RTrades (take limit (rev (trades s)))) s"
| "handle_cli_message resolve RestartBot s =
     (case ask_control RestartTask (sh_world s) of
        (SendFailed, w) \<Rightarrow> ((Some (RDone (Inl ''Failed to send restart instruction: channel closed'')), Err BotDisconnected), s\<lparr>sh_world := w\<rparr>)
      | (_, w) \<Rightarrow> ((Some (RDone (Inr ())), Ok ()), s\<lparr>sh_world := w\<rparr>))"
| "handle_cli_message resolve (AuditState repair) s = menu (audit_on_demand repair) s"
| "handle_cli_message resolve DiscoverStorage s = menu discover_storage s"
| "handle_cli_message resolve ClearStuckOrder s = ((Some (RStuck (stuck_text s)), Ok ()), clear_stuck_order s)"
| "handle_cli_message resolve CliShutdown s = menu cli_shutdown s"

end
