(* ===== verification/Main_Loop.thy ===== *)
theory Main_Loop
  imports Terminal
begin

text \<open>
  The actor loop of the store (\<open>Store::run\<close>, \<open>dispatch_message\<close> and \<open>reload_config\<close> of \<^verbatim>\<open>src/store/mod.rs\<close>), one turn at a time.
  A turn sweeps the limiter and saves when their intervals are over; then it executes the next order, saves and
  handles the messages that arrived meanwhile, or, when no order waits, handles the next message or wakes up. The
  messages and the end of an order that the watchdog gave up are inputs of the turn; clock readings and the
  outcomes of saves are scripts of the world. Log output and its throttling are not modelled; the cache of the
  name service is swept with the limiter but is not part of the store.
\<close>

section \<open>Configuration\<close>

text \<open>\<open>f64::EPSILON\<close> is 2 to the power of -52.\<close>

fun f_abs :: "f64 \<Rightarrow> f64" where
  "f_abs (Fin a) = Fin \<bar>a\<bar>"
| "f_abs NaN = NaN"
| "f_abs _ = PosInf"

definition f_epsilon :: f64 where
  "f_epsilon = Fin (1 / 2 ^ 52)"

text \<open>Only the fee and the autosave interval can change while the store runs.\<close>

definition reload_config :: "config \<Rightarrow> store \<Rightarrow> store" where
  "reload_config new s =
     (let s1 = (if f_lt f_epsilon (f_abs (f_sub (fee (conf s)) (fee new)))
                then s\<lparr>conf := (conf s)\<lparr>fee := fee new\<rparr>\<rparr> else s)
      in if autosave_interval_secs (conf s1) \<noteq> autosave_interval_secs new
         then s1\<lparr>conf := (conf s1)\<lparr>autosave_interval_secs := autosave_interval_secs new\<rparr>\<rparr> else s1)"

section \<open>The state of the loop\<close>

record store_loop =
  lp_shop :: shop
  last_save :: instant
  last_cleanup :: instant
  min_save_interval :: duration

abbreviation lp_world :: "store_loop \<Rightarrow> world" where
  "lp_world l \<equiv> sh_world (lp_shop l)"

abbreviation lp_store :: "store_loop \<Rightarrow> store" where
  "lp_store l \<equiv> w_store (lp_world l)"

definition set_world :: "world \<Rightarrow> store_loop \<Rightarrow> store_loop" where
  "set_world w l = l\<lparr>lp_shop := (lp_shop l)\<lparr>sh_world := w\<rparr>\<rparr>"

definition set_store :: "store \<Rightarrow> store_loop \<Rightarrow> store_loop" where
  "set_store s l = set_world ((lp_world l)\<lparr>w_store := s\<rparr>) l"

definition secs :: "nat \<Rightarrow> duration" where
  "secs n = n * 1000000000"

definition CLEANUP_INTERVAL_SECS :: nat where
  "CLEANUP_INTERVAL_SECS = 300"

definition RATE_LIMIT_STALE_AFTER_SECS :: nat where
  "RATE_LIMIT_STALE_AFTER_SECS = 300"

definition read_clock :: "world \<Rightarrow> instant \<times> world" where
  "read_clock w = (case now w of (t, w') \<Rightarrow> (nat t, w'))"

section \<open>Saving\<close>

definition save_now :: "world \<Rightarrow> bool \<times> world" where
  "save_now w =
     (let (ok, oks) = next_of \<lparr>pairs_ok = False, users_ok = False, orders_ok = False, trades_ok = False, storage_ok = False\<rparr>
        (save_scripts w)
      in case save ok (w_store w) of (saved, s, _) \<Rightarrow> (saved, w\<lparr>save_scripts := oks, w_store := s\<rparr>))"

text \<open>What is saved is clean; a failed save leaves the flags for the next one.\<close>

definition mark_clean :: "world \<Rightarrow> world" where
  "mark_clean w = w\<lparr>w_store := (w_store w)\<lparr>dirty := False, dirty_users := {}\<rparr>\<rparr>"

text \<open>After an idle save and after the save behind an order the interval starts anew, whatever the outcome.\<close>

definition flush :: "store_loop \<Rightarrow> store_loop" where
  "flush l =
     (let (saved, w1) = save_now (lp_world l); (t, w2) = read_clock w1
      in set_world (if saved then mark_clean w2 else w2) l\<lparr>last_save := t\<rparr>)"

definition autosave :: "store_loop \<Rightarrow> store_loop" where
  "autosave l =
     (if \<not> dirty (lp_store l) then l
      else let (t, w1) = read_clock (lp_world l) in
        if min_save_interval l \<le> t - last_save l then flush (set_world w1 l) else set_world w1 l)"

text \<open>After a message only a successful save starts the interval anew.\<close>

definition debounced_save :: "store_loop \<Rightarrow> store_loop" where
  "debounced_save l =
     (if \<not> dirty (lp_store l) then l
      else let (t, w1) = read_clock (lp_world l) in
        if min_save_interval l \<le> t - last_save l then
          (case save_now w1 of
             (True, w2) \<Rightarrow> (case read_clock w2 of (t2, w3) \<Rightarrow> set_world (mark_clean w3) l\<lparr>last_save := t2\<rparr>)
           | (False, w2) \<Rightarrow> set_world w2 l)
        else set_world w1 l)"

definition sweep :: "store_loop \<Rightarrow> store_loop" where
  "sweep l =
     (let (t, w1) = read_clock (lp_world l) in
      if secs CLEANUP_INTERVAL_SECS \<le> t - last_cleanup l then
        (let (t1, w2) = read_clock w1; (t2, w3) = read_clock w2;
             s = lp_shop l
         in l\<lparr>lp_shop := s\<lparr>sh_world := w3,
                sh_limiter := cleanup_stale (secs RATE_LIMIT_STALE_AFTER_SECS) t1 (sh_limiter s)\<rparr>, last_cleanup := t2\<rparr>)
      else set_world w1 l)"

section \<open>Messages\<close>

datatype store_message =
    FromBot sender string string
  | FromCli "string \<Rightarrow> mojang_error + string" cli_message
  | ReloadConfig config

text \<open>Errors of a handler are logged. The result tells whether the loop ends; a panic ends the task.\<close>

datatype loop_end = GoOn | ShutDown | Crash

fun dispatch_message :: "store_message \<Rightarrow> store_loop \<Rightarrow> loop_end \<times> store_loop" where
  "dispatch_message (FromBot env player command) l =
     (case handle_player_command env player command (lp_shop l) of
        (Panicked, s) \<Rightarrow> (Crash, l\<lparr>lp_shop := s\<rparr>)
      | (_, s) \<Rightarrow> (GoOn, l\<lparr>lp_shop := s\<rparr>))"
| "dispatch_message (FromCli resolve m) l =
     (case handle_cli_message resolve m (lp_shop l) of
        ((_, Panicked), s) \<Rightarrow> (Crash, l\<lparr>lp_shop := s\<rparr>)
      | (_, s) \<Rightarrow> (if m = CliShutdown then ShutDown else GoOn, l\<lparr>lp_shop := s\<rparr>))"
| "dispatch_message (ReloadConfig new) l =
     (let l1 = set_store (reload_config new (lp_store l)) l
      in (GoOn, l1\<lparr>min_save_interval := secs (autosave_interval_secs (conf (lp_store l1)))\<rparr>))"

fun drain :: "store_message list \<Rightarrow> store_loop \<Rightarrow> loop_end \<times> store_loop" where
  "drain [] l = (GoOn, l)"
| "drain (m # ms) l =
     (case dispatch_message m l of (GoOn, l1) \<Rightarrow> drain ms l1 | (r, l1) \<Rightarrow> (r, l1))"

section \<open>A turn\<close>

text \<open>\<open>expired\<close> is the shop an order leaves behind when the watchdog drops it.\<close>

datatype arrival = Arrived store_message | Woken | Closed

record turn_input =
  expired :: "shop option"
  waiting_messages :: "store_message list"
  next_message :: arrival

definition give_up :: "shop \<Rightarrow> shop" where
  "give_up s =
     (let w = (case current_trade (the_store s) of
            Some t \<Rightarrow> snd (write_mirror t (sh_world s)) | None \<Rightarrow> sh_world s)
      in s\<lparr>sh_world := w\<lparr>w_store := (w_store w)\<lparr>dirty := True\<rparr>\<rparr>\<rparr>)"

definition work :: "shop option \<Rightarrow> store_loop \<Rightarrow> loop_end \<times> store_loop" where
  "work gave_up l =
     (case gave_up of
        Some s \<Rightarrow> (GoOn, l\<lparr>lp_shop := give_up s\<rparr>)
      | None \<Rightarrow>
          (case process_next_order (lp_shop l) of
             (Some Panicked, s) \<Rightarrow> (Crash, l\<lparr>lp_shop := s\<rparr>)
           | (_, s) \<Rightarrow> (GoOn, l\<lparr>lp_shop := s\<rparr>)))"

text \<open>The end of the loop flushes every user, not only the ones that changed.\<close>

definition close_loop :: "store_loop \<Rightarrow> store_loop" where
  "close_loop l =
     (let l1 = set_store ((lp_store l)\<lparr>dirty_users := dirty_users (lp_store l) \<union> set (map fst (users (lp_store l)))\<rparr>) l
      in set_world (snd (save_now (lp_world l1))) l1)"

definition finish_turn :: "loop_end \<times> store_loop \<Rightarrow> loop_end \<times> store_loop" where
  "finish_turn = (\<lambda>(r, l). (r, if r = ShutDown then close_loop l else l))"

definition turn :: "turn_input \<Rightarrow> store_loop \<Rightarrow> loop_end \<times> store_loop" where
  "turn i l =
     (let l1 = autosave (sweep l) in
      if \<not> sh_processing (lp_shop l1) \<and> orders (mem (sh_queue (lp_shop l1))) \<noteq> [] then
        (case work (expired i) l1 of
           (GoOn, l2) \<Rightarrow> finish_turn (drain (waiting_messages i) (if dirty (lp_store l2) then flush l2 else l2))
         | (r, l2) \<Rightarrow> (r, l2))
      else case next_message i of
        Woken \<Rightarrow> (GoOn, l1)
      | Closed \<Rightarrow> (ShutDown, close_loop l1)
      | Arrived m \<Rightarrow>
          (case dispatch_message m l1 of
             (GoOn, l2) \<Rightarrow> (GoOn, debounced_save l2)
           | (r, l2) \<Rightarrow> finish_turn (r, l2)))"

text \<open>How long an idle turn sleeps when no message arrives; the two clock readings are those of \<open>elapsed\<close>.\<close>

definition wake_after :: "instant \<Rightarrow> instant \<Rightarrow> store_loop \<Rightarrow> duration" where
  "wake_after t1 t2 l =
     min (min_save_interval l - (t1 - last_save l)) (secs CLEANUP_INTERVAL_SECS - (t2 - last_cleanup l))"

text \<open>The loop over the inputs of its turns.\<close>

fun run_loop :: "turn_input list \<Rightarrow> store_loop \<Rightarrow> loop_end \<times> store_loop" where
  "run_loop [] l = (GoOn, l)"
| "run_loop (i # is) l = (case turn i l of (GoOn, l1) \<Rightarrow> run_loop is l1 | (r, l1) \<Rightarrow> (r, l1))"

end
