(* ===== verification/Player_Frames.thy ===== *)
theory Player_Frames
  imports Player Operator_Properties
begin

text \<open>
  What a whispered command can do to the shop. The locale \<open>player_relation\<close> lists the only ways in which the dispatcher
  changes it: the limiter, whispers, the registration of the sender, the queue operations, a payment, and,
  for operators only, an operator handler. A statement about every command is one interpretation. The locale
  \<open>any_ledger\<close> is a relation the books respect for every user and item; it covers commands and orders alike.
\<close>

section \<open>Commands\<close>

definition operator_act :: "sender \<Rightarrow> string \<Rightarrow> unit act \<Rightarrow> bool" where
  "operator_act env player m \<longleftrightarrow> (\<exists>item q amount. m \<in>
     {handle_additem_order (handler_lookup env player) player item q,
      handle_removeitem_order (handler_lookup env player) player item q,
      handle_add_currency (handler_lookup env player) player item amount,
      handle_remove_currency (handler_lookup env player) player item amount})"

locale player_relation =
  fixes P :: "shop \<Rightarrow> shop \<Rightarrow> bool" and env :: sender and player :: string and u :: string
  assumes P_refl: "P s s"
    and P_trans: "P s s' \<Longrightarrow> P s' s'' \<Longrightarrow> P s s''"
    and P_limiter: "check k t1 t2 (sh_limiter s) = (x, rl) \<Longrightarrow> P s (s\<lparr>sh_limiter := rl\<rparr>)"
    and P_whisper: "ask_whisper i w = (r, w') \<Longrightarrow> P (s\<lparr>sh_world := w\<rparr>) (s\<lparr>sh_world := w'\<rparr>)"
    and P_register: "P s (s\<lparr>sh_world := (sh_world s)\<lparr>w_store := ensure_user_exists player u (the_store s)\<rparr>\<rparr>)"
    and P_enqueue: "enqueue player u ty item q s = (y, s') \<Longrightarrow> P s s'"
    and P_cancel: "next_write (sh_world s) = (ok, w1) \<Longrightarrow> queue_cancel (u, i1, ok) (sh_queue s) = (z, q1) \<Longrightarrow>
        P s (s\<lparr>sh_world := w1, sh_queue := q1\<rparr>)"
    and P_pay: "pay_async found player u payee amount w = (r1, w') \<Longrightarrow> P (s\<lparr>sh_world := w\<rparr>) (s\<lparr>sh_world := w'\<rparr>)"
    and P_operator: "is_operator (the_store s) u \<Longrightarrow> operator_act env player m \<Longrightarrow> m (sh_world s) = (r2, w') \<Longrightarrow>
        P s (s\<lparr>sh_world := w'\<rparr>)"
begin

text \<open>The same relation on the worlds inside a shop.\<close>

definition W :: "world \<Rightarrow> world \<Rightarrow> bool" where
  "W w w' \<longleftrightarrow> (\<forall>s. P (s\<lparr>sh_world := w\<rparr>) (s\<lparr>sh_world := w'\<rparr>))"

lemma W_acts: "act_relation W"
  by unfold_locales (auto simp: W_def intro: P_refl P_trans P_whisper)

lemmas W_steps = act_relation.R_andthen [OF W_acts] act_relation.R_ret [OF W_acts] act_relation.R_fail [OF W_acts]
  act_relation.R_reading [OF W_acts] act_relation.R_attempt [OF W_acts] act_relation.R_if [OF W_acts]
  act_relation.R_option [OF W_acts] act_relation.R_sum [OF W_acts] act_relation.R_send_message [OF W_acts]
  act_relation.R_whisper_error [OF W_acts]

lemma P_on_world:
  assumes "keeps W m"
  shows "P s (snd (on_world m s))"
proof -
  obtain r w' where m: "m (sh_world s) = (r, w')" by force
  from keeps_apply [OF assms m] have "P (s\<lparr>sh_world := sh_world s\<rparr>) (s\<lparr>sh_world := w'\<rparr>)"
    unfolding W_def by blast
  then show ?thesis using m by (cases s) (simp add: on_world_def)
qed

lemma P_tell: "P s (snd (tell p msg s))"
  unfolding tell_def by (intro P_on_world W_steps)

lemma P_then_tell: "P s s' \<Longrightarrow> P s (snd (tell p msg s'))"
  using P_trans P_tell by blast

lemma P_enqueued:
  assumes "enqueue player u ty item q s = (y, s1)"
  shows "P s (snd (tell p msg s1))"
  using P_then_tell [OF P_enqueue [OF assms]] .

lemma W_pay: "keeps W (pay_async found player u payee amount)"
  unfolding keeps_def W_def by (metis P_pay prod.collapse)

lemma W_assert: "keeps W (checked (assert_invariants False))"
proof -
  have "W w w" for w using P_refl by (simp add: W_def)
  then show ?thesis unfolding keeps_def by (metis checked_assert_False prod.collapse)
qed

lemma P_balance: "P s (snd (handle_balance resolve player u target s))"
proof -
  have bal: "keeps W (get_user_balance found t)" for found t
    unfolding get_user_balance_def by (intro W_steps W_assert)
  have res: "keeps W (case r of Inr b \<Rightarrow> send_message_to_player player (balance_text t b)
       | Inl (UserNotFound _) \<Rightarrow> send_message_to_player player (no_account_text t)
       | Inl e \<Rightarrow> whisper_error_to_player player e)" for r :: "store_error + f64" and t
    by (cases r; (rename_tac e, case_tac e)?; simp only: sum.case store_error.case; intro W_steps)
  have "keeps W (other_balance found player t)" for found t
    unfolding other_balance_def
    by (rule act_relation.R_andthen [OF W_acts], rule act_relation.R_attempt [OF W_acts bal], rule res)
  moreover have "keeps W (self_balance player u)"
    unfolding self_balance_def by (intro W_steps)
  ultimately show ?thesis unfolding handle_balance_def by (intro P_on_world W_steps)
qed

lemma P_handle_pay: "P s (snd (handle_pay resolve player u recipient amount s))"
  unfolding handle_pay_def by (intro P_on_world W_steps W_pay)

lemma P_handle_cancel: "P s (snd (handle_cancel player u i s))"
proof -
  obtain ok w1 where n: "next_write (sh_world s) = (ok, w1)" by force
  obtain z q1 where q: "queue_cancel (u, i, ok) (sh_queue s) = (z, q1)" by force
  show ?thesis unfolding handle_cancel_def Let_def n q prod.case
    using P_then_tell [OF P_cancel [OF n q]] P_tell by (auto split: list.split sum.split)
qed

lemma P_as_operator:
  assumes "operator_act env player m"
  shows "P s (snd (as_operator player u m s))"
proof (cases "is_operator (the_store s) u")
  case True
  obtain r w' where m: "m (sh_world s) = (r, w')" by force
  show ?thesis using P_operator [OF True assms m] True m by (simp add: as_operator_def ensure_operator_def on_world_def)
next
  case False
  let ?m = "andthen (send_message_to_player player ''This command is only available to operators.'') (\<lambda>_. ret False)"
  obtain r s1 where e: "on_world ?m s = (r, s1)" by force
  have "keeps W ?m" by (intro W_steps)
  from P_on_world [OF this, of s] have "P s s1" by (simp add: e)
  moreover have "r \<noteq> Ok True" using e by (auto simp: on_world_def elim!: andthenE split: prod.splits)
  ultimately show ?thesis using False e
    by (auto simp: as_operator_def ensure_operator_def split: res.split bool.split)
qed

lemma P_dispatch: "P s (snd (dispatch env player u cmd s))"
proof -
  have item: "P s (snd (enqueue_item player u ty item q s))" for ty item q
    unfolding enqueue_item_def by (auto simp: P_tell dest: P_enqueued split: prod.split sum.split)
  have op: "operator_act env player (handle_additem_order (handler_lookup env player) player item q)"
    "operator_act env player (handle_removeitem_order (handler_lookup env player) player item q)"
    "operator_act env player (handle_add_currency (handler_lookup env player) player item a)"
    "operator_act env player (handle_remove_currency (handler_lookup env player) player item a)" for item q a
    by (auto simp: operator_act_def)
  show ?thesis
    by (cases cmd) (auto simp: buy_handle_def sell_handle_def item deposit_enqueue_def withdraw_enqueue_def handle_price_def
        handle_items_def handle_queue_def handle_status_def handle_help_def P_tell P_balance P_handle_pay P_handle_cancel
        P_as_operator op dest: P_enqueued split: prod.split sum.split)
qed

lemma P_gated:
  assumes "\<And>s. P s (snd (pass s))"
  shows "P s (snd (gated k t p pass s))"
proof -
  obtain x rl where c: "check k (fst t) (snd t) (sh_limiter s) = (x, rl)" by force
  note l = P_limiter [OF c]
  have "P s (snd (pass (s\<lparr>sh_limiter := rl\<rparr>)))" using P_trans [OF l assms] .
  with l show ?thesis unfolding gated_def c prod.case by (auto split: sum.split intro: P_then_tell)
qed

lemma P_command:
  assumes "\<And>v. lookup env player = Inr v \<Longrightarrow> v = u"
  shows "P s (snd (handle_player_command env player command s))"
proof -
  have run: "P s (snd (run_command env player u command s))" for s
    unfolding run_command_def by (auto simp: P_tell P_dispatch split: sum.split)
  have err: "P s (snd (on_world (whisper_error_to_player player e) s))" for s e
    by (intro P_on_world W_steps)
  have "P s (snd (case lookup env player of
              Inl reason \<Rightarrow> on_world (whisper_error_to_player player (store_error_of_mojang reason)) s
            | Inr u \<Rightarrow>
                (case on_world (updating (ensure_user_exists player u)) s of
                   (_, s2) \<Rightarrow> gated (''u:'' @ u) (user_gate env) player (run_command env player u command) s2)))" for s
  proof (cases "lookup env player")
    case (Inr v)
    then show ?thesis using assms [OF Inr] P_trans [OF P_register P_gated [OF run]] by (simp add: on_world_def)
  qed (simp add: err)
  then show ?thesis unfolding handle_player_command_def
    by (auto simp: P_refl intro!: P_gated split: sum.split)
qed

end

end
