(* ===== verification/Player_Properties.thy ===== *)
theory Player_Properties
  imports Player_Frames
begin

text \<open>
  The properties of whispered commands and of the shop as a whole: nobody without the operator flag changes the books
  of the store, no command or order makes anybody an operator, a command touches the queue at most once
  and only the sender's own orders, payments are exact, and the invariants of the queue, the limiter and the
  storage hold in every reachable shop.
\<close>

section \<open>Relations the books respect for everybody\<close>

locale any_ledger =
  fixes R :: "world \<Rightarrow> world \<Rightarrow> bool"
  assumes ledger: "ledger_relation R u item"

sublocale any_ledger < ledger_relation R u item for u item
  by (rule ledger)

context any_ledger begin

lemma R_dirty_both: "keeps R (updating (\<lambda>s. s\<lparr>dirty := True, dirty_users := insert b (insert a (dirty_users s))\<rparr>))"
proof (rule R_updating)
  fix w :: world
  let ?w = "w\<lparr>w_store := (w_store w)\<lparr>dirty := True\<rparr>\<rparr>"
  let ?v = "?w\<lparr>w_store := (w_store ?w)\<lparr>dirty_users := insert a (dirty_users (w_store ?w))\<rparr>\<rparr>"
  have 1: "R w ?v" by (rule R_trans [OF R_flag R_flag_user])
  have 2: "R ?v (?v\<lparr>w_store := (w_store ?v)\<lparr>dirty_users := insert b (dirty_users (w_store ?v))\<rparr>\<rparr>)" by (rule R_flag_user)
  show "R w (w\<lparr>w_store := (w_store w)\<lparr>dirty := True, dirty_users := insert b (insert a (dirty_users (w_store w)))\<rparr>\<rparr>)"
    using R_trans [OF 1 2] by simp
qed

lemma R_pay: "keeps R (pay_async found payer pu payee amount)"
proof -
  have "keeps R (pay_move payer pu v amount)" for v
    unfolding pay_move_def by (intro R_steps R_user_write R_dirty_both) simp_all
  then show ?thesis unfolding pay_async_def by (intro R_steps)
qed

lemma R_operator:
  assumes "operator_act env player m"
  shows "keeps R m"
proof -
  have r: "handler_lookup env player = Inr v \<Longrightarrow> v = projr (handler_lookup env player)" for v by simp
  show ?thesis
    using assms R_handle_additem [OF r] R_handle_removeitem [OF r] R_handle_currency [OF r]
    unfolding operator_act_def by blast
qed

lemma R_enqueue:
  assumes "enqueue player u ty item q s = (y, s')"
  shows "R (sh_world s) (sh_world s')"
proof -
  obtain t w1 where n: "now (sh_world s) = (t, w1)" by force
  obtain b w2 where w: "next_write w1 = (b, w2)" by force
  have "sh_world s' = w2" using assms n w by (auto simp: enqueue_def split: prod.splits)
  then show ?thesis using R_trans [OF R_now [OF n] R_write [OF w]] by simp
qed

end

sublocale any_ledger < command: player_relation "\<lambda>s s'. R (sh_world s) (sh_world s')" env player u for env player u
proof
  fix s :: shop and w w' :: world
  show "R (sh_world s) (sh_world s)" by (rule R_refl)
  show "R (sh_world s) (sh_world (s\<lparr>sh_world := (sh_world s)\<lparr>w_store := ensure_user_exists player u (the_store s)\<rparr>\<rparr>))"
    by (simp add: R_ensure)
qed (auto intro: R_refl R_trans R_whisper R_enqueue R_write keeps_apply [OF R_pay] keeps_apply [OF R_operator])

text \<open>The relation also ignores the slot of the trade in flight and its mirror, which \<open>process_next_order\<close> writes.\<close>

locale slot_relation = any_ledger +
  assumes R_slot: "R w (w\<lparr>w_store := (w_store w)\<lparr>current_trade := ct\<rparr>\<rparr>)"
    and R_mirror: "R w (w\<lparr>w_store := (w_store w)\<lparr>trade_mirror := tm\<rparr>\<rparr>)"
begin

lemma R_write_mirror: "write_mirror t w = (b, w') \<Longrightarrow> R w w'"
  by (auto simp: write_mirror_def set_mirror_def simp del: ask_store split: prod.splits intro: R_trans [OF R_write R_mirror])

lemma R_clear_mirror: "clear_mirror w = (b, w') \<Longrightarrow> R w w'"
  by (auto simp: clear_mirror_def set_mirror_def simp del: ask_store split: prod.splits intro: R_trans [OF R_write R_mirror])

lemma R_close: "R w (close_trade w)"
  by (auto simp: close_trade_def split: prod.splits bool.splits intro: R_clear_mirror R_trans [OF R_clear_mirror R_slot])

lemma R_release: "R w (release_trade w)"
proof -
  have "R w (snd (write_mirror t w))" for t using R_write_mirror by (metis prod.collapse)
  then have "R w (case current_trade (w_store w) of
          Some t \<Rightarrow> if \<not> is_terminal t then snd (write_mirror t w) else close_trade w | None \<Rightarrow> close_trade w)"
    by (auto simp: R_close split: option.split)
  then show ?thesis unfolding release_trade_def Let_def by (rule R_trans [OF _ R_flag])
qed

lemma R_run_order: "keeps R (run_order q)"
  unfolding run_order_def by (intro R_andthen R_updating R_slot R_attempt R_send_message R_execute_order [OF refl refl])

lemma R_next_order:
  assumes "process_next_order s = (r, s')"
  shows "R (sh_world s) (sh_world s')"
proof (cases "peek_front (mem (sh_queue s))")
  case (Some q)
  obtain m w1 where w1: "write_mirror (trade_state_new q) (sh_world s) = (m, w1)" by force
  obtain p s2 where s2: "take_order q (s\<lparr>sh_world := w1\<rparr>) = (p, s2)" by force
  obtain x w3 where w3: "run_order q (sh_world s2) = (x, w3)" by force
  have "R w1 (sh_world s2)"
    using s2 by (auto simp: take_order_def simp del: ask_store split: prod.splits intro: R_write)
  then have a: "R (sh_world s) (sh_world s2)" using R_trans [OF R_write_mirror [OF w1]] by simp
  then have b: "R (sh_world s) w3" using R_trans keeps_apply [OF R_run_order w3] by blast
  have c: "R (sh_world s) (snd (clear_mirror (sh_world s2)))" using R_trans [OF a] R_clear_mirror by (metis prod.collapse)
  show ?thesis using assms Some w1 s2 w3 R_write_mirror [OF w1] a b c R_trans [OF b R_release]
    by (auto simp: process_next_order_def split: bool.splits res.splits)
qed (use assms in \<open>simp add: process_next_order_def R_refl\<close>)

end

section \<open>Operators\<close>

definition operators_kept :: "world \<Rightarrow> world \<Rightarrow> bool" where
  "operators_kept w w' \<longleftrightarrow> is_operator (w_store w') = is_operator (w_store w)"

lemma is_operator_users: "users s' = users s \<Longrightarrow> is_operator s' = is_operator s"
  by (simp add: is_operator_def fun_eq_iff)

lemma operators_user: "hget (users s) u = Some x \<Longrightarrow> operator y = operator x \<Longrightarrow>
    is_operator (s\<lparr>users := hput (users s) u y\<rparr>) = is_operator s"
  by (auto simp: is_operator_def fun_eq_iff)

lemma operators_ensure: "is_operator (ensure_user_exists player u s) = is_operator s"
  by (simp add: fun_eq_iff)

interpretation privileges: slot_relation operators_kept
  by (unfold_locales; unfold operators_kept_def;
      (simp; fail | rule is_operator_users; simp add: save_ignored_same audit_state_same; fail
       | simp add: operators_user operators_ensure))

interpretation shape: slot_relation wf_kept
proof (rule slot_relation.intro, rule any_ledger.intro)
  show "ledger_relation wf_kept u item" for u item by (rule wf.ledger_relation_axioms)
qed (unfold_locales, (rule wf_kept_storage, simp)+)

section \<open>The queue\<close>

text \<open>A command makes at most one queue operation, with the identity of the sender.\<close>

definition queue_op :: "string \<Rightarrow> queue_sys \<Rightarrow> queue_sys \<Rightarrow> bool" where
  "queue_op u q q' \<longleftrightarrow> q' = q \<or> (\<exists>req x. queue_add req q = (x, q') \<and> ar_user_uuid req = u) \<or>
     (\<exists>i ok x. queue_cancel (u, i, ok) q = (x, q'))"

lemma on_world_queue [simp]: "sh_queue (snd (on_world m s)) = sh_queue s"
  by (simp add: on_world_def split: prod.split)

lemma tell_queue [simp]: "sh_queue (snd (tell p m s)) = sh_queue s"
  by (simp add: tell_def)

lemma as_operator_queue [simp]: "sh_queue (snd (as_operator p u m s)) = sh_queue s"
proof -
  obtain r s1 where e: "ensure_operator p u s = (r, s1)" by force
  have "sh_queue (snd (ensure_operator p u s)) = sh_queue s" by (simp add: ensure_operator_def)
  then show ?thesis by (simp add: as_operator_def e split: res.split bool.split)
qed

lemma enqueue_op: "enqueue p u ty item q s = (y, s1) \<Longrightarrow> queue_op u (sh_queue s) (sh_queue s1)"
  by (fastforce simp: enqueue_def queue_op_def split: prod.splits)

lemma dispatch_queue: "queue_op u (sh_queue s) (sh_queue (snd (dispatch env p u cmd s)))"
proof -
  have same: "sh_queue s' = sh_queue s \<Longrightarrow> queue_op u (sh_queue s) (sh_queue s')" for s' by (simp add: queue_op_def)
  have "queue_op u (sh_queue s) (sh_queue (snd (handle_cancel p u i s)))" for i
  proof -
    obtain ok w1 where n: "next_write (sh_world s) = (ok, w1)" by force
    obtain z q where q: "queue_cancel (u, i, ok) (sh_queue s) = (z, q)" by force
    have "queue_op u (sh_queue s) q" using q by (auto simp: queue_op_def)
    then show ?thesis by (auto simp: handle_cancel_def Let_def n q same split: list.split sum.split)
  qed
  then show ?thesis
    by (cases cmd) (auto simp: buy_handle_def sell_handle_def enqueue_item_def deposit_enqueue_def withdraw_enqueue_def
        handle_price_def handle_items_def handle_queue_def handle_status_def handle_help_def handle_balance_def handle_pay_def
        same dest: enqueue_op split: prod.split sum.split)
qed

lemma gated_queue:
  assumes "\<And>s. queue_op u (sh_queue s) (sh_queue (snd (pass s)))"
  shows "queue_op u (sh_queue s) (sh_queue (snd (gated k t p pass s)))"
proof -
  obtain x rl where c: "check k (fst t) (snd t) (sh_limiter s) = (x, rl)" by force
  show ?thesis using assms [of "s\<lparr>sh_limiter := rl\<rparr>"]
    by (cases x) (simp_all add: gated_def c, simp add: queue_op_def)
qed

lemma command_queue:
  assumes "\<And>v. lookup env p = Inr v \<Longrightarrow> v = u"
  shows "queue_op u (sh_queue s) (sh_queue (snd (handle_player_command env p typed s)))"
proof -
  have same: "sh_queue s' = sh_queue s \<Longrightarrow> queue_op u (sh_queue s) (sh_queue s')" for s s' by (simp add: queue_op_def)
  have run: "queue_op u (sh_queue s) (sh_queue (snd (run_command env p u typed s)))" for s
    by (auto simp: run_command_def same dispatch_queue split: sum.split)
  have "queue_op u (sh_queue s) (sh_queue (snd (case lookup env p of
              Inl reason \<Rightarrow> on_world (whisper_error_to_player p (store_error_of_mojang reason)) s
            | Inr u \<Rightarrow>
                (case on_world (updating (ensure_user_exists p u)) s of
                   (_, s2) \<Rightarrow> gated (''u:'' @ u) (user_gate env) p (run_command env p u typed) s2))))" for s
  proof (cases "lookup env p")
    case (Inr v)
    show ?thesis
      using assms [OF Inr] gated_queue [OF run, of "s\<lparr>sh_world := (sh_world s)\<lparr>w_store := ensure_user_exists p u (the_store s)\<rparr>\<rparr>"] Inr
      by (simp add: on_world_def)
  qed (simp add: same)
  then show ?thesis unfolding handle_player_command_def by (auto simp: same intro!: gated_queue split: sum.split)
qed

lemma queue_op_step: "queue_op u q q' \<Longrightarrow> next_id (mem q) < - 1 \<Longrightarrow> q' = q \<or> queue_step q q'"
  by (auto simp: queue_op_def intro: queue_step.intros)

lemma queue_op_others:
  assumes "queue_op u q q'"
  shows "filter (\<lambda>o1. qo_user_uuid o1 \<noteq> u) (orders (mem q')) = filter (\<lambda>o1. qo_user_uuid o1 \<noteq> u) (orders (mem q))"
proof -
  have "?thesis" if "queue_add req q = (x, q')" "ar_user_uuid req = u" for req x
    using that by (cases x) (auto simp: queued_order_new_def dest: queue_add_err queue_add_ok)
  moreover have "?thesis" if c: "queue_cancel (u, i, ok) q = (x, q')" for i ok x
  proof (cases x)
    case (Inr z)
    then obtain k where k: "k < length (orders (mem q))" "qo_user_uuid (orders (mem q) ! k) = u"
        "orders (mem q') = remove_at k (orders (mem q))"
      using queue_cancel_ok c by blast
    show ?thesis unfolding k(3) remove_at_def using k(2) by (subst (3) remove_at_split [OF k(1)]) simp
  next
    case (Inl e)
    then show ?thesis using c queue_cancel_err by metis
  qed
  ultimately show ?thesis using assms by (auto simp: queue_op_def)
qed

text \<open>A whispered command cannot disturb the queue of others: it keeps the queue bounded, ordered and durable, and the
  waiting orders of all other players are the same ones in the same order.\<close>

theorem command_queue_own:
  assumes "handle_player_command env player typed s = (r, s')" "\<forall>v. lookup env player = Inr v \<longrightarrow> v = u"
    "queue_inv (sh_queue s)" "next_id (mem (sh_queue s)) < - 1"
  shows "queue_inv (sh_queue s') \<and> filter (\<lambda>o1. qo_user_uuid o1 \<noteq> u) (orders (mem (sh_queue s'))) =
    filter (\<lambda>o1. qo_user_uuid o1 \<noteq> u) (orders (mem (sh_queue s)))"
proof -
  have "queue_op u (sh_queue s) (sh_queue s')" using command_queue [of env player u s typed] assms(1,2) by simp
  from queue_op_others [OF this] queue_op_step [OF this assms(4)] queue_step_inv [OF assms(3)] assms(3)
  show ?thesis by auto
qed

section \<open>The shop\<close>

text \<open>What happens to the shop: a command, the next order, the sweep of the limiter, a save, and new answers and clock
  readings. A step that panics ends the program; it is followed here all the same. Queue ids do not run out.\<close>

inductive shop_step :: "shop \<Rightarrow> shop \<Rightarrow> bool" where
  command: "next_id (mem (sh_queue s)) < - 1 \<Longrightarrow> shop_step s (snd (handle_player_command env player typed s))"
| order: "shop_step s (snd (process_next_order s))"
| sweep: "shop_step s (s\<lparr>sh_limiter := cleanup_stale threshold t (sh_limiter s)\<rparr>)"
| save: "shop_step s (s\<lparr>sh_world := snd (save_ignored (sh_world s))\<rparr>)"
| answers: "w_store w = the_store s \<Longrightarrow> shop_step s (s\<lparr>sh_world := w\<rparr>)"

inductive_cases shop_stepE: "shop_step s s'"

context slot_relation begin

lemma R_shop_step:
  assumes "shop_step s s'" "\<And>w w'. w_store w' = w_store w \<Longrightarrow> R w w'"
  shows "R (sh_world s) (sh_world s')"
  using assms(1)
proof (rule shop_stepE)
  fix env player typed assume "s' = snd (handle_player_command env player typed s)"
  then show ?thesis using command.P_command [of env player "projr (lookup env player)" s typed] by simp
next
  assume "s' = snd (process_next_order s)"
  then show ?thesis using R_next_order by (metis prod.collapse)
qed (auto simp: assms(2) R_refl R_saved)

lemma R_shop_steps:
  assumes "shop_step\<^sup>*\<^sup>* s s'" "\<And>w w'. w_store w' = w_store w \<Longrightarrow> R w w'"
  shows "R (sh_world s) (sh_world s')"
  using assms(1) by (induction rule: rtranclp_induct) (auto intro: R_refl R_trans R_shop_step assms(2))

end

definition shop_ok :: "shop \<Rightarrow> bool" where
  "shop_ok s \<longleftrightarrow> queue_inv (sh_queue s) \<and> limiter_ok (sh_limiter s)"

interpretation bounded: player_relation "\<lambda>s s'. limiter_ok (sh_limiter s) \<longrightarrow> limiter_ok (sh_limiter s')" env player u for env player u
proof
  fix k t1 t2 s x rl assume "check k t1 t2 (sh_limiter s) = (x, rl)"
  then show "limiter_ok (sh_limiter s) \<longrightarrow> limiter_ok (sh_limiter (s\<lparr>sh_limiter := rl\<rparr>))"
    using check_ok [of "sh_limiter s" k t1 t2] by simp
qed (auto simp: enqueue_def split: prod.splits)

lemma process_parts:
  assumes "process_next_order s = (x, s')"
  shows "sh_limiter s' = sh_limiter s" "sh_queue s' = sh_queue s \<or> queue_step (sh_queue s) (sh_queue s')"
proof -
  have t: "sh_limiter s2 = sh_limiter s1 \<and> queue_step (sh_queue s1) (sh_queue s2)" if "take_order o1 s1 = (b, s2)" for o1 b s1 s2
    using that by (auto simp: take_order_def split: prod.splits intro: queue_step.pop)
  show "sh_limiter s' = sh_limiter s" "sh_queue s' = sh_queue s \<or> queue_step (sh_queue s) (sh_queue s')"
    using assms by (auto simp: process_next_order_def dest!: t split: option.splits prod.splits bool.splits res.splits)
qed

interpretation shop_invariant: step_invariant shop_step shop_ok
proof
  fix s s' assume ok: "shop_ok s" and st: "shop_step s s'"
  from st show "shop_ok s'"
  proof (rule shop_stepE)
    fix env player typed assume n: "next_id (mem (sh_queue s)) < - 1" and s': "s' = snd (handle_player_command env player typed s)"
    let ?u = "projr (lookup env player)"
    have q: "queue_op ?u (sh_queue s) (sh_queue s')" unfolding s' by (rule command_queue) simp
    then have "queue_inv (sh_queue s')" using queue_op_step [OF q n] queue_step_inv ok by (auto simp: shop_ok_def)
    moreover have "limiter_ok (sh_limiter s) \<longrightarrow> limiter_ok (sh_limiter s')"
      unfolding s' using bounded.P_command [of env player ?u s typed] by simp
    ultimately show ?thesis using ok by (auto simp: shop_ok_def)
  next
    assume "s' = snd (process_next_order s)"
    then show ?thesis using ok process_parts [of s "fst (process_next_order s)" s'] queue_step_inv by (auto simp: shop_ok_def)
  qed (use ok in \<open>auto simp: shop_ok_def cleanup_ok\<close>)
qed

text \<open>In every shop that commands, orders, sweeps and saves can reach, the queue is bounded, ordered and equal to its
  file, the limiter is bounded, the storage has lost no node, and all its nodes are well formed as long as their
  ids fit.\<close>

theorem shop_reachable:
  assumes "shop_step\<^sup>*\<^sup>* s s'" "queue_inv (sh_queue s)" "limiter_ok (sh_limiter s)"
    "list_all (node_wf sp) (nodes (storage (the_store s)))" "st_position (storage (the_store s)) = sp"
    "int (length (nodes (storage (the_store s')))) \<le> max_node_id"
  shows "queue_inv (sh_queue s') \<and> limiter_ok (sh_limiter s') \<and>
    length (nodes (storage (the_store s))) \<le> length (nodes (storage (the_store s'))) \<and>
    list_all (node_wf sp) (nodes (storage (the_store s')))"
proof -
  have "shop_ok s'" using shop_invariant.reachable_inv [OF assms(1)] assms(2,3) by (simp add: shop_ok_def)
  moreover have "wf_kept (sh_world s) (sh_world s')"
    by (rule shape.R_shop_steps [OF assms(1)]) (simp add: wf_kept_storage)
  ultimately show ?thesis using assms(4-6) by (auto simp: shop_ok_def wf_kept_def Let_def)
qed

section \<open>Who may change the books of the store\<close>

text \<open>The books of the store: the reserves and stack sizes of all pairs, the storage, the order log, the trade history,
  the configuration, the trade in flight and the operator flags.\<close>

definition store_books :: "store \<Rightarrow> (item_id \<Rightarrow> f64 option) \<times> (item_id \<Rightarrow> i32 option) \<times> storage \<times> order list \<times> trade list \<times>
    config \<times> trade_state option \<times> (string \<Rightarrow> bool)" where
  "store_books s = (\<lambda>k. map_option currency_stock (hget (pairs s) k), \<lambda>k. map_option stack_size (hget (pairs s) k), storage s,
     order_log s, trades s, conf s, current_trade s, is_operator s)"

lemma store_books_user:
  "hget (users s) u = Some x \<Longrightarrow> operator y = operator x \<Longrightarrow> store_books (s\<lparr>users := hput (users s) u y\<rparr>) = store_books s"
  by (simp add: store_books_def operators_user)

lemma store_books_ensure: "store_books (ensure_user_exists player u s) = store_books s"
proof -
  have "order_log (ensure_user_exists player u s) = order_log s \<and> trades (ensure_user_exists player u s) = trades s"
    by (auto simp: ensure_user_exists_def split: option.splits)
  then show ?thesis by (simp add: store_books_def operators_ensure)
qed

lemma store_books_audit: "store_books (snd (audit_state b s)) = store_books s"
proof -
  have "order_log (snd (audit_state b s)) = order_log s \<and> trades (snd (audit_state b s)) = trades s"
    by (simp add: audit_state_def split: prod.split)
  then show ?thesis by (simp add: store_books_def audit_state_same is_operator_users [OF audit_state_same(3)])
qed

definition store_books_kept :: "world \<Rightarrow> world \<Rightarrow> bool" where
  "store_books_kept w w' \<longleftrightarrow> store_books (w_store w') = store_books (w_store w)"

interpretation untouched: act_relation store_books_kept
  by (unfold_locales; unfold store_books_kept_def; simp)

lemma untouched_checked: "keeps store_books_kept (checked (assert_invariants b))"
proof -
  have "snd (assert_invariants b s) = snd (audit_state b s)" for s
    by (simp add: assert_invariants_def split: prod.split)
  then have a: "store_books (snd (assert_invariants b s)) = store_books s" for s by (simp add: store_books_audit)
  show ?thesis unfolding keeps_def store_books_kept_def
  proof
    fix w :: world
    obtain r s where "assert_invariants b (w_store w) = (r, s)" by force
    then show "store_books (w_store (snd (checked (assert_invariants b) w))) = store_books (w_store w)"
      using a [of "w_store w"] by (simp add: checked_def)
  qed
qed

lemma untouched_user:
  assumes "\<And>x. operator (f x) = operator x"
  shows "keeps store_books_kept (writing (expect_user_mut u c f))"
  unfolding keeps_def store_books_kept_def
  by (auto simp: writing_def expect_user_mut_def store_books_user assms split: option.splits)

lemma untouched_dirty:
  "keeps store_books_kept (updating (\<lambda>s. s\<lparr>dirty := True, dirty_users := insert b (insert a (dirty_users s))\<rparr>))"
  by (rule untouched.R_updating) (simp add: store_books_kept_def store_books_def is_operator_def fun_eq_iff)

lemma untouched_ensure: "keeps store_books_kept (updating (ensure_user_exists payee v))"
  by (rule untouched.R_updating) (simp add: store_books_kept_def store_books_ensure)

lemma untouched_move: "keeps store_books_kept (pay_move payer pu v amount)"
proof -
  have 1: "keeps store_books_kept (writing (expect_user_mut pu c (\<lambda>x. x\<lparr>balance := f_sub (balance x) amount, username := payer\<rparr>)))" for c
    by (rule untouched_user) simp
  have 2: "keeps store_books_kept (writing (expect_user_mut v c (\<lambda>x. x\<lparr>balance := f_add (balance x) amount\<rparr>)))" for c
    by (rule untouched_user) simp
  show ?thesis unfolding pay_move_def by (intro untouched.R_andthen 1 2 untouched_dirty untouched_checked)
qed

lemma untouched_lift: "keeps store_books_kept (lift_err x)"
  unfolding lift_err_def by (intro untouched.R_sum untouched.R_fail untouched.R_ret)

lemma untouched_pay: "keeps store_books_kept (pay_async found payer pu payee amount)"
  unfolding pay_async_def
  by (intro untouched.R_andthen untouched_checked untouched.R_if untouched.R_fail untouched.R_sum untouched.R_reading
      untouched.R_ret untouched_ensure untouched_lift untouched_move)

interpretation plain: player_relation
  "\<lambda>s s'. \<not> is_operator (the_store s) u \<longrightarrow> store_books (the_store s') = store_books (the_store s)" env player u for env player u
proof
  fix s s' s'' :: shop
  assume "\<not> is_operator (the_store s) u \<longrightarrow> store_books (the_store s') = store_books (the_store s)"
    "\<not> is_operator (the_store s') u \<longrightarrow> store_books (the_store s'') = store_books (the_store s')"
  then show "\<not> is_operator (the_store s) u \<longrightarrow> store_books (the_store s'') = store_books (the_store s)"
    by (auto simp: store_books_def)
next
  fix s player
  show "\<not> is_operator (the_store s) u \<longrightarrow>
      store_books (the_store (s\<lparr>sh_world := (sh_world s)\<lparr>w_store := ensure_user_exists player u (the_store s)\<rparr>\<rparr>)) = store_books (the_store s)"
    by (simp add: store_books_ensure)
next
  fix found payee amount w r1 w' and s :: shop assume "pay_async found player u payee amount w = (r1, w')"
  then show "\<not> is_operator (the_store (s\<lparr>sh_world := w\<rparr>)) u \<longrightarrow>
      store_books (the_store (s\<lparr>sh_world := w'\<rparr>)) = store_books (the_store (s\<lparr>sh_world := w\<rparr>))"
    using keeps_apply [OF untouched_pay] by (simp add: store_books_kept_def)
next
  fix ty item q s y s' assume "enqueue player u ty item q s = (y, s')"
  then have "the_store s' = the_store s" by (auto simp: enqueue_def split: prod.splits)
  then show "\<not> is_operator (the_store s) u \<longrightarrow> store_books (the_store s') = store_books (the_store s)" by simp
qed simp_all

lemma some_non_operator: "\<exists>u. \<not> is_operator s u"
proof -
  have "finite (fst ` set (users s))" by simp
  then obtain u where "u \<notin> fst ` set (users s)" using infinite_UNIV_listI [where 'a = char] ex_new_if_finite by blast
  then have "hget (users s) u = None" by (simp add: map_of_eq_None_iff)
  then have "\<not> is_operator s u" by (simp add: is_operator_def)
  then show ?thesis ..
qed

text \<open>C2: A player without the operator flag cannot change the books of the store by any whisper: reserves, stack sizes,
  storage, order log, trade history, configuration, trade in flight and operator flags are what they were. What he
  buys or sells happens when the queue reaches his order.\<close>

theorem players_leave_books:
  assumes "handle_player_command env player typed s = (r, s')"
    "\<forall>v. lookup env player = Inr v \<longrightarrow> \<not> is_operator (the_store s) v"
  shows "store_books (the_store s') = store_books (the_store s)"
proof -
  obtain u where u: "\<And>v. lookup env player = Inr v \<Longrightarrow> v = u" "\<not> is_operator (the_store s) u"
    using assms(2) some_non_operator [of "the_store s"] by (metis Inr_inject)
  show ?thesis using plain.P_command [of env player u s typed] u assms(1) by simp
qed

section \<open>Witnesses\<close>

text \<open>Alice, who is no operator, whispers to the sample shop; and the shop executes its waiting order.\<close>

definition sample_sender :: sender where
  "sample_sender = \<lparr>name_gate = (0, 0), user_gate = (0, 0), lookup = (\<lambda>_. Inr sample_uuid), handler_lookup = (\<lambda>_. Inr sample_uuid)\<rparr>"

lemma sample_shop_store: "the_store (sample_shop None) = sample_store" "sh_limiter (sample_shop None) = rate_limiter_new"
    "next_id (mem (sh_queue (sample_shop None))) = 2"
  by (simp_all add: sample_shop_def sample_waiting_def sample_store_def)

theorem command_queue_own_witness:
  "\<exists>r s'. handle_player_command sample_sender ''alice'' ''cancel 1'' (sample_shop None) = (r, s') \<and> queue_inv (sh_queue s')"
proof -
  obtain r s' where run: "handle_player_command sample_sender ''alice'' ''cancel 1'' (sample_shop None) = (r, s')" by force
  have "next_id (mem (sh_queue (sample_shop None))) < - 1" by (simp add: sample_shop_store)
  from command_queue_own [OF run _ sample_shop_facts(1) this, of sample_uuid] run show ?thesis
    by (simp add: sample_sender_def)
qed

lemma sample_shop_steps: "shop_step\<^sup>*\<^sup>* (sample_shop None) (snd (process_next_order (sample_shop None)))"
  by (rule r_into_rtranclp) (rule shop_step.order)

theorem shop_reachable_witness:
  "queue_inv (sh_queue (sample_shop None)) \<and> list_all (node_wf sample_origin) (nodes (storage (the_store (sample_shop None))))"
proof -
  have "limiter_ok (sh_limiter (sample_shop None))" by (simp add: sample_shop_store limiter_ok_def rate_limiter_new_def)
  from shop_reachable [OF rtranclp.rtrancl_refl sample_shop_facts(1) this, of sample_origin] sample_store_wf show ?thesis
    by (simp add: sample_shop_store sample_store_storage sample_storage_def max_node_id_val)
qed

theorem players_leave_books_witness:
  "\<exists>r s'. handle_player_command sample_sender ''alice'' ''additem iron 64'' (sample_shop None) = (r, s') \<and>
    store_books (the_store s') = store_books sample_store"
proof -
  obtain r s' where run: "handle_player_command sample_sender ''alice'' ''additem iron 64'' (sample_shop None) = (r, s')" by force
  from players_leave_books [OF run] run show ?thesis
    by (simp add: sample_sender_def sample_shop_store is_operator_def sample_store_def)
qed

end
