(* ===== verification/Terminal_Properties.thy ===== *)
theory Terminal_Properties
  imports Terminal Player_Properties Payments
begin

text \<open>
  The properties of the terminal menu: it is the only way to the operator flag and it moves the flag of one user, a node
  is added exactly where the bot approved it, the registry of pairs stays fit for saving, and a pair that is
  registered over stored items freezes the payments.
\<close>

section \<open>What a message may change\<close>

text \<open>A relation that the steps of the menu respect; only the operator flag is left out.\<close>

locale menu_relation = act_relation +
  assumes R_validate: "ask_validate i w = (r1, w') \<Longrightarrow> R w w'"
    and R_control: "ask_control i w = (r1, w') \<Longrightarrow> R w w'"
    and R_disk: "next_write w = (b, w') \<Longrightarrow> R w w'"
    and R_in_flight: "R w (w\<lparr>w_store := (w_store w)\<lparr>current_trade := ct\<rparr>\<rparr>)"
    and R_mirrored: "R w (w\<lparr>w_store := (w_store w)\<lparr>trade_mirror := tm\<rparr>\<rparr>)"
    and R_claimed: "add_node (storage (w_store w)) = Some st \<Longrightarrow>
        R w (w\<lparr>w_store := (w_store w)\<lparr>storage := st\<lparr>nodes := butlast (nodes st) @ [force_node_0 (last (nodes st))]\<rparr>\<rparr>\<rparr>)"
    and R_dropped: "R w (w\<lparr>w_store := (w_store w)\<lparr>storage := (storage (w_store w))\<lparr>nodes := drop_node k (nodes (storage (w_store w)))\<rparr>\<rparr>\<rparr>)"
    and R_new_pair: "item_new name = Inr item \<Longrightarrow> stk \<in> {1, 16, 64} \<Longrightarrow>
        R w (w\<lparr>w_store := (w_store w)\<lparr>pairs := hput (pairs (w_store w)) item
          \<lparr>pair_item = item, stack_size = stk, item_stock = 0, currency_stock = f_of_int 0\<rparr>\<rparr>\<rparr>)"
    and R_lost_pair: "R w (w\<lparr>w_store := (w_store w)\<lparr>pairs := AList.delete item (pairs (w_store w))\<rparr>\<rparr>)"
    and R_dirtied: "R w (w\<lparr>w_store := (w_store w)\<lparr>dirty := True\<rparr>\<rparr>)"
    and R_audited: "R w (w\<lparr>w_store := snd (audit_state b (w_store w))\<rparr>)"
    and R_stored: "R w (snd (save_ignored w))"
begin

lemma R_flagged:
  assumes "R w (w\<lparr>w_store := s\<rparr>)"
  shows "R w (w\<lparr>w_store := s\<lparr>dirty := True\<rparr>\<rparr>)"
  using R_trans [OF assms R_dirtied] by simp

lemma R_claim_node: "keeps R claim_node"
proof -
  have "R w (snd (claim_node w))" for w
  proof (cases "add_node (storage (w_store w))")
    case (Some st)
    show ?thesis using R_flagged [OF R_claimed [OF Some]]
      by (simp add: claim_node_def andthen_def reading_def or_panic_def updating_def ret_def Let_def Some)
  qed (simp add: claim_node_def andthen_def reading_def or_panic_def R_refl)
  then show ?thesis by (simp add: keeps_def)
qed

lemma R_discover: "R w (snd (discover existing k n w))"
proof (induction existing k n w rule: discover.induct)
  case (1 existing k n w)
  let ?i = "lowest_unused existing k"
  show ?case
  proof (cases "node_calc_position ?i (st_position (storage (w_store w)))")
    case None then show ?thesis by (subst discover.simps) (simp add: Let_def R_refl)
  next
    case (Some pos)
    obtain r w1 where a: "ask_validate (ValidateTask ?i pos) w = (r, w1)" by force
    obtain x w2 where c: "claim_node w1 = (x, w2)" by force
    note 2 = R_validate [OF a]
    note 3 = R_trans [OF 2 keeps_apply [OF R_claim_node c]]
    have "R w2 (snd (discover existing (?i + 1) (Suc n) w2))" if "r = Answered (Inr u)" "x = Ok v" for u v
      using 1 [OF refl Some] a c that by fastforce
    with R_trans [OF 3] show ?thesis using a c Some 2 3
      by (subst discover.simps) (auto simp: Let_def split: reply.split sum.split res.split)
  qed
qed

lemma R_clear: "R (sh_world s) (sh_world (clear_stuck_order s))"
proof -
  let ?w = "(sh_world s)\<lparr>w_store := (the_store s)\<lparr>current_trade := None, dirty := True\<rparr>\<rparr>"
  have 0: "R (sh_world s) ?w" using R_flagged [OF R_in_flight [where ct = None]] by simp
  obtain ok w1 where 1: "next_write ?w = (ok, w1)" by force
  obtain ok2 w2 where 2: "next_write (set_mirror (snd (clear_persisted ok (trade_mirror (w_store w1)))) w1) = (ok2, w2)" by force
  have "R w1 (set_mirror f w1)" for f unfolding set_mirror_def by (rule R_mirrored)
  then have "R (sh_world s) w2" using R_trans [OF R_trans [OF 0 R_disk [OF 1]]] R_trans R_disk [OF 2] by blast
  then show ?thesis using 1 2
    by (simp add: clear_stuck_order_def clear_mirror_def Let_def case_prod_beta)
qed

lemma R_menu:
  assumes "keeps R m"
  shows "R (sh_world s) (sh_world (snd (menu m s)))"
proof -
  obtain r w where m: "m (sh_world s) = (r, w)" by force
  from keeps_apply [OF assms m] m show ?thesis by (cases r) (auto simp: menu_def)
qed

lemma R_up_dropped: "keeps R (updating (\<lambda>s. s\<lparr>storage := (storage s)\<lparr>nodes := drop_node k (nodes (storage s))\<rparr>, dirty := True\<rparr>))"
  by (rule R_updating) (use R_flagged [OF R_dropped] in simp)

lemma R_up_new: "item_new name = Inr item \<Longrightarrow> stk \<in> {1, 16, 64} \<Longrightarrow> keeps R (updating (\<lambda>s. s\<lparr>pairs := hput (pairs s) item
    \<lparr>pair_item = item, stack_size = stk, item_stock = 0, currency_stock = f_of_int 0\<rparr>, dirty := True\<rparr>))"
  by (rule R_updating) (use R_flagged [OF R_new_pair] in simp)

lemma R_up_lost: "keeps R (updating (\<lambda>s. s\<lparr>pairs := AList.delete item (pairs s), dirty := True\<rparr>))"
  by (rule R_updating) (use R_flagged [OF R_lost_pair] in simp)

lemma R_add_pair: "keeps R (add_pair name stk)"
proof -
  have "keeps R (andthen (updating (\<lambda>s. s\<lparr>pairs := hput (pairs s) item
      \<lparr>pair_item = item, stack_size = stk, item_stock = 0, currency_stock = f_of_int 0\<rparr>, dirty := True\<rparr>)) (\<lambda>_. ret r))"
    if "item_new name = Inr item" "\<not> (stk \<noteq> 1 \<and> stk \<noteq> 16 \<and> stk \<noteq> 64)" for item and r :: cli_reply
    by (intro R_andthen R_up_new [OF that(1)] R_ret) (use that(2) in auto)
  then show ?thesis
    by (auto simp: add_pair_def split: sum.split intro!: R_andthen R_reading R_ret)
qed

lemma R_remove_pair: "keeps R (remove_pair name)"
  unfolding remove_pair_def by (intro R_if R_ret R_sum R_andthen R_reading R_up_lost)

lemma R_validated: "keeps R add_node_with_validation"
proof -
  have a: "keeps R cli_add_node" unfolding cli_add_node_def by (intro R_andthen R_claim_node R_ret)
  have "keeps R (case y of Inl e \<Rightarrow> ret (RNode (Inl e)) | Inr b \<Rightarrow> cli_add_node)" for y :: "string + unit"
    by (cases y) (auto intro: a R_ret)
  then have "keeps R (\<lambda>w. case ask_validate (ValidateTask i pos) w of
      (SendFailed, w') \<Rightarrow> ret (RNode (Inl e1)) w' | (Answered (Inr b), w') \<Rightarrow> cli_add_node w'
    | (Answered (Inl e), w') \<Rightarrow> ret (RNode (Inl e)) w' | (Dropped, w') \<Rightarrow> ret (RNode (Inl e2)) w'
    | (TimedOut, w') \<Rightarrow> ret (RNode (Inl e3)) w')" for i pos e1 e2 e3
    unfolding keeps_def using R_trans [OF R_validate] a
    by (auto simp: keeps_def ret_def split: prod.split reply.split sum.split dest: R_validate)
  then show ?thesis unfolding add_node_with_validation_def position_of_node_def
    by (intro R_andthen R_reading R_or_panic)
qed

lemma R_audit_on_demand: "keeps R (audit_on_demand b)"
proof -
  have "R w (snd (audit_on_demand b w))" for w
    using R_audited [of w b] R_flagged [OF R_audited [of w b]] by (auto simp: audit_on_demand_def split: prod.split)
  then show ?thesis by (simp add: keeps_def)
qed

lemma R_shutdown: "keeps R cli_shutdown"
proof -
  have "keeps R (andthen save_ignored (\<lambda>_. ret RStopped))"
    by (intro R_andthen R_ret) (simp add: keeps_def R_stored)
  then show ?thesis unfolding keeps_def cli_shutdown_def using R_trans [OF R_control] by (auto split: prod.split)
qed

lemma R_cli:
  assumes "\<And>name flag. m = SetOperator name flag \<Longrightarrow> keeps R (set_operator resolve name flag)"
  shows "R (sh_world s) (sh_world (snd (handle_cli_message resolve m s)))"
proof (cases m)
  case RestartBot
  then show ?thesis using R_control by (auto split: prod.split reply.split)
next
  case DiscoverStorage
  have "keeps R (discover existing k n)" for existing k n by (simp add: keeps_def R_discover)
  then show ?thesis unfolding DiscoverStorage handle_cli_message.simps discover_storage_def
    by (intro R_menu R_andthen R_reading R_ret)
qed (auto simp: query_def cli_add_node_def remove_node_def assms R_clear
    intro!: R_menu R_reading R_andthen R_claim_node R_ret R_validated R_if R_add_pair R_remove_pair R_audit_on_demand R_shutdown
      R_up_dropped)

end

section \<open>Operator flags and balances\<close>

interpretation flags: menu_relation operators_kept
  by (unfold_locales; unfold operators_kept_def; (simp; fail | rule is_operator_users; simp add: save_ignored_same audit_state_same; fail))

definition money_kept :: "world \<Rightarrow> world \<Rightarrow> bool" where
  "money_kept w w' \<longleftrightarrow> balance_of (w_store w') = balance_of (w_store w)"

lemma money_users: "users s' = users s \<Longrightarrow> balance_of s' = balance_of s"
  by (simp add: balance_of_def fun_eq_iff)

interpretation money: menu_relation money_kept
  by (unfold_locales; unfold money_kept_def; (simp; fail | rule money_users; simp add: save_ignored_same audit_state_same; fail))

text \<open>The flag of one user.\<close>

definition grant :: "string \<Rightarrow> bool \<Rightarrow> world \<Rightarrow> world \<Rightarrow> bool" where
  "grant u flag w w' \<longleftrightarrow> balance_of (w_store w') = balance_of (w_store w) \<and>
     (\<forall>v. is_operator (w_store w') v = (if v = u then flag else is_operator (w_store w) v))"

lemma grant_flag:
  assumes "set_operator_flag u flag w = (r, w')"
  shows "w' = w \<or> grant u flag w w'"
proof (cases "hget (users (w_store w)) u")
  case (Some x)
  then show ?thesis using assms
    by (auto simp: set_operator_flag_def andthen_def reading_def has_key_def writing_def expect_user_mut_def updating_def ret_def
        grant_def balance_of_def is_operator_def fun_eq_iff)
qed (use assms in \<open>auto simp: set_operator_flag_def andthen_def reading_def has_key_def ret_def\<close>)

lemma grant_ensured:
  assumes "andthen (updating (ensure_user_exists name u)) (\<lambda>_. set_operator_flag u flag) w = (r, w')"
  shows "money_kept w w' \<and> (operators_kept w w' \<or> grant u flag w w')"
proof -
  let ?w = "w\<lparr>w_store := ensure_user_exists name u (w_store w)\<rparr>"
  have "set_operator_flag u flag ?w = (r, w')" using assms by (simp add: andthen_def updating_def)
  from grant_flag [OF this] show ?thesis
    by (auto simp: money_kept_def operators_kept_def grant_def fun_eq_iff)
qed

lemma set_operator_grants:
  assumes "set_operator resolve name flag w = (r, w')"
  obtains "money_kept w w'" "operators_kept w w'"
    | u where "u = trim name \<or> resolve (trim name) = Inr u" "money_kept w w'" "grant u flag w w'"
proof -
  have "w' = w \<or> (\<exists>n u. (u = trim name \<or> resolve (trim name) = Inr u) \<and>
      andthen (updating (ensure_user_exists n u)) (\<lambda>_. set_operator_flag u flag) w = (r, w'))"
    using assms unfolding set_operator_def Let_def
    by (auto simp: andthen_def [of "reading _"] reading_def ret_def fail_def split: if_splits option.splits sum.splits)
  then consider "w' = w" | n u where "u = trim name \<or> resolve (trim name) = Inr u"
      "andthen (updating (ensure_user_exists n u)) (\<lambda>_. set_operator_flag u flag) w = (r, w')" by blast
  then show thesis
  proof cases
    case 1
    then show thesis using that(1) by (simp add: money_kept_def operators_kept_def)
  next
    case 2
    from grant_ensured [OF 2(2)] show thesis using that 2(1) by blast
  qed
qed

text \<open>The terminal menu never touches a balance, and it is no back door to the operator flag either: a message
  changes a flag only if it is \<open>SetOperator\<close>, only to the value it carries, and only for the user it
  names, by uuid or by a name that resolves to him.\<close>

theorem menu_grants:
  assumes "handle_cli_message resolve m s = (a, s')"
  shows "balance_of (the_store s') = balance_of (the_store s) \<and>
    (is_operator (the_store s') v = is_operator (the_store s) v \<or>
     (\<exists>name flag. m = SetOperator name flag \<and> is_operator (the_store s') v = flag \<and>
        (v = trim name \<or> resolve (trim name) = Inr v)))"
proof (cases "\<exists>name flag. m = SetOperator name flag")
  case True
  then obtain name flag where m: "m = SetOperator name flag" by blast
  obtain r w' where run: "set_operator resolve name flag (sh_world s) = (r, w')" by force
  have "sh_world s' = w'" using assms m run by (cases r) (auto simp: menu_def)
  with run show ?thesis by (auto elim!: set_operator_grants simp: m money_kept_def operators_kept_def grant_def split: if_splits)
next
  case False
  then show ?thesis using money.R_cli [of m resolve s] flags.R_cli [of m resolve s] assms
    by (auto simp: money_kept_def operators_kept_def)
qed

theorem menu_grants_witness:
  "\<exists>a s'. handle_cli_message (\<lambda>_. Inr sample_uuid) (SetOperator ''alice'' True) (sample_shop None) = (a, s') \<and>
    balance_of (the_store s') sample_uuid = Fin 50"
proof -
  obtain a s' where run: "handle_cli_message (\<lambda>_. Inr sample_uuid) (SetOperator ''alice'' True) (sample_shop None) = (a, s')"
    by (metis surj_pair)
  from menu_grants [OF run] run show ?thesis
    by (simp add: sample_shop_store balance_of_def sample_store_def fun_eq_iff)
qed

section \<open>Nodes the bot approved\<close>

definition approval :: "node \<Rightarrow> instruction" where
  "approval n = ValidateTask (node_id n) (node_position n)"

lemma force_node_0_same [simp]: "node_id (force_node_0 n) = node_id n" "node_position (force_node_0 n) = node_position n"
  by (simp_all add: force_node_0_def Let_def)

lemma claim_node_spec:
  assumes "claim_node w = (r, w')"
  shows "r = Panicked \<and> w' = w \<or>
    (\<exists>n. r = Ok (node_id n) \<and> node_id n = next_node (w_store w) \<and>
      node_calc_position (node_id n) (st_position (storage (w_store w))) = Some (node_position n) \<and>
      nodes (storage (w_store w')) = nodes (storage (w_store w)) @ [n] \<and>
      st_position (storage (w_store w')) = st_position (storage (w_store w)) \<and>
      sent w' = sent w \<and> validate_replies w' = validate_replies w)"
proof (cases "add_node (storage (w_store w))")
  case (Some st)
  then obtain m where m: "node_new (next_node (w_store w)) (st_position (storage (w_store w))) = Some m"
      "st = (storage (w_store w))\<lparr>nodes := nodes (storage (w_store w)) @ [m]\<rparr>"
    by (auto simp: add_node_def next_node_def)
  have n: "node_id m = next_node (w_store w)"
      "node_calc_position (node_id m) (st_position (storage (w_store w))) = Some (node_position m)"
    using m(1) by (auto simp: node_new_def Let_def split: option.splits)
  have "r = Ok (node_id m) \<and> w' = w\<lparr>w_store := (w_store w)\<lparr>storage := st\<lparr>nodes := nodes (storage (w_store w)) @ [force_node_0 m]\<rparr>, dirty := True\<rparr>\<rparr>"
    using assms Some m(2) by (auto simp: claim_node_def andthen_def reading_def or_panic_def updating_def ret_def Let_def)
  then show ?thesis using n m(2) by (intro disjI2 exI [of _ "force_node_0 m"]) auto
qed (use assms in \<open>auto simp: claim_node_def andthen_def reading_def or_panic_def\<close>)

lemma lowest_unused_unique:
  assumes "k \<le> m" "m \<notin> set ids" "{k..<m} \<subseteq> set ids"
  shows "lowest_unused ids k = m"
proof -
  let ?l = "lowest_unused ids k"
  from lowest_unused_spec [of k ids] have l: "k \<le> ?l" "?l \<notin> set ids" "{k..<?l} \<subseteq> set ids" by auto
  have "\<not> ?l < m" using l assms by (meson atLeastLessThan_iff subsetD)
  moreover have "\<not> m < ?l" using l assms by (meson atLeastLessThan_iff subsetD)
  ultimately show ?thesis by simp
qed

lemma validate_asks:
  assumes "ask_validate i w = (r, w')"
  shows "w_store w' = w_store w" "r \<noteq> SendFailed \<Longrightarrow> sent w' = sent w @ [i] \<and> validate_replies w = r # validate_replies w'"
    "r = SendFailed \<Longrightarrow> sent w' = sent w"
proof -
  show "w_store w' = w_store w" using assms by simp
  obtain q qs where q: "next_of SendFailed (validate_replies w) = (q, qs)" by force
  then have "r = q" "w' = log_sent q i (w\<lparr>validate_replies := qs\<rparr>)" using assms by (auto simp: ask_validate_def)
  with q show "r \<noteq> SendFailed \<Longrightarrow> sent w' = sent w @ [i] \<and> validate_replies w = r # validate_replies w'"
    "r = SendFailed \<Longrightarrow> sent w' = sent w"
    by (cases "validate_replies w"; cases q; simp add: next_of_def log_sent_def)+
qed

text \<open>What a stretch of the discovery added: the nodes, with one approval each, and at most one request besides.\<close>

definition discovered :: "world \<Rightarrow> nat \<Rightarrow> string + nat \<Rightarrow> world \<Rightarrow> bool" where
  "discovered w n r w' \<longleftrightarrow> (\<exists>ns asked.
     nodes (storage (w_store w')) = nodes (storage (w_store w)) @ ns \<and>
     sent w' = sent w @ map approval ns @ asked \<and> length asked \<le> 1 \<and>
     take (length ns) (validate_replies w) = replicate (length ns) (Answered (Inr ())) \<and>
     (\<forall>k. r = Inr k \<longrightarrow> k = n + length ns))"

lemma discover_discovers:
  assumes "discover existing k n w = (Ok r, w')" "map node_id (nodes (storage (w_store w))) = existing @ added"
    "0 \<le> k" "{0..<k} \<subseteq> set (existing @ added)" "set added \<subseteq> {0..<k}"
  shows "discovered w n r w'"
  using assms
proof (induction existing k n w arbitrary: added rule: discover.induct)
  case (1 existing k n w)
  let ?i = "lowest_unused existing k"
  have i: "k \<le> ?i" "?i \<notin> set existing" "{k..<?i} \<subseteq> set existing" using lowest_unused_spec [of k existing] by auto
  obtain pos where pos: "node_calc_position ?i (st_position (storage (w_store w))) = Some pos"
    using 1(2) by (subst (asm) discover.simps) (auto simp: Let_def split: option.splits)
  obtain q w1 where q: "ask_validate (ValidateTask ?i pos) w = (q, w1)" by force
  note asked = validate_asks [OF q]
  show ?case
  proof (cases "\<exists>u. q = Answered (Inr u)")
    case False
    then have "w' = w1 \<and> (\<forall>j. r = Inr j \<longrightarrow> j = n)" using 1(2) pos q
      by (subst (asm) discover.simps) (auto simp: Let_def split: reply.splits sum.splits)
    moreover obtain e where "sent w1 = sent w @ e" "length e \<le> 1" using asked(2,3) by (cases "q = SendFailed") auto
    ultimately show ?thesis using asked(1) unfolding discovered_def by (intro exI [of _ "[]"] exI [of _ e]) auto
  next
    case True
    then have yes: "q = Answered (Inr ())" by auto
    obtain x w2 where c: "claim_node w1 = (x, w2)" by force
    have "x \<noteq> Panicked" using 1(2) pos q yes c by (subst (asm) discover.simps) (auto simp: Let_def)
    with claim_node_spec [OF c] obtain m where m: "x = Ok (node_id m)" "node_id m = next_node (w_store w1)"
        "node_calc_position (node_id m) (st_position (storage (w_store w1))) = Some (node_position m)"
        "nodes (storage (w_store w2)) = nodes (storage (w_store w1)) @ [m]" "sent w2 = sent w1" "validate_replies w2 = validate_replies w1"
      by auto
    have "{0..<?i} = {0..<k} \<union> {k..<?i}" using i(1) 1(4) by auto
    then have filled: "{0..<?i} \<subseteq> set (existing @ added)" using i(3) 1(5) by auto
    have "lowest_unused (existing @ added) 0 = ?i"
      by (rule lowest_unused_unique [OF _ _ filled]) (use i 1(4,6) in auto)
    then have id: "node_id m = ?i" using m(2) 1(3) asked(1) by (simp add: next_node_def)
    have go: "discover existing (?i + 1) (Suc n) w2 = (Ok r, w')"
      using 1(2) pos q yes c m(1) by (subst (asm) discover.simps) (auto simp: Let_def)
    have "{0..<?i + 1} \<subseteq> set (existing @ added @ [?i])" using filled by force
    moreover have "set (added @ [?i]) \<subseteq> {0..<?i + 1}" using i(1) 1(4,6) by force
    ultimately have "discovered w2 (Suc n) r w'"
      using 1(1) [OF refl pos q [symmetric] yes refl c [symmetric] m(1) go, of "added @ [?i]"] m(4) 1(3,4,6) i id asked(1) by auto
    moreover have "map approval [m] = [ValidateTask ?i pos]" using m(3) pos id asked(1) by (simp add: approval_def)
    ultimately show ?thesis using asked yes m(4-6) unfolding discovered_def
      by (elim exE conjE, intro exI conjI, (rule allI; simp)?) auto
  qed
qed



section \<open>The registry of pairs\<close>

text \<open>Every pair is registered under its own item and passes the checks of \<open>Pair::save\<close>.\<close>

definition registered :: "store \<Rightarrow> bool" where
  "registered s \<longleftrightarrow> (\<forall>k p. hget (pairs s) k = Some p \<longrightarrow> pair_item p = k \<and> pair_save_check p)"

definition registry_kept :: "world \<Rightarrow> world \<Rightarrow> bool" where
  "registry_kept w w' \<longleftrightarrow> (registered (w_store w) \<longrightarrow> registered (w_store w'))"

lemma registered_pairs: "pairs s' = pairs s \<Longrightarrow> registered s' = registered s"
  by (simp add: registered_def)

lemma audit_pairs_items:
  "map_option (\<lambda>p. (pair_item p, stack_size p)) (hget (snd (snd (audit_pairs st b ps))) k) =
     map_option (\<lambda>p. (pair_item p, stack_size p)) (hget ps k)"
proof (induction ps)
  case (Cons kp ps)
  obtain k' p where kp: "kp = (k', p)" by force
  obtain i b' ps' where r: "audit_pairs st b ps = (i, b', ps')" by (metis prod_cases3)
  show ?case using Cons r kp by (auto simp: audit_pair_def Let_def split: prod.split)
qed simp

lemma save_check_cong: "pair_item q = pair_item p \<Longrightarrow> stack_size q = stack_size p \<Longrightarrow> pair_save_check q = pair_save_check p"
  by (simp add: pair_save_check_def)

lemma audit_registered: "registered s \<Longrightarrow> registered (snd (audit_state b s))"
proof -
  assume s: "registered s"
  obtain i b' ps' where r: "audit_pairs (storage s) b (pairs s) = (i, b', ps')" by (metis prod_cases3)
  then have "pairs (snd (audit_state b s)) = ps'" by (simp add: audit_state_def Let_def)
  moreover have "pair_item p = k \<and> pair_save_check p" if h: "hget ps' k = Some p" for k p
  proof -
    obtain q where "hget (pairs s) k = Some q" "pair_item p = pair_item q" "stack_size p = stack_size q"
      using audit_pairs_items [of "storage s" b "pairs s" k] r h by (cases "hget (pairs s) k") auto
    then show ?thesis using s save_check_cong [of p q] by (simp add: registered_def)
  qed
  ultimately show ?thesis by (simp add: registered_def)
qed

lemma registered_put:
  assumes "registered s" "hget (pairs s) item = Some p" "pair_item q = pair_item p" "stack_size q = stack_size p"
  shows "registered (s\<lparr>pairs := hput (pairs s) item q\<rparr>)"
  using assms save_check_cong [OF assms(3,4)] by (auto simp: registered_def)

lemma registered_new:
  assumes "registered s" "item_new name = Inr item" "stk \<in> {1, 16, 64}"
  shows "registered (s\<lparr>pairs := hput (pairs s) item \<lparr>pair_item = item, stack_size = stk, item_stock = 0, currency_stock = c\<rparr>\<rparr>)"
proof -
  have "is_canonical item" using assms(2) by (rule item_new_canonical)
  then show ?thesis using assms by (auto simp: registered_def pair_save_check_def item_is_empty_def is_canonical_def)
qed

lemmas registered_steps = audit_registered registered_put registered_pairs [OF save_ignored_same(1)]

interpretation registry: slot_relation registry_kept
  by (unfold_locales; unfold registry_kept_def; (simp add: registered_steps; fail | simp add: registered_def; fail))

interpretation registry_menu: menu_relation registry_kept
  by (unfold_locales; unfold registry_kept_def;
      (simp add: registered_steps; fail | simp add: registered_new; fail | simp add: registered_def delete_conv'; fail))

section \<open>A pair registered over stored items\<close>

lemma audit_sees_drift:
  assumes "(k, p) \<in> set ps" "item_stock p \<noteq> total_item_amount st (pair_item p)"
  shows "fst (audit_pairs st False ps) \<noteq> []"
  using assms
proof (induction ps)
  case (Cons kp ps)
  obtain k' q where kp: "kp = (k', q)" by force
  obtain i b ps' where "audit_pairs st False ps = (i, b, ps')" by (metis prod_cases3)
  then show ?case using Cons kp by (auto simp: audit_pair_def Let_def)
qed simp

lemma drift_fails_audit:
  assumes "hget (pairs (w_store w)) item = Some p" "item_stock p \<noteq> total_item_amount (storage (w_store w)) (pair_item p)"
  shows "checked (assert_invariants False) w = (Err (InvariantViolation ''audit''), w)"
proof -
  have "issues (fst (audit_state False (w_store w))) \<noteq> []"
    using audit_sees_drift [OF map_of_SomeD [OF assms(1)] assms(2)] by (simp add: audit_clean_iff)
  then show ?thesis using audit_false_id [of "w_store w"]
    by (auto simp: checked_def assert_invariants_def split: prod.split)
qed



end
