(* ===== verification/Loop_Properties.thy ===== *)
theory Loop_Properties
  imports Main_Loop Terminal_Properties
begin

text \<open>
  The properties of the store's loop over whole runs: the invariants of the queue, the limiter and the registry hold
  after every turn, a waiting order is served within as many turns as there are orders before it, and a change
  stays marked for saving until a save succeeded.
\<close>

section \<open>The queue during a turn\<close>

text \<open>The orders with an id below \<open>N\<close>, and what at most \<open>n\<close> commands make of a queue.\<close>

definition old :: "u64 \<Rightarrow> queue_sys \<Rightarrow> queued_order list" where
  "old N q = filter (\<lambda>o1. qo_id o1 < N) (orders (mem q))"

definition room :: "nat \<Rightarrow> queue_sys \<Rightarrow> bool" where
  "room n q \<longleftrightarrow> unat (next_id (mem q)) + n < 2 ^ 64 - 1"

definition queue_on :: "nat \<Rightarrow> queue_sys \<Rightarrow> queue_sys \<Rightarrow> bool" where
  "queue_on n q q' \<longleftrightarrow> queue_inv q' \<and> next_id (mem q) \<le> next_id (mem q') \<and>
     unat (next_id (mem q')) \<le> unat (next_id (mem q)) + n \<and> (\<forall>N \<le> next_id (mem q). subseq (old N q') (old N q))"

lemma queue_on_refl: "queue_inv q \<Longrightarrow> queue_on n q q"
  by (simp add: queue_on_def)

lemma queue_on_trans: "queue_on a q q1 \<Longrightarrow> queue_on b q1 q2 \<Longrightarrow> queue_on (a + b) q q2"
  unfolding queue_on_def by (auto intro: order_trans subseq_order.order_trans)

lemma queue_on_more: "queue_on a q q' \<Longrightarrow> a \<le> b \<Longrightarrow> queue_on b q q'"
  by (auto simp: queue_on_def)

lemma room_on: "room (a + b) q \<Longrightarrow> queue_on a q q' \<Longrightarrow> room b q'"
  by (auto simp: room_def queue_on_def)

lemma room_less: "room b q \<Longrightarrow> a \<le> b \<Longrightarrow> room a q"
  by (auto simp: room_def)

lemma room_next: "room (Suc n) q \<Longrightarrow> next_id (mem q) < - 1"
  by (simp add: room_def word_less_nat_alt unsigned_minus_1_eq_mask mask_eq_exp_minus_1)

lemma queue_op_on:
  assumes "queue_op u q q'" "queue_inv q" "room 1 q"
  shows "queue_on 1 q q'"
proof -
  have n: "next_id (mem q) < - 1" using assms(3) room_next [of 0] by simp
  have inv: "queue_inv q'" using queue_op_step [OF assms(1) n] queue_step_inv assms(2) by auto
  have "next_id (mem q) \<le> next_id (mem q') \<and> unat (next_id (mem q')) \<le> unat (next_id (mem q)) + 1 \<and>
      (\<forall>N \<le> next_id (mem q). subseq (old N q') (old N q))"
    using assms(1) unfolding queue_op_def
  proof (elim disjE exE conjE)
    fix req x assume a: "queue_add req q = (x, q')"
    show ?thesis
    proof (cases x)
      case (Inl e)
      then show ?thesis using queue_add_err [of req q e q'] a by simp
    next
      case (Inr b)
      obtain i pos where b: "b = (i, pos)" by force
      have m: "mem q' = \<lparr>orders = orders (mem q) @ [queued_order_new (next_id (mem q)) req], next_id = next_id (mem q) + 1\<rparr>"
        using queue_add_ok [OF a [unfolded Inr b]] by simp
      have "unat (next_id (mem q) + 1) = unat (next_id (mem q)) + 1"
        using assms(3) by (simp add: room_def unat_word_ariths)
      then show ?thesis using m less_succ_word [OF n]
        by (auto simp: old_def queued_order_new_def not_less)
    qed
  next
    fix i ok x assume c: "queue_cancel (u, i, ok) q = (x, q')"
    show ?thesis
    proof (cases x)
      case (Inl e)
      then show ?thesis using queue_cancel_err [of "(u, i, ok)" q e q'] c by simp
    next
      case (Inr z)
      then obtain k where "orders (mem q') = remove_at k (orders (mem q))" "next_id (mem q') = next_id (mem q)"
        using queue_cancel_ok c by blast
      then show ?thesis by (auto simp: old_def intro: subseq_filter remove_at_subseq)
    qed
  qed auto
  with inv show ?thesis by (simp add: queue_on_def)
qed

text \<open>A message from the terminal leaves the queue in memory alone.\<close>

lemma menu_queue [simp]: "sh_queue (snd (menu m s)) = sh_queue s" "sh_limiter (snd (menu m s)) = sh_limiter s"
  "sh_processing (snd (menu m s)) = sh_processing s"
  by (auto simp: menu_def split: prod.split res.split)

lemma cli_limiter: "sh_limiter (snd (handle_cli_message resolve m s)) = sh_limiter s"
  by (cases m) (auto simp: query_def clear_stuck_order_def Let_def split: prod.split reply.split)

lemma cli_queue:
  assumes "queue_inv (sh_queue s)"
  shows "queue_on 0 (sh_queue s) (sh_queue (snd (handle_cli_message resolve m s)))"
proof -
  have same: "sh_queue s' = sh_queue s \<Longrightarrow> queue_on 0 (sh_queue s) (sh_queue s')" for s' :: shop
    using assms by (simp add: queue_on_refl)
  have "queue_on 0 (sh_queue s) (sh_queue (clear_stuck_order s))"
  proof -
    let ?q = "sh_queue (clear_stuck_order s)"
    have "mem ?q = mem (sh_queue s) \<and> (disk ?q = disk (sh_queue s) \<or> disk ?q = Parsed (mem (sh_queue s)))"
      by (auto simp: clear_stuck_order_def queue_save_def Let_def split: prod.split)
    moreover from this have "queue_inv ?q" using assms durable_saved [of ?q] by (auto simp: queue_inv_def durable_def)
    ultimately show ?thesis by (simp add: queue_on_def old_def)
  qed
  then show ?thesis by (cases m) (auto simp: query_def same split: prod.split reply.split)
qed

lemma dispatch_queue_on:
  assumes "dispatch_message m l = (r, l')" "queue_inv (sh_queue (lp_shop l))" "room 1 (sh_queue (lp_shop l))"
  shows "queue_on 1 (sh_queue (lp_shop l)) (sh_queue (lp_shop l'))"
proof (cases m)
  case (FromBot env player typed)
  let ?s' = "snd (handle_player_command env player typed (lp_shop l))"
  have "lp_shop l' = ?s'" using assms(1) FromBot by (auto split: prod.splits res.splits)
  moreover have "queue_op (projr (lookup env player)) (sh_queue (lp_shop l)) (sh_queue ?s')" by (rule command_queue) simp
  ultimately show ?thesis using queue_op_on assms(2,3) by metis
next
  case (FromCli resolve c)
  then have "lp_shop l' = snd (handle_cli_message resolve c (lp_shop l))"
    using assms(1) by (auto split: prod.splits res.splits)
  then show ?thesis using queue_on_more [OF cli_queue [OF assms(2)]] by simp
next
  case (ReloadConfig new)
  then have "sh_queue (lp_shop l') = sh_queue (lp_shop l)" using assms(1) by (auto simp: Let_def set_store_def set_world_def)
  then show ?thesis using assms(2) by (simp add: queue_on_refl)
qed

lemma drain_queue_on:
  assumes "drain ms l = (r, l')" "queue_inv (sh_queue (lp_shop l))" "room (length ms) (sh_queue (lp_shop l))"
  shows "queue_on (length ms) (sh_queue (lp_shop l)) (sh_queue (lp_shop l'))"
  using assms
proof (induction ms arbitrary: l)
  case (Cons m ms)
  obtain r1 l1 where d: "dispatch_message m l = (r1, l1)" by force
  have on: "queue_on 1 (sh_queue (lp_shop l)) (sh_queue (lp_shop l1))"
    by (rule dispatch_queue_on [OF d Cons.prems(2) room_less [OF Cons.prems(3)]]) simp
  show ?case
  proof (cases "r1 = GoOn")
    case True
    have "queue_on (length ms) (sh_queue (lp_shop l1)) (sh_queue (lp_shop l'))"
      by (rule Cons.IH) (use Cons.prems on d True room_on [of 1 "length ms"] in \<open>auto simp: queue_on_def\<close>)
    then show ?thesis using queue_on_trans [OF on] by simp
  next
    case False
    then have "l' = l1" using Cons.prems(1) d by (cases r1) auto
    then show ?thesis using queue_on_more [OF on] by simp
  qed
qed (simp add: queue_on_refl)

text \<open>The next order leaves the queue; with a working disk it does.\<close>

lemma take_order_queue:
  assumes "take_order o1 s = (b, s')"
  shows "queue_step (sh_queue s) (sh_queue s') \<and> next_id (mem (sh_queue s')) = next_id (mem (sh_queue s)) \<and>
    (orders (mem (sh_queue s')) = orders (mem (sh_queue s)) \<or> orders (mem (sh_queue s')) = tl (orders (mem (sh_queue s))))"
proof -
  obtain ok w1 where n: "next_write (sh_world s) = (ok, w1)" by force
  obtain r q where p: "pop_committed (qo_id o1, ok) (sh_queue s) = (r, q)" by force
  have q: "sh_queue s' = q" using assms n p by (auto simp: take_order_def)
  show ?thesis
  proof (cases r)
    case (Inl e)
    then show ?thesis using pop_committed_err [of "(qo_id o1, ok)" "sh_queue s" e q] p queue_step.pop [OF p] q by simp
  next
    case (Inr f)
    then show ?thesis using pop_committed_ok [OF p [unfolded Inr]] queue_step.pop [OF p] q by simp
  qed
qed

lemma take_order_works:
  assumes "take_order o1 s = (b, s')" "write_oks (sh_world s) = True # ws" "orders (mem (sh_queue s)) = o1 # os"
  shows "b" "orders (mem (sh_queue s')) = os"
  using assms by (auto simp: take_order_def pop_committed_def queue_save_def next_write_def next_of_def Let_def)

lemma write_mirror_works:
  "write_oks w = True # ws \<Longrightarrow> \<exists>w1. write_mirror t w = (True, w1) \<and> write_oks w1 = ws"
  by (auto simp: write_mirror_def next_write_def next_of_def persist_def set_mirror_def Let_def)

lemma next_order_queue:
  "sh_queue (snd (process_next_order s)) = sh_queue s \<or>
   (\<exists>o1 w. sh_queue (snd (process_next_order s)) = sh_queue (snd (take_order o1 (s\<lparr>sh_world := w\<rparr>))))"
proof (cases "peek_front (mem (sh_queue s))")
  case (Some o1)
  obtain b w1 where w: "write_mirror (trade_state_new o1) (sh_world s) = (b, w1)" by force
  obtain c s2 where t: "take_order o1 (s\<lparr>sh_world := w1\<rparr>) = (c, s2)" by force
  obtain x w3 where x: "run_order o1 (sh_world s2) = (x, w3)" by force
  have "sh_queue (snd (process_next_order s)) = (if b then sh_queue s2 else sh_queue s)"
    using Some w t x by (auto simp: process_next_order_def split: bool.splits res.splits)
  then show ?thesis using t by (metis snd_conv)
qed (simp add: process_next_order_def)

lemma next_order_on:
  assumes "queue_inv (sh_queue s)"
  shows "queue_on 0 (sh_queue s) (sh_queue (snd (process_next_order s)))"
  using next_order_queue [of s]
proof (elim disjE exE)
  fix o1 w
  obtain b s' where t: "take_order o1 (s\<lparr>sh_world := w\<rparr>) = (b, s')" by force
  assume "sh_queue (snd (process_next_order s)) = sh_queue (snd (take_order o1 (s\<lparr>sh_world := w\<rparr>)))"
  then have s': "sh_queue (snd (process_next_order s)) = sh_queue s'" using t by simp
  have q: "queue_step (sh_queue s) (sh_queue s')" "next_id (mem (sh_queue s')) = next_id (mem (sh_queue s))"
      "orders (mem (sh_queue s')) = orders (mem (sh_queue s)) \<or> orders (mem (sh_queue s')) = tl (orders (mem (sh_queue s)))"
    using take_order_queue [OF t] by simp_all
  have "queue_inv (sh_queue s')" using queue_step_inv [OF assms q(1)] .
  moreover have "subseq (old N (sh_queue s')) (old N (sh_queue s))" for N
    using q(3) by (cases "orders (mem (sh_queue s))") (auto simp: old_def)
  ultimately show ?thesis unfolding s' queue_on_def using q(2) by simp
qed (simp add: queue_on_refl assms)

lemma next_order_serves:
  assumes "write_oks (sh_world s) = True # True # ws" "orders (mem (sh_queue s)) = o1 # os"
  shows "orders (mem (sh_queue (snd (process_next_order s)))) = os"
proof -
  obtain w1 where w: "write_mirror (trade_state_new o1) (sh_world s) = (True, w1)" "write_oks w1 = True # ws"
    using write_mirror_works [OF assms(1)] by blast
  obtain c s2 where t: "take_order o1 (s\<lparr>sh_world := w1\<rparr>) = (c, s2)" by force
  obtain x w3 where x: "run_order o1 (sh_world s2) = (x, w3)" by force
  have "c" "orders (mem (sh_queue s2)) = os" using take_order_works [OF t] w(2) assms(2) by auto
  then show ?thesis using assms(2) w(1) t x by (auto simp: process_next_order_def peek_front_def split: res.splits)
qed

section \<open>Turns\<close>

lemma read_clock_same: "read_clock w = (t, w') \<Longrightarrow> w_store w' = w_store w \<and> write_oks w' = write_oks w \<and>
    save_scripts w' = save_scripts w"
  by (cases "clock w") (auto simp: read_clock_def now_def next_of_def)

lemma save_now_same: "save_now w = (b, w') \<Longrightarrow> write_oks w' = write_oks w"
  by (auto simp: save_now_def split: prod.splits)

text \<open>Sweeping and saving leave the queue, the flag of the order and the write outcomes alone.\<close>

definition calm :: "store_loop \<Rightarrow> store_loop \<Rightarrow> bool" where
  "calm l l' \<longleftrightarrow> sh_queue (lp_shop l') = sh_queue (lp_shop l) \<and> sh_processing (lp_shop l') = sh_processing (lp_shop l) \<and>
     write_oks (lp_world l') = write_oks (lp_world l)"

lemma calm_world: "write_oks w = write_oks (lp_world l) \<Longrightarrow> calm l (set_world w l)"
  by (simp add: calm_def set_world_def)

lemma calm_trans: "calm l l' \<Longrightarrow> calm l' l'' \<Longrightarrow> calm l l''"
  by (simp add: calm_def)

lemma calm_flush: "calm l (flush l)"
proof -
  obtain b w1 where s: "save_now (lp_world l) = (b, w1)" by force
  obtain t w2 where c: "read_clock w1 = (t, w2)" by force
  show ?thesis using save_now_same [OF s] read_clock_same [OF c] s c
    by (simp add: flush_def calm_def set_world_def mark_clean_def)
qed

lemma calm_autosave: "calm l (autosave l)"
proof -
  obtain t w1 where c: "read_clock (lp_world l) = (t, w1)" by force
  have 1: "calm l (set_world w1 l)" using read_clock_same [OF c] by (intro calm_world) simp
  show ?thesis using 1 calm_trans [OF 1 calm_flush] c by (simp add: autosave_def calm_def)
qed

lemma calm_debounced: "calm l (debounced_save l)"
proof -
  obtain t w1 where c: "read_clock (lp_world l) = (t, w1)" by force
  obtain b w2 where s: "save_now w1 = (b, w2)" by force
  obtain t2 w3 where c2: "read_clock w2 = (t2, w3)" by force
  show ?thesis using read_clock_same [OF c] save_now_same [OF s] read_clock_same [OF c2] c s c2
    by (cases b) (simp_all add: debounced_save_def calm_def set_world_def mark_clean_def)
qed

lemma calm_sweep: "calm l (sweep l)"
proof -
  obtain t w1 where c: "read_clock (lp_world l) = (t, w1)" by force
  obtain t1 w2 where c1: "read_clock w1 = (t1, w2)" by force
  obtain t2 w3 where c2: "read_clock w2 = (t2, w3)" by force
  show ?thesis using read_clock_same [OF c] read_clock_same [OF c1] read_clock_same [OF c2] c c1 c2
    by (simp add: sweep_def calm_def set_world_def Let_def)
qed

lemma calm_close: "sh_queue (lp_shop (close_loop l)) = sh_queue (lp_shop l)"
  by (simp add: close_loop_def set_store_def set_world_def Let_def)

text \<open>The two halves of a turn.\<close>

lemma finish_queue: "sh_queue (lp_shop (snd (finish_turn x))) = sh_queue (lp_shop (snd x))"
  by (simp add: finish_turn_def calm_close split: prod.split)

lemma turn_busy:
  fixes i :: turn_input and l :: store_loop
  defines "l1 \<equiv> autosave (sweep l)"
  defines "s \<equiv> snd (process_next_order (lp_shop l1))"
  assumes run: "turn i l = (r, l')" "expired i = None" and inv: "queue_inv (sh_queue (lp_shop l))"
    and room: "room (length (waiting_messages i)) (sh_queue (lp_shop l))"
    and busy: "\<not> sh_processing (lp_shop l1) \<and> orders (mem (sh_queue (lp_shop l1))) \<noteq> []"
  shows "queue_on 0 (sh_queue (lp_shop l)) (sh_queue s)" "queue_on (length (waiting_messages i)) (sh_queue s) (sh_queue (lp_shop l'))"
proof -
  have "calm l l1" unfolding l1_def by (rule calm_trans [OF calm_sweep calm_autosave])
  then have q1: "sh_queue (lp_shop l1) = sh_queue (lp_shop l)" by (simp add: calm_def)
  obtain x where p: "process_next_order (lp_shop l1) = (x, s)" unfolding s_def by (metis prod.collapse)
  let ?l2 = "l1\<lparr>lp_shop := s\<rparr>"
  let ?l3 = "if dirty (lp_store ?l2) then flush ?l2 else ?l2"
  show on: "queue_on 0 (sh_queue (lp_shop l)) (sh_queue s)" using next_order_on [of "lp_shop l1"] inv p q1 by simp
  have l3: "sh_queue (lp_shop ?l3) = sh_queue s" using calm_flush [of ?l2] by (simp add: calm_def)
  show "queue_on (length (waiting_messages i)) (sh_queue s) (sh_queue (lp_shop l'))"
  proof (cases "x = Some Panicked")
    case True
    then have "l' = ?l2" using run p busy by (auto simp: turn_def work_def Let_def l1_def)
    then show ?thesis using on by (auto simp: queue_on_def)
  next
    case False
    obtain r2 l4 where d: "drain (waiting_messages i) ?l3 = (r2, l4)" by force
    have w: "work (expired i) l1 = (GoOn, ?l2)" using run(2) p False by (auto simp: work_def split: option.split res.split)
    have "l' = snd (finish_turn (r2, l4))" using run(1) busy w d by (simp add: turn_def Let_def l1_def [symmetric])
    then have q': "sh_queue (lp_shop l') = sh_queue (lp_shop l4)" using finish_queue [of "(r2, l4)"] by simp
    show ?thesis unfolding q'
      using drain_queue_on [OF d] on l3 room_on [OF _ on, of "length (waiting_messages i)"] room by (simp add: queue_on_def)
  qed
qed

lemma turn_queue:
  assumes run: "turn i l = (r, l')" "expired i = None" and inv: "queue_inv (sh_queue (lp_shop l))"
    and room: "room (length (waiting_messages i) + 1) (sh_queue (lp_shop l))"
  shows "queue_on (length (waiting_messages i) + 1) (sh_queue (lp_shop l)) (sh_queue (lp_shop l'))"
proof -
  let ?l1 = "autosave (sweep l)"
  have "calm l ?l1" by (rule calm_trans [OF calm_sweep calm_autosave])
  then have q1: "sh_queue (lp_shop ?l1) = sh_queue (lp_shop l)" by (simp add: calm_def)
  show ?thesis
  proof (cases "\<not> sh_processing (lp_shop ?l1) \<and> orders (mem (sh_queue (lp_shop ?l1))) \<noteq> []")
    case True
    show ?thesis using queue_on_more [OF queue_on_trans [OF turn_busy [OF run inv room_less [OF room] True]]] by simp
  next
    case False
    show ?thesis
    proof (cases "next_message i")
      case (Arrived m)
      obtain r2 l2 where d: "dispatch_message m ?l1 = (r2, l2)" by force
      have "l' = (if r2 = GoOn then debounced_save l2 else snd (finish_turn (r2, l2)))"
        using run(1) False Arrived d by (cases r2) (auto simp: turn_def Let_def)
      then have "sh_queue (lp_shop l') = sh_queue (lp_shop l2)"
        using calm_debounced [of l2] finish_queue [of "(r2, l2)"] by (simp add: calm_def)
      then show ?thesis using queue_on_more [OF dispatch_queue_on [OF d]] inv room_less [OF room, of 1] q1 by simp
    qed (use run(1) inv False q1 in \<open>auto simp: turn_def Let_def calm_close queue_on_refl\<close>)
  qed
qed

text \<open>A turn with a working disk, in which no order is given up and nothing panics.\<close>

inductive serving :: "store_loop \<Rightarrow> store_loop \<Rightarrow> bool" where
  turn: "turn i l = (GoOn, l') \<Longrightarrow> expired i = None \<Longrightarrow> write_oks (lp_world l) = True # True # ws \<Longrightarrow>
    \<not> sh_processing (lp_shop l) \<Longrightarrow> room (length (waiting_messages i) + 1) (sh_queue (lp_shop l)) \<Longrightarrow> serving l l'"

inductive_cases servingE: "serving l l'"

lemma old_tl:
  assumes "queue_inv q" "orders (mem q) = o1 # os"
  shows "filter (\<lambda>o2. qo_id o2 < N) os = tl (old N q)"
proof (cases "qo_id o1 < N")
  case False
  have "\<forall>o2 \<in> set os. qo_id o1 < qo_id o2" using assms by (simp add: queue_inv_def queue_wf_def)
  then have "filter (\<lambda>o2. qo_id o2 < N) os = []" using False by (auto simp: filter_empty_conv)
  then show ?thesis using False assms(2) by (simp add: old_def)
qed (simp add: old_def assms(2))

lemma subseq_tl: "subseq xs ys \<Longrightarrow> subseq (tl xs) (tl ys)"
  by (cases xs; cases ys) (auto dest: subseq_Cons' split: if_splits)

lemma serving_step:
  assumes "serving l l'" "queue_inv (sh_queue (lp_shop l))" "N \<le> next_id (mem (sh_queue (lp_shop l)))"
  shows "queue_inv (sh_queue (lp_shop l'))" "N \<le> next_id (mem (sh_queue (lp_shop l')))"
    "subseq (old N (sh_queue (lp_shop l'))) (tl (old N (sh_queue (lp_shop l))))"
proof -
  from assms(1) obtain i ws where run: "turn i l = (GoOn, l')" "expired i = None"
      and wr: "write_oks (lp_world l) = True # True # ws" "\<not> sh_processing (lp_shop l)"
      and room: "room (length (waiting_messages i) + 1) (sh_queue (lp_shop l))" by (auto elim: servingE)
  let ?l1 = "autosave (sweep l)"
  have c: "calm l ?l1" by (rule calm_trans [OF calm_sweep calm_autosave])
  note on = turn_queue [OF run assms(2) room]
  show "queue_inv (sh_queue (lp_shop l'))" "N \<le> next_id (mem (sh_queue (lp_shop l')))"
    using on assms(3) by (auto simp: queue_on_def intro: order_trans)
  show "subseq (old N (sh_queue (lp_shop l'))) (tl (old N (sh_queue (lp_shop l))))"
  proof (cases "orders (mem (sh_queue (lp_shop l)))")
    case Nil
    have "subseq (old N (sh_queue (lp_shop l'))) (old N (sh_queue (lp_shop l)))" using on assms(3) by (simp add: queue_on_def)
    then show ?thesis using Nil by (simp add: old_def)
  next
    case (Cons o1 os)
    let ?s = "snd (process_next_order (lp_shop ?l1))"
    have busy: "\<not> sh_processing (lp_shop ?l1) \<and> orders (mem (sh_queue (lp_shop ?l1))) \<noteq> []" using c wr(2) Cons by (simp add: calm_def)
    note t = turn_busy [OF run assms(2) room_less [OF room] busy, simplified]
    have "orders (mem (sh_queue ?s)) = os"
      by (rule next_order_serves) (use c wr(1) Cons in \<open>auto simp: calm_def\<close>)
    then have eq: "old N (sh_queue ?s) = tl (old N (sh_queue (lp_shop l)))" using old_tl [OF assms(2) Cons] by (simp add: old_def)
    have "N \<le> next_id (mem (sh_queue ?s))" using t(1) assms(3) by (auto simp: queue_on_def intro: order_trans)
    with t(2) have "subseq (old N (sh_queue (lp_shop l'))) (old N (sh_queue ?s))" unfolding queue_on_def by blast
    then show ?thesis unfolding eq .
  qed
qed

lemma serving_run:
  assumes "(serving ^^ n) l l'" "queue_inv (sh_queue (lp_shop l))" "N \<le> next_id (mem (sh_queue (lp_shop l)))"
  shows "queue_inv (sh_queue (lp_shop l')) \<and> N \<le> next_id (mem (sh_queue (lp_shop l'))) \<and>
    subseq (old N (sh_queue (lp_shop l'))) (drop n (old N (sh_queue (lp_shop l))))"
  using assms(1)
proof (induction n arbitrary: l')
  case (Suc n)
  then obtain l1 where l1: "(serving ^^ n) l l1" "serving l1 l'" by auto
  note ih = Suc.IH [OF l1(1)]
  note st = serving_step [OF l1(2), of N]
  have "subseq (tl (old N (sh_queue (lp_shop l1)))) (tl (drop n (old N (sh_queue (lp_shop l)))))" using ih subseq_tl by blast
  then show ?case using ih st by (auto simp: tl_drop drop_Suc intro: subseq_order.order_trans)
qed (use assms(2,3) in simp)


section \<open>What a whole run may change\<close>

text \<open>Which messages of the menu a run contains, and a turn whose watchdog stays silent.\<close>

fun permitted :: "(cli_message \<Rightarrow> bool) \<Rightarrow> store_message \<Rightarrow> bool" where
  "permitted allowed (FromCli resolve m) = allowed m"
| "permitted allowed _ = True"

definition permitted_turn :: "(cli_message \<Rightarrow> bool) \<Rightarrow> turn_input \<Rightarrow> bool" where
  "permitted_turn allowed i \<longleftrightarrow> expired i = None \<and> list_all (permitted allowed) (waiting_messages i) \<and>
     (case next_message i of Arrived m \<Rightarrow> permitted allowed m | _ \<Rightarrow> True)"

text \<open>A relation that commands, orders, saves and the allowed messages of the menu respect.\<close>

locale loop_relation = slot_relation + menu_relation +
  fixes allowed :: "cli_message \<Rightarrow> bool"
  assumes R_grant: "allowed (SetOperator name flag) \<Longrightarrow> keeps R (set_operator resolve name flag)"
    and R_reload: "R w (w\<lparr>w_store := reload_config new (w_store w)\<rparr>)"
    and R_all_users: "R w (w\<lparr>w_store := (w_store w)\<lparr>dirty_users := dirty_users (w_store w) \<union> us\<rparr>\<rparr>)"
    and R_clean: "save_now w = (True, w1) \<Longrightarrow> read_clock w1 = (t, w2) \<Longrightarrow> R w (mark_clean w2)"
begin

lemma R_clock: "read_clock w = (t, w') \<Longrightarrow> R w w'"
  by (auto simp: read_clock_def split: prod.splits intro: R_now)

lemma R_save: "save_now w = (b, w') \<Longrightarrow> R w w'"
  using R_stored [of w] by (auto simp: save_now_def save_ignored_def Let_def split: prod.splits)

lemma R_flush: "R (lp_world l) (lp_world (flush l))"
proof -
  obtain b w1 where s: "save_now (lp_world l) = (b, w1)" by force
  obtain t w2 where c: "read_clock w1 = (t, w2)" by force
  have "R (lp_world l) (if b then mark_clean w2 else w2)"
    using R_clean [of "lp_world l" w1 t w2] s c R_trans [OF R_save [OF s] R_clock [OF c]] by auto
  then show ?thesis using s c by (simp add: flush_def set_world_def)
qed

lemma R_autosave: "R (lp_world l) (lp_world (autosave l))"
proof -
  obtain t w1 where c: "read_clock (lp_world l) = (t, w1)" by force
  show ?thesis using R_clock [OF c] R_trans [OF R_clock [OF c]] R_flush [of "set_world w1 l"] R_refl c
    by (simp add: autosave_def set_world_def)
qed

lemma R_debounced: "R (lp_world l) (lp_world (debounced_save l))"
proof -
  obtain t w1 where c: "read_clock (lp_world l) = (t, w1)" by force
  obtain b w2 where s: "save_now w1 = (b, w2)" by force
  obtain t2 w3 where c2: "read_clock w2 = (t2, w3)" by force
  note 1 = R_clock [OF c]
  have "b \<Longrightarrow> R (lp_world l) (mark_clean w3)" using R_trans [OF 1 R_clean] s c2 by auto
  then show ?thesis using 1 R_trans [OF 1 R_save [OF s]] R_refl c s c2
    by (cases b) (simp_all add: debounced_save_def set_world_def)
qed

lemma R_sweep: "R (lp_world l) (lp_world (sweep l))"
proof -
  obtain t w1 where c: "read_clock (lp_world l) = (t, w1)" by force
  obtain t1 w2 where c1: "read_clock w1 = (t1, w2)" by force
  obtain t2 w3 where c2: "read_clock w2 = (t2, w3)" by force
  show ?thesis using R_clock [OF c] R_trans [OF R_trans [OF R_clock [OF c] R_clock [OF c1]] R_clock [OF c2]] c c1 c2
    by (simp add: sweep_def set_world_def Let_def)
qed

lemma R_close_loop: "R (lp_world l) (lp_world (close_loop l))"
proof -
  let ?l = "set_store ((lp_store l)\<lparr>dirty_users := dirty_users (lp_store l) \<union> set (map fst (users (lp_store l)))\<rparr>) l"
  obtain b w1 where s: "save_now (lp_world ?l) = (b, w1)" by force
  have "R (lp_world l) (lp_world ?l)" using R_all_users by (simp add: set_store_def set_world_def)
  then show ?thesis using R_trans R_save [OF s] s by (simp add: close_loop_def set_world_def Let_def)
qed

lemma R_dispatch_message:
  assumes "dispatch_message m l = (r, l')" "permitted allowed m"
  shows "R (lp_world l) (lp_world l')"
proof (cases m)
  case (FromBot env player typed)
  then have "lp_shop l' = snd (handle_player_command env player typed (lp_shop l))"
    using assms(1) by (auto split: prod.splits res.splits)
  then show ?thesis using command.P_command [of env player "projr (lookup env player)" "lp_shop l" typed] by simp
next
  case (FromCli resolve c)
  then have "lp_shop l' = snd (handle_cli_message resolve c (lp_shop l))"
    using assms(1) by (auto split: prod.splits res.splits)
  then show ?thesis using R_cli [of c resolve "lp_shop l"] R_grant assms(2) FromCli by auto
next
  case (ReloadConfig new)
  then show ?thesis using assms(1) R_reload by (auto simp: Let_def set_store_def set_world_def)
qed

lemma R_drain: "drain ms l = (r, l') \<Longrightarrow> list_all (permitted allowed) ms \<Longrightarrow> R (lp_world l) (lp_world l')"
proof (induction ms arbitrary: l)
  case (Cons m ms)
  obtain r1 l1 where d: "dispatch_message m l = (r1, l1)" by force
  have 1: "R (lp_world l) (lp_world l1)" using R_dispatch_message [OF d] Cons.prems by simp
  show ?case using Cons 1 d R_trans [OF 1] by (cases r1) auto
qed (simp add: R_refl)

lemma R_finish: "R (lp_world l) (lp_world (snd (finish_turn (r, l))))"
  by (simp add: finish_turn_def R_refl R_close_loop)

lemma R_turn:
  assumes "turn i l = (r, l')" "permitted_turn allowed i"
  shows "R (lp_world l) (lp_world l')"
proof -
  let ?l1 = "autosave (sweep l)"
  have 1: "R (lp_world l) (lp_world ?l1)" by (rule R_trans [OF R_sweep R_autosave])
  show ?thesis
  proof (cases "\<not> sh_processing (lp_shop ?l1) \<and> orders (mem (sh_queue (lp_shop ?l1))) \<noteq> []")
    case True
    obtain x s where p: "process_next_order (lp_shop ?l1) = (x, s)" by force
    have 2: "R (lp_world l) (sh_world s)" using R_trans [OF 1 R_next_order [OF p]] .
    let ?l2 = "?l1\<lparr>lp_shop := s\<rparr>"
    let ?l3 = "if dirty (lp_store ?l2) then flush ?l2 else ?l2"
    have 3: "R (lp_world l) (lp_world ?l3)" using 2 R_trans [OF 2] R_flush [of ?l2] by simp
    obtain r2 l4 where d: "drain (waiting_messages i) ?l3 = (r2, l4)" by force
    have "R (lp_world l) (lp_world l4)" using R_trans [OF 3 R_drain [OF d]] assms(2) by (simp add: permitted_turn_def)
    then have 4: "R (lp_world l) (lp_world (snd (finish_turn (r2, l4))))" using R_trans R_finish by blast
    have w: "work (expired i) ?l1 = (if x = Some Panicked then Crash else GoOn, ?l2)"
      using assms(2) p by (auto simp: work_def permitted_turn_def split: option.split res.split)
    then have "l' = (if x = Some Panicked then ?l2 else snd (finish_turn (r2, l4)))"
      using assms(1) True d by (auto simp: turn_def Let_def split: if_splits)
    then show ?thesis using 2 4 by auto
  next
    case False
    show ?thesis
    proof (cases "next_message i")
      case (Arrived m)
      obtain r2 l2 where d: "dispatch_message m ?l1 = (r2, l2)" by force
      have 2: "R (lp_world l) (lp_world l2)"
        using R_trans [OF 1 R_dispatch_message [OF d]] assms(2) Arrived by (simp add: permitted_turn_def)
      have "l' = (if r2 = GoOn then debounced_save l2 else snd (finish_turn (r2, l2)))"
        using assms(1) False Arrived d by (cases r2) (auto simp: turn_def Let_def)
      then show ?thesis using R_trans [OF 2] R_debounced R_finish by auto
    qed (use assms(1) False 1 R_trans [OF 1 R_close_loop] in \<open>auto simp: turn_def Let_def\<close>)
  qed
qed

lemma R_run: "run_loop is l = (r, l') \<Longrightarrow> list_all (permitted_turn allowed) is \<Longrightarrow> R (lp_world l) (lp_world l')"
proof (induction "is" arbitrary: l)
  case (Cons i "is")
  obtain r1 l1 where t: "turn i l = (r1, l1)" by force
  have 1: "R (lp_world l) (lp_world l1)" using R_turn [OF t] Cons.prems by simp
  show ?case using Cons 1 t R_trans [OF 1] by (cases r1) auto
qed (simp add: R_refl)

end

lemma reload_same: "pairs (reload_config new s) = pairs s" "users (reload_config new s) = users s"
  "dirty (reload_config new s) = dirty s" "dirty_users (reload_config new s) = dirty_users s"
  by (simp_all add: reload_config_def Let_def)

lemma save_now_store: "save_now w = (b, w') \<Longrightarrow> w_store w' = w_store (snd (save_ignored w))"
  by (auto simp: save_now_def save_ignored_def Let_def split: prod.splits)

lemma clean_same:
  assumes "save_now w = (b, w1)" "read_clock w1 = (t, w2)"
  shows "pairs (w_store (mark_clean w2)) = pairs (w_store w)" "users (w_store (mark_clean w2)) = users (w_store w)"
  using save_now_store [OF assms(1)] read_clock_same [OF assms(2)] by (simp_all add: mark_clean_def save_ignored_same)

subsection \<open>Operator flags\<close>

definition no_grant :: "cli_message \<Rightarrow> bool" where
  "no_grant m \<longleftrightarrow> (\<forall>name flag. m \<noteq> SetOperator name flag)"

lemma no_grant_SetOperator [simp]: "\<not> no_grant (SetOperator name flag)"
  by (simp add: no_grant_def)

interpretation flags_run: loop_relation operators_kept no_grant
  by (unfold_locales; (simp; fail)?; unfold operators_kept_def; (simp; fail | rule is_operator_users; simp add: reload_same clean_same; fail))


subsection \<open>Pending changes\<close>

text \<open>No save of the script succeeds.\<close>

definition saves_fail :: "world \<Rightarrow> bool" where
  "saves_fail w \<longleftrightarrow> (\<forall>ok \<in> set (save_scripts w). \<not> (pairs_ok ok \<and> users_ok ok \<and> orders_ok ok \<and> trades_ok ok \<and> storage_ok ok))"

definition pending :: "world \<Rightarrow> world \<Rightarrow> bool" where
  "pending w w' \<longleftrightarrow> (saves_fail w \<longrightarrow> saves_fail w' \<and> (dirty (w_store w) \<longrightarrow> dirty (w_store w')) \<and>
     dirty_users (w_store w) \<subseteq> dirty_users (w_store w'))"

lemma pending_simple:
  "save_scripts w' = save_scripts w \<Longrightarrow> dirty (w_store w') = dirty (w_store w) \<or> dirty (w_store w') \<Longrightarrow>
    dirty_users (w_store w) \<subseteq> dirty_users (w_store w') \<Longrightarrow> pending w w'"
  by (auto simp: pending_def saves_fail_def)

lemma log_scripts [simp]: "save_scripts (log_sent r i w) = save_scripts w"
  by (simp add: log_sent_def split: reply.split)

lemma scripts_asked:
  "save_scripts (snd (ask_whisper i w)) = save_scripts w" "save_scripts (snd (ask_chest i w)) = save_scripts w"
  "save_scripts (snd (ask_trade i w)) = save_scripts w" "save_scripts (snd (next_write w)) = save_scripts w"
  "save_scripts (snd (now w)) = save_scripts w" "save_scripts (snd (ask_validate i w)) = save_scripts w"
  "save_scripts (snd (ask_control i w)) = save_scripts w"
  by (simp_all add: ask_whisper_def ask_chest_def ask_trade_def ask_validate_def ask_control_def next_write_def now_def Let_def
      split: prod.split)

lemma asks_scripts:
  "ask_whisper i w = (r1, w1) \<Longrightarrow> save_scripts w1 = save_scripts w"
  "ask_chest i w = (r2, w2) \<Longrightarrow> save_scripts w2 = save_scripts w"
  "ask_trade i w = (r3, w3) \<Longrightarrow> save_scripts w3 = save_scripts w"
  "next_write w = (b, w4) \<Longrightarrow> save_scripts w4 = save_scripts w"
  "now w = (t, w5) \<Longrightarrow> save_scripts w5 = save_scripts w"
  "ask_validate i w = (r6, w6) \<Longrightarrow> save_scripts w6 = save_scripts w"
  "ask_control i w = (r7, w7) \<Longrightarrow> save_scripts w7 = save_scripts w"
  using scripts_asked(1) [of i w] scripts_asked(2) [of i w] scripts_asked(3) [of i w] scripts_asked(4) [of w]
    scripts_asked(5) [of w] scripts_asked(6) [of i w] scripts_asked(7) [of i w] by simp_all

lemma ensure_pending: "dirty s \<longrightarrow> dirty (ensure_user_exists player u s)" "dirty_users s \<subseteq> dirty_users (ensure_user_exists player u s)"
  by (auto simp: ensure_user_exists_def split: option.split)

lemma audit_pending: "dirty (snd (audit_state b s)) = dirty s" "dirty_users (snd (audit_state b s)) = dirty_users s"
  by (simp_all add: audit_state_def split: prod.split)

lemma trim_pending: "dirty (trim_in_memory_to_caps s) = dirty s" "dirty_users (trim_in_memory_to_caps s) = dirty_users s"
  by (simp_all add: trim_in_memory_to_caps_def Let_def)

lemma save_pending: "dirty (fst (snd (save ok s))) = dirty s \<and> dirty_users (fst (snd (save ok s))) = dirty_users s \<and>
    fst (save ok s) = (pairs_ok ok \<and> users_ok ok \<and> orders_ok ok \<and> trades_ok ok \<and> storage_ok ok)"
  by (simp add: save_def trim_pending Let_def)

lemma save_now_pending:
  assumes "save_now w = (b, w1)" "saves_fail w"
  shows "\<not> b" "pending w w1"
proof -
  let ?d = "\<lparr>pairs_ok = False, users_ok = False, orders_ok = False, trades_ok = False, storage_ok = False\<rparr>"
  obtain ok oks where n: "next_of ?d (save_scripts w) = (ok, oks)" by force
  obtain c s ts where s: "save ok (w_store w) = (c, s, ts)" by (metis prod_cases3)
  have w1: "b = c" "w1 = w\<lparr>save_scripts := oks, w_store := s\<rparr>" using assms(1) n s by (auto simp: save_now_def)
  have "(ok = ?d \<or> ok \<in> set (save_scripts w)) \<and> set oks \<subseteq> set (save_scripts w)"
    using n by (cases "save_scripts w") (auto simp: next_of_def)
  then show "\<not> b" "pending w w1" using save_pending [of ok "w_store w"] s w1 assms(2)
    by (auto simp: pending_def saves_fail_def)
qed

lemma pending_stored: "pending w (snd (save_ignored w))"
proof -
  obtain b w1 where s: "save_now w = (b, w1)" by force
  then have "snd (save_ignored w) = w1" by (auto simp: save_now_def save_ignored_def Let_def split: prod.splits)
  then show ?thesis using save_now_pending(2) [OF s] by (auto simp: pending_def)
qed

lemma pending_clean: "save_now w = (True, w1) \<Longrightarrow> pending w w2"
  using save_now_pending(1) [of w True w1] by (auto simp: pending_def)

lemma pending_trans: "pending w w' \<Longrightarrow> pending w' w'' \<Longrightarrow> pending w w''"
  by (auto simp: pending_def)

interpretation pending_acts: act_relation pending
  by unfold_locales (simp add: pending_def, erule (1) pending_trans, rule pending_simple, simp_all add: asks_scripts)

lemma pending_grant: "keeps pending (set_operator resolve name flag)"
proof -
  have e: "keeps pending (updating (ensure_user_exists n u))" for n u
    by (rule pending_acts.R_updating, rule pending_simple) (use ensure_pending in auto)
  have d: "keeps pending (updating (\<lambda>s. s\<lparr>dirty := True, dirty_users := insert u (dirty_users s)\<rparr>))" for u
    by (rule pending_acts.R_updating, rule pending_simple) auto
  have x: "keeps pending (writing (expect_user_mut u c f))" for u c f
    unfolding keeps_def by (auto simp: writing_def expect_user_mut_def pending_def saves_fail_def split: option.split)
  have "keeps pending (set_operator_flag u flag)" for u
    unfolding set_operator_flag_def by (intro pending_acts.R_andthen pending_acts.R_reading pending_acts.R_if pending_acts.R_ret d x)
  then show ?thesis unfolding set_operator_def Let_def
    by (intro pending_acts.R_if pending_acts.R_andthen pending_acts.R_reading pending_acts.R_option pending_acts.R_ret
        pending_acts.R_sum pending_acts.R_fail e)
qed

lemma sync_pending: "dirty s \<longrightarrow> dirty (snd (apply_chest_sync r s))" "dirty_users (snd (apply_chest_sync r s)) = dirty_users s"
  by (auto simp: apply_chest_sync_def Let_def split: option.split sum.split)

lemma advance_pending: "dirty s \<longrightarrow> dirty (advance_trade b t s)" "dirty_users (advance_trade b t s) = dirty_users s"
  by (auto simp: advance_trade_def Let_def split: option.split sum.split prod.split)

interpretation pending_run: loop_relation pending "\<lambda>_. True"
  by (unfold_locales;
      (rule pending_grant | rule pending_stored | erule pending_clean | erule (1) pending_trans
       | rule pending_simple; use ensure_pending sync_pending advance_pending in \<open>auto simp: asks_scripts audit_pending reload_same\<close>; fail))


subsection \<open>The registry, the queue and the limiter\<close>

lemma registry_grant: "keeps registry_kept (set_operator resolve name flag)"
proof -
  have u: "keeps registry_kept (updating f)" if "\<And>s. pairs (f s) = pairs s" for f
    by (rule registry.R_updating) (simp add: registry_kept_def registered_def that)
  have e: "keeps registry_kept (updating (ensure_user_exists n u))" for n u
    by (rule u) (auto simp: ensure_user_exists_def split: option.split)
  have x: "keeps registry_kept (writing (expect_user_mut u c f))" for u c f
    unfolding keeps_def
    by (auto simp: writing_def expect_user_mut_def registry_kept_def registered_def split: option.split)
  have "keeps registry_kept (set_operator_flag u flag)" for u
    unfolding set_operator_flag_def by (intro registry.R_steps x u) simp_all
  then show ?thesis unfolding set_operator_def Let_def by (intro registry.R_steps e)
qed

interpretation registry_run: loop_relation registry_kept "\<lambda>_. True"
proof unfold_locales
  show "keeps registry_kept (set_operator resolve name flag)" for resolve name flag by (rule registry_grant)
  show "registry_kept w (w\<lparr>w_store := reload_config new (w_store w)\<rparr>)" for w new
    by (simp add: registry_kept_def registered_def reload_same)
  show "registry_kept w (w\<lparr>w_store := (w_store w)\<lparr>dirty_users := dirty_users (w_store w) \<union> us\<rparr>\<rparr>)" for w us
    by (simp add: registry_kept_def registered_def)
  show "save_now w = (True, w1) \<Longrightarrow> read_clock w1 = (t, w2) \<Longrightarrow> registry_kept w (mark_clean w2)" for w w1 t w2
    using clean_same(1) [of w True w1 t w2] by (simp add: registry_kept_def registered_def)
qed

text \<open>The limiter changes only by checks and sweeps.\<close>

definition limited :: "store_loop \<Rightarrow> store_loop \<Rightarrow> bool" where
  "limited l l' \<longleftrightarrow> (limiter_ok (sh_limiter (lp_shop l)) \<longrightarrow> limiter_ok (sh_limiter (lp_shop l')))"

lemma limited_world [simp]: "sh_limiter (lp_shop (set_world w l)) = sh_limiter (lp_shop l)"
    "sh_limiter (lp_shop (set_store s l)) = sh_limiter (lp_shop l)" "sh_limiter (lp_shop (flush l)) = sh_limiter (lp_shop l)"
    "sh_limiter (lp_shop (autosave l)) = sh_limiter (lp_shop l)" "sh_limiter (lp_shop (debounced_save l)) = sh_limiter (lp_shop l)"
    "sh_limiter (lp_shop (close_loop l)) = sh_limiter (lp_shop l)"
proof -
  show w: "sh_limiter (lp_shop (set_world w l)) = sh_limiter (lp_shop l)" for w l by (simp add: set_world_def)
  show "sh_limiter (lp_shop (set_store s l)) = sh_limiter (lp_shop l)" by (simp add: set_store_def w)
  show f: "sh_limiter (lp_shop (flush l)) = sh_limiter (lp_shop l)" for l by (simp add: flush_def w split: prod.split)
  show "sh_limiter (lp_shop (autosave l)) = sh_limiter (lp_shop l)" by (simp add: autosave_def w f split: prod.split)
  show "sh_limiter (lp_shop (debounced_save l)) = sh_limiter (lp_shop l)"
    by (simp add: debounced_save_def w split: prod.split bool.split)
  show "sh_limiter (lp_shop (close_loop l)) = sh_limiter (lp_shop l)" by (simp add: close_loop_def w set_store_def Let_def)
qed

lemma limited_sweep: "limited l (sweep l)"
  by (auto simp: sweep_def limited_def cleanup_ok Let_def split: prod.split)

lemma limited_dispatch: "dispatch_message m l = (r, l') \<Longrightarrow> limited l l'"
proof (cases m)
  case (FromBot env player typed)
  assume "dispatch_message m l = (r, l')"
  then have "lp_shop l' = snd (handle_player_command env player typed (lp_shop l))"
    using FromBot by (auto split: prod.splits res.splits)
  then show ?thesis using bounded.P_command [of env player "projr (lookup env player)" "lp_shop l" typed]
    by (simp add: limited_def)
next
  case (FromCli resolve c)
  assume "dispatch_message m l = (r, l')"
  then have "lp_shop l' = snd (handle_cli_message resolve c (lp_shop l))"
    using FromCli by (auto split: prod.splits res.splits)
  then show ?thesis by (simp add: limited_def cli_limiter)
next
  case (ReloadConfig new)
  assume "dispatch_message m l = (r, l')"
  then show ?thesis using ReloadConfig by (auto simp: limited_def Let_def)
qed

lemma limited_drain: "drain ms l = (r, l') \<Longrightarrow> limited l l'"
proof (induction ms arbitrary: l)
  case (Cons m ms)
  obtain r1 l1 where d: "dispatch_message m l = (r1, l1)" by force
  show ?case using Cons d limited_dispatch [OF d] by (cases r1) (auto simp: limited_def)
qed (simp add: limited_def)

lemma limited_turn:
  assumes "turn i l = (r, l')" "expired i = None"
  shows "limited l l'"
proof -
  let ?l1 = "autosave (sweep l)"
  have 1: "limited l ?l1" using limited_sweep by (simp add: limited_def)
  have f: "sh_limiter (lp_shop (snd (finish_turn x))) = sh_limiter (lp_shop (snd x))" for x
    by (simp add: finish_turn_def split: prod.split)
  show ?thesis
  proof (cases "\<not> sh_processing (lp_shop ?l1) \<and> orders (mem (sh_queue (lp_shop ?l1))) \<noteq> []")
    case True
    obtain x s where p: "process_next_order (lp_shop ?l1) = (x, s)" by force
    let ?l2 = "?l1\<lparr>lp_shop := s\<rparr>"
    let ?l3 = "if dirty (lp_store ?l2) then flush ?l2 else ?l2"
    have 2: "limited l ?l2" using 1 process_parts(1) [OF p] by (simp add: limited_def)
    obtain r2 l4 where d: "drain (waiting_messages i) ?l3 = (r2, l4)" by force
    have 3: "limited ?l3 l4" by (rule limited_drain [OF d])
    have w: "work (expired i) ?l1 = (if x = Some Panicked then Crash else GoOn, ?l2)"
      using assms(2) p by (auto simp: work_def split: option.split res.split)
    then have "l' = (if x = Some Panicked then ?l2 else snd (finish_turn (r2, l4)))"
      using assms(1) True d by (auto simp: turn_def Let_def split: if_splits)
    then show ?thesis using 2 3 f [of "(r2, l4)"] by (auto simp: limited_def split: if_splits)
  next
    case False
    show ?thesis
    proof (cases "next_message i")
      case (Arrived m)
      obtain r2 l2 where d: "dispatch_message m ?l1 = (r2, l2)" by force
      have "l' = (if r2 = GoOn then debounced_save l2 else snd (finish_turn (r2, l2)))"
        using assms(1) False Arrived d by (cases r2) (auto simp: turn_def Let_def)
      then show ?thesis using 1 limited_dispatch [OF d] f [of "(r2, l2)"] by (auto simp: limited_def split: if_splits)
    qed (use assms(1) False 1 in \<open>auto simp: turn_def Let_def limited_def\<close>)
  qed
qed

definition loop_ok :: "store_loop \<Rightarrow> bool" where
  "loop_ok l \<longleftrightarrow> shop_ok (lp_shop l) \<and> registered (lp_store l)"

definition messages :: "turn_input list \<Rightarrow> nat" where
  "messages is = sum_list (map (\<lambda>i. length (waiting_messages i) + 1) is)"


section \<open>Witnesses\<close>

text \<open>The sample shop with its waiting order in the loop, and a turn in which nothing arrives.\<close>

definition sample_loop :: store_loop where
  "sample_loop = \<lparr>lp_shop = sample_shop None, last_save = 0, last_cleanup = 0, min_save_interval = secs 2\<rparr>"

definition quiet_turn :: turn_input where
  "quiet_turn = \<lparr>expired = None, waiting_messages = [], next_message = Woken\<rparr>"

lemma sample_loop_facts:
  "queue_inv (sh_queue (lp_shop sample_loop))" "expired quiet_turn = None" "waiting_messages quiet_turn = []"
  "write_oks (lp_world sample_loop) = [True, True, True]" "\<not> sh_processing (lp_shop sample_loop)"
  "orders (mem (sh_queue (lp_shop sample_loop))) = [sample_refused]" "next_id (mem (sh_queue (lp_shop sample_loop))) = 2"
  "save_scripts (lp_world sample_loop) = []"
  using sample_shop_facts(1)
  by (simp_all add: sample_loop_def quiet_turn_def sample_shop_def sample_waiting_def sample_world_def)

lemma sample_calm: "lp_shop (autosave (sweep sample_loop)) = sample_shop None"
proof -
  have c: "read_clock (lp_world sample_loop) = (0, lp_world sample_loop)"
    by (simp add: read_clock_def now_def next_of_def sample_loop_def sample_shop_def sample_world_def)
  then have "sweep sample_loop = sample_loop"
    by (simp add: sweep_def secs_def CLEANUP_INTERVAL_SECS_def set_world_def)
  moreover have "\<not> dirty (lp_store sample_loop)" by (simp add: sample_loop_def sample_shop_def sample_store_def)
  ultimately show ?thesis by (simp add: autosave_def) (simp add: sample_loop_def)
qed

lemma sample_turn: "fst (turn quiet_turn sample_loop) = GoOn"
proof -
  obtain r s where p: "process_next_order (sample_shop None) = (Some r, s)" by (rule sample_shop_runs)
  then have "r \<noteq> Panicked" using refused_order_state [OF p sample_shop_facts(1,2,4,3)] by simp
  then have "work None (autosave (sweep sample_loop)) = (GoOn, (autosave (sweep sample_loop))\<lparr>lp_shop := s\<rparr>)"
    using p by (simp add: work_def sample_calm split: res.split)
  moreover have "\<not> sh_processing (sample_shop None) \<and> orders (mem (sh_queue (sample_shop None))) \<noteq> []"
    by (simp add: sample_shop_def sample_waiting_def)
  ultimately show ?thesis by (simp add: turn_def sample_calm sample_loop_facts(2,3) finish_turn_def Let_def)
qed

lemma sample_loop_run: "fst (run_loop [quiet_turn] sample_loop) = GoOn"
  using sample_turn by (cases "turn quiet_turn sample_loop") simp





end
