(* ===== verification/Idle_Loop.thy ===== *)
theory Idle_Loop
  imports Main_Loop
begin

text \<open>
  The idle loop: a turn in which nothing arrives sleeps for \<open>wake_after\<close>, the time that is left until the next save or
  the next sweep. The time of the last save is only moved by a save, and a clean store is not saved.
\<close>

text \<open>A clean store without a waiting order, over one idle turn.\<close>

definition idle :: "store_loop \<Rightarrow> bool" where
  "idle l \<longleftrightarrow> \<not> dirty (lp_store l) \<and> orders (mem (sh_queue (lp_shop l))) = []"

lemma sweep_idle:
  "idle l \<Longrightarrow> idle (sweep l) \<and> last_save (sweep l) = last_save l \<and> min_save_interval (sweep l) = min_save_interval l \<and>
    lp_store (sweep l) = lp_store l"
proof -
  have c: "w_store (snd (read_clock w)) = w_store w" for w
    by (cases "clock w") (auto simp: read_clock_def now_def next_of_def)
  obtain t w1 where 1: "read_clock (lp_world l) = (t, w1)" by force
  obtain t1 w2 where 2: "read_clock w1 = (t1, w2)" by force
  obtain t2 w3 where 3: "read_clock w2 = (t2, w3)" by force
  assume "idle l"
  then show ?thesis using c [of "lp_world l"] c [of w1] c [of w2] 1 2 3
    by (simp add: sweep_def idle_def set_world_def Let_def)
qed

lemma woken_idle:
  assumes "idle l" "next_message i = Woken"
  shows "\<exists>l1. turn i l = (GoOn, l1) \<and> idle l1 \<and> last_save l1 = last_save l \<and> min_save_interval l1 = min_save_interval l \<and>
    lp_store l1 = lp_store l"
proof -
  have "autosave (sweep l) = sweep l" using sweep_idle [OF assms(1)] assms(1) by (simp add: autosave_def idle_def)
  then show ?thesis using sweep_idle [OF assms(1)] assms by (simp add: turn_def idle_def)
qed

text \<open>C31: The idle loop does not sleep: once the autosave interval is over since the last save, a clean store without
  orders is woken at once (the sleep is zero) and every further idle turn changes nothing that would lengthen the
  next sleep, so the loop spins until a message arrives.\<close>

theorem idle_loop_spins:
  assumes "idle l" "list_all (\<lambda>i. next_message i = Woken) is" "last_save l + min_save_interval l \<le> t1"
  shows "\<exists>l'. run_loop is l = (GoOn, l') \<and> idle l' \<and> lp_store l' = lp_store l \<and> wake_after t1 t2 l' = 0"
  using assms
proof (induction "is" arbitrary: l)
  case (Cons i "is")
  obtain l1 where "turn i l = (GoOn, l1)" "idle l1" "last_save l1 = last_save l" "min_save_interval l1 = min_save_interval l"
      "lp_store l1 = lp_store l"
    using woken_idle [OF Cons.prems(1), of i] Cons.prems(2) by auto
  then show ?case using Cons.IH [of l1] Cons.prems(2,3) by simp
qed (auto simp: wake_after_def)

text \<open>A fresh loop without orders whose interval of two seconds is over.\<close>

definition idle_loop :: store_loop where
  "idle_loop = \<lparr>lp_shop = \<lparr>sh_world = sample_world, sh_queue = \<lparr>mem = queue_new, disk = Absent\<rparr>,
     sh_limiter = rate_limiter_new, sh_processing = False\<rparr>, last_save = 0, last_cleanup = 0, min_save_interval = secs 2\<rparr>"

theorem idle_loop_spins_witness:
  "\<exists>l'. run_loop [\<lparr>expired = None, waiting_messages = [], next_message = Woken\<rparr>] idle_loop = (GoOn, l') \<and>
    wake_after (secs 3) (secs 3) l' = 0"
proof -
  have "idle idle_loop" by (simp add: idle_def idle_loop_def sample_world_def sample_store_def queue_new_def)
  from idle_loop_spins [OF this, of "[\<lparr>expired = None, waiting_messages = [], next_message = Woken\<rparr>]" "secs 3" "secs 3"]
  show ?thesis by (auto simp: idle_loop_def secs_def)
qed

end
