(* ===== verification/Name_Cache.thy ===== *)
theory Name_Cache
  imports Rate_Limit Commands
begin

text \<open>
  The resolution of player names (\<^verbatim>\<open>src/mojang.rs\<close>): the cache with its lifetimes and its cap, and the protocol that
  lets concurrent calls for one name share a request. Calls interleave at every lock and every await: a call
  is a phase, and an event moves one call by one critical section. The request itself is answered by the environment.
  A \<open>Notify\<close> is a number; \<open>notify_waiters\<close> wakes the futures that exist at that moment.
\<close>

section \<open>The cache\<close>

definition from_secs :: "nat \<Rightarrow> duration" where
  "from_secs n = n * 1000000000"

definition UUID_CACHE_TTL_SECS :: nat where
  "UUID_CACHE_TTL_SECS = 300"

definition UUID_NEG_CACHE_TTL_SECS :: nat where
  "UUID_NEG_CACHE_TTL_SECS = 30"

definition MAX_UUID_CACHE_ENTRIES :: nat where
  "MAX_UUID_CACHE_ENTRIES = 4096"

definition MAX_IN_FLIGHT_ENTRIES :: nat where
  "MAX_IN_FLIGHT_ENTRIES = 4096"

definition IN_FLIGHT_STALE_AFTER_SECS :: nat where
  "IN_FLIGHT_STALE_AFTER_SECS = 30"

abbreviation ttl :: duration where
  "ttl \<equiv> from_secs UUID_CACHE_TTL_SECS"

abbreviation neg_ttl :: duration where
  "neg_ttl \<equiv> from_secs UUID_NEG_CACHE_TTL_SECS"

text \<open>The second instant of an entry is its last access.\<close>

datatype cached_entry =
    FoundEntry string instant instant
  | NotFoundEntry instant instant
  | RateLimitedEntry instant instant

type_synonym uuid_cache = "(string, cached_entry) hmap"

fun last_access :: "cached_entry \<Rightarrow> instant" where
  "last_access (FoundEntry u fetched_at a) = a"
| "last_access (NotFoundEntry stored_at a) = a"
| "last_access (RateLimitedEntry until a) = a"

fun touch :: "instant \<Rightarrow> cached_entry \<Rightarrow> cached_entry" where
  "touch t (FoundEntry u fetched_at _) = FoundEntry u fetched_at t"
| "touch t (NotFoundEntry stored_at _) = NotFoundEntry stored_at t"
| "touch t (RateLimitedEntry until _) = RateLimitedEntry until t"

fun is_fresh :: "instant \<Rightarrow> duration \<Rightarrow> duration \<Rightarrow> cached_entry \<Rightarrow> bool" where
  "is_fresh t pos neg (FoundEntry u fetched_at _) \<longleftrightarrow> duration_since t fetched_at < pos"
| "is_fresh t pos neg (NotFoundEntry stored_at _) \<longleftrightarrow> duration_since t stored_at < neg"
| "is_fresh t pos neg (RateLimitedEntry until _) \<longleftrightarrow> t < until"

fun is_positive :: "cached_entry \<Rightarrow> bool" where
  "is_positive (FoundEntry _ _ _) = True"
| "is_positive _ = False"

type_synonym outcome = "mojang_error + string"

fun cache_answer :: "instant \<Rightarrow> string \<Rightarrow> cached_entry \<Rightarrow> outcome" where
  "cache_answer t name (FoundEntry u _ _) = Inr u"
| "cache_answer t name (NotFoundEntry _ _) = Inl (NotFound name)"
| "cache_answer t name (RateLimitedEntry until _) = Inl (RateLimited (Some (duration_since until t)))"

definition check_cache :: "string \<Rightarrow> string \<Rightarrow> duration \<Rightarrow> duration \<Rightarrow> instant \<Rightarrow> uuid_cache \<Rightarrow> outcome option \<times> uuid_cache" where
  "check_cache key name pos neg t c =
     (case hget c key of
        None \<Rightarrow> (None, c)
      | Some e \<Rightarrow>
          if \<not> is_fresh t pos neg e then (None, c)
          else (Some (cache_answer t name e), if is_positive e then hput c key (touch t e) else c))"

text \<open>\<open>min_by_key\<close> takes the first of the least elements.\<close>

fun min_by :: "('a \<Rightarrow> 'a \<Rightarrow> bool) \<Rightarrow> 'a list \<Rightarrow> 'a option" where
  "min_by lt [] = None"
| "min_by lt (x # xs) = (case min_by lt xs of None \<Rightarrow> Some x | Some y \<Rightarrow> Some (if lt y x then y else x))"

definition evicted_before :: "cached_entry \<Rightarrow> cached_entry \<Rightarrow> bool" where
  "evicted_before a b \<longleftrightarrow> (\<not> is_positive a \<and> is_positive b) \<or> (is_positive a = is_positive b \<and> last_access a < last_access b)"

definition evict_cache_if_needed :: "instant \<Rightarrow> uuid_cache \<Rightarrow> uuid_cache" where
  "evict_cache_if_needed t c =
     (if length c < MAX_UUID_CACHE_ENTRIES then c
      else let c1 = filter (\<lambda>(_, e). is_fresh t ttl neg_ttl e) c in
        if length c1 < MAX_UUID_CACHE_ENTRIES then c1
        else case min_by (\<lambda>(_, a) (_, b). evicted_before a b) c1 of
          None \<Rightarrow> c1
        | Some (k, _) \<Rightarrow> AList.delete k c1)"

text \<open>The clock is read once before the lock and once more when the cache is at its cap.\<close>

definition insert_found :: "string \<Rightarrow> string \<Rightarrow> instant \<Rightarrow> instant \<Rightarrow> uuid_cache \<Rightarrow> uuid_cache" where
  "insert_found key u t t' c = hput (evict_cache_if_needed t' c) key (FoundEntry u t t)"

definition insert_not_found :: "string \<Rightarrow> instant \<Rightarrow> instant \<Rightarrow> uuid_cache \<Rightarrow> uuid_cache" where
  "insert_not_found key t t' c = hput (evict_cache_if_needed t' c) key (NotFoundEntry t t)"

definition insert_rate_limited :: "string \<Rightarrow> duration option \<Rightarrow> instant \<Rightarrow> instant \<Rightarrow> uuid_cache \<Rightarrow> uuid_cache" where
  "insert_rate_limited key retry_after t t' c =
     (let cooldown = (case retry_after of Some d \<Rightarrow> d | None \<Rightarrow> from_secs UUID_NEG_CACHE_TTL_SECS)
      in hput (evict_cache_if_needed t' c) key (RateLimitedEntry (t + cooldown) t))"

definition lookup_cached_uuid :: "string \<Rightarrow> instant \<Rightarrow> uuid_cache \<Rightarrow> string option \<times> uuid_cache" where
  "lookup_cached_uuid name t c =
     (let key = map to_ascii_lowercase name in
      case hget c key of
        Some (FoundEntry u fetched_at a) \<Rightarrow>
          if duration_since t fetched_at < ttl then (Some u, hput c key (FoundEntry u fetched_at t)) else (None, c)
      | _ \<Rightarrow> (None, c))"

definition sweep_cache :: "instant \<Rightarrow> uuid_cache \<Rightarrow> uuid_cache" where
  "sweep_cache t c = filter (\<lambda>(_, e). is_fresh t ttl neg_ttl e) c"

section \<open>Requests in flight\<close>

record flight =
  notify :: nat
  started_at :: instant

type_synonym in_flight = "(string, flight) hmap"

text \<open>Removing stale entries and, at the cap, the oldest one; the first component is what they notified.\<close>

definition cleanup_in_flight :: "instant \<Rightarrow> in_flight \<Rightarrow> nat list \<times> in_flight" where
  "cleanup_in_flight t fs =
     (let is_stale = (\<lambda>(_ :: string, f). from_secs IN_FLIGHT_STALE_AFTER_SECS \<le> duration_since t (started_at f))
      in (map (\<lambda>(_, f). notify f) (filter is_stale fs), filter (\<lambda>x. \<not> is_stale x) fs))"

definition evict_in_flight_if_needed :: "instant \<Rightarrow> in_flight \<Rightarrow> nat list \<times> in_flight" where
  "evict_in_flight_if_needed t fs =
     (if length fs < MAX_IN_FLIGHT_ENTRIES then ([], fs)
      else case cleanup_in_flight t fs of (woken, fs1) \<Rightarrow>
        if length fs1 < MAX_IN_FLIGHT_ENTRIES then (woken, fs1)
        else case min_by (\<lambda>(_, a) (_, b). started_at a < started_at b) fs1 of
          None \<Rightarrow> (woken, fs1)
        | Some (k, f) \<Rightarrow> (woken @ [notify f], AList.delete k fs1))"

section \<open>Calls\<close>

text \<open>
  The phases of \<open>resolve_user_uuid_inner\<close>. A flag marks the second entry after a failed leader; the flag of a
  registered or parked follower tells that it was notified. A cancelled leader drops its guard, and a cancelled call
  is gone.
\<close>

datatype call_phase =
    NoCall
  | Calling string bool
  | Choosing string bool
  | Following string bool nat
  | Registered string bool nat bool
  | Parked string bool nat bool
  | Awake string bool
  | Leading string
  | Storing string outcome
  | Releasing string outcome
  | Dropping string
  | Notifying nat string "outcome option"
  | Direct string
  | Returned string outcome
  | Gone

text \<open>\<open>requests\<close> and \<open>answers\<close> record what was asked of the service and what it answered.\<close>

record resolver =
  cache :: uuid_cache
  flights :: in_flight
  next_notify :: nat
  calls :: "nat \<Rightarrow> call_phase"
  requests :: "string list"
  answers :: "(string \<times> outcome) list"

datatype event =
    Begin nat string
  | Step nat instant instant
  | Reply nat outcome
  | Abort nat
  | SweepCache instant
  | SweepFlights instant
  | Lookup string instant

definition lower :: "string \<Rightarrow> string" where
  "lower = map to_ascii_lowercase"

fun wake_one :: "nat list \<Rightarrow> call_phase \<Rightarrow> call_phase" where
  "wake_one ns (Registered u re n w) = Registered u re n (w \<or> n \<in> set ns)"
| "wake_one ns (Parked u re n w) = Parked u re n (w \<or> n \<in> set ns)"
| "wake_one ns p = p"

definition notify_waiters :: "nat list \<Rightarrow> resolver \<Rightarrow> resolver" where
  "notify_waiters ns s = s\<lparr>calls := (\<lambda>i. wake_one ns (calls s i))\<rparr>"

definition enter :: "nat \<Rightarrow> call_phase \<Rightarrow> resolver \<Rightarrow> resolver" where
  "enter i p s = s\<lparr>calls := (calls s)(i := p)\<rparr>"

text \<open>A check of the cache, with what follows on a miss.\<close>

definition consult :: "nat \<Rightarrow> string \<Rightarrow> instant \<Rightarrow> call_phase \<Rightarrow> resolver \<Rightarrow> resolver" where
  "consult i u t missed s =
     (case check_cache (lower u) u ttl neg_ttl t (cache s) of
        (Some r, c) \<Rightarrow> enter i (Returned u r) (s\<lparr>cache := c\<rparr>)
      | (None, c) \<Rightarrow> enter i missed (s\<lparr>cache := c\<rparr>))"

definition request :: "nat \<Rightarrow> string \<Rightarrow> call_phase \<Rightarrow> resolver \<Rightarrow> resolver" where
  "request i u p s = enter i p (s\<lparr>requests := requests s @ [u]\<rparr>)"

text \<open>The choice of a role under the lock of the flights.\<close>

definition take_role :: "nat \<Rightarrow> string \<Rightarrow> bool \<Rightarrow> instant \<Rightarrow> instant \<Rightarrow> resolver \<Rightarrow> resolver" where
  "take_role i u re t t' s =
     (let (woken, fs) = evict_in_flight_if_needed t (flights s);
          s1 = notify_waiters woken (s\<lparr>flights := fs\<rparr>)
      in case hget fs (lower u) of
          Some f \<Rightarrow> enter i (Following u re (notify f)) s1
        | None \<Rightarrow>
            let f = \<lparr>notify = next_notify s, started_at = t'\<rparr>
            in request i u (Leading u) (s1\<lparr>flights := hput fs (lower u) f, next_notify := Suc (next_notify s)\<rparr>))"

fun store_outcome :: "string \<Rightarrow> outcome \<Rightarrow> instant \<Rightarrow> instant \<Rightarrow> uuid_cache \<Rightarrow> uuid_cache" where
  "store_outcome key (Inr u) t t' c = insert_found key u t t' c"
| "store_outcome key (Inl (NotFound _)) t t' c = insert_not_found key t t' c"
| "store_outcome key (Inl (RateLimited d)) t t' c = insert_rate_limited key d t t' c"
| "store_outcome key (Inl _) t t' c = c"

definition leave :: "string \<Rightarrow> outcome option \<Rightarrow> call_phase" where
  "leave u r = (case r of Some x \<Rightarrow> Returned u x | None \<Rightarrow> Gone)"

text \<open>The flight is removed under the lock, its waiters are notified after it.\<close>

definition release :: "nat \<Rightarrow> string \<Rightarrow> outcome option \<Rightarrow> resolver \<Rightarrow> resolver" where
  "release i u r s =
     enter i (case hget (flights s) (lower u) of Some f \<Rightarrow> Notifying (notify f) u r | None \<Rightarrow> leave u r)
       (s\<lparr>flights := AList.delete (lower u) (flights s)\<rparr>)"

fun proceed :: "nat \<Rightarrow> instant \<Rightarrow> instant \<Rightarrow> call_phase \<Rightarrow> resolver \<Rightarrow> resolver" where
  "proceed i t t' (Calling u re) s =
     (if is_valid_username_shape u then consult i u t (Choosing u re) s else enter i (Returned u (Inl InvalidShape)) s)"
| "proceed i t t' (Choosing u re) s = take_role i u re t t' s"
| "proceed i t t' (Following u re n) s = enter i (Registered u re n False) s"
| "proceed i t t' (Registered u re n w) s = consult i u t (Parked u re n w) s"
| "proceed i t t' (Parked u re n w) s = (if w then enter i (Awake u re) s else s)"
| "proceed i t t' (Awake u re) s =
     (case check_cache (lower u) u ttl neg_ttl t (cache s) of
        (Some r, c) \<Rightarrow> enter i (Returned u r) (s\<lparr>cache := c\<rparr>)
      | (None, c) \<Rightarrow>
          if re then request i u (Direct u) (s\<lparr>cache := c\<rparr>) else enter i (Calling u True) (s\<lparr>cache := c\<rparr>))"
| "proceed i t t' (Storing u r) s =
     enter i (Releasing u r) (s\<lparr>cache := store_outcome (lower u) r t t' (cache s)\<rparr>)"
| "proceed i t t' (Releasing u r) s = release i u (Some r) s"
| "proceed i t t' (Dropping u) s = release i u None s"
| "proceed i t t' (Notifying n u r) s = enter i (leave u r) (notify_waiters [n] s)"
| "proceed i t t' p s = s"

text \<open>An answer of the service, and the cancellation of a call at one of its awaits.\<close>

fun replied :: "outcome \<Rightarrow> call_phase \<Rightarrow> call_phase" where
  "replied r (Leading u) = Storing u r"
| "replied r (Direct u) = Returned u r"
| "replied r p = p"

fun asking :: "call_phase \<Rightarrow> string option" where
  "asking (Leading u) = Some u"
| "asking (Direct u) = Some u"
| "asking _ = None"

fun cancelled :: "call_phase \<Rightarrow> call_phase" where
  "cancelled (Leading u) = Dropping u"
| "cancelled (Direct u) = Gone"
| "cancelled (Parked u re n w) = Gone"
| "cancelled p = p"

fun happen :: "event \<Rightarrow> resolver \<Rightarrow> resolver" where
  "happen (Begin i u) s = (if calls s i = NoCall then enter i (Calling u False) s else s)"
| "happen (Step i t t') s = proceed i t t' (calls s i) s"
| "happen (Reply i r) s =
     (case asking (calls s i) of
        None \<Rightarrow> s
      | Some u \<Rightarrow> enter i (replied r (calls s i)) (s\<lparr>answers := answers s @ [(u, r)]\<rparr>))"
| "happen (Abort i) s = enter i (cancelled (calls s i)) s"
| "happen (SweepCache t) s = s\<lparr>cache := sweep_cache t (cache s)\<rparr>"
| "happen (SweepFlights t) s =
     (case cleanup_in_flight t (flights s) of (woken, fs) \<Rightarrow> notify_waiters woken (s\<lparr>flights := fs\<rparr>))"
| "happen (Lookup u t) s = s\<lparr>cache := snd (lookup_cached_uuid u t (cache s))\<rparr>"

definition history :: "event list \<Rightarrow> resolver \<Rightarrow> resolver" where
  "history es s = fold happen es s"

definition resolver_new :: resolver where
  "resolver_new = \<lparr>cache = [], flights = [], next_notify = 0, calls = (\<lambda>_. NoCall), requests = [], answers = []\<rparr>"

end
