(* ===== verification/Name_Cache_Properties.thy ===== *)
theory Name_Cache_Properties
  imports Name_Cache
begin

text \<open>
  What the resolution of names guarantees over every interleaving of its calls: bounded tables, answers that come from
  the service, one request per name, and no follower left behind that registered in time; and two
  interleavings that break what the module promises.
\<close>

section \<open>Bounds\<close>

lemma set_put: "x \<in> set (hput c k v) \<Longrightarrow> x = (k, v) \<or> x \<in> set c"
  by (induction c) (auto split: if_splits)

lemma min_by_None [simp]: "min_by lt xs = None \<longleftrightarrow> xs = []"
  by (cases xs) (auto split: option.split)

lemma min_by_in: "min_by lt xs = Some x \<Longrightarrow> x \<in> set xs"
  by (induction xs arbitrary: x) (auto split: option.splits if_splits)

lemma length_delete_less: "(k, v) \<in> set c \<Longrightarrow> length (AList.delete k c) < length c"
  by (auto simp: AList.delete_eq intro: length_filter_less)

lemma set_delete: "x \<in> set (AList.delete k c) \<longleftrightarrow> x \<in> set c \<and> fst x \<noteq> k"
  by (auto simp: AList.delete_eq)

lemma hmap_ok_delete [simp]: "hmap_ok c \<Longrightarrow> hmap_ok (AList.delete k c)"
  by (simp add: hmap_ok_def distinct_delete)

text \<open>A table within a bound, and the two operations that keep it there.\<close>

definition table_ok :: "nat \<Rightarrow> ('k, 'v) hmap \<Rightarrow> bool" where
  "table_ok n c \<longleftrightarrow> hmap_ok c \<and> length c \<le> n"

lemma table_Nil [simp]: "table_ok n []"
  by (simp add: table_ok_def)

lemma table_filter [simp]: "table_ok n c \<Longrightarrow> table_ok n (filter p c)"
  by (auto simp: table_ok_def intro: order_trans [OF length_filter_le])

lemma table_delete [simp]: "table_ok n c \<Longrightarrow> table_ok n (AList.delete k c)"
  by (auto simp: table_ok_def intro: order_trans [OF length_delete_le])

lemma table_put: "hmap_ok c \<Longrightarrow> length c < n \<Longrightarrow> table_ok n (hput c k v)"
  by (simp add: table_ok_def length_put)

lemma table_replace: "table_ok n c \<Longrightarrow> hget c k = Some e \<Longrightarrow> table_ok n (hput c k v)"
  by (simp add: table_ok_def length_put has_key_def)

lemma evict_one:
  assumes "table_ok n c" "min_by lt c = Some x"
  shows "hmap_ok (AList.delete (fst x) c) \<and> length (AList.delete (fst x) c) < n"
  using assms length_delete_less [of "fst x" "snd x" c] min_by_in [of lt c x] by (auto simp: table_ok_def)

lemma evicted_cache:
  assumes "table_ok MAX_UUID_CACHE_ENTRIES c"
  shows "hmap_ok (evict_cache_if_needed t c) \<and> length (evict_cache_if_needed t c) < MAX_UUID_CACHE_ENTRIES"
proof -
  let ?c = "filter (\<lambda>(_, e). is_fresh t ttl neg_ttl e) c"
  have f: "table_ok MAX_UUID_CACHE_ENTRIES ?c" using assms by simp
  have "0 < MAX_UUID_CACHE_ENTRIES" by (simp add: MAX_UUID_CACHE_ENTRIES_def)
  with f evict_one [OF f] assms show ?thesis
    by (fastforce simp: evict_cache_if_needed_def table_ok_def Let_def split: option.split)
qed

lemma evicted_flights:
  assumes "table_ok MAX_IN_FLIGHT_ENTRIES fs"
  shows "hmap_ok (snd (evict_in_flight_if_needed t fs)) \<and> length (snd (evict_in_flight_if_needed t fs)) < MAX_IN_FLIGHT_ENTRIES"
proof -
  obtain woken fs1 where c: "cleanup_in_flight t fs = (woken, fs1)" by force
  then have f: "table_ok MAX_IN_FLIGHT_ENTRIES fs1" using assms by (auto simp: cleanup_in_flight_def Let_def)
  have "0 < MAX_IN_FLIGHT_ENTRIES" by (simp add: MAX_IN_FLIGHT_ENTRIES_def)
  with c f evict_one [OF f] assms show ?thesis
    by (fastforce simp: evict_in_flight_if_needed_def table_ok_def split: option.split)
qed

lemma checked_table: "table_ok n c \<Longrightarrow> table_ok n (snd (check_cache key u pos neg t c))"
  by (auto simp: check_cache_def table_replace split: option.split)

lemma looked_up_table: "table_ok n c \<Longrightarrow> table_ok n (snd (lookup_cached_uuid u t c))"
  by (auto simp: lookup_cached_uuid_def Let_def table_replace split: option.split cached_entry.split)

lemma stored_table:
  "table_ok MAX_UUID_CACHE_ENTRIES c \<Longrightarrow> table_ok MAX_UUID_CACHE_ENTRIES (store_outcome key r t t' c)"
  using evicted_cache [of c t']
  by (cases "(key, r, t, t', c)" rule: store_outcome.cases)
    (simp_all add: insert_found_def insert_not_found_def insert_rate_limited_def Let_def table_put)

text \<open>The fields that the helper steps change.\<close>

lemma notify_fields [simp]: "cache (notify_waiters ns s) = cache s" "flights (notify_waiters ns s) = flights s"
  "next_notify (notify_waiters ns s) = next_notify s" "requests (notify_waiters ns s) = requests s"
  "answers (notify_waiters ns s) = answers s" "calls (notify_waiters ns s) i = wake_one ns (calls s i)"
  by (simp_all add: notify_waiters_def)

lemma enter_fields [simp]: "cache (enter i p s) = cache s" "flights (enter i p s) = flights s"
  "next_notify (enter i p s) = next_notify s" "requests (enter i p s) = requests s" "answers (enter i p s) = answers s"
  "calls (enter i p s) = (calls s)(i := p)"
  by (simp_all add: enter_def)

lemma request_fields [simp]: "cache (request i u p s) = cache s" "flights (request i u p s) = flights s"
  "next_notify (request i u p s) = next_notify s" "requests (request i u p s) = requests s @ [u]"
  "answers (request i u p s) = answers s" "calls (request i u p s) = (calls s)(i := p)"
  by (simp_all add: request_def)

definition bounded_tables :: "resolver \<Rightarrow> bool" where
  "bounded_tables s \<longleftrightarrow> table_ok MAX_UUID_CACHE_ENTRIES (cache s) \<and> table_ok MAX_IN_FLIGHT_ENTRIES (flights s)"

lemma bounded_fields [simp]: "bounded_tables (enter i p s) = bounded_tables s" "bounded_tables (request i u p s) = bounded_tables s"
  "bounded_tables (notify_waiters ns s) = bounded_tables s" "bounded_tables (s\<lparr>answers := as\<rparr>) = bounded_tables s"
  "bounded_tables (s\<lparr>cache := c\<rparr>) \<longleftrightarrow> table_ok MAX_UUID_CACHE_ENTRIES c \<and> table_ok MAX_IN_FLIGHT_ENTRIES (flights s)"
  "bounded_tables (s\<lparr>flights := fs\<rparr>) \<longleftrightarrow> table_ok MAX_UUID_CACHE_ENTRIES (cache s) \<and> table_ok MAX_IN_FLIGHT_ENTRIES fs"
  by (simp_all add: bounded_tables_def)

lemma boundedD: "bounded_tables s \<Longrightarrow> table_ok MAX_UUID_CACHE_ENTRIES (cache s)" "bounded_tables s \<Longrightarrow> table_ok MAX_IN_FLIGHT_ENTRIES (flights s)"
  by (simp_all add: bounded_tables_def)

lemma consult_bounded: "bounded_tables s \<Longrightarrow> bounded_tables (consult i u t p s)"
  using checked_table [of MAX_UUID_CACHE_ENTRIES "cache s" "lower u" u ttl neg_ttl t]
  by (auto simp: consult_def boundedD split: prod.split option.split)

lemma take_role_bounded: "bounded_tables s \<Longrightarrow> bounded_tables (take_role i u re t t' s)"
  using evicted_flights [of "flights s" t]
  by (auto simp: take_role_def Let_def bounded_tables_def table_put table_ok_def length_put split: prod.split option.split)

lemma proceed_bounded:
  assumes "bounded_tables s"
  shows "bounded_tables (proceed i t t' p s)"
proof (cases p)
  case (Awake u re)
  then show ?thesis using assms checked_table [of MAX_UUID_CACHE_ENTRIES "cache s" "lower u" u ttl neg_ttl t]
    by (auto simp: boundedD split: prod.split option.split)
qed (use assms in \<open>simp_all add: consult_bounded take_role_bounded release_def stored_table boundedD\<close>)

interpretation tables: step_invariant "\<lambda>s s'. \<exists>e. s' = happen e s" bounded_tables
proof
  fix s s' :: resolver
  assume ok: "bounded_tables s" and "\<exists>e. s' = happen e s"
  then obtain e where s': "s' = happen e s" by blast
  show "bounded_tables s'"
    using ok unfolding s'
    by (cases e) (auto simp: proceed_bounded boundedD looked_up_table sweep_cache_def cleanup_in_flight_def Let_def
        split: option.split)
qed

lemma history_steps: "(\<lambda>s s'. \<exists>e. s' = happen e s)\<^sup>*\<^sup>* s (history es s)"
  by (induction es arbitrary: s) (auto simp: history_def intro: converse_rtranclp_into_rtranclp)

text \<open>The tables stay bounded over every interleaving of calls, answers, cancellations, lookups and sweeps: the cache never
  holds more than 4096 names and the flights never more than 4096, each name at most once.\<close>

theorem name_tables_bounded:
  "hmap_ok (cache (history es resolver_new)) \<and> length (cache (history es resolver_new)) \<le> 4096 \<and>
   hmap_ok (flights (history es resolver_new)) \<and> length (flights (history es resolver_new)) \<le> 4096"
proof -
  have "bounded_tables resolver_new" by (simp add: bounded_tables_def resolver_new_def)
  from tables.reachable_inv [OF history_steps this, of es] show ?thesis
    by (simp add: bounded_tables_def table_ok_def MAX_UUID_CACHE_ENTRIES_def MAX_IN_FLIGHT_ENTRIES_def)
qed

section \<open>Answers come from the service\<close>

text \<open>The service said \<open>x\<close> for a name with this key, and it was asked about that well-formed name.\<close>

definition told :: "resolver \<Rightarrow> string \<Rightarrow> string \<Rightarrow> bool" where
  "told s key x \<longleftrightarrow> (\<exists>name. (name, Inr x) \<in> set (answers s) \<and> lower name = key \<and> name \<in> set (requests s) \<and>
     is_valid_username_shape name)"

fun cache_claim :: "cached_entry \<Rightarrow> string option" where
  "cache_claim (FoundEntry x _ _) = Some x"
| "cache_claim _ = None"

fun call_claim :: "call_phase \<Rightarrow> (string \<times> string) option" where
  "call_claim (Storing u (Inr x)) = Some (lower u, x)"
| "call_claim (Releasing u (Inr x)) = Some (lower u, x)"
| "call_claim (Notifying n u (Some (Inr x))) = Some (lower u, x)"
| "call_claim (Returned u (Inr x)) = Some (lower u, x)"
| "call_claim _ = None"

text \<open>The names of calls past their first check are well formed.\<close>

fun checked_name :: "call_phase \<Rightarrow> string option" where
  "checked_name (Choosing u re) = Some u"
| "checked_name (Following u re n) = Some u"
| "checked_name (Registered u re n w) = Some u"
| "checked_name (Parked u re n w) = Some u"
| "checked_name (Awake u re) = Some u"
| "checked_name (Leading u) = Some u"
| "checked_name (Direct u) = Some u"
| "checked_name _ = None"

definition phase_true :: "resolver \<Rightarrow> call_phase \<Rightarrow> bool" where
  "phase_true s p \<longleftrightarrow> (\<forall>k x. call_claim p = Some (k, x) \<longrightarrow> told s k x) \<and>
     (\<forall>u. checked_name p = Some u \<longrightarrow> is_valid_username_shape u) \<and> (\<forall>u. asking p = Some u \<longrightarrow> u \<in> set (requests s))"

definition cache_true :: "resolver \<Rightarrow> uuid_cache \<Rightarrow> bool" where
  "cache_true s c \<longleftrightarrow> (\<forall>(k, e) \<in> set c. \<forall>x. cache_claim e = Some x \<longrightarrow> told s k x)"

definition truthful :: "resolver \<Rightarrow> bool" where
  "truthful s \<longleftrightarrow> cache_true s (cache s) \<and> (\<forall>i. phase_true s (calls s i))"

text \<open>What was told stays told.\<close>

definition remembers :: "resolver \<Rightarrow> resolver \<Rightarrow> bool" where
  "remembers s s' \<longleftrightarrow> set (answers s) \<subseteq> set (answers s') \<and> set (requests s) \<subseteq> set (requests s')"

lemma told_remembered: "told s k x \<Longrightarrow> remembers s s' \<Longrightarrow> told s' k x"
  by (auto simp: told_def remembers_def)

lemma phase_remembered: "phase_true s p \<Longrightarrow> remembers s s' \<Longrightarrow> phase_true s' p"
  using told_remembered [of s _ _ s'] by (auto simp: phase_true_def remembers_def)

lemma cache_remembered: "cache_true s c \<Longrightarrow> remembers s s' \<Longrightarrow> cache_true s' c"
  using told_remembered [of s _ _ s'] by (fastforce simp: cache_true_def)

lemma phase_woken: "phase_true s (wake_one ns p) = phase_true s p"
  by (cases p) (simp_all add: phase_true_def)

text \<open>Only the two records matter, and they only grow.\<close>

lemma told_fields [simp]: "told (s\<lparr>cache := c\<rparr>) = told s" "told (s\<lparr>flights := fs\<rparr>) = told s" "told (s\<lparr>next_notify := n\<rparr>) = told s"
    "told (enter i p s) = told s" "told (notify_waiters ns s) = told s"
  by (simp_all add: told_def fun_eq_iff)

lemma phase_fields [simp]: "phase_true (s\<lparr>cache := c\<rparr>) = phase_true s" "phase_true (s\<lparr>flights := fs\<rparr>) = phase_true s"
    "phase_true (s\<lparr>next_notify := n\<rparr>) = phase_true s" "phase_true (enter i p s) = phase_true s"
    "phase_true (notify_waiters ns s) = phase_true s"
  by (simp_all add: phase_true_def fun_eq_iff)

lemma truthful_fields [simp]: "truthful (notify_waiters ns s) = truthful s" "truthful (s\<lparr>flights := fs\<rparr>) = truthful s"
    "truthful (s\<lparr>next_notify := n\<rparr>) = truthful s"
  by (simp_all add: truthful_def cache_true_def phase_woken)

lemma truthful_enter: "truthful s \<Longrightarrow> phase_true s p \<Longrightarrow> truthful (enter i p s)"
  by (simp add: truthful_def cache_true_def)

lemma truthful_cache: "truthful s \<Longrightarrow> cache_true s c \<Longrightarrow> truthful (s\<lparr>cache := c\<rparr>)"
  by (simp add: truthful_def cache_true_def)

lemma truthful_more: "truthful s \<Longrightarrow> truthful (s\<lparr>requests := requests s @ us\<rparr>)" "truthful s \<Longrightarrow> truthful (s\<lparr>answers := answers s @ as\<rparr>)"
proof -
  have "remembers s (s\<lparr>requests := requests s @ us\<rparr>)" "remembers s (s\<lparr>answers := answers s @ as\<rparr>)"
    by (auto simp: remembers_def)
  then show "truthful s \<Longrightarrow> truthful (s\<lparr>requests := requests s @ us\<rparr>)" "truthful s \<Longrightarrow> truthful (s\<lparr>answers := answers s @ as\<rparr>)"
    by (auto simp: truthful_def intro: cache_remembered [of s] phase_remembered [of s])
qed

lemma truthful_request:
  assumes "truthful s" "is_valid_username_shape u" "p = Leading u \<or> p = Direct u"
  shows "truthful (request i u p s)"
  unfolding request_def
  by (rule truthful_enter [OF truthful_more(1) [OF assms(1)]]) (use assms in \<open>auto simp: phase_true_def\<close>)

lemma cache_true_put: "cache_true s c \<Longrightarrow> (\<And>x. cache_claim e = Some x \<Longrightarrow> told s k x) \<Longrightarrow> cache_true s (hput c k e)"
  by (auto simp: cache_true_def dest!: set_put)

lemma cache_true_sub: "cache_true s c \<Longrightarrow> set c' \<subseteq> set c \<Longrightarrow> cache_true s c'"
  by (auto simp: cache_true_def)

lemma cache_true_get: "cache_true s c \<Longrightarrow> hget c k = Some e \<Longrightarrow> cache_claim e = Some x \<Longrightarrow> told s k x"
  by (auto simp: cache_true_def dest!: map_of_SomeD)

lemma evicted_sub: "set (evict_cache_if_needed t c) \<subseteq> set c"
  by (auto simp: evict_cache_if_needed_def Let_def set_delete split: option.splits if_splits)

lemma touch_claim [simp]: "cache_claim (touch t e) = cache_claim e"
  by (cases e) simp_all

lemma checked_true:
  assumes "check_cache k u pos neg t c = (r, c')" "cache_true s c"
  shows "cache_true s c'" "r = Some (Inr x) \<Longrightarrow> told s k x"
proof -
  show "cache_true s c'" using assms
    by (auto simp: check_cache_def split: option.splits if_splits intro!: cache_true_put elim: cache_true_get)
  have "cache_answer t u e = Inr x \<Longrightarrow> cache_claim e = Some x" for e by (cases e) simp_all
  then show "r = Some (Inr x) \<Longrightarrow> told s k x" using assms
    by (auto simp: check_cache_def split: option.splits if_splits elim: cache_true_get)
qed

lemma stored_true:
  assumes "cache_true s c" "\<And>x. r = Inr x \<Longrightarrow> told s k x"
  shows "cache_true s (store_outcome k r t t' c)"
proof -
  have e: "cache_true s (evict_cache_if_needed t' c)" by (rule cache_true_sub [OF assms(1) evicted_sub])
  show ?thesis using assms e
    by (cases "(k, r, t, t', c)" rule: store_outcome.cases)
      (auto simp: insert_found_def insert_not_found_def insert_rate_limited_def Let_def intro!: cache_true_put)
qed

lemma looked_up_true: "cache_true s c \<Longrightarrow> cache_true s (snd (lookup_cached_uuid u t c))"
  by (auto simp: lookup_cached_uuid_def Let_def split: option.split cached_entry.split intro!: cache_true_put elim: cache_true_get)

lemma consult_truthful: "truthful s \<Longrightarrow> phase_true s p \<Longrightarrow> truthful (consult i u t p s)"
proof -
  assume s: "truthful s" and p: "phase_true s p"
  obtain r c where c: "check_cache (lower u) u ttl neg_ttl t (cache s) = (r, c)" by force
  have t: "cache_true s (cache s)" using s by (simp add: truthful_def)
  have "phase_true s (Returned u x)" if "r = Some x" for x
    using checked_true(2) [OF c t] that by (cases x) (simp_all add: phase_true_def)
  then show ?thesis using s p c checked_true(1) [OF c t]
    by (auto simp: consult_def truthful_cache intro!: truthful_enter split: option.split)
qed

lemma phase_name: "truthful s \<Longrightarrow> checked_name (calls s i) = Some u \<Longrightarrow> is_valid_username_shape u"
  by (auto simp: truthful_def phase_true_def)

lemma claim_passed: "call_claim (Returned u r) = call_claim (Releasing u r)"
    "call_claim (Notifying n u (Some r)) = call_claim (Releasing u r)"
  by (cases r; simp)+

lemma proceed_truthful:
  assumes s: "truthful s"
  shows "truthful (proceed i t t' (calls s i) s)"
proof -
  have p: "phase_true s (calls s i)" and c: "cache_true s (cache s)" using s by (auto simp: truthful_def)
  show ?thesis
  proof (cases "calls s i")
    case (Calling u re)
    then show ?thesis using s by (auto intro!: consult_truthful truthful_enter simp: phase_true_def)
  next
    case (Choosing u re)
    then have "is_valid_username_shape u" by (intro phase_name [OF s, of i]) simp
    then show ?thesis using s Choosing
      by (auto simp: take_role_def Let_def intro!: truthful_enter truthful_request simp: phase_true_def split: prod.split option.split)
  next
    case (Awake u re)
    have "is_valid_username_shape u" by (rule phase_name [OF s, of i]) (simp add: Awake)
    moreover obtain r d where d: "check_cache (lower u) u ttl neg_ttl t (cache s) = (r, d)" by force
    moreover have "phase_true s (Returned u x)" if "r = Some x" for x
      using checked_true(2) [OF d c] that by (cases x) (simp_all add: phase_true_def)
    ultimately show ?thesis using s Awake checked_true(1) [OF d c]
      by (auto simp: truthful_cache intro!: truthful_enter truthful_request simp: phase_true_def split: option.split)
  next
    case (Storing u r)
    then have "\<And>x. r = Inr x \<Longrightarrow> told s (lower u) x" using p by (simp add: phase_true_def)
    from stored_true [OF c this, of r] have "cache_true s (store_outcome (lower u) r t t' (cache s))" by simp
    moreover have "phase_true s (Releasing u r)" using p Storing by (cases r) (auto simp: phase_true_def)
    ultimately show ?thesis using s Storing by (simp add: truthful_enter truthful_cache)
  qed (use s p in \<open>auto simp: phase_true_def release_def leave_def claim_passed intro!: truthful_enter consult_truthful split: option.split sum.split\<close>)
qed

lemma happen_truthful:
  assumes s: "truthful s"
  shows "truthful (happen e s)"
proof (cases e)
  case (Reply i r)
  show ?thesis
  proof (cases "asking (calls s i)")
    case (Some u)
    let ?s = "s\<lparr>answers := answers s @ [(u, r)]\<rparr>"
    have p: "phase_true s (calls s i)" using s by (simp add: truthful_def)
    have v: "is_valid_username_shape u" "u \<in> set (requests s)" using p Some by (cases "calls s i"; auto simp: phase_true_def)+
    have "told ?s (lower u) x" if "r = Inr x" for x using v that by (auto simp: told_def)
    then have "phase_true ?s (replied r (calls s i))"
      using Some by (cases "calls s i"; cases r) (auto simp: phase_true_def)
    then show ?thesis using Reply Some truthful_enter [OF truthful_more(2) [OF s]] by simp
  qed (use s Reply in simp)
next
  case (Abort i)
  have "phase_true s (calls s i)" using s by (simp add: truthful_def)
  then have "phase_true s (cancelled (calls s i))" by (cases "calls s i") (auto simp: phase_true_def)
  then show ?thesis using Abort s by (simp add: truthful_enter)
next
  case (SweepCache t)
  have "cache_true s (sweep_cache t (cache s))"
    by (rule cache_true_sub [of s "cache s"]) (use s in \<open>auto simp: truthful_def sweep_cache_def\<close>)
  then show ?thesis using SweepCache s by (simp add: truthful_cache)
next
  case (Lookup u t)
  have "cache_true s (snd (lookup_cached_uuid u t (cache s)))" using s by (intro looked_up_true) (simp add: truthful_def)
  then show ?thesis using s Lookup by (simp add: truthful_cache)
next
  case (Begin i u)
  have "phase_true s (Calling u False)" by (simp add: phase_true_def)
  then show ?thesis using Begin s by (simp add: truthful_enter)
next
  case (Step i t t')
  then show ?thesis using s by (simp add: proceed_truthful)
next
  case (SweepFlights t)
  then show ?thesis using s by (simp split: prod.split)
qed

interpretation truth: step_invariant "\<lambda>s s'. \<exists>e. s' = happen e s" truthful
proof
  fix s s' :: resolver
  assume s: "truthful s" and "\<exists>e. s' = happen e s"
  then obtain e where e: "s' = happen e s" by (elim exE)
  show "truthful s'" unfolding e by (rule happen_truthful [OF s])
qed

text \<open>A uuid that a call returns, whether from its own request, from another call's or from the cache, is one the service
  answered for a name that differs at most in case; the service was asked about that name, and only about names of
  a valid shape.\<close>

theorem uuid_from_service:
  assumes "calls (history es resolver_new) i = Returned u (Inr x)"
  shows "\<exists>name. (name, Inr x) \<in> set (answers (history es resolver_new)) \<and> map to_ascii_lowercase name = map to_ascii_lowercase u \<and>
    name \<in> set (requests (history es resolver_new)) \<and> is_valid_username_shape name"
proof -
  have "truthful resolver_new" by (simp add: truthful_def resolver_new_def cache_true_def phase_true_def)
  then have "phase_true (history es resolver_new) (Returned u (Inr x))"
    using truth.reachable_inv [OF history_steps, of resolver_new es] assms unfolding truthful_def by metis
  then have "told (history es resolver_new) (lower u) x" by (simp add: phase_true_def)
  then show ?thesis unfolding told_def lower_def .
qed

text \<open>The names of the samples, and the rules that run a sample.\<close>

lemma sample_names: "lower ''alice'' = ''alice''" "lower ''Alice'' = ''alice''" "is_valid_username_shape ''alice''"
    "is_valid_username_shape ''Alice''"
  by code_simp+

lemmas run_sample = history_def resolver_new_def enter_def request_def consult_def check_cache_def take_role_def
  evict_in_flight_if_needed_def MAX_IN_FLIGHT_ENTRIES_def notify_waiters_def release_def leave_def insert_found_def
  evict_cache_if_needed_def MAX_UUID_CACHE_ENTRIES_def from_secs_def UUID_CACHE_TTL_SECS_def duration_since_def sample_names

theorem uuid_from_service_witness:
  "(''alice'', Inr ''u'') \<in> set (answers (history [Begin 0 ''alice'', Step 0 0 0, Step 0 0 0, Reply 0 (Inr ''u''), Step 0 0 0,
     Step 0 0 0, Step 0 0 0, Begin 1 ''Alice'', Step 1 0 0] resolver_new))"
proof -
  let ?s = "history [Begin 0 ''alice'', Step 0 0 0, Step 0 0 0, Reply 0 (Inr ''u''), Step 0 0 0,
     Step 0 0 0, Step 0 0 0, Begin 1 ''Alice'', Step 1 0 0] resolver_new"
  have "calls ?s 1 = Returned ''Alice'' (Inr ''u'')" and a: "answers ?s = [(''alice'', Inr ''u'')]"
    by (simp_all add: run_sample)
  from uuid_from_service [OF this(1)] obtain name where "(name, Inr ''u'') \<in> set (answers ?s)" by metis
  then show ?thesis unfolding a by simp
qed

section \<open>One request per name\<close>

text \<open>The calls that own the request for a name, from the request to the removal of the flight.\<close>

fun holds :: "call_phase \<Rightarrow> string option" where
  "holds (Leading u) = Some (lower u)"
| "holds (Storing u r) = Some (lower u)"
| "holds (Releasing u r) = Some (lower u)"
| "holds (Dropping u) = Some (lower u)"
| "holds _ = None"

text \<open>A run in which no flight is swept away, neither by the sweep nor at the cap.\<close>

fun quiet :: "event list \<Rightarrow> resolver \<Rightarrow> bool" where
  "quiet [] s = True"
| "quiet (e # es) s \<longleftrightarrow>
     (case e of SweepFlights t \<Rightarrow> False | _ \<Rightarrow> length (flights s) < MAX_IN_FLIGHT_ENTRIES) \<and> quiet es (happen e s)"

definition single :: "resolver \<Rightarrow> bool" where
  "single s \<longleftrightarrow> (\<forall>i j k. holds (calls s i) = Some k \<longrightarrow> holds (calls s j) = Some k \<longrightarrow> i = j) \<and>
     (\<forall>i k. holds (calls s i) = Some k \<longrightarrow> has_key (flights s) k)"

lemma wake_none [simp]: "wake_one [] p = p"
  by (cases p) simp_all

lemma holds_woken [simp]: "holds (wake_one ns p) = holds p"
  by (cases p) simp_all

lemma single_fields [simp]: "single (s\<lparr>cache := c\<rparr>) = single s" "single (s\<lparr>requests := rs\<rparr>) = single s"
    "single (s\<lparr>answers := as\<rparr>) = single s" "single (s\<lparr>next_notify := n\<rparr>) = single s" "single (notify_waiters ns s) = single s"
  by (simp_all add: single_def)

lemma single_enter: "single s \<Longrightarrow> holds p = None \<or> holds p = holds (calls s i) \<Longrightarrow> single (enter i p s)"
  by (auto simp: single_def; metis)

lemma single_consult: "single s \<Longrightarrow> holds p = None \<Longrightarrow> single (consult i u t p s)"
  by (auto simp: consult_def intro!: single_enter split: prod.split option.split)

lemma single_release: "single s \<Longrightarrow> holds (calls s i) = Some (lower u) \<Longrightarrow> single (release i u r s)"
  by (auto simp: single_def release_def leave_def has_key_def delete_conv' split: option.splits)

lemma single_take_role: "single s \<Longrightarrow> length (flights s) < MAX_IN_FLIGHT_ENTRIES \<Longrightarrow> single (take_role i u re t t' s)"
  by (auto simp: single_def take_role_def evict_in_flight_if_needed_def Let_def has_key_def split: option.split;
      metis option.distinct(1))

lemma single_happen:
  assumes "single s" "quiet [e] s"
  shows "single (happen e s)"
proof (cases e)
  case (Step i t t')
  show ?thesis
  proof (cases "calls s i")
    case (Choosing u re)
    then show ?thesis using assms Step single_take_role by simp
  next
    case (Awake u re)
    then show ?thesis using assms Step by (auto simp: request_def intro!: single_enter split: prod.split option.split)
  qed (use assms Step in \<open>auto simp: leave_def intro!: single_enter single_consult single_release split: option.split\<close>)
next
  case (Reply i r)
  then show ?thesis using assms by (cases "calls s i") (auto intro!: single_enter)
next
  case (Abort i)
  then show ?thesis using assms by (cases "calls s i") (auto intro!: single_enter)
qed (use assms in \<open>auto intro!: single_enter\<close>)

lemma single_history: "single s \<Longrightarrow> quiet es s \<Longrightarrow> single (history es s)"
proof (induction es arbitrary: s)
  case (Cons e es)
  have "quiet [e] s" using Cons.prems(2) by simp
  from Cons.IH [OF single_happen [OF Cons.prems(1) this]] Cons.prems(2) show ?case by (simp add: history_def)
qed (simp add: history_def)



section \<open>Followers\<close>

text \<open>A notification that is still to come, and the calls that wait for one.\<close>

definition notices :: "in_flight \<Rightarrow> nat set" where
  "notices fs = notify ` snd ` set fs"

lemma notices_iff: "n \<in> notices fs \<longleftrightarrow> (\<exists>k f. (k, f) \<in> set fs \<and> notify f = n)"
  by (force simp: notices_def)

definition pending_notice :: "resolver \<Rightarrow> nat \<Rightarrow> bool" where
  "pending_notice s n \<longleftrightarrow> n \<in> notices (flights s) \<or> (\<exists>i u r. calls s i = Notifying n u r)"

fun waits_for :: "call_phase \<Rightarrow> nat option" where
  "waits_for (Registered u re n False) = Some n"
| "waits_for (Parked u re n False) = Some n"
| "waits_for _ = None"

text \<open>A run in which every follower registers while its notification is still to come.\<close>

fun timely :: "event list \<Rightarrow> resolver \<Rightarrow> bool" where
  "timely [] s = True"
| "timely (e # es) s \<longleftrightarrow>
     (\<forall>i t t' u re n. e = Step i t t' \<and> calls s i = Following u re n \<longrightarrow> pending_notice s n) \<and> timely es (happen e s)"

definition tended :: "resolver \<Rightarrow> bool" where
  "tended s \<longleftrightarrow> hmap_ok (flights s) \<and> (\<forall>i n. waits_for (calls s i) = Some n \<longrightarrow> pending_notice s n)"

lemma pending_fields [simp]: "pending_notice (s\<lparr>cache := c\<rparr>) n = pending_notice s n" "pending_notice (s\<lparr>requests := rs\<rparr>) n = pending_notice s n"
    "pending_notice (s\<lparr>answers := as\<rparr>) n = pending_notice s n" "pending_notice (s\<lparr>next_notify := m\<rparr>) n = pending_notice s n"
  by (simp_all add: pending_notice_def)

lemma tended_fields [simp]: "tended (s\<lparr>cache := c\<rparr>) = tended s" "tended (s\<lparr>requests := rs\<rparr>) = tended s"
    "tended (s\<lparr>answers := as\<rparr>) = tended s" "tended (s\<lparr>next_notify := n\<rparr>) = tended s"
  by (simp_all add: tended_def)

text \<open>Entering a phase that waits for nothing new, from one that owes no notification.\<close>

lemma pending_enter: "pending_notice s n \<Longrightarrow> (\<And>u r. calls s i \<noteq> Notifying n u r) \<Longrightarrow> pending_notice (enter i p s) n"
  by (auto simp: pending_notice_def) metis

lemma tended_enter:
  assumes "tended s" "\<And>n. waits_for p = Some n \<Longrightarrow> pending_notice s n" "\<And>n u r. calls s i \<noteq> Notifying n u r"
  shows "tended (enter i p s)"
  using assms pending_enter [of s _ i p] by (auto simp: tended_def)

lemma waits_woken: "waits_for (wake_one ns p) = (case waits_for p of None \<Rightarrow> None | Some n \<Rightarrow> if n \<in> set ns then None else Some n)"
proof (cases p)
  case (Registered u re n w)
  then show ?thesis by (cases w) auto
next
  case (Parked u re n w)
  then show ?thesis by (cases w) auto
qed simp_all

lemma woken_notifying [simp]: "wake_one ns p = Notifying n u r \<longleftrightarrow> p = Notifying n u r"
  by (cases p) simp_all

text \<open>Flights that are removed while their waiters are notified.\<close>

lemma tended_removed:
  assumes "tended s" "hmap_ok fs" "\<And>n. n \<in> notices (flights s) \<Longrightarrow> n \<in> set ns \<or> n \<in> notices fs"
  shows "tended (notify_waiters ns (s\<lparr>flights := fs\<rparr>))"
proof -
  have "pending_notice (notify_waiters ns (s\<lparr>flights := fs\<rparr>)) n" if "waits_for (wake_one ns (calls s i)) = Some n" for i n
  proof -
    have n: "waits_for (calls s i) = Some n" "n \<notin> set ns" using that by (auto simp: waits_woken split: option.splits if_splits)
    then have "pending_notice s n" using assms(1) by (simp add: tended_def)
    then show ?thesis using assms(3) [of n] n(2) by (auto simp: pending_notice_def)
  qed
  then show ?thesis using assms(2) by (simp add: tended_def)
qed

lemma cleaned_flights:
  assumes "cleanup_in_flight t fs = (ns, fs')" "hmap_ok fs"
  shows "hmap_ok fs'" "n \<in> notices fs \<Longrightarrow> n \<in> set ns \<or> n \<in> notices fs'"
proof -
  show "hmap_ok fs'" using assms by (auto simp: cleanup_in_flight_def Let_def)
  show "n \<in> notices fs \<Longrightarrow> n \<in> set ns \<or> n \<in> notices fs'"
    using assms(1) by (force simp: notices_def cleanup_in_flight_def Let_def image_iff)
qed

lemma evict_cases:
  assumes "evict_in_flight_if_needed t fs = (ns, fs')" "cleanup_in_flight t fs = (ns1, fs1)"
  obtains "ns = []" "fs' = fs" | "ns = ns1" "fs' = fs1"
    | k f where "(k, f) \<in> set fs1" "ns = ns1 @ [notify f]" "fs' = AList.delete k fs1"
proof (cases "length fs < MAX_IN_FLIGHT_ENTRIES \<or> length fs1 < MAX_IN_FLIGHT_ENTRIES")
  case True
  then show ?thesis using assms that(1,2)
    by (cases "length fs < MAX_IN_FLIGHT_ENTRIES") (auto simp: evict_in_flight_if_needed_def)
next
  case False
  show ?thesis
  proof (cases "min_by (\<lambda>(_, a) (_, b). started_at a < started_at b) fs1")
    case None
    then show ?thesis using False assms that(2) by (simp add: evict_in_flight_if_needed_def)
  next
    case (Some x)
    obtain k f where x: "x = (k, f)" by force
    show ?thesis using that(3) [of k f] min_by_in [OF Some] Some x False assms by (simp add: evict_in_flight_if_needed_def)
  qed
qed

lemma notices_delete_one:
  assumes "hmap_ok fs" "(k, f) \<in> set fs" "n \<in> notices fs"
  shows "n = notify f \<or> n \<in> notices (AList.delete k fs)"
proof -
  obtain k' f' where x: "(k', f') \<in> set fs" "n = notify f'" using assms(3) by (auto simp: notices_def)
  have "k' = k \<Longrightarrow> f' = f" using x(1) assms(1,2) by (auto simp: hmap_ok_def dest: eq_key_imp_eq_value)
  then show ?thesis using x by (force simp: notices_def set_delete image_iff)
qed

lemma evicted_notices:
  assumes "evict_in_flight_if_needed t fs = (ns, fs')" "hmap_ok fs"
  shows "hmap_ok fs' \<and> (\<forall>n \<in> notices fs. n \<in> set ns \<or> n \<in> notices fs')"
proof -
  obtain ns1 fs1 where c: "cleanup_in_flight t fs = (ns1, fs1)" by force
  note cl = cleaned_flights [OF c assms(2)]
  from evict_cases [OF assms(1) c] show ?thesis
  proof cases
    case (3 k f)
    then show ?thesis using cl notices_delete_one [OF cl(1) 3(1)] by auto
  qed (use assms(2) cl in auto)
qed

lemma tended_consult:
  "tended s \<Longrightarrow> (\<And>n. waits_for p = Some n \<Longrightarrow> pending_notice s n) \<Longrightarrow> (\<And>n u r. calls s i \<noteq> Notifying n u r) \<Longrightarrow>
    tended (consult i u t p s)"
  by (auto simp: consult_def intro!: tended_enter split: prod.split option.split)

lemma notices_put: "n \<in> notices fs \<Longrightarrow> \<not> has_key fs k \<Longrightarrow> n \<in> notices (hput fs k f)"
  by (induction fs) (auto simp: notices_def has_key_def split: if_splits)

lemma tended_take_role:
  assumes s: "tended s" and c: "calls s i = Choosing u re"
  shows "tended (take_role i u re t t' s)"
proof -
  obtain ns fs where e: "evict_in_flight_if_needed t (flights s) = (ns, fs)" by force
  let ?s = "notify_waiters ns (s\<lparr>flights := fs\<rparr>)"
  have h: "hmap_ok (flights s)" using s by (simp add: tended_def)
  have ev: "hmap_ok fs" "\<And>n. n \<in> notices (flights s) \<Longrightarrow> n \<in> set ns \<or> n \<in> notices fs"
    using evicted_notices [OF e h] by auto
  have s1: "tended ?s" by (rule tended_removed [OF s ev])
  show ?thesis
  proof (cases "hget fs (lower u)")
    case None
    let ?f = "\<lparr>notify = next_notify s, started_at = t'\<rparr>"
    have "pending_notice (?s\<lparr>flights := hput fs (lower u) ?f\<rparr>) n" if "pending_notice ?s n" for n
      using that notices_put [of n fs "lower u" ?f] None by (auto simp: pending_notice_def has_key_def)
    then have "tended (?s\<lparr>flights := hput fs (lower u) ?f\<rparr>)" using s1 ev(1) by (simp add: tended_def)
    then show ?thesis using e c None
      by (simp add: take_role_def Let_def request_def) (rule tended_enter; simp)
  next
    case (Some f)
    then show ?thesis using e c tended_enter [OF s1, of "Following u re (notify f)" i]
      by (simp add: take_role_def Let_def)
  qed
qed

lemma tended_release:
  assumes s: "tended s" and c: "\<And>n v q. calls s i \<noteq> Notifying n v q"
  shows "tended (release i u r s)"
proof -
  have h: "hmap_ok (flights s)" using s by (simp add: tended_def)
  have "pending_notice (release i u r s) n" if n: "pending_notice s n" for n
    using n unfolding pending_notice_def
  proof (elim disjE exE)
    assume "n \<in> notices (flights s)"
    then obtain k f where f: "(k, f) \<in> set (flights s)" "n = notify f" by (auto simp: notices_def)
    show "n \<in> notices (flights (release i u r s)) \<or> (\<exists>j v q. calls (release i u r s) j = Notifying n v q)"
    proof (cases "k = lower u")
      case True
      then have "hget (flights s) (lower u) = Some f" using f(1) h by (simp add: hmap_ok_def)
      then have "calls (release i u r s) i = Notifying n u r" using f(2) by (simp add: release_def)
      then show ?thesis by blast
    next
      case False
      then have "(k, f) \<in> set (AList.delete (lower u) (flights s))" using f(1) by (simp add: set_delete)
      then show ?thesis using f(2) by (force simp: release_def notices_def)
    qed
  next
    fix j v q
    assume j: "calls s j = Notifying n v q"
    then have "j \<noteq> i" using c by metis
    then have "calls (release i u r s) j = Notifying n v q" using j by (simp add: release_def)
    then show "n \<in> notices (flights (release i u r s)) \<or> (\<exists>j v q. calls (release i u r s) j = Notifying n v q)" by blast
  qed
  moreover have "waits_for (calls (release i u r s) j) = Some n \<Longrightarrow> waits_for (calls s j) = Some n" for j n
    by (auto simp: release_def leave_def split: option.splits if_splits)
  moreover have "hmap_ok (flights (release i u r s))" using h by (simp add: release_def)
  ultimately show ?thesis using s unfolding tended_def by blast
qed

lemma tended_notify:
  assumes s: "tended s" and c: "calls s i = Notifying n u r"
  shows "tended (enter i (leave u r) (notify_waiters [n] s))"
proof -
  have "pending_notice (enter i (leave u r) (notify_waiters [n] s)) m" if m: "pending_notice s m" "m \<noteq> n" for m
  proof (cases "m \<in> notices (flights s)")
    case False
    then obtain j v q where j: "calls s j = Notifying m v q" using m(1) by (auto simp: pending_notice_def)
    then have "calls (enter i (leave u r) (notify_waiters [n] s)) j = Notifying m v q" using c m(2) by auto
    then show ?thesis unfolding pending_notice_def by blast
  qed (simp add: pending_notice_def)
  moreover have "waits_for (calls s j) = Some m \<and> m \<noteq> n"
    if "waits_for (calls (enter i (leave u r) (notify_waiters [n] s)) j) = Some m" for j m
    using that by (auto simp: leave_def waits_woken split: option.splits if_splits)
  moreover have "hmap_ok (flights (enter i (leave u r) (notify_waiters [n] s)))" using s by (simp add: tended_def)
  ultimately show ?thesis using s unfolding tended_def by blast
qed

lemma tended_happen:
  assumes s: "tended s" and r: "timely [e] s"
  shows "tended (happen e s)"
proof (cases e)
  case (Step i t t')
  have w: "waits_for (calls s i) = Some n \<Longrightarrow> pending_notice s n" for n using s by (simp add: tended_def)
  show ?thesis
  proof (cases "calls s i")
    case (Registered u re n b)
    then show ?thesis using s Step w by (cases b) (auto intro!: tended_consult)
  next
    case (Notifying n u q)
    then show ?thesis using s Step tended_notify by simp
  next
    case (Awake u re)
    then show ?thesis using s Step by (auto simp: request_def intro!: tended_enter split: prod.split option.split)
  qed (use s r Step w in \<open>auto intro!: tended_enter tended_consult tended_take_role tended_release\<close>)
next
  case (Reply i q)
  then show ?thesis using s by (cases "calls s i") (auto intro!: tended_enter)
next
  case (Abort i)
  have w: "waits_for (cancelled (calls s i)) = Some n \<Longrightarrow> waits_for (calls s i) = Some n" for n by (cases "calls s i") simp_all
  show ?thesis
  proof (cases "\<exists>n u q. calls s i = Notifying n u q")
    case True
    then have "enter i (cancelled (calls s i)) s = s" by (auto simp: enter_def fun_upd_idem)
    then show ?thesis using s Abort by simp
  next
    case False
    have "tended (enter i (cancelled (calls s i)) s)"
      by (rule tended_enter [OF s]) (use w s False in \<open>auto simp: tended_def\<close>)
    then show ?thesis using Abort by simp
  qed
next
  case (SweepFlights t)
  obtain ns fs where c: "cleanup_in_flight t (flights s) = (ns, fs)" by force
  have "hmap_ok (flights s)" using s by (simp add: tended_def)
  from tended_removed [OF s cleaned_flights [OF c this]] show ?thesis using SweepFlights c by simp
qed (use s in \<open>auto intro!: tended_enter\<close>)

lemma tended_history: "tended s \<Longrightarrow> timely es s \<Longrightarrow> tended (history es s)"
proof (induction es arbitrary: s)
  case (Cons e es)
  have "timely [e] s" using Cons.prems(2) unfolding timely.simps by blast
  from Cons.IH [OF tended_happen [OF Cons.prems(1) this]] Cons.prems(2) show ?case by (simp add: history_def)
qed (simp add: history_def)


text \<open>A follower that parks behind a leader which is still asking.\<close>

definition parked_run :: "event list" where
  "parked_run = [Begin 0 ''alice'', Step 0 0 0, Step 0 0 0, Begin 1 ''alice'', Step 1 0 0, Step 1 0 0, Step 1 0 0, Step 1 0 0]"


section \<open>Two interleavings\<close>

text \<open>A follower whose notification is not to come any more stays parked.\<close>

definition lost :: "nat \<Rightarrow> string \<Rightarrow> nat \<Rightarrow> resolver \<Rightarrow> bool" where
  "lost i v n s \<longleftrightarrow> (\<exists>re. calls s i = Parked v re n False) \<and> \<not> pending_notice s n \<and> n < next_notify s"

lemma lost_fields [simp]: "lost i v n (s\<lparr>cache := c\<rparr>) = lost i v n s" "lost i v n (s\<lparr>requests := rs\<rparr>) = lost i v n s"
    "lost i v n (s\<lparr>answers := as\<rparr>) = lost i v n s"
  by (simp_all add: lost_def)

lemma lost_enter: "lost i v n s \<Longrightarrow> j \<noteq> i \<Longrightarrow> (\<And>u r. p \<noteq> Notifying n u r) \<Longrightarrow> lost i v n (enter j p s)"
  by (auto simp: lost_def pending_notice_def)

lemma lost_notify: "lost i v n s \<Longrightarrow> n \<notin> set ns \<Longrightarrow> lost i v n (notify_waiters ns s)"
  by (auto simp: lost_def pending_notice_def)

lemma lost_flights: "lost i v n s \<Longrightarrow> n \<notin> notices fs \<Longrightarrow> lost i v n (s\<lparr>flights := fs\<rparr>)"
  by (simp add: lost_def pending_notice_def)

lemma lost_notices: "lost i v n s \<Longrightarrow> n \<notin> notices (flights s)"
  by (simp add: lost_def pending_notice_def)

lemma notices_delete: "notices (AList.delete k fs) \<subseteq> notices fs"
  by (rule subsetI) (simp add: notices_iff set_delete, blast)

lemma notices_get: "hget fs k = Some f \<Longrightarrow> notify f \<in> notices fs"
  by (force simp: notices_def dest: map_of_SomeD)

lemma cleanup_notices: "cleanup_in_flight t fs = (ns, fs') \<Longrightarrow> set ns \<subseteq> notices fs \<and> notices fs' \<subseteq> notices fs"
  by (fastforce simp: cleanup_in_flight_def notices_iff Let_def)

lemma evict_notices:
  assumes "evict_in_flight_if_needed t fs = (ns, fs')"
  shows "set ns \<subseteq> notices fs \<and> notices fs' \<subseteq> notices fs"
proof -
  obtain ns1 fs1 where c: "cleanup_in_flight t fs = (ns1, fs1)" by force
  note sub = cleanup_notices [OF c]
  from evict_cases [OF assms c] show ?thesis
  proof cases
    case (3 k f)
    then have "notify f \<in> notices fs1" by (force simp: notices_def)
    then show ?thesis using 3 sub notices_delete [of k fs1] by auto
  qed (use sub in auto)
qed

lemma lost_take_role:
  assumes l: "lost i v n s" and j: "j \<noteq> i"
  shows "lost i v n (take_role j u re t t' s)"
proof -
  obtain ns fs where e: "evict_in_flight_if_needed t (flights s) = (ns, fs)" by force
  let ?s = "notify_waiters ns (s\<lparr>flights := fs\<rparr>)"
  have n: "n \<notin> set ns" "n \<notin> notices fs" using evict_notices [OF e] lost_notices [OF l] by auto
  have s1: "lost i v n ?s" by (rule lost_notify [OF lost_flights [OF l n(2)] n(1)])
  show ?thesis
  proof (cases "hget fs (lower u)")
    case None
    let ?f = "\<lparr>notify = next_notify s, started_at = t'\<rparr>"
    have "n \<noteq> next_notify s" using l by (simp add: lost_def)
    then have "n \<notin> notices (hput fs (lower u) ?f)" using n(2) by (auto simp: notices_def dest!: set_put)
    then have "lost i v n (?s\<lparr>flights := hput fs (lower u) ?f, next_notify := Suc (next_notify s)\<rparr>)"
      using s1 by (simp add: lost_def pending_notice_def)
    then show ?thesis using e None j by (simp add: take_role_def Let_def request_def) (rule lost_enter; simp)
  next
    case (Some f)
    then show ?thesis using e lost_enter [OF s1 j, of "Following u re (notify f)"] by (simp add: take_role_def Let_def)
  qed
qed

lemma lost_release: "lost i v n s \<Longrightarrow> j \<noteq> i \<Longrightarrow> lost i v n (release j u r s)"
  using notices_delete [of "lower u" "flights s"] lost_notices [of i v n s]
  by (auto simp: release_def leave_def intro!: lost_enter lost_flights split: option.split dest!: notices_get)

lemma lost_consult: "lost i v n s \<Longrightarrow> j \<noteq> i \<Longrightarrow> (\<And>m w r. p \<noteq> Notifying m w r) \<Longrightarrow> lost i v n (consult j u t p s)"
  by (auto simp: consult_def intro!: lost_enter split: prod.split option.split)

lemma lost_happen:
  assumes l: "lost i v n s" and e: "e \<noteq> Abort i"
  shows "lost i v n (happen e s)"
proof (cases e)
  case (Step j t t')
  show ?thesis
  proof (cases "j = i")
    case True
    then show ?thesis using l Step by (auto simp: lost_def)
  next
    case False
    show ?thesis
    proof (cases "calls s j")
      case (Notifying m u r)
      then have "m \<noteq> n" using l by (auto simp: lost_def pending_notice_def)
      then show ?thesis using l Step False Notifying
        by (auto simp: leave_def intro!: lost_enter lost_notify split: option.split)
    next
      case (Awake u re)
      then show ?thesis using l Step False by (auto simp: request_def intro!: lost_enter split: prod.split option.split)
    qed (use l Step False in \<open>simp_all add: lost_consult lost_enter lost_take_role lost_release\<close>)
  qed
next
  case (Reply j r)
  show ?thesis
  proof (cases "asking (calls s j)")
    case (Some u)
    then have "j \<noteq> i" "replied r (calls s j) \<noteq> Notifying n w q" for w q using l by (cases "calls s j"; auto simp: lost_def)+
    then show ?thesis using l Reply Some by (simp add: lost_enter)
  qed (use l Reply in simp)
next
  case (Abort j)
  then have "j \<noteq> i" using e by simp
  moreover have "cancelled (calls s j) \<noteq> Notifying n u r" for u r
    using l by (cases "calls s j") (auto simp: lost_def pending_notice_def)
  ultimately show ?thesis using l Abort by (simp add: lost_enter)
next
  case (SweepFlights t)
  obtain ns fs where c: "cleanup_in_flight t (flights s) = (ns, fs)" by force
  have "n \<notin> set ns" "n \<notin> notices fs" using cleanup_notices [OF c] lost_notices [OF l] by auto
  then show ?thesis using SweepFlights c lost_notify [OF lost_flights [OF l]] by simp
next
  case (Begin j u)
  have "j \<noteq> i" if "calls s j = NoCall" using l that by (auto simp: lost_def)
  then show ?thesis using l Begin by (simp add: lost_enter)
qed (use l in simp_all)

lemma lost_stays: "lost i v n s \<Longrightarrow> list_all (\<lambda>e. e \<noteq> Abort i) es \<Longrightarrow> lost i v n (history es s)"
proof (induction es arbitrary: s)
  case (Cons e es)
  from Cons.IH [OF lost_happen [OF Cons.prems(1)]] Cons.prems(2) show ?case by (simp add: history_def)
qed (simp add: history_def)

text \<open>The leader fails between the moment the follower gives the lock back and the moment it registers.\<close>

definition missed_run :: "event list" where
  "missed_run = [Begin 0 ''alice'', Step 0 0 0, Step 0 0 0, Begin 1 ''alice'', Step 1 0 0, Step 1 0 0,
     Reply 0 (Inl NetworkError), Step 0 0 0, Step 0 0 0, Step 0 0 0, Step 1 0 0, Step 1 0 0]"

text \<open>C16: A follower can be left behind: when the leader ends with a transport error after the follower has given the lock back
  and before it registers, the leader has returned, no notification is pending, and whatever happens from then on, sweeps
  and new calls for the name included, the follower stays parked unless it is cancelled from outside.\<close>

theorem follower_lost:
  assumes "list_all (\<lambda>e. e \<noteq> Abort 1) es"
  shows "calls (history missed_run resolver_new) 0 = Returned ''alice'' (Inl NetworkError) \<and>
    \<not> pending_notice (history missed_run resolver_new) 0 \<and>
    (\<exists>re. calls (history (missed_run @ es) resolver_new) 1 = Parked ''alice'' re 0 False)"
proof -
  have run: "calls (history missed_run resolver_new) 0 = Returned ''alice'' (Inl NetworkError)"
      "calls (history missed_run resolver_new) 1 = Parked ''alice'' False 0 False"
      "flights (history missed_run resolver_new) = []" "next_notify (history missed_run resolver_new) = 1"
      "\<And>i. 2 \<le> i \<Longrightarrow> calls (history missed_run resolver_new) i = NoCall"
    by (simp_all add: missed_run_def run_sample)
  have "calls (history missed_run resolver_new) i \<noteq> Notifying 0 u r" for i u r
  proof (cases "2 \<le> i")
    case False
    then have "i = 0 \<or> i = 1" by auto
    then show ?thesis using run(1,2) by auto
  qed (simp add: run(5))
  then have p: "\<not> pending_notice (history missed_run resolver_new) 0" by (simp add: pending_notice_def notices_def run(3))
  then have "lost 1 ''alice'' 0 (history missed_run resolver_new)" using run(2,4) unfolding lost_def by (metis zero_less_one)
  from lost_stays [OF this assms] have l: "lost 1 ''alice'' 0 (history (missed_run @ es) resolver_new)" by (simp add: history_def)
  show ?thesis using run(1) p l unfolding lost_def by blast
qed

theorem follower_lost_witness:
  "\<exists>re. calls (history (missed_run @ [SweepFlights 99, Begin 2 ''alice'', Step 2 0 0, Step 2 0 0, Step 1 0 0]) resolver_new) 1 =
     Parked ''alice'' re 0 False"
proof -
  have "list_all (\<lambda>e. e \<noteq> Abort 1) [SweepFlights 99, Begin 2 ''alice'', Step 2 0 0, Step 2 0 0, Step 1 0 0]" by simp
  from follower_lost [OF this] show ?thesis by blast
qed

text \<open>A call that misses the cache just before the leader stores its answer.\<close>

definition late_run :: "event list" where
  "late_run = [Begin 0 ''alice'', Step 0 0 0, Step 0 0 0, Begin 1 ''alice'', Step 1 0 0, Reply 0 (Inr ''u''),
     Step 0 0 0, Step 0 0 0, Step 0 0 0]"

text \<open>One name can cost two requests although no answer was lost: a call that missed the cache before the leader stored its answer,
  and takes its role after the leader removed the flight, asks again although the cache holds the fresh answer.\<close>

theorem second_request:
  "fst (check_cache ''alice'' ''alice'' ttl neg_ttl 0 (cache (history late_run resolver_new))) = Some (Inr ''u'') \<and>
   requests (history late_run resolver_new) = [''alice''] \<and>
   requests (history (late_run @ [Step 1 0 0]) resolver_new) = [''alice'', ''alice'']"
  by (simp add: late_run_def run_sample)

end
