(* ===== verification/File_Writes.thy ===== *)
theory File_Writes
  imports Errors
begin

text \<open>
  The file utilities (\<^verbatim>\<open>src/fsutil.rs\<close>) as programs over a disk: the atomic write with its recovery path, the choice of an
  archive name and the move into the archive. Every call of the file system takes its outcome from a script, and
  every state the files pass through is recorded: these are the states a crash can leave. A file remembers
  whether its bytes were flushed. The order of directory entries after a power loss is not modelled.
\<close>

section \<open>The disk\<close>

record file_data =
  bytes :: string
  flushed :: bool

text \<open>A call is done, fails without effect, or fails after some bytes.\<close>

datatype outcome = Done | Failed | FailedAfter nat

record disk =
  files :: "string \<Rightarrow> file_data option"
  parent_exists :: bool
  outcomes :: "outcome list"
  past :: "(string \<Rightarrow> file_data option) list"

definition take_outcome :: "disk \<Rightarrow> outcome \<times> disk" where
  "take_outcome d = (case outcomes d of [] \<Rightarrow> (Done, d) | x # xs \<Rightarrow> (x, d\<lparr>outcomes := xs\<rparr>))"

text \<open>A change of the files becomes part of the past.\<close>

definition put :: "(string \<Rightarrow> file_data option) \<Rightarrow> disk \<Rightarrow> disk" where
  "put fs d = d\<lparr>files := fs, past := past d @ [fs]\<rparr>"

definition path_exists :: "string \<Rightarrow> disk \<Rightarrow> bool" where
  "path_exists p d \<longleftrightarrow> files d p \<noteq> None"

text \<open>\<open>File::create\<close> truncates.\<close>

definition create :: "string \<Rightarrow> disk \<Rightarrow> bool \<times> disk" where
  "create p d = (case take_outcome d of
     (Done, d1) \<Rightarrow> (True, put ((files d)(p \<mapsto> \<lparr>bytes = [], flushed = False\<rparr>)) d1)
   | (_, d1) \<Rightarrow> (False, d1))"

definition write_all :: "string \<Rightarrow> string \<Rightarrow> disk \<Rightarrow> bool \<times> disk" where
  "write_all p contents d = (case take_outcome d of
     (Done, d1) \<Rightarrow> (True, put ((files d)(p \<mapsto> \<lparr>bytes = contents, flushed = False\<rparr>)) d1)
   | (Failed, d1) \<Rightarrow> (False, d1)
   | (FailedAfter n, d1) \<Rightarrow> (False, put ((files d)(p \<mapsto> \<lparr>bytes = take n contents, flushed = False\<rparr>)) d1))"

definition sync_all :: "string \<Rightarrow> disk \<Rightarrow> bool \<times> disk" where
  "sync_all p d = (case take_outcome d of
     (Done, d1) \<Rightarrow> (True, put ((files d)(p := map_option (\<lambda>f. f\<lparr>flushed := True\<rparr>) (files d p))) d1)
   | (_, d1) \<Rightarrow> (False, d1))"

text \<open>A rename replaces its target in one step and fails when there is no source.\<close>

definition rename :: "string \<Rightarrow> string \<Rightarrow> disk \<Rightarrow> bool \<times> disk" where
  "rename a b d = (case take_outcome d of
     (Done, d1) \<Rightarrow> (case files d a of
        None \<Rightarrow> (False, d1)
      | Some f \<Rightarrow> (True, put ((files d)(a := None, b \<mapsto> f)) d1))
   | (_, d1) \<Rightarrow> (False, d1))"

definition copy :: "string \<Rightarrow> string \<Rightarrow> disk \<Rightarrow> bool \<times> disk" where
  "copy a b d = (case take_outcome d of (r, d1) \<Rightarrow>
     (case files d a of
        None \<Rightarrow> (False, d1)
      | Some f \<Rightarrow>
          (case r of
             Done \<Rightarrow> (True, put ((files d)(b \<mapsto> \<lparr>bytes = bytes f, flushed = False\<rparr>)) d1)
           | Failed \<Rightarrow> (False, d1)
           | FailedAfter n \<Rightarrow> (False, put ((files d)(b \<mapsto> \<lparr>bytes = take n (bytes f), flushed = False\<rparr>)) d1))))"

definition remove_file :: "string \<Rightarrow> disk \<Rightarrow> bool \<times> disk" where
  "remove_file p d = (case take_outcome d of
     (Done, d1) \<Rightarrow> (case files d p of None \<Rightarrow> (False, d1) | Some _ \<Rightarrow> (True, put ((files d)(p := None)) d1))
   | (_, d1) \<Rightarrow> (False, d1))"

text \<open>Opening the file again for a flush that may fail; \<open>let _ =\<close> around a removal.\<close>

definition reopen_sync :: "string \<Rightarrow> disk \<Rightarrow> disk" where
  "reopen_sync p d = (case take_outcome d of
     (Done, d1) \<Rightarrow> if path_exists p d then snd (sync_all p d1) else d1
   | (_, d1) \<Rightarrow> d1)"

definition try_remove :: "string \<Rightarrow> disk \<Rightarrow> disk" where
  "try_remove p d = snd (remove_file p d)"

section \<open>The atomic write\<close>

datatype write_error = MkdirFailed | CreateFailed | WriteFailed | SyncFailed | CopyFailed bool | RenameFailed "bool option"

definition tmp :: "string \<Rightarrow> string" where
  "tmp p = p @ ''.tmp''"

definition recovery_tmp :: "string \<Rightarrow> string" where
  "recovery_tmp p = p @ ''.recovery.tmp''"

definition bak :: "string \<Rightarrow> string" where
  "bak p = p @ ''.bak''"

text \<open>Five attempts on Windows, one elsewhere.\<close>

fun move_aside :: "nat \<Rightarrow> string \<Rightarrow> string \<Rightarrow> disk \<Rightarrow> bool \<times> disk" where
  "move_aside 0 p candidate d = (False, d)"
| "move_aside (Suc n) p candidate d =
     (case rename p candidate d of (True, d1) \<Rightarrow> (True, d1) | (False, d1) \<Rightarrow> move_aside n p candidate d1)"

text \<open>The last step: \<open>aside\<close> tells whether the prior file is now the backup.\<close>

definition swap_in :: "string \<Rightarrow> bool \<Rightarrow> bool \<Rightarrow> disk \<Rightarrow> (write_error + unit) \<times> disk" where
  "swap_in p prior_existed aside d =
     (case rename (recovery_tmp p) p d of
        (True, d1) \<Rightarrow> (let d2 = try_remove (tmp p) d1 in (Inr (), if aside then try_remove (bak p) d2 else d2))
      | (False, d1) \<Rightarrow> (Inl (RenameFailed (if aside then Some True else if prior_existed then Some False else None)), d1))"

definition rename_failed_fallback_copy :: "nat \<Rightarrow> string \<Rightarrow> disk \<Rightarrow> (write_error + unit) \<times> disk" where
  "rename_failed_fallback_copy attempts p d =
     (let d1 = try_remove (recovery_tmp p) d;
          prior_existed = path_exists p d1
      in case copy (tmp p) (recovery_tmp p) d1 of
        (False, d2) \<Rightarrow> (Inl (CopyFailed prior_existed), try_remove (recovery_tmp p) d2)
      | (True, d2) \<Rightarrow>
          let d3 = reopen_sync (recovery_tmp p) d2 in
          if prior_existed then
            (case move_aside attempts p (bak p) (try_remove (bak p) d3) of (aside, d4) \<Rightarrow> swap_in p True aside d4)
          else swap_in p False False d3)"

definition ensure_parent :: "disk \<Rightarrow> bool \<times> disk" where
  "ensure_parent d =
     (if parent_exists d then (True, d)
      else case take_outcome d of (Done, d1) \<Rightarrow> (True, d1\<lparr>parent_exists := True\<rparr>) | (_, d1) \<Rightarrow> (False, d1))"

definition write_atomic :: "nat \<Rightarrow> string \<Rightarrow> string \<Rightarrow> disk \<Rightarrow> (write_error + unit) \<times> disk" where
  "write_atomic attempts p contents d =
     (case ensure_parent d of
        (False, d1) \<Rightarrow> (Inl MkdirFailed, d1)
      | (True, d1) \<Rightarrow>
     (case create (tmp p) d1 of
        (False, d2) \<Rightarrow> (Inl CreateFailed, d2)
      | (True, d2) \<Rightarrow>
     (case write_all (tmp p) contents d2 of
        (False, d3) \<Rightarrow> (Inl WriteFailed, d3)
      | (True, d3) \<Rightarrow>
     (case sync_all (tmp p) d3 of
        (False, d4) \<Rightarrow> (Inl SyncFailed, d4)
      | (True, d4) \<Rightarrow>
     (case rename (tmp p) p d4 of
        (True, d5) \<Rightarrow> (Inr (), d5)
      | (False, d5) \<Rightarrow> rename_failed_fallback_copy attempts p d5)))))"

section \<open>Archives\<close>

text \<open>The name of an archive: kind, time, the counter of the process and, on a collision, a bump; without a parent directory
  also the number of the process. \<open>seq\<close> is the counter before the call.\<close>

definition archive_name :: "string option \<Rightarrow> nat \<Rightarrow> string \<Rightarrow> string \<Rightarrow> nat \<Rightarrow> nat \<Rightarrow> nat \<Rightarrow> string" where
  "archive_name parent pid base kind unix_ms seq bump =
     (let stem = base @ ''.'' @ kind @ ''-'' @ dec unix_ms @ ''-'' @ dec seq;
          alt = (if bump = 0 then [] else ''-'' @ dec bump)
      in case parent of
           Some dir \<Rightarrow> dir @ ''/'' @ stem @ alt @ ''.json''
         | None \<Rightarrow> stem @ ''-pid'' @ dec pid @ alt @ ''.json'')"

fun free_name :: "(nat \<Rightarrow> string) \<Rightarrow> nat \<Rightarrow> nat \<Rightarrow> disk \<Rightarrow> string" where
  "free_name name fuel bump d =
     (case fuel of
        0 \<Rightarrow> name bump
      | Suc n \<Rightarrow> if path_exists (name bump) d then free_name name n (Suc bump) d else name bump)"

definition pick_archive_path ::
  "string option \<Rightarrow> nat \<Rightarrow> nat option \<Rightarrow> string \<Rightarrow> string \<Rightarrow> nat \<Rightarrow> disk \<Rightarrow> string option \<times> nat \<times> disk" where
  "pick_archive_path parent pid unix_ms base kind seq d =
     (case (if parent = None then (True, d) else ensure_parent d) of
        (False, d1) \<Rightarrow> (None, seq, d1)
      | (True, d1) \<Rightarrow>
          let candidate = free_name (archive_name parent pid base kind (case unix_ms of Some t \<Rightarrow> t | None \<Rightarrow> 0) seq) 1000 0 d1
          in (if path_exists candidate d1 then None else Some candidate, Suc seq, d1))"

definition archive_aside :: "string \<Rightarrow> string \<Rightarrow> disk \<Rightarrow> bool \<times> disk" where
  "archive_aside src dst d =
     (case rename src dst d of
        (True, d1) \<Rightarrow> (True, d1)
      | (False, d1) \<Rightarrow>
          (case copy src dst d1 of
             (False, d2) \<Rightarrow> (False, d2)
           | (True, d2) \<Rightarrow> (True, try_remove src (reopen_sync dst d2))))"

section \<open>What a crash can leave\<close>

lemma siblings [simp]: "tmp p \<noteq> p" "p \<noteq> tmp p" "recovery_tmp p \<noteq> p" "p \<noteq> recovery_tmp p" "bak p \<noteq> p" "p \<noteq> bak p"
    "tmp p \<noteq> recovery_tmp p" "recovery_tmp p \<noteq> tmp p" "tmp p \<noteq> bak p" "bak p \<noteq> tmp p" "recovery_tmp p \<noteq> bak p"
    "bak p \<noteq> recovery_tmp p"
  by (simp_all add: tmp_def recovery_tmp_def bak_def)

text \<open>Every state passed through satisfies a predicate; a call that touches one file.\<close>

definition passes :: "((string \<Rightarrow> file_data option) \<Rightarrow> bool) \<Rightarrow> disk \<Rightarrow> disk \<Rightarrow> bool" where
  "passes P d d' \<longleftrightarrow> (\<exists>xs. past d' = past d @ xs \<and> list_all P xs)"

definition touches :: "string set \<Rightarrow> disk \<Rightarrow> disk \<Rightarrow> bool" where
  "touches A d d' \<longleftrightarrow> passes (\<lambda>fs. \<forall>q. q \<notin> A \<longrightarrow> fs q = files d q) d d' \<and> (\<forall>q. q \<notin> A \<longrightarrow> files d' q = files d q)"

lemma passes_refl [simp]: "passes P d d"
  by (simp add: passes_def)

lemma passes_trans: "passes P d d1 \<Longrightarrow> passes P d1 d2 \<Longrightarrow> passes P d d2"
  by (auto simp: passes_def)

lemma passes_mono: "passes P d d1 \<Longrightarrow> (\<And>fs. P fs \<Longrightarrow> Q fs) \<Longrightarrow> passes Q d d1"
  unfolding passes_def by (metis list.pred_mono_strong)

lemma touches_refl [simp]: "touches A d d"
  by (simp add: touches_def)

lemma touches_trans: "touches A d d1 \<Longrightarrow> touches A d1 d2 \<Longrightarrow> touches A d d2"
  unfolding touches_def by (auto elim!: passes_trans passes_mono)

lemma touches_more: "touches A d d1 \<Longrightarrow> A \<subseteq> B \<Longrightarrow> touches B d d1"
  unfolding touches_def by (auto elim!: passes_mono)

lemma touches_file: "touches A d d1 \<Longrightarrow> q \<notin> A \<Longrightarrow> files d1 q = files d q"
  by (simp add: touches_def)

lemma touches_passes: "touches A d d1 \<Longrightarrow> (\<And>fs. (\<And>q. q \<notin> A \<Longrightarrow> fs q = files d q) \<Longrightarrow> P fs) \<Longrightarrow> passes P d d1"
  unfolding touches_def by (auto elim: passes_mono)

lemma take_outcome_same [simp]: "take_outcome d = (x, d1) \<Longrightarrow> files d1 = files d \<and> past d1 = past d \<and> parent_exists d1 = parent_exists d"
  by (cases "outcomes d") (auto simp: take_outcome_def)

lemma touch_one:
  "create a d = (b, d1) \<Longrightarrow> touches {a} d d1" "write_all a c d = (b, d1) \<Longrightarrow> touches {a} d d1"
  "sync_all a d = (b, d1) \<Longrightarrow> touches {a} d d1" "remove_file a d = (b, d1) \<Longrightarrow> touches {a} d d1"
  "copy src a d = (b, d1) \<Longrightarrow> touches {a} d d1" "rename src a d = (b, d1) \<Longrightarrow> touches {src, a} d d1"
  by (auto simp: create_def write_all_def sync_all_def remove_file_def copy_def rename_def touches_def passes_def put_def
      dest: take_outcome_same split: prod.splits outcome.splits option.splits)

lemma touch_quiet: "touches {a} d (try_remove a d)" "touches {a} d (reopen_sync a d)"
proof -
  show "touches {a} d (try_remove a d)" using touch_one(4) by (metis prod.collapse try_remove_def)
  obtain x d1 where t: "take_outcome d = (x, d1)" by force
  then have s: "files d1 = files d" "past d1 = past d" by auto
  have "touches {a} d d1" using s by (simp add: touches_def passes_def)
  moreover have "touches {a} d1 (snd (sync_all a d1))" using touch_one(3) by (metis prod.collapse)
  ultimately show "touches {a} d (reopen_sync a d)"
    using t by (auto simp: reopen_sync_def elim: touches_trans split: outcome.split)
qed

text \<open>What a successful call leaves.\<close>

lemma op_results:
  "create a d = (True, d1) \<Longrightarrow> files d1 a = Some \<lparr>bytes = [], flushed = False\<rparr>"
  "write_all a c d = (True, d1) \<Longrightarrow> files d1 a = Some \<lparr>bytes = c, flushed = False\<rparr>"
  "sync_all a d = (True, d1) \<Longrightarrow> files d1 a = map_option (\<lambda>f. f\<lparr>flushed := True\<rparr>) (files d a)"
  "copy src a d = (True, d1) \<Longrightarrow> \<exists>f. files d src = Some f \<and> files d1 a = Some \<lparr>bytes = bytes f, flushed = False\<rparr>"
  "rename src a d = (True, d1) \<Longrightarrow> src \<noteq> a \<Longrightarrow> \<exists>f. files d src = Some f \<and> files d1 = (files d)(src := None, a \<mapsto> f) \<and>
     past d1 = past d @ [files d1]"
  "rename src a d = (False, d1) \<Longrightarrow> files d1 = files d \<and> past d1 = past d"
  by (auto simp: create_def write_all_def sync_all_def copy_def rename_def put_def dest: take_outcome_same
      split: prod.splits outcome.splits option.splits)

lemma ensure_parent_same: "ensure_parent d = (b, d1) \<Longrightarrow> files d1 = files d \<and> past d1 = past d"
  by (auto simp: ensure_parent_def split: if_splits prod.splits outcome.splits dest: take_outcome_same)

lemma reopen_sync_bytes: "map_option bytes (files (reopen_sync a d) a) = map_option bytes (files d a)"
  by (auto simp: reopen_sync_def sync_all_def put_def option.map_comp o_def dest!: take_outcome_same
      split: prod.split outcome.split)

lemma move_aside_result:
  assumes "move_aside n p q d = (aside, d1)" "p \<noteq> q"
  shows "if aside then \<exists>f. files d p = Some f \<and> files d1 = (files d)(p := None, q \<mapsto> f) \<and> past d1 = past d @ [files d1]
    else files d1 = files d \<and> past d1 = past d"
  using assms(1)
proof (induction n arbitrary: d)
  case (Suc n)
  obtain b d2 where r: "rename p q d = (b, d2)" by force
  show ?case
  proof (cases b)
    case True
    then show ?thesis using Suc.prems r op_results(5) [of p q d d2] assms(2) by auto
  next
    case False
    then have same: "files d2 = files d" "past d2 = past d" using r op_results(6) [of p q d d2] by auto
    have "move_aside n p q d2 = (aside, d1)" using Suc.prems r False by simp
    from Suc.IH [OF this] show ?thesis unfolding same .
  qed
qed simp

text \<open>
  The prior contents survive: the file is as it was, or it is complete and new, or it is missing while its backup is the prior file
  and the new contents are in the recovery file.
\<close>

definition has_bytes :: "string \<Rightarrow> file_data option \<Rightarrow> bool" where
  "has_bytes contents f \<longleftrightarrow> map_option bytes f = Some contents"

definition intact :: "string \<Rightarrow> file_data option \<Rightarrow> string \<Rightarrow> (string \<Rightarrow> file_data option) \<Rightarrow> bool" where
  "intact p prior contents fs \<longleftrightarrow> fs p = prior \<or> has_bytes contents (fs p) \<or>
     (fs p = None \<and> fs (bak p) = prior \<and> has_bytes contents (fs (recovery_tmp p)))"

text \<open>How the write ends.\<close>

definition ended :: "string \<Rightarrow> file_data option \<Rightarrow> string \<Rightarrow> write_error + unit \<Rightarrow> (string \<Rightarrow> file_data option) \<Rightarrow> bool" where
  "ended p prior contents r fs \<longleftrightarrow> (case r of
     Inr _ \<Rightarrow> has_bytes contents (fs p)
   | Inl _ \<Rightarrow> fs p = prior \<or> (fs p = None \<and> fs (bak p) = prior \<and> has_bytes contents (fs (recovery_tmp p))))"

lemma intact_passes:
  assumes "touches A d d1" "p \<notin> A" "files d p = prior \<or> has_bytes contents (files d p)"
  shows "passes (intact p prior contents) d d1"
  by (rule touches_passes [OF assms(1)]) (use assms(2,3) in \<open>auto simp: intact_def\<close>)

lemma swap_in_ends:
  assumes r: "swap_in p existed aside d = (r, d')"
    and rec: "has_bytes contents (files d (recovery_tmp p))"
    and st: "files d p = prior \<or> (aside \<and> files d p = None \<and> files d (bak p) = prior)"
  shows "passes (intact p prior contents) d d' \<and> ended p prior contents r (files d')"
proof -
  obtain b d1 where m: "rename (recovery_tmp p) p d = (b, d1)" by force
  show ?thesis
  proof (cases b)
    case True
    then obtain f where f: "files d (recovery_tmp p) = Some f" "files d1 = (files d)(recovery_tmp p := None, p \<mapsto> f)"
        "past d1 = past d @ [files d1]" using m op_results(5) [of "recovery_tmp p" p d d1] by auto
    have c: "has_bytes contents (files d1 p)" using f(1,2) rec by simp
    then have 1: "passes (intact p prior contents) d d1" using f(3) by (auto simp: passes_def intact_def)
    let ?d2 = "try_remove (tmp p) d1"
    let ?d3 = "if aside then try_remove (bak p) ?d2 else ?d2"
    have t2: "touches {tmp p} d1 ?d2" by (rule touch_quiet)
    have t3: "touches {bak p} ?d2 ?d3" using touch_quiet(1) by simp
    have c2: "has_bytes contents (files ?d2 p)" using touches_file [OF t2, of p] c by simp
    have c3: "has_bytes contents (files ?d3 p)" using touches_file [OF t3, of p] c2 by simp
    have "passes (intact p prior contents) d ?d3"
      by (rule passes_trans [OF 1 passes_trans [OF intact_passes [OF t2] intact_passes [OF t3]]]) (use c c2 in auto)
    then show ?thesis using r m True c3 by (auto simp: swap_in_def Let_def ended_def)
  next
    case False
    then have "files d1 = files d" "past d1 = past d" using m op_results(6) [of "recovery_tmp p" p d d1] by auto
    then show ?thesis using r m False rec st by (auto simp: swap_in_def ended_def passes_def)
  qed
qed

lemma fallback_ends:
  assumes r: "rename_failed_fallback_copy n p d = (r, d')"
    and t: "has_bytes contents (files d (tmp p))"
  shows "passes (intact p (files d p) contents) d d' \<and> ended p (files d p) contents r (files d')"
proof -
  let ?prior = "files d p"
  let ?d1 = "try_remove (recovery_tmp p) d"
  have t1: "touches {recovery_tmp p} d ?d1" by (rule touch_quiet)
  obtain b d2 where c: "copy (tmp p) (recovery_tmp p) ?d1 = (b, d2)" by force
  have t2: "touches {recovery_tmp p} d d2" using touches_trans [OF t1 touch_one(5) [OF c]] .
  show ?thesis
  proof (cases b)
    case False
    have "touches {recovery_tmp p} d (try_remove (recovery_tmp p) d2)" by (rule touches_trans [OF t2 touch_quiet(1)])
    then show ?thesis using r c False intact_passes [of "{recovery_tmp p}" d d' p ?prior contents]
      by (auto simp: rename_failed_fallback_copy_def Let_def ended_def touches_file)
  next
    case True
    let ?d3 = "reopen_sync (recovery_tmp p) d2"
    have "has_bytes contents (files d2 (recovery_tmp p))"
      using op_results(4) [of "tmp p" "recovery_tmp p" ?d1 d2] c True touches_file [OF t1, of "tmp p"] t by (auto simp: has_bytes_def)
    then have rec3: "has_bytes contents (files ?d3 (recovery_tmp p))"
      using reopen_sync_bytes [of "recovery_tmp p" d2] by (simp add: has_bytes_def)
    have t3: "touches {recovery_tmp p} d ?d3" by (rule touches_trans [OF t2 touch_quiet(2)])
    have p3: "files ?d3 p = ?prior" using touches_file [OF t3, of p] by simp
    have 3: "passes (intact p ?prior contents) d ?d3" by (rule intact_passes [OF t3]) simp_all
    have e: "path_exists p ?d1 \<longleftrightarrow> ?prior \<noteq> None" using touches_file [OF t1, of p] by (simp add: path_exists_def)
    show ?thesis
    proof (cases "path_exists p ?d1")
      case False
      then have "swap_in p False False ?d3 = (r, d')" using r c True by (simp add: rename_failed_fallback_copy_def Let_def)
      from swap_in_ends [OF this rec3] p3 passes_trans [OF 3] show ?thesis by blast
    next
      case old: True
      let ?d4 = "try_remove (bak p) ?d3"
      have t4: "touches {bak p} ?d3 ?d4" by (rule touch_quiet)
      obtain aside d5 where m: "move_aside n p (bak p) ?d4 = (aside, d5)" by force
      have sw: "swap_in p True aside d5 = (r, d')" using r c True old m by (simp add: rename_failed_fallback_copy_def Let_def)
      have f4: "files ?d4 p = ?prior" "files ?d4 (recovery_tmp p) = files ?d3 (recovery_tmp p)"
        using touches_file [OF t4] p3 by simp_all
      have 4: "passes (intact p ?prior contents) d ?d4"
        by (rule passes_trans [OF 3 intact_passes [OF t4]]) (use p3 in simp_all)
      have 5: "passes (intact p ?prior contents) ?d4 d5" "has_bytes contents (files d5 (recovery_tmp p))"
          "files d5 p = ?prior \<or> (aside \<and> files d5 p = None \<and> files d5 (bak p) = ?prior)"
        using move_aside_result [OF m] f4 rec3 by (cases aside; auto simp: passes_def intact_def)+
      from swap_in_ends [OF sw 5(2,3)] passes_trans [OF passes_trans [OF 4 5(1)]] show ?thesis by blast
    qed
  qed
qed

text \<open>C33: A crash at any moment of an atomic write finds the prior file untouched, or the complete new one, or no file but the prior
  one as its backup and the complete new one beside it; never a partial file. The write succeeds only with the complete new
  file in place, and a failed write leaves the prior file in place or as the backup. Every call of the file system may fail.\<close>

theorem write_atomic_intact:
  assumes "write_atomic n p contents d = (r, d')"
  shows "\<exists>xs. past d' = past d @ xs \<and> list_all (intact p (files d p) contents) xs \<and> ended p (files d p) contents r (files d')"
proof -
  let ?I = "intact p (files d p) contents"
  obtain b1 d1 where 1: "ensure_parent d = (b1, d1)" by force
  have s1: "files d1 = files d" "past d1 = past d"
    using ensure_parent_same [OF 1] by auto
  then have t1: "touches {tmp p} d d1" by (simp add: touches_def passes_def)
  obtain b2 d2 where 2: "create (tmp p) d1 = (b2, d2)" by force
  have t2: "touches {tmp p} d d2" by (rule touches_trans [OF t1 touch_one(1) [OF 2]])
  obtain b3 d3 where 3: "write_all (tmp p) contents d2 = (b3, d3)" by force
  have t3: "touches {tmp p} d d3" by (rule touches_trans [OF t2 touch_one(2) [OF 3]])
  obtain b4 d4 where 4: "sync_all (tmp p) d3 = (b4, d4)" by force
  have t4: "touches {tmp p} d d4" by (rule touches_trans [OF t3 touch_one(3) [OF 4]])
  obtain b5 d5 where 5: "rename (tmp p) p d4 = (b5, d5)" by force
  have early: "passes ?I d e \<and> ended p (files d p) contents (Inl x) (files e)" if "touches {tmp p} d e" for e x
    using intact_passes [OF that, of p "files d p" contents] touches_file [OF that, of p] by (simp add: ended_def)
  have "passes ?I d d' \<and> ended p (files d p) contents r (files d')"
  proof (cases "b1 \<and> b2 \<and> b3 \<and> b4")
    case False
    then show ?thesis using assms 1 2 3 4 early [OF t1] early [OF t2] early [OF t3] early [OF t4]
      by (cases b1; cases b2; cases b3) (auto simp: write_atomic_def)
  next
    case True
    have f4: "files d4 (tmp p) = Some \<lparr>bytes = contents, flushed = True\<rparr>"
      using op_results(2) [of "tmp p" contents d2 d3] op_results(3) [of "tmp p" d3 d4] 3 4 True by simp
    have p4: "passes ?I d d4" "files d4 p = files d p" using early [OF t4] touches_file [OF t4, of p] by simp_all
    show ?thesis
    proof (cases b5)
      case renamed: True
      then have "files d5 p = Some \<lparr>bytes = contents, flushed = True\<rparr>" "past d5 = past d4 @ [files d5]"
        using op_results(5) [of "tmp p" p d4 d5] 5 f4 by auto
      moreover from this have "passes ?I d4 d5" by (auto simp: passes_def intact_def has_bytes_def)
      ultimately show ?thesis using assms 1 2 3 4 5 True renamed passes_trans [OF p4(1)]
        by (auto simp: write_atomic_def ended_def has_bytes_def)
    next
      case False
      then have s5: "files d5 = files d4" "past d5 = past d4" using op_results(6) [of "tmp p" p d4 d5] 5 by auto
      then have "passes ?I d4 d5" by (simp add: passes_def)
      moreover have "rename_failed_fallback_copy n p d5 = (r, d')"
        using assms 1 2 3 4 5 True False by (simp add: write_atomic_def)
      from fallback_ends [OF this, of contents] have "passes ?I d5 d' \<and> ended p (files d p) contents r (files d')"
        using f4 s5 p4(2) by (simp add: has_bytes_def)
      ultimately show ?thesis using passes_trans [OF p4(1)] passes_trans by blast
    qed
  qed
  then show ?thesis by (auto simp: passes_def)
qed

text \<open>A disk with the queue file, and a script of outcomes.\<close>

definition sample_disk :: "outcome list \<Rightarrow> disk" where
  "sample_disk os = \<lparr>files = [''q'' \<mapsto> \<lparr>bytes = ''old'', flushed = True\<rparr>], parent_exists = True, outcomes = os, past = []\<rparr>"

lemmas run_disk = sample_disk_def write_atomic_def ensure_parent_def create_def write_all_def sync_all_def rename_def copy_def
  remove_file_def take_outcome_def put_def rename_failed_fallback_copy_def try_remove_def path_exists_def reopen_sync_def swap_in_def
  Let_def

theorem write_atomic_intact_witness:
  "has_bytes ''new'' (files (snd (write_atomic 1 ''q'' ''new'' (sample_disk [Done, Done, Done, Failed]))) ''q'')"
proof -
  have "fst (write_atomic 1 ''q'' ''new'' (sample_disk [Done, Done, Done, Failed])) = Inr ()" by (simp add: run_disk)
  then obtain d' where w: "write_atomic 1 ''q'' ''new'' (sample_disk [Done, Done, Done, Failed]) = (Inr (), d')"
    by (metis prod.collapse)
  from write_atomic_intact [OF this] have "ended ''q'' (files (sample_disk [Done, Done, Done, Failed]) ''q'') ''new'' (Inr ()) (files d')"
    by blast
  then show ?thesis unfolding w ended_def by simp
qed

text \<open>A failed write can leave no file under the path: when the prior file was moved to the backup and the last rename fails, the
  caller is told of a failure while the path is empty and the prior bytes are only in the backup, which no loader reads.\<close>

theorem failed_write_displaces:
  "let (r, d') = write_atomic 1 ''q'' ''new'' (sample_disk [Done, Done, Done, Failed, Done, Done, Done, Done, Done, Done, Failed])
   in r = Inl (RenameFailed (Some True)) \<and> files d' ''q'' = None \<and>
      files d' ''q.bak'' = Some \<lparr>bytes = ''old'', flushed = True\<rparr>"
  by code_simp

section \<open>Archives\<close>

text \<open>Moving a file into the archive never destroys anything: the chosen name is unused, every other file keeps its contents at
  every step, the bytes of the source are at every step complete under the old or the new name, and a success leaves
  them in the archive. Every call of the file system may fail.\<close>

theorem archive_preserves:
  assumes pick: "pick_archive_path parent pid unix_ms base kind seq d = (Some dst, seq', d1)"
    and move: "archive_aside src dst d1 = (ok, d2)"
    and f: "files d src = Some f"
  shows "files d dst = None \<and> seq' = Suc seq \<and> (ok \<longrightarrow> has_bytes (bytes f) (files d2 dst)) \<and>
    (\<exists>xs. past d2 = past d @ xs \<and>
      list_all (\<lambda>fs. (has_bytes (bytes f) (fs src) \<or> has_bytes (bytes f) (fs dst)) \<and> (\<forall>q. q \<noteq> src \<and> q \<noteq> dst \<longrightarrow> fs q = files d q)) xs)"
proof -
  let ?P = "\<lambda>fs. (has_bytes (bytes f) (fs src) \<or> has_bytes (bytes f) (fs dst)) \<and> (\<forall>q. q \<noteq> src \<and> q \<noteq> dst \<longrightarrow> fs q = files d q)"
  have "files d1 = files d \<and> past d1 = past d \<and> files d1 dst = None \<and> seq' = Suc seq"
  proof -
    obtain b e where e: "(if parent = None then (True, d) else ensure_parent d) = (b, e)" by force
    then have same: "files e = files d" "past e = past d" using ensure_parent_same by (auto split: if_splits)
    have "d1 = e \<and> files e dst = None \<and> seq' = Suc seq"
      using pick e by (cases b) (auto simp: pick_archive_path_def path_exists_def Let_def split: if_splits)
    then show ?thesis using same by simp
  qed
  then have s1: "files d1 = files d" "past d1 = past d" "files d dst = None" "seq' = Suc seq" by auto
  then have ne: "src \<noteq> dst" using f by auto
  obtain b e where r: "rename src dst d1 = (b, e)" by force
  have "(ok \<longrightarrow> has_bytes (bytes f) (files d2 dst)) \<and> passes ?P d1 d2"
  proof (cases b)
    case True
    then show ?thesis using r move op_results(5) [of src dst d1 e] ne f s1
      by (auto simp: archive_aside_def passes_def has_bytes_def)
  next
    case False
    then have e: "files e = files d" "past e = past d1" using r op_results(6) [of src dst d1 e] s1 by auto
    obtain c g where c: "copy src dst e = (c, g)" by force
    have t: "touches {dst} e g" by (rule touch_one(5) [OF c])
    have pg: "passes ?P e g" by (rule touches_passes [OF t]) (use ne f e in \<open>auto simp: has_bytes_def\<close>)
    have p1: "passes ?P d1 e" using e by (simp add: passes_def)
    show ?thesis
    proof (cases c)
      case True
      let ?h = "reopen_sync dst g"
      have "has_bytes (bytes f) (files g dst)" using op_results(4) [of src dst e g] c True e f by (auto simp: has_bytes_def)
      then have h: "has_bytes (bytes f) (files ?h dst)" using reopen_sync_bytes [of dst g] by (simp add: has_bytes_def)
      have th: "touches {dst} e ?h" by (rule touches_trans [OF t touch_quiet(2)])
      have ph: "passes ?P e ?h" by (rule touches_passes [OF th]) (use ne f e in \<open>auto simp: has_bytes_def\<close>)
      have tr: "touches {src} ?h (try_remove src ?h)" by (rule touch_quiet)
      have "passes ?P ?h (try_remove src ?h)"
        by (rule touches_passes [OF tr]) (use ne h touches_file [OF th] e in auto)
      moreover have "has_bytes (bytes f) (files (try_remove src ?h) dst)" using touches_file [OF tr, of dst] ne h by simp
      moreover have "ok" "d2 = try_remove src ?h" using move r False c True by (simp_all add: archive_aside_def)
      ultimately show ?thesis using passes_trans [OF p1 passes_trans [OF ph]] by blast
    next
      case cf: False
      then have "\<not> ok" "d2 = g" using move r False c by (simp_all add: archive_aside_def)
      then show ?thesis using passes_trans [OF p1 pg] by blast
    qed
  qed
  then show ?thesis using s1 by (simp add: passes_def)
qed

lemma sample_numbers: "dec 5 = ''5''" "dec 0 = ''0''"
  by code_simp+

theorem archive_preserves_witness:
  "has_bytes ''old'' (files (snd (archive_aside ''q'' ''data/q.corrupt-5-0.json'' (sample_disk [Failed]))) ''data/q.corrupt-5-0.json'')"
proof -
  have "pick_archive_path (Some ''data'') 1 (Some 5) ''q'' ''corrupt'' 0 (sample_disk [Failed]) =
      (Some ''data/q.corrupt-5-0.json'', 1, sample_disk [Failed])"
    using sample_numbers by (simp add: pick_archive_path_def archive_name_def run_disk)
  moreover obtain d2 where m: "archive_aside ''q'' ''data/q.corrupt-5-0.json'' (sample_disk [Failed]) = (True, d2)"
    by (simp add: archive_aside_def run_disk)
  moreover have "files (sample_disk [Failed]) ''q'' = Some \<lparr>bytes = ''old'', flushed = True\<rparr>" by (simp add: sample_disk_def)
  ultimately show ?thesis using archive_preserves by fastforce
qed

end
