(* ===== verification/Journal.thy ===== *)
theory Journal
  imports File_Writes Order_Queue
begin

text \<open>
  The journal of chest operations (\<^verbatim>\<open>src/store/journal.rs\<close>) and its use at the start of the bot (\<^verbatim>\<open>src/bot/mod.rs\<close>). The state is
  the journal in memory together with its file, the archived files and the backup of the file utilities. How a write or a
  move into the archive ends is given; \<^verbatim>\<open>File_Writes\<close> shows that these are the ends there are.
\<close>

section \<open>Entries and files\<close>

datatype journal_op = WithdrawFromChest | DepositToChest

datatype journal_state = ShulkerTaken | ShulkerOnStation | ItemsTransferred | ShulkerPickedUp | ShulkerReplaced

record journal_entry =
  operation_id :: u64
  operation_type :: journal_op
  je_chest_id :: int
  slot_index :: nat
  je_state :: journal_state

type_synonym journal_file = "journal_entry list file_state"

record journal =
  entry :: "journal_entry option"
  restored_leftover :: bool
  j_file :: journal_file
  archives :: "journal_file list"
  backup :: journal_file
  next_operation_id :: u64

text \<open>A write succeeds, fails with the prior file in place, or fails after the prior file became the backup. A move into the
  archive succeeds, leaves the original behind, or fails; without a file it fails.\<close>

datatype write_end = Written | NotWritten | Displaced

datatype archive_end = Moved | CopiedOnly | NotMoved

definition written_form :: "journal_entry option \<Rightarrow> journal_entry list" where
  "written_form x = (case x of Some e \<Rightarrow> [e] | None \<Rightarrow> [])"

definition persist_journal :: "write_end \<Rightarrow> journal \<Rightarrow> bool \<times> journal" where
  "persist_journal w j =
     (case w of
        Written \<Rightarrow> (True, j\<lparr>j_file := Parsed (written_form (entry j))\<rparr>)
      | NotWritten \<Rightarrow> (False, j)
      | Displaced \<Rightarrow> (False, if j_file j = Absent then j else j\<lparr>j_file := Absent, backup := j_file j\<rparr>))"

definition archive_journal :: "archive_end \<Rightarrow> journal \<Rightarrow> bool \<times> journal" where
  "archive_journal a j =
     (if j_file j = Absent then (False, j)
      else case a of
        Moved \<Rightarrow> (True, j\<lparr>j_file := Absent, archives := archives j @ [j_file j]\<rparr>)
      | CopiedOnly \<Rightarrow> (True, j\<lparr>archives := archives j @ [j_file j]\<rparr>)
      | NotMoved \<Rightarrow> (False, j))"

section \<open>Loading and the start of the bot\<close>

text \<open>An unreadable file that cannot be moved is the only error of the loader.\<close>

definition load_journal :: "archive_end \<Rightarrow> journal \<Rightarrow> (unit + journal_entry option) \<times> journal" where
  "load_journal a j =
     (let fresh = j\<lparr>entry := None, restored_leftover := False\<rparr> in
      case j_file j of
        Absent \<Rightarrow> (Inr None, fresh)
      | Unreadable \<Rightarrow>
          (case archive_journal a fresh of (True, j1) \<Rightarrow> (Inr None, j1) | (False, j1) \<Rightarrow> (Inl (), j1))
      | Malformed \<Rightarrow> (Inr None, snd (archive_journal a fresh))
      | Parsed es \<Rightarrow>
          (Inr (if es = [] then None else Some (last es)),
           if 1 < length es then snd (archive_journal a fresh) else fresh))"

definition restore_leftover :: "journal_entry \<Rightarrow> journal \<Rightarrow> journal" where
  "restore_leftover e j = j\<lparr>entry := Some e, restored_leftover := True\<rparr>"

text \<open>The start archives what the previous run left, or takes it back into the journal.\<close>

definition start_journal :: "archive_end \<Rightarrow> archive_end \<Rightarrow> journal \<Rightarrow> journal" where
  "start_journal a1 a2 j =
     (case load_journal a1 j of
        (Inr (Some e), j1) \<Rightarrow>
          (case archive_journal a2 j1 of (True, j2) \<Rightarrow> j2 | (False, j2) \<Rightarrow> restore_leftover e j2)
      | (_, j1) \<Rightarrow> j1)"

section \<open>Operations\<close>

definition begin_entry :: "journal_op \<Rightarrow> int \<Rightarrow> nat \<Rightarrow> write_end \<Rightarrow> journal \<Rightarrow> u64 option \<times> journal" where
  "begin_entry op chest slot w j =
     (let i = next_operation_id j;
          new_entry = \<lparr>operation_id = i, operation_type = op, je_chest_id = chest, slot_index = slot, je_state = ShulkerTaken\<rparr>;
          j1 = j\<lparr>entry := Some new_entry, next_operation_id := i + 1\<rparr>
      in case persist_journal w j1 of
           (True, j2) \<Rightarrow> (Some i, j2)
         | (False, j2) \<Rightarrow> (None, j2\<lparr>entry := entry j\<rparr>))"

definition journal_begin :: "journal_op \<Rightarrow> int \<Rightarrow> nat \<Rightarrow> archive_end \<Rightarrow> write_end \<Rightarrow> journal \<Rightarrow> u64 option \<times> journal" where
  "journal_begin op chest slot a w j =
     (if restored_leftover j then
        (case archive_journal a j of
           (False, j1) \<Rightarrow> (None, j1)
         | (True, j1) \<Rightarrow> begin_entry op chest slot w (j1\<lparr>restored_leftover := False\<rparr>))
      else begin_entry op chest slot w j)"

definition journal_advance :: "journal_state \<Rightarrow> write_end \<Rightarrow> journal \<Rightarrow> bool \<times> journal" where
  "journal_advance st w j =
     (case entry j of
        None \<Rightarrow> (True, j)
      | Some e \<Rightarrow>
          (case persist_journal w (j\<lparr>entry := Some (e\<lparr>je_state := st\<rparr>)\<rparr>) of
             (True, j1) \<Rightarrow> (True, j1)
           | (False, j1) \<Rightarrow> (False, j1\<lparr>entry := Some e\<rparr>)))"

definition journal_complete :: "write_end \<Rightarrow> journal \<Rightarrow> bool \<times> journal" where
  "journal_complete w j = persist_journal w (j\<lparr>entry := None\<rparr>)"

text \<open>The state is only recorded for the log: the entry is gone when the write succeeds and back as it was when it fails.\<close>

definition complete_with_state :: "journal_state \<Rightarrow> write_end \<Rightarrow> journal \<Rightarrow> bool \<times> journal" where
  "complete_with_state st w j =
     (let prior_state = map_option je_state (entry j);
          old_entry = map_option (\<lambda>e. e\<lparr>je_state := st\<rparr>) (entry j)
      in case persist_journal w (j\<lparr>entry := None\<rparr>) of
           (True, j1) \<Rightarrow> (True, j1)
         | (False, j1) \<Rightarrow>
             (False, j1\<lparr>entry := (case (old_entry, prior_state) of
                (Some e, Some s) \<Rightarrow> Some (e\<lparr>je_state := s\<rparr>) | _ \<Rightarrow> old_entry)\<rparr>))"

definition clear_leftover :: "write_end \<Rightarrow> journal \<Rightarrow> bool \<times> journal" where
  "clear_leftover w j = persist_journal w (j\<lparr>entry := None\<rparr>)"

section \<open>Calls of the bot\<close>

datatype journal_call =
    BeginCall journal_op int nat archive_end write_end
  | AdvanceCall journal_state write_end
  | CompleteCall journal_state write_end

fun call_journal :: "journal_call \<Rightarrow> journal \<Rightarrow> bool \<times> journal" where
  "call_journal (BeginCall op chest slot a w) j =
     (case journal_begin op chest slot a w j of (r, j1) \<Rightarrow> (r \<noteq> None, j1))"
| "call_journal (AdvanceCall st w) j = journal_advance st w j"
| "call_journal (CompleteCall st w) j = complete_with_state st w j"

definition journal_run :: "journal_call list \<Rightarrow> journal \<Rightarrow> journal" where
  "journal_run cs j = fold (\<lambda>c j. snd (call_journal c j)) cs j"

text \<open>The bot advances and completes only after a begin that succeeded.\<close>

fun bot_calls :: "bool \<Rightarrow> journal_call list \<Rightarrow> journal \<Rightarrow> bool" where
  "bot_calls begun [] j = True"
| "bot_calls begun (c # cs) j \<longleftrightarrow>
     (case c of
        BeginCall _ _ _ _ _ \<Rightarrow> bot_calls (fst (call_journal c j)) cs (snd (call_journal c j))
      | _ \<Rightarrow> begun \<and> bot_calls begun cs (snd (call_journal c j)))"

section \<open>Properties\<close>

lemma persist_fields [simp]:
  "entry (snd (persist_journal w j)) = entry j" "restored_leftover (snd (persist_journal w j)) = restored_leftover j"
  "archives (snd (persist_journal w j)) = archives j"
  by (cases w; simp add: persist_journal_def)+

lemma begin_fields:
  "restored_leftover (snd (begin_entry op c n w j)) = restored_leftover j" "archives (snd (begin_entry op c n w j)) = archives j"
  by (cases w; simp add: begin_entry_def persist_journal_def Let_def)+

lemma update_fields:
  "restored_leftover (snd (journal_advance st w j)) = restored_leftover j" "archives (snd (journal_advance st w j)) = archives j"
  "restored_leftover (snd (complete_with_state st w j)) = restored_leftover j" "archives (snd (complete_with_state st w j)) = archives j"
  by (cases w; simp add: journal_advance_def complete_with_state_def persist_journal_def Let_def split: option.split)+

text \<open>The file of an interrupted run is archived, or it is in place and the next begin must archive it first.\<close>

definition evidence :: "journal_file \<Rightarrow> bool \<Rightarrow> journal \<Rightarrow> bool" where
  "evidence f begun j \<longleftrightarrow> f \<in> set (archives j) \<or> (j_file j = f \<and> restored_leftover j \<and> \<not> begun)"

lemma begin_evidence:
  assumes "evidence f begun j" "f \<noteq> Absent"
  shows "case journal_begin op c n a w j of (r, j1) \<Rightarrow> evidence f (r \<noteq> None) j1"
proof (cases "restored_leftover j")
  case True
  show ?thesis
  proof (cases "archive_journal a j")
    case (Pair b j1)
    show ?thesis
    proof (cases b)
      case moved: True
      then have "f \<in> set (archives j1)"
        using Pair assms by (auto simp: archive_journal_def evidence_def split: if_splits archive_end.splits)
      then show ?thesis using True Pair moved begin_fields(2) [of op c n w "j1\<lparr>restored_leftover := False\<rparr>"]
        by (auto simp: journal_begin_def evidence_def split: prod.split)
    next
      case False
      then have "j1 = j" using Pair by (auto simp: archive_journal_def split: if_splits archive_end.splits)
      then show ?thesis using True Pair False assms by (auto simp: journal_begin_def evidence_def)
    qed
  qed
next
  case False
  then show ?thesis using assms begin_fields(2) [of op c n w j]
    by (auto simp: journal_begin_def evidence_def split: prod.split)
qed

lemma calls_evidence:
  "evidence f begun j \<Longrightarrow> f \<noteq> Absent \<Longrightarrow> bot_calls begun cs j \<Longrightarrow> \<exists>b. evidence f b (journal_run cs j)"
proof (induction cs arbitrary: begun j)
  case (Cons c cs)
  show ?case
  proof (cases c)
    case (BeginCall op ch n a w)
    obtain r j1 where r: "journal_begin op ch n a w j = (r, j1)" by force
    then have "evidence f (r \<noteq> None) j1" using begin_evidence [OF Cons.prems(1,2), of op ch n a w] by simp
    from Cons.IH [OF this Cons.prems(2)] show ?thesis using Cons.prems(3) BeginCall r by (simp add: journal_run_def)
  next
    case (AdvanceCall st w)
    then have "evidence f begun (snd (call_journal c j))" using Cons.prems(1,3) update_fields
      by (auto simp: evidence_def)
    from Cons.IH [OF this Cons.prems(2)] show ?thesis using Cons.prems(3) AdvanceCall by (cases begun) (auto simp: journal_run_def)
  next
    case (CompleteCall st w)
    then have "evidence f begun (snd (call_journal c j))" using Cons.prems(1,3) update_fields
      by (auto simp: evidence_def)
    from Cons.IH [OF this Cons.prems(2)] show ?thesis using Cons.prems(3) CompleteCall by (cases begun) (auto simp: journal_run_def)
  qed
qed (auto simp: journal_run_def)

lemma start_evidence:
  assumes "j_file j = Parsed (e # es)"
  shows "evidence (Parsed (e # es)) False (start_journal a1 a2 j)"
  using assms by (cases a1; cases a2)
    (auto simp: start_journal_def load_journal_def archive_journal_def restore_leftover_def evidence_def Let_def)

text \<open>C34: What an interrupted run left in the journal is never lost: after any start of the bot, and any calls in the order the bot
  makes them, whatever happens to writes and moves, the file is in the archive, or it is untouched in its place and the
  next operation cannot begin before it is archived.\<close>

theorem journal_evidence_kept:
  assumes "j_file j = Parsed (e # es)" "bot_calls False cs (start_journal a1 a2 j)"
  shows "Parsed (e # es) \<in> set (archives (journal_run cs (start_journal a1 a2 j))) \<or>
    (j_file (journal_run cs (start_journal a1 a2 j)) = Parsed (e # es) \<and> restored_leftover (journal_run cs (start_journal a1 a2 j)))"
  using calls_evidence [OF start_evidence [OF assms(1)] _ assms(2)] by (auto simp: evidence_def)

definition sample_entry :: journal_entry where
  "sample_entry = \<lparr>operation_id = 7, operation_type = DepositToChest, je_chest_id = 3, slot_index = 5, je_state = ShulkerOnStation\<rparr>"

definition sample_journal :: "journal_entry list \<Rightarrow> journal" where
  "sample_journal es = \<lparr>entry = None, restored_leftover = False, j_file = Parsed es, archives = [], backup = Absent, next_operation_id = 1\<rparr>"

theorem journal_evidence_kept_witness:
  "Parsed [sample_entry] \<in> set (archives (journal_run [BeginCall WithdrawFromChest 1 2 Moved Written]
     (start_journal Moved NotMoved (sample_journal [sample_entry]))))"
proof -
  let ?j = "start_journal Moved NotMoved (sample_journal [sample_entry])"
  let ?cs = "[BeginCall WithdrawFromChest 1 2 Moved Written]"
  have "bot_calls False ?cs ?j" by simp
  moreover have "\<not> restored_leftover (journal_run ?cs ?j)" by code_simp
  ultimately show ?thesis using journal_evidence_kept [of "sample_journal [sample_entry]" sample_entry "[]" ?cs Moved NotMoved]
    by (simp add: sample_journal_def)
qed

text \<open>Without a file, a journal that was taken back refuses every begin.\<close>

lemma stuck_calls:
  "restored_leftover j \<Longrightarrow> j_file j = Absent \<Longrightarrow> bot_calls False cs j \<Longrightarrow> journal_run cs j = j"
proof (induction cs arbitrary: j)
  case (Cons c cs)
  then show ?case by (cases c) (auto simp: journal_run_def journal_begin_def archive_journal_def)
qed (simp add: journal_run_def)

text \<open>C35: A journal file with more than one entry blocks the bot: the loader moves the file into the archive, the start then fails
  to archive it again and takes the entry back, and from then on every begin fails because there is no file left to
  archive, whatever calls were made before.\<close>

theorem journal_blocks_begin:
  assumes "j_file j = Parsed (e # e' # es)" "bot_calls False cs (start_journal Moved a j)"
  shows "fst (journal_begin op chest slot a' w (journal_run cs (start_journal Moved a j))) = None"
proof -
  have "restored_leftover (start_journal Moved a j)" "j_file (start_journal Moved a j) = Absent"
    using assms(1) by (auto simp: start_journal_def load_journal_def archive_journal_def restore_leftover_def Let_def)
  then show ?thesis using stuck_calls [OF _ _ assms(2)] by (simp add: journal_begin_def archive_journal_def)
qed

theorem journal_blocks_begin_witness:
  "fst (journal_begin WithdrawFromChest 1 2 Moved Written
     (journal_run [BeginCall DepositToChest 1 2 Moved Written] (start_journal Moved Moved (sample_journal [sample_entry, sample_entry])))) = None"
  by (rule journal_blocks_begin [of _ sample_entry sample_entry "[]"]) (simp_all add: sample_journal_def)

text \<open>The file shows the entry in memory, after every call whose write did not displace the file; a failed call changes
  neither.\<close>

definition mirrors :: "journal \<Rightarrow> bool" where
  "mirrors j \<longleftrightarrow> \<not> restored_leftover j \<and> (j_file j = Parsed (written_form (entry j)) \<or> (j_file j = Absent \<and> entry j = None))"

fun call_write :: "journal_call \<Rightarrow> write_end" where
  "call_write (BeginCall _ _ _ _ w) = w"
| "call_write (AdvanceCall _ w) = w"
| "call_write (CompleteCall _ w) = w"

theorem journal_mirrors:
  assumes "mirrors j" "call_write c \<noteq> Displaced"
  shows "mirrors (snd (call_journal c j))"
    and "\<not> fst (call_journal c j) \<Longrightarrow> entry (snd (call_journal c j)) = entry j \<and> j_file (snd (call_journal c j)) = j_file j"
proof -
  have same: "x\<lparr>je_state := t, je_state := je_state x\<rparr> = x" for x :: journal_entry and t by simp
  show "mirrors (snd (call_journal c j))" using assms
    by (cases c; cases "call_write c"; cases "entry j")
      (auto simp: mirrors_def journal_begin_def begin_entry_def journal_advance_def complete_with_state_def persist_journal_def
        written_form_def Let_def)
  show "\<not> fst (call_journal c j) \<Longrightarrow> entry (snd (call_journal c j)) = entry j \<and> j_file (snd (call_journal c j)) = j_file j"
    using assms by (cases c; cases "call_write c"; cases "entry j")
      (auto simp: mirrors_def journal_begin_def begin_entry_def journal_advance_def complete_with_state_def persist_journal_def
        written_form_def Let_def)
qed

end
