(* ===== verification/Web_Address.thy ===== *)
theory Web_Address
  imports Commands "HOL-Library.Word"
begin

unbundle bit_operations_syntax

text \<open>
  Internet addresses in \<^verbatim>\<open>src/chat/web.rs\<close>: the deny-list of the addresses a fetch may connect to, the strict
  reader of dotted quads, and the standard library's reader of IPv6 literals. An IPv4 address is its four octets, an IPv6
  address its eight segments. The deny-list is shown equal to a list of address blocks in CIDR form.
\<close>

section \<open>Addresses\<close>

datatype ipv4 = IPv4 "8 word" "8 word" "8 word" "8 word"

datatype ipv6 = IPv6 "16 word" "16 word" "16 word" "16 word" "16 word" "16 word" "16 word" "16 word"

datatype ip_addr = V4 ipv4 | V6 ipv6

fun is_denied_ipv4 :: "ipv4 \<Rightarrow> bool" where
  "is_denied_ipv4 (IPv4 a b c d) =
     (if a = 0 then True
      else if a = 127 then True
      else if a = 10 then True
      else if a = 172 \<and> 16 \<le> b \<and> b \<le> 31 then True
      else if a = 192 \<and> b = 168 then True
      else if a = 169 \<and> b = 254 then True
      else if a = 100 \<and> 64 \<le> b \<and> b \<le> 127 then True
      else if 224 \<le> a then True
      else if a = 255 \<and> b = 255 \<and> c = 255 \<and> d = 255 then True
      else if a = 192 \<and> b = 0 \<and> c = 0 then True
      else if a = 192 \<and> b = 88 \<and> c = 99 then True
      else if a = 198 \<and> (b = 18 \<or> b = 19) then True
      else if a = 192 \<and> b = 0 \<and> c = 2 then True
      else if a = 198 \<and> b = 51 \<and> c = 100 then True
      else if a = 203 \<and> b = 0 \<and> c = 113 then True
      else False)"

text \<open>\<open>(x >> 8) as u8\<close> and \<open>(x & 0xff) as u8\<close> of a segment.\<close>

definition high_octet :: "16 word \<Rightarrow> 8 word" where
  "high_octet x = ucast (drop_bit 8 x)"

definition low_octet :: "16 word \<Rightarrow> 8 word" where
  "low_octet x = ucast (x AND 0xff)"

definition octets_of :: "16 word \<Rightarrow> 16 word \<Rightarrow> ipv4" where
  "octets_of x y = IPv4 (high_octet x) (low_octet x) (high_octet y) (low_octet y)"

fun is_denied_ipv6 :: "ipv6 \<Rightarrow> bool" where
  "is_denied_ipv6 (IPv6 s0 s1 s2 s3 s4 s5 s6 s7) =
     (let low_zero = s0 = 0 \<and> s1 = 0 \<and> s2 = 0 \<and> s3 = 0 \<and> s4 = 0;
          is_loopback = low_zero \<and> s5 = 0 \<and> s6 = 0 \<and> s7 = 1;
          is_unspecified = low_zero \<and> s5 = 0 \<and> s6 = 0 \<and> s7 = 0;
          is_multicast = (s0 AND 0xff00) = 0xff00
      in if is_loopback \<or> is_unspecified \<or> is_multicast then True
         else if (s0 AND 0xfe00) = 0xfc00 then True
         else if (s0 AND 0xffc0) = 0xfe80 then True
         else if (s0 AND 0xffc0) = 0xfec0 then True
         else if s0 = 0x0064 \<and> s1 = 0xff9b \<and> s2 = 0 \<and> s3 = 0 \<and> s4 = 0 \<and> s5 = 0 then True
         else if low_zero \<and> s5 = 0xffff \<and> is_denied_ipv4 (octets_of s6 s7) then True
         else if low_zero \<and> s5 = 0 \<and> is_denied_ipv4 (octets_of s6 s7) then True
         else if s0 = 0x2002 \<and> is_denied_ipv4 (octets_of s1 s2) then True
         else if s0 = 0x2001 \<and> s1 = 0 \<and> is_denied_ipv4
             (IPv4 (NOT (high_octet s6)) (NOT (low_octet s6)) (NOT (high_octet s7)) (NOT (low_octet s7))) then True
         else False)"

fun is_denied_ip :: "ip_addr \<Rightarrow> bool" where
  "is_denied_ip (V4 ip) = is_denied_ipv4 ip"
| "is_denied_ip (V6 ip) = is_denied_ipv6 ip"

section \<open>Blocks\<close>

text \<open>The number an address is, and the blocks \<open>base/bits\<close> of addresses with a common prefix.\<close>

fun value4 :: "ipv4 \<Rightarrow> nat" where
  "value4 (IPv4 a b c d) = ((unat a * 256 + unat b) * 256 + unat c) * 256 + unat d"

fun value6 :: "ipv6 \<Rightarrow> nat" where
  "value6 (IPv6 s0 s1 s2 s3 s4 s5 s6 s7) =
     ((((((unat s0 * 65536 + unat s1) * 65536 + unat s2) * 65536 + unat s3) * 65536 + unat s4) * 65536 + unat s5) * 65536
        + unat s6) * 65536 + unat s7"

definition in_block :: "nat \<Rightarrow> nat \<Rightarrow> nat \<times> nat \<Rightarrow> bool" where
  "in_block width v block \<longleftrightarrow> v div 2 ^ (width - snd block) = fst block div 2 ^ (width - snd block)"

definition quad :: "nat \<Rightarrow> nat \<Rightarrow> nat \<Rightarrow> nat \<Rightarrow> nat" where
  "quad a b c d = ((a * 256 + b) * 256 + c) * 256 + d"

definition denied_blocks4 :: "(nat \<times> nat) list" where
  "denied_blocks4 =
     [(quad 0 0 0 0, 8), (quad 10 0 0 0, 8), (quad 100 64 0 0, 10), (quad 127 0 0 0, 8), (quad 169 254 0 0, 16),
      (quad 172 16 0 0, 12), (quad 192 0 0 0, 24), (quad 192 0 2 0, 24), (quad 192 88 99 0, 24), (quad 192 168 0 0, 16),
      (quad 198 18 0 0, 15), (quad 198 51 100 0, 24), (quad 203 0 113 0, 24), (quad 224 0 0 0, 3)]"

lemma octet_range: "unat (a :: 8 word) < 256"
  using unsigned_less [of a] by simp

lemma octet_div: "d < 256 \<Longrightarrow> (x * 256 + d) div 256 = (x :: nat)"
  by simp

lemma quad_div:
  assumes "b < 256" "c < 256" "d < 256"
  shows "quad a b c d div 256 = (a * 256 + b) * 256 + c"
    "quad a b c d div 65536 = a * 256 + b"
    "quad a b c d div 16777216 = a"
proof -
  show q1: "quad a b c d div 256 = (a * 256 + b) * 256 + c"
    using assms(3) by (simp add: quad_def)
  have "quad a b c d div (256 * 256) = ((a * 256 + b) * 256 + c) div 256"
    by (simp only: div_mult2_eq q1)
  then show q2: "quad a b c d div 65536 = a * 256 + b"
    using assms(2) by simp
  have "quad a b c d div (65536 * 256) = (a * 256 + b) div 256"
    by (simp only: div_mult2_eq q2)
  then show "quad a b c d div 16777216 = a"
    using assms(1) by simp
qed

lemma quad_part:
  assumes "b < 256" "c < 256" "d < 256"
  shows "quad a b c d div 131072 = (a * 256 + b) div 2"
    "quad a b c d div 1048576 = (a * 256 + b) div 16"
    "quad a b c d div 4194304 = (a * 256 + b) div 64"
    "quad a b c d div 536870912 = a div 32"
proof -
  have "quad a b c d div (65536 * 2) = (a * 256 + b) div 2" "quad a b c d div (65536 * 16) = (a * 256 + b) div 16"
    "quad a b c d div (65536 * 64) = (a * 256 + b) div 64" "quad a b c d div (16777216 * 32) = a div 32"
    by (simp_all only: div_mult2_eq quad_div [OF assms])
  then show "quad a b c d div 131072 = (a * 256 + b) div 2" "quad a b c d div 1048576 = (a * 256 + b) div 16"
    "quad a b c d div 4194304 = (a * 256 + b) div 64" "quad a b c d div 536870912 = a div 32" by simp_all
qed

lemma value4_quad: "value4 (IPv4 a b c d) = quad (unat a) (unat b) (unat c) (unat d)"
  by (simp add: quad_def)

lemma digit_unique:
  assumes "x < n" "y < (n :: nat)"
  shows "a * n + x = m * n + y \<longleftrightarrow> a = m \<and> x = y"
proof
  assume e: "a * n + x = m * n + y"
  have "(a * n + x) div n = a" "(m * n + y) div n = m" "(a * n + x) mod n = x" "(m * n + y) mod n = y"
    using assms by simp_all
  with e show "a = m \<and> x = y" by metis
qed simp

lemma two_octets:
  assumes "b < 256" "m < (256 :: nat)"
  shows "a * 256 + b = n * 256 + m \<longleftrightarrow> a = n \<and> b = m"
    "(a * 256 + b) div 16 = (n * 256 + m) div 16 \<longleftrightarrow> a = n \<and> b div 16 = m div 16"
    "(a * 256 + b) div 64 = (n * 256 + m) div 64 \<longleftrightarrow> a = n \<and> b div 64 = m div 64"
    "(a * 256 + b) div 2 = (n * 256 + m) div 2 \<longleftrightarrow> a = n \<and> b div 2 = m div 2"
proof -
  show "a * 256 + b = n * 256 + m \<longleftrightarrow> a = n \<and> b = m" by (rule digit_unique [OF assms])
  have d: "(x * 256 + y) div 16 = x * 16 + y div 16" "(x * 256 + y) div 64 = x * 4 + y div 64"
    "(x * 256 + y) div 2 = x * 128 + y div 2" for x y :: nat
    by simp_all
  have "b div 16 < 16" "m div 16 < 16" "b div 64 < 4" "m div 64 < 4" "b div 2 < 128" "m div 2 < 128"
    using assms by simp_all
  then show "(a * 256 + b) div 16 = (n * 256 + m) div 16 \<longleftrightarrow> a = n \<and> b div 16 = m div 16"
    "(a * 256 + b) div 64 = (n * 256 + m) div 64 \<longleftrightarrow> a = n \<and> b div 64 = m div 64"
    "(a * 256 + b) div 2 = (n * 256 + m) div 2 \<longleftrightarrow> a = n \<and> b div 2 = m div 2"
    unfolding d by (auto intro!: digit_unique)
qed

lemma block24:
  assumes "b < 256" "c < 256" "d < 256" "m < 256" "k < 256"
  shows "in_block 32 (quad a b c d) (quad n m k 0, 24) \<longleftrightarrow> a = n \<and> b = m \<and> c = k"
proof -
  have "in_block 32 (quad a b c d) (quad n m k 0, 24) \<longleftrightarrow> quad a b c d div 256 = quad n m k 0 div 256"
    by (simp add: in_block_def)
  also have "\<dots> \<longleftrightarrow> (a * 256 + b) * 256 + c = (n * 256 + m) * 256 + k"
    using quad_div(1) [OF assms(1,2,3), of a] quad_div(1) [OF assms(4,5), of 0 n] by simp
  also have "\<dots> \<longleftrightarrow> a * 256 + b = n * 256 + m \<and> c = k" by (rule digit_unique [OF assms(2,5)])
  finally show ?thesis unfolding digit_unique [OF assms(1,4)] by simp
qed

lemma block_simps:
  assumes "b < 256" "c < 256" "d < 256" "m < 256" "k < 256"
  shows "in_block 32 (quad a b c d) (quad n 0 0 0, 8) \<longleftrightarrow> a = n"
    "in_block 32 (quad a b c d) (quad n m 0 0, 16) \<longleftrightarrow> a = n \<and> b = m"
    "in_block 32 (quad a b c d) (quad n m 0 0, 12) \<longleftrightarrow> a = n \<and> b div 16 = m div 16"
    "in_block 32 (quad a b c d) (quad n m 0 0, 10) \<longleftrightarrow> a = n \<and> b div 64 = m div 64"
    "in_block 32 (quad a b c d) (quad n m 0 0, 15) \<longleftrightarrow> a = n \<and> b div 2 = m div 2"
    "in_block 32 (quad a b c d) (quad n 0 0 0, 3) \<longleftrightarrow> a div 32 = n div 32"
  using assms unfolding in_block_def
  by (simp_all add: quad_div quad_part two_octets digit_unique conj_assoc)

lemma is_denied_ipv4_blocks: "is_denied_ipv4 ip \<longleftrightarrow> (\<exists>b \<in> set denied_blocks4. in_block 32 (value4 ip) b)"
proof (cases ip)
  case (IPv4 a b c d)
  have r: "unat a < 256" "unat b < 256" "unat c < 256" "unat d < 256"
    by (rule octet_range)+
  have q: "b = 18 \<or> b = 19 \<longleftrightarrow> unat b div 2 = 9" "16 \<le> b \<and> b \<le> 31 \<longleftrightarrow> unat b div 16 = 1"
    "64 \<le> b \<and> b \<le> 127 \<longleftrightarrow> unat b div 64 = 1" "224 \<le> a \<longleftrightarrow> unat a div 32 = 7"
    using r by (auto simp: word_le_nat_alt word_unat_eq_iff)
  show ?thesis
    unfolding IPv4 value4_quad denied_blocks4_def
    using r q
    by (auto simp: block_simps block24 word_unat_eq_iff)
qed

section \<open>IPv6\<close>

text \<open>
  The fixed IPv6 blocks, and the four ways an IPv6 address can carry an IPv4 address: mapped (\<open>::ffff:a.b.c.d\<close>), compatible
  (\<open>::a.b.c.d\<close>), 6to4 (after \<open>2002\<close>) and Teredo (complemented in the last 32 bits after \<open>2001:0\<close>).
\<close>

definition denied_blocks6 :: "(nat \<times> nat) list" where
  "denied_blocks6 =
     [(0, 128), (1, 128), (0xff00 * 2 ^ 112, 8), (0xfc00 * 2 ^ 112, 7), (0xfe80 * 2 ^ 112, 10), (0xfec0 * 2 ^ 112, 10),
      ((0x0064 * 65536 + 0xff9b) * 2 ^ 96, 96)]"

definition carries :: "nat \<Rightarrow> ipv4 \<Rightarrow> bool" where
  "carries v a \<longleftrightarrow> v = 0xffff * 2 ^ 32 + value4 a \<or> v = value4 a \<or> v div 2 ^ 80 = 0x2002 * 2 ^ 32 + value4 a \<or>
     v div 2 ^ 96 = 0x2001 * 65536 \<and> v mod 2 ^ 32 + value4 a = 2 ^ 32 - 1"

lemma segment_range: "unat (x :: 16 word) < 65536"
  using unsigned_less [of x] by simp

lemma unat_drop_segment: "unat (drop_bit n (x :: 16 word)) = unat x div 2 ^ n"
proof -
  have "unat (drop_bit n x) = drop_bit n (take_bit 16 (unat x))" by (simp only: unsigned_drop_bit_eq) simp
  then show ?thesis using segment_range [of x] by (simp add: drop_bit_eq_div take_bit_eq_mod)
qed

lemma unat_high_octet: "unat (high_octet x) = unat x div 256"
proof -
  have "unat x div 256 < 256" using segment_range [of x] by simp
  then show ?thesis
    unfolding high_octet_def unsigned_ucast_eq unat_drop_segment by (simp add: take_bit_eq_mod)
qed

lemma unat_low_octet: "unat (low_octet x) = unat x mod 256"
proof -
  have "x AND mask 8 = take_bit 8 x" by (simp add: take_bit_eq_mask)
  then have "x AND 0xff = take_bit 8 x" by (simp add: mask_eq_exp_minus_1)
  then have "unat (x AND 0xff) = take_bit 8 (unat x)" by (simp only: unsigned_take_bit_eq)
  then show ?thesis
    unfolding low_octet_def unsigned_ucast_eq by (simp add: take_bit_eq_mod)
qed

lemma value_octets_of: "value4 (octets_of x y) = unat x * 65536 + unat y"
proof -
  have "unat x div 256 * 256 + unat x mod 256 = unat x" "unat y div 256 * 256 + unat y mod 256 = unat y" by simp_all
  then show ?thesis by (simp add: octets_of_def unat_high_octet unat_low_octet algebra_simps)
qed

lemma unat_NOT_octet: "unat (NOT (x :: 8 word)) = 255 - unat x"
proof -
  have "NOT x = 255 - x" by (simp add: not_eq_complement)
  then show ?thesis using octet_range [of x] by (simp add: unat_sub_if')
qed

text \<open>A masked comparison of a segment is a comparison of its leading bits.\<close>

lemma leading_bits:
  assumes "n \<le> 16" "m = 65536 - 2 ^ n"
  shows "unat ((s :: 16 word) AND word_of_nat m) = unat s div 2 ^ n * 2 ^ n"
proof -
  have "word_of_nat m = (NOT (mask n) :: 16 word)"
  proof -
    have "word_of_nat m + (2 :: 16 word) ^ n = word_of_nat (m + 2 ^ n)" by simp
    also have "m + 2 ^ n = 65536" using assms power_increasing [of n 16 "2::nat"] by simp
    also have "(word_of_nat 65536 :: 16 word) = 0" by simp
    finally have "word_of_nat m = (- (2 ^ n) :: 16 word)" by (simp add: eq_neg_iff_add_eq_0)
    then show ?thesis by (simp add: not_eq_complement mask_eq_exp_minus_1)
  qed
  then have "s AND word_of_nat m = push_bit n (drop_bit n s)"
    by (intro bit_word_eqI) (auto simp: bit_simps)
  then have "unat (s AND word_of_nat m) = take_bit 16 (push_bit n (unat s div 2 ^ n))"
    by (simp only: unsigned_push_bit_eq unat_drop_segment) simp
  moreover have "unat s div 2 ^ n * 2 ^ n < 65536"
    using segment_range [of s] by (meson div_times_less_eq_dividend le_less_trans)
  ultimately show ?thesis by (simp add: push_bit_eq_mult take_bit_eq_mod)
qed

lemma masks:
  "(s AND 0xff00) = (0xff00 :: 16 word) \<longleftrightarrow> unat s div 256 = 255"
  "(s AND 0xfe00) = (0xfc00 :: 16 word) \<longleftrightarrow> unat s div 512 = 126"
  "(s AND 0xffc0) = (0xfe80 :: 16 word) \<longleftrightarrow> unat s div 64 = 1018"
  "(s AND 0xffc0) = (0xfec0 :: 16 word) \<longleftrightarrow> unat s div 64 = 1019"
  using leading_bits [of 8 65280 s] leading_bits [of 9 65024 s] leading_bits [of 6 65472 s]
  by (simp_all add: word_unat_eq_iff)

lemma value4_inj: "value4 x = value4 y \<longleftrightarrow> x = y"
proof
  assume v: "value4 x = value4 y"
  obtain a b c d where x: "x = IPv4 a b c d" by (cases x)
  obtain a' b' c' d' where y: "y = IPv4 a' b' c' d'" by (cases y)
  from v show "x = y"
    unfolding x y value4.simps digit_unique [OF octet_range octet_range] by (simp add: word_unat_eq_iff)
qed simp

lemma value4_range: "value4 x < 2 ^ 32"
proof (cases x)
  case (IPv4 a b c d)
  show ?thesis
    unfolding IPv4 value4.simps
    using octet_range [of a] octet_range [of b] octet_range [of c] octet_range [of d] by simp
qed

fun high_segments :: "ipv6 \<Rightarrow> nat" where
  "high_segments (IPv6 s0 s1 s2 s3 s4 s5 s6 s7) =
     ((((unat s0 * 65536 + unat s1) * 65536 + unat s2) * 65536 + unat s3) * 65536 + unat s4) * 65536 + unat s5"

lemma value6_split:
  "value6 (IPv6 s0 s1 s2 s3 s4 s5 s6 s7) =
     high_segments (IPv6 s0 s1 s2 s3 s4 s5 s6 s7) * 2 ^ 32 + value4 (octets_of s6 s7)"
  unfolding value_octets_of by simp

lemma same_digits:
  assumes "value4 a < n" "value4 b < n"
  shows "x * n + value4 a = y * n + value4 b \<longleftrightarrow> x = y \<and> a = b"
  using digit_unique [OF assms] value4_inj by simp

lemma digit_div_mod:
  assumes "x < (n :: nat)"
  shows "(h * n + x) div n = h" "(h * n + x) mod n = x"
  using assms by simp_all

lemma value6_high:
  fixes s0 s1 s2 s3 s4 s5 s6 s7
  defines "v \<equiv> value6 (IPv6 s0 s1 s2 s3 s4 s5 s6 s7)"
  shows "v div 2 ^ 32 = high_segments (IPv6 s0 s1 s2 s3 s4 s5 s6 s7)"
    "v div 2 ^ 80 = unat s0 * 2 ^ 32 + value4 (octets_of s1 s2)"
    "v div 2 ^ 96 = unat s0 * 65536 + unat s1" "v div 2 ^ 112 = unat s0"
    "v mod 2 ^ 32 = value4 (octets_of s6 s7)"
proof -
  have segment_div: "(x * 65536 + unat (s :: 16 word)) div 2 ^ 16 = x" for x s
    using segment_range [of s] by simp
  show h: "v div 2 ^ 32 = high_segments (IPv6 s0 s1 s2 s3 s4 s5 s6 s7)"
    and "v mod 2 ^ 32 = value4 (octets_of s6 s7)"
    unfolding v_def value6_split by (rule digit_div_mod [OF value4_range])+
  have step: "v div 2 ^ (n + 16) = v div 2 ^ n div 2 ^ 16" for n
    by (simp add: power_add div_mult2_eq)
  have s48: "v div 2 ^ 48 = (((unat s0 * 65536 + unat s1) * 65536 + unat s2) * 65536 + unat s3) * 65536 + unat s4"
    using step [of 32] unfolding h high_segments.simps segment_div by simp
  have s64: "v div 2 ^ 64 = ((unat s0 * 65536 + unat s1) * 65536 + unat s2) * 65536 + unat s3"
    using step [of 48] unfolding s48 segment_div by simp
  have s80: "v div 2 ^ 80 = (unat s0 * 65536 + unat s1) * 65536 + unat s2"
    using step [of 64] unfolding s64 segment_div by simp
  then show "v div 2 ^ 80 = unat s0 * 2 ^ 32 + value4 (octets_of s1 s2)"
    unfolding value_octets_of by simp
  show s96: "v div 2 ^ 96 = unat s0 * 65536 + unat s1"
    using step [of 80] unfolding s80 segment_div by simp
  show "v div 2 ^ 112 = unat s0"
    using step [of 96] unfolding s96 segment_div by simp
qed

lemma high_segments_zero:
  "high_segments (IPv6 s0 s1 s2 s3 s4 s5 s6 s7) = 0 \<longleftrightarrow> s0 = 0 \<and> s1 = 0 \<and> s2 = 0 \<and> s3 = 0 \<and> s4 = 0 \<and> s5 = 0"
  by (auto simp: word_unat_eq_iff)

lemma high_segments_mapped:
  "high_segments (IPv6 s0 s1 s2 s3 s4 s5 s6 s7) = 0xffff \<longleftrightarrow>
     s0 = 0 \<and> s1 = 0 \<and> s2 = 0 \<and> s3 = 0 \<and> s4 = 0 \<and> s5 = 0xffff"
proof -
  have "high_segments (IPv6 s0 s1 s2 s3 s4 s5 s6 s7) = 0 * 65536 + 0xffff \<longleftrightarrow>
      (((unat s0 * 65536 + unat s1) * 65536 + unat s2) * 65536 + unat s3) * 65536 + unat s4 = 0 \<and> unat s5 = 0xffff"
    unfolding high_segments.simps by (rule digit_unique) (simp_all add: segment_range)
  then show ?thesis by (auto simp: word_unat_eq_iff)
qed

lemma high_segments_nat64:
  "high_segments (IPv6 s0 s1 s2 s3 s4 s5 s6 s7) = (0x0064 * 65536 + 0xff9b) * 2 ^ 64 \<longleftrightarrow>
     s0 = 0x0064 \<and> s1 = 0xff9b \<and> s2 = 0 \<and> s3 = 0 \<and> s4 = 0 \<and> s5 = 0"
proof -
  have d: "x * 65536 + unat s = y * 65536 \<longleftrightarrow> x = y \<and> s = 0" for x y and s :: "16 word"
    using digit_unique [OF segment_range, of 0 x s y] by (simp add: word_unat_eq_iff)
  have e: "x * 65536 + unat s = y * 65536 + 0xff9b \<longleftrightarrow> x = y \<and> s = 0xff9b" for x y and s :: "16 word"
    using digit_unique [OF segment_range, of "0xff9b" x s y] by (simp add: word_unat_eq_iff)
  have "(0x0064 * 65536 + 0xff9b) * 2 ^ 64 = (0x0064 * 65536 + 0xff9b) * 65536 * 65536 * 65536 * (65536 :: nat)" by simp
  then have "high_segments (IPv6 s0 s1 s2 s3 s4 s5 s6 s7) = (0x0064 * 65536 + 0xff9b) * 2 ^ 64 \<longleftrightarrow>
      unat s0 * 65536 + unat s1 = 0x0064 * 65536 + 0xff9b \<and> s2 = 0 \<and> s3 = 0 \<and> s4 = 0 \<and> s5 = 0"
    unfolding high_segments.simps by (simp only: d conj_assoc)
  then show ?thesis unfolding e by (auto simp: word_unat_eq_iff)
qed

lemma value4_NOT:
  "value4 (IPv4 (NOT (high_octet x)) (NOT (low_octet x)) (NOT (high_octet y)) (NOT (low_octet y))) =
     2 ^ 32 - 1 - value4 (octets_of x y)"
proof -
  have r: "255 - a + a = (255 :: nat)" if "a < 256" for a using that by simp
  show ?thesis
    unfolding octets_of_def value4.simps unat_NOT_octet
    using octet_range [of "high_octet x"] octet_range [of "low_octet x"]
      octet_range [of "high_octet y"] octet_range [of "low_octet y"] by simp
qed

lemma carries_iff:
  "carries (value6 (IPv6 s0 s1 s2 s3 s4 s5 s6 s7)) a \<longleftrightarrow>
     s0 = 0 \<and> s1 = 0 \<and> s2 = 0 \<and> s3 = 0 \<and> s4 = 0 \<and> (s5 = 0xffff \<or> s5 = 0) \<and> a = octets_of s6 s7 \<or>
     s0 = 0x2002 \<and> a = octets_of s1 s2 \<or>
     s0 = 0x2001 \<and> s1 = 0 \<and>
       a = IPv4 (NOT (high_octet s6)) (NOT (low_octet s6)) (NOT (high_octet s7)) (NOT (low_octet s7))"
    (is "carries ?v a \<longleftrightarrow> _")
proof -
  have m: "?v = 0xffff * 2 ^ 32 + value4 a \<longleftrightarrow>
      s0 = 0 \<and> s1 = 0 \<and> s2 = 0 \<and> s3 = 0 \<and> s4 = 0 \<and> s5 = 0xffff \<and> a = octets_of s6 s7"
    unfolding value6_split same_digits [OF value4_range value4_range] high_segments_mapped by blast
  have "?v = 0 * 2 ^ 32 + value4 a \<longleftrightarrow>
      s0 = 0 \<and> s1 = 0 \<and> s2 = 0 \<and> s3 = 0 \<and> s4 = 0 \<and> s5 = 0 \<and> a = octets_of s6 s7"
    unfolding value6_split same_digits [OF value4_range value4_range] high_segments_zero by blast
  then have c: "?v = value4 a \<longleftrightarrow>
      s0 = 0 \<and> s1 = 0 \<and> s2 = 0 \<and> s3 = 0 \<and> s4 = 0 \<and> s5 = 0 \<and> a = octets_of s6 s7" by simp
  have s: "?v div 2 ^ 80 = 0x2002 * 2 ^ 32 + value4 a \<longleftrightarrow> s0 = 0x2002 \<and> a = octets_of s1 s2"
    unfolding value6_high same_digits [OF value4_range value4_range] by (auto simp: word_unat_eq_iff)
  have "unat s0 * 65536 + unat s1 = 0x2001 * 65536 + 0 \<longleftrightarrow> unat s0 = 0x2001 \<and> unat s1 = 0"
    by (rule digit_unique) (simp_all add: segment_range)
  then have t0: "?v div 2 ^ 96 = 0x2001 * 65536 \<longleftrightarrow> s0 = 0x2001 \<and> s1 = 0"
    unfolding value6_high by (simp add: word_unat_eq_iff)
  have t1: "?v mod 2 ^ 32 + value4 a = 2 ^ 32 - 1 \<longleftrightarrow>
      a = IPv4 (NOT (high_octet s6)) (NOT (low_octet s6)) (NOT (high_octet s7)) (NOT (low_octet s7))"
  proof -
    have "?v mod 2 ^ 32 + value4 a = 2 ^ 32 - 1 \<longleftrightarrow> value4 a = 2 ^ 32 - 1 - value4 (octets_of s6 s7)"
      unfolding value6_high using value4_range [of "octets_of s6 s7"] by simp linarith
    then show ?thesis unfolding value4_NOT [symmetric] value4_inj .
  qed
  show ?thesis unfolding carries_def m c s t0 t1 by blast
qed

lemma block6_iff:
  "(\<exists>b \<in> set denied_blocks6. in_block 128 (value6 (IPv6 s0 s1 s2 s3 s4 s5 s6 s7)) b) \<longleftrightarrow>
     s0 = 0 \<and> s1 = 0 \<and> s2 = 0 \<and> s3 = 0 \<and> s4 = 0 \<and> s5 = 0 \<and> s6 = 0 \<and> (s7 = 0 \<or> s7 = 1) \<or>
     (s0 AND 0xff00) = 0xff00 \<or> (s0 AND 0xfe00) = 0xfc00 \<or> (s0 AND 0xffc0) = 0xfe80 \<or> (s0 AND 0xffc0) = 0xfec0 \<or>
     s0 = 0x0064 \<and> s1 = 0xff9b \<and> s2 = 0 \<and> s3 = 0 \<and> s4 = 0 \<and> s5 = 0"
    (is "(\<exists>b \<in> _. in_block 128 ?v b) \<longleftrightarrow> _")
proof -
  have part: "?v div 2 ^ (112 + n) = unat s0 div 2 ^ n" for n
    by (simp only: power_add div_mult2_eq value6_high)
  have z: "in_block 128 ?v (n, 128) \<longleftrightarrow> ?v = n" for n by (simp add: in_block_def)
  have low: "?v = 0 * 2 ^ 32 + n \<longleftrightarrow>
      s0 = 0 \<and> s1 = 0 \<and> s2 = 0 \<and> s3 = 0 \<and> s4 = 0 \<and> s5 = 0 \<and> unat s6 = 0 \<and> unat s7 = n" if "n < 65536" for n
  proof -
    have "?v = 0 * 2 ^ 32 + n \<longleftrightarrow> high_segments (IPv6 s0 s1 s2 s3 s4 s5 s6 s7) = 0 \<and> value4 (octets_of s6 s7) = n"
      unfolding value6_split by (rule digit_unique [OF value4_range]) (use that in simp)
    moreover have "unat s6 * 65536 + unat s7 = 0 * 65536 + n \<longleftrightarrow> unat s6 = 0 \<and> unat s7 = n"
      by (rule digit_unique [OF segment_range that])
    ultimately show ?thesis unfolding high_segments_zero value_octets_of by simp
  qed
  have u: "in_block 128 ?v (0, 128) \<longleftrightarrow> s0 = 0 \<and> s1 = 0 \<and> s2 = 0 \<and> s3 = 0 \<and> s4 = 0 \<and> s5 = 0 \<and> s6 = 0 \<and> s7 = 0"
    unfolding z using low [of 0] by (simp add: word_unat_eq_iff)
  have l: "in_block 128 ?v (1, 128) \<longleftrightarrow> s0 = 0 \<and> s1 = 0 \<and> s2 = 0 \<and> s3 = 0 \<and> s4 = 0 \<and> s5 = 0 \<and> s6 = 0 \<and> s7 = 1"
    unfolding z using low [of 1] by (simp add: word_unat_eq_iff)
  have b8: "in_block 128 ?v (0xff00 * 2 ^ 112, 8) \<longleftrightarrow> (s0 AND 0xff00) = 0xff00"
    unfolding masks in_block_def using part [of 8] by simp
  have b7: "in_block 128 ?v (0xfc00 * 2 ^ 112, 7) \<longleftrightarrow> (s0 AND 0xfe00) = 0xfc00"
    unfolding masks in_block_def using part [of 9] by simp
  have b10: "in_block 128 ?v (0xfe80 * 2 ^ 112, 10) \<longleftrightarrow> (s0 AND 0xffc0) = 0xfe80"
      "in_block 128 ?v (0xfec0 * 2 ^ 112, 10) \<longleftrightarrow> (s0 AND 0xffc0) = 0xfec0"
    unfolding masks in_block_def using part [of 6] by simp_all
  have b96: "in_block 128 ?v ((0x0064 * 65536 + 0xff9b) * 2 ^ 96, 96) \<longleftrightarrow>
      s0 = 0x0064 \<and> s1 = 0xff9b \<and> s2 = 0 \<and> s3 = 0 \<and> s4 = 0 \<and> s5 = 0"
    unfolding high_segments_nat64 [of s0 s1 s2 s3 s4 s5 s6 s7, symmetric] value6_high(1) [symmetric] in_block_def by simp
  have "(\<exists>b \<in> set denied_blocks6. in_block 128 ?v b) \<longleftrightarrow>
      in_block 128 ?v (0, 128) \<or> in_block 128 ?v (1, 128) \<or> in_block 128 ?v (0xff00 * 2 ^ 112, 8) \<or>
      in_block 128 ?v (0xfc00 * 2 ^ 112, 7) \<or> in_block 128 ?v (0xfe80 * 2 ^ 112, 10) \<or>
      in_block 128 ?v (0xfec0 * 2 ^ 112, 10) \<or> in_block 128 ?v ((0x0064 * 65536 + 0xff9b) * 2 ^ 96, 96)"
    unfolding denied_blocks6_def by (simp only: list.set bex_simps bex_empty HOL.simp_thms)
  then show ?thesis
    unfolding u l b8 b7 b10 b96 by (simp only: conj_disj_distribL conj_assoc disj_assoc)
qed

text \<open>What the deny-list is, in CIDR form: the listed IPv4 blocks, the listed IPv6 blocks, and every IPv6 address that
  carries a denied IPv4 address.\<close>

definition listed4 :: "ipv4 \<Rightarrow> bool" where
  "listed4 ip \<longleftrightarrow> (\<exists>b \<in> set denied_blocks4. in_block 32 (value4 ip) b)"

fun listed :: "ip_addr \<Rightarrow> bool" where
  "listed (V4 ip) = listed4 ip"
| "listed (V6 ip) = ((\<exists>b \<in> set denied_blocks6. in_block 128 (value6 ip) b) \<or>
     (\<exists>a. carries (value6 ip) a \<and> listed4 a))"

lemma carried_denied:
  "(\<exists>a. (p \<and> a = x \<or> q \<and> a = y \<or> r \<and> a = z) \<and> d a) \<longleftrightarrow> p \<and> d x \<or> q \<and> d y \<or> r \<and> d z"
  by blast

lemma is_denied_ipv6_iff:
  "is_denied_ipv6 (IPv6 s0 s1 s2 s3 s4 s5 s6 s7) \<longleftrightarrow>
     (\<exists>b \<in> set denied_blocks6. in_block 128 (value6 (IPv6 s0 s1 s2 s3 s4 s5 s6 s7)) b) \<or>
     (\<exists>a. carries (value6 (IPv6 s0 s1 s2 s3 s4 s5 s6 s7)) a \<and> is_denied_ipv4 a)"
proof -
  define low where "low \<longleftrightarrow> s0 = 0 \<and> s1 = 0 \<and> s2 = 0 \<and> s3 = 0 \<and> s4 = 0"
  have blocks: "(\<exists>b \<in> set denied_blocks6. in_block 128 (value6 (IPv6 s0 s1 s2 s3 s4 s5 s6 s7)) b) \<longleftrightarrow>
      low \<and> s5 = 0 \<and> s6 = 0 \<and> (s7 = 0 \<or> s7 = 1) \<or> (s0 AND 0xff00) = 0xff00 \<or> (s0 AND 0xfe00) = 0xfc00 \<or>
      (s0 AND 0xffc0) = 0xfe80 \<or> (s0 AND 0xffc0) = 0xfec0 \<or>
      s0 = 0x0064 \<and> s1 = 0xff9b \<and> s2 = 0 \<and> s3 = 0 \<and> s4 = 0 \<and> s5 = 0"
    unfolding block6_iff low_def conj_assoc ..
  have "carries (value6 (IPv6 s0 s1 s2 s3 s4 s5 s6 s7)) a \<longleftrightarrow>
      (low \<and> (s5 = 0xffff \<or> s5 = 0)) \<and> a = octets_of s6 s7 \<or> s0 = 0x2002 \<and> a = octets_of s1 s2 \<or>
      (s0 = 0x2001 \<and> s1 = 0) \<and>
        a = IPv4 (NOT (high_octet s6)) (NOT (low_octet s6)) (NOT (high_octet s7)) (NOT (low_octet s7))" for a
    unfolding carries_iff low_def conj_assoc ..
  note carried = this
  show ?thesis
    unfolding blocks carried carried_denied is_denied_ipv6.simps Let_def low_def [symmetric] if_bool_eq_disj by argo
qed


end
