(* ===== verification/Web_Guard.thy ===== *)
theory Web_Guard
  imports Web_Address
begin

text \<open>
  The gate of \<^verbatim>\<open>src/chat/web.rs\<close> in front of every fetch: which URLs are accepted (\<open>validate_url\<close>), which host
  names are refused (\<open>is_denied_hostname\<close>), the decision over the resolved addresses (\<open>decide\<close>) and the target of a
  redirect (\<open>resolve_relative\<close>). A string is the list of its UTF-8 bytes; the reader of IPv6 literals is the standard
  library's.
\<close>

section \<open>Strings\<close>

text \<open>\<open>str::split\<close> with one character, \<open>rsplit_once\<close> and \<open>eq_ignore_ascii_case\<close>.\<close>

fun split_on :: "char \<Rightarrow> string \<Rightarrow> string list" where
  "split_on c [] = [[]]"
| "split_on c (x # xs) =
     (if x = c then [] # split_on c xs
      else case split_on c xs of [] \<Rightarrow> [[x]] | p # ps \<Rightarrow> (x # p) # ps)"

definition rsplit_once :: "char \<Rightarrow> string \<Rightarrow> (string \<times> string) option" where
  "rsplit_once c s =
     (case dropWhile (\<lambda>x. x \<noteq> c) (rev s) of
        [] \<Rightarrow> None
      | _ # h \<Rightarrow> Some (rev h, rev (takeWhile (\<lambda>x. x \<noteq> c) (rev s))))"

definition eq_ignore_ascii_case :: "string \<Rightarrow> string \<Rightarrow> bool" where
  "eq_ignore_ascii_case s t \<longleftrightarrow> map to_ascii_lowercase s = map to_ascii_lowercase t"

definition is_ascii_hexdigit :: "char \<Rightarrow> bool" where
  "is_ascii_hexdigit c \<longleftrightarrow> is_ascii_digit c \<or> 97 \<le> code c \<and> code c \<le> 102 \<or> 65 \<le> code c \<and> code c \<le> 70"

definition all_digits :: "string \<Rightarrow> bool" where
  "all_digits s \<longleftrightarrow> s \<noteq> [] \<and> list_all is_ascii_digit s"

text \<open>The characters of a string, each as its bytes; the width is read from the first byte as in \<open>next_char_end\<close>.\<close>

definition char_width :: "char \<Rightarrow> nat" where
  "char_width c = (if code c < 128 then 1 else if code c < 192 then 1 else if code c < 224 then 2
     else if code c < 240 then 3 else 4)"

function chars :: "string \<Rightarrow> string list" where
  "chars [] = []"
| "chars (c # cs) = take (char_width c) (c # cs) # chars (drop (char_width c) (c # cs))"
  by pat_completeness auto
termination by (relation "measure length") (auto simp: char_width_def)

text \<open>The control characters (general category Cc), blanks and invisible characters no URL may contain.\<close>

definition forbidden_char :: "string \<Rightarrow> bool" where
  "forbidden_char c =
     (case map code c of
        [a] \<Rightarrow> a < 32 \<or> a = 127 \<or> a = 32 \<or> a = 9
      | [a, b] \<Rightarrow> a = 194 \<and> 128 \<le> b \<and> b \<le> 159
      | [a, b, d] \<Rightarrow> a = 226 \<and> b = 128 \<and> (139 \<le> d \<and> d \<le> 143 \<or> d = 168 \<or> d = 169) \<or> (a, b, d) = (239, 187, 191)
      | _ \<Rightarrow> False)"

section \<open>Literal addresses\<close>

definition strict_octet :: "string \<Rightarrow> 8 word option" where
  "strict_octet p =
     (if p = [] \<or> 3 < length p then None
      else if 1 < length p \<and> starts_with ''0'' p then None
      else if \<not> list_all is_ascii_digit p then None
      else case parse_unsigned u32_top p of
        None \<Rightarrow> None
      | Some v \<Rightarrow> if 255 < v then None else Some (word_of_nat v))"

definition parse_strict_dotted_quad :: "string \<Rightarrow> ipv4 option" where
  "parse_strict_dotted_quad s =
     (case split_on CHR ''.'' s of
        [p, q, r, t] \<Rightarrow>
          (case (strict_octet p, strict_octet q, strict_octet r, strict_octet t) of
             (Some a, Some b, Some c, Some d) \<Rightarrow> Some (IPv4 a b c d)
           | _ \<Rightarrow> None)
      | _ \<Rightarrow> None)"

text \<open>\<open>Ipv6Addr::from_str\<close>: groups of hexadecimal digits, an IPv4 tail, and at most one \<open>::\<close>. A reader consumes a
  prefix and gives the rest.\<close>

definition digit_of :: "char \<Rightarrow> nat" where
  "digit_of c = (if is_ascii_digit c then code c - 48 else if 97 \<le> code c then code c - 87 else code c - 55)"

definition read_number :: "(char \<Rightarrow> bool) \<Rightarrow> nat \<Rightarrow> nat \<Rightarrow> bool \<Rightarrow> nat \<Rightarrow> string \<Rightarrow> (nat \<times> string) option" where
  "read_number digit radix max_digits zero_prefix most s =
     (let ds = takeWhile digit s;
          v = foldl (\<lambda>n c. n * radix + digit_of c) 0 ds
      in if ds = [] \<or> max_digits < length ds \<or> \<not> zero_prefix \<and> hd ds = CHR ''0'' \<and> 1 < length ds \<or> most < v then None
         else Some (v, dropWhile digit s))"

definition read_separator :: "char \<Rightarrow> nat \<Rightarrow> (string \<Rightarrow> ('a \<times> string) option) \<Rightarrow> string \<Rightarrow> ('a \<times> string) option" where
  "read_separator sep i inner s =
     (if 0 < i then (case s of c # cs \<Rightarrow> if c = sep then inner cs else None | [] \<Rightarrow> None) else inner s)"

fun read_octets :: "nat \<Rightarrow> nat \<Rightarrow> string \<Rightarrow> (nat list \<times> string) option" where
  "read_octets 0 i s = Some ([], s)"
| "read_octets (Suc k) i s =
     (case read_separator CHR ''.'' i (read_number is_ascii_digit 10 3 False 255) s of
        None \<Rightarrow> None
      | Some (v, rest) \<Rightarrow>
          (case read_octets k (Suc i) rest of None \<Rightarrow> None | Some (vs, rest') \<Rightarrow> Some (v # vs, rest')))"

fun read_groups :: "nat \<Rightarrow> nat \<Rightarrow> string \<Rightarrow> 16 word list \<times> bool \<times> string" where
  "read_groups 0 i s = ([], False, s)"
| "read_groups (Suc k) i s =
     (case (if 1 \<le> k then read_separator CHR '':'' i (read_octets 4 0) s else None) of
        Some (vs, rest) \<Rightarrow>
          ([word_of_nat (vs ! 0 * 256 + vs ! 1), word_of_nat (vs ! 2 * 256 + vs ! 3)], True, rest)
      | None \<Rightarrow>
          (case read_separator CHR '':'' i (read_number is_ascii_hexdigit 16 4 True 65535) s of
             None \<Rightarrow> ([], False, s)
           | Some (g, rest) \<Rightarrow> (case read_groups k (Suc i) rest of (gs, v4, rest') \<Rightarrow> (word_of_nat g # gs, v4, rest'))))"

definition ipv6_of :: "16 word list \<Rightarrow> ipv6 option" where
  "ipv6_of gs = (case gs of [a, b, c, d, e, f, g, h] \<Rightarrow> Some (IPv6 a b c d e f g h) | _ \<Rightarrow> None)"

definition parse_ipv6 :: "string \<Rightarrow> ipv6 option" where
  "parse_ipv6 s =
     (case read_groups 8 0 s of (head, v4, rest) \<Rightarrow>
        if length head = 8 then (if rest = [] then ipv6_of head else None)
        else if v4 then None
        else (case strip_prefix ''::'' rest of
          None \<Rightarrow> None
        | Some rest1 \<Rightarrow>
            (case read_groups (8 - (length head + 1)) 0 rest1 of (end_part, _, rest2) \<Rightarrow>
               if rest2 \<noteq> [] then None
               else ipv6_of (head @ replicate (8 - length head - length end_part) 0 @ end_part))))"

section \<open>Host names\<close>

definition looks_obfuscated_dotted_quad :: "string \<Rightarrow> bool" where
  "looks_obfuscated_dotted_quad s =
     (let parts = split_on CHR ''.'' s in
      if length parts \<noteq> 4 then False
      else list_all (\<lambda>p. p \<noteq> [] \<and> list_all (\<lambda>b. is_ascii_digit b \<or> b = CHR ''x'' \<or> b = CHR ''X'') p) parts)"

definition looks_short_numeric_hostname :: "string \<Rightarrow> bool" where
  "looks_short_numeric_hostname s =
     (let parts = split_on CHR ''.'' s in
      if \<not> (2 \<le> length parts \<and> length parts \<le> 3) then False else list_all all_digits parts)"

definition looks_all_numeric_labels :: "string \<Rightarrow> bool" where
  "looks_all_numeric_labels s =
     (let parts = split_on CHR ''.'' s in if length parts < 2 then False else list_all all_digits parts)"

definition looks_numeric_hostname :: "string \<Rightarrow> bool" where
  "looks_numeric_hostname s =
     (let hex = (case strip_prefix ''0x'' s of Some rest \<Rightarrow> Some rest | None \<Rightarrow> strip_prefix ''0X'' s)
      in if all_digits s then True
         else if (case hex of Some rest \<Rightarrow> rest \<noteq> [] \<and> list_all is_ascii_hexdigit rest | None \<Rightarrow> False) then True
         else if 1 < length s \<and> starts_with ''0'' s \<and> list_all is_ascii_digit s then True
         else False)"

definition hostname_label :: "string \<Rightarrow> bool" where
  "hostname_label p \<longleftrightarrow> p \<noteq> [] \<and> length p \<le> 63 \<and> hd p \<noteq> CHR ''-'' \<and> last p \<noteq> CHR ''-'' \<and>
     list_all (\<lambda>b. is_ascii_alphanumeric b \<or> b = CHR ''-'') p"

definition looks_like_hostname :: "string \<Rightarrow> bool" where
  "looks_like_hostname s =
     (if s = [] \<or> 253 < length s then False else list_all hostname_label (split_on CHR ''.'' s))"

text \<open>Only validated, hence ASCII, names reach this check, so lower case is that of ASCII.\<close>

definition denied_names :: "string list" where
  "denied_names =
     [''metadata.google.internal'', ''metadata'', ''localhost'', ''localhost.localdomain'', ''ip6-localhost'',
      ''ip6-loopback'', ''instance-data'', ''instance-data.ec2.internal'', ''metadata.tencentyun.com'',
      ''metadata.oracle.com'', ''100-100.metadata.aliyuncs.com'']"

definition ends_with :: "string \<Rightarrow> string \<Rightarrow> bool" where
  "ends_with p s \<longleftrightarrow> length p \<le> length s \<and> drop (length s - length p) s = p"

definition is_denied_hostname :: "string \<Rightarrow> bool" where
  "is_denied_hostname hostname =
     (let lc = map to_ascii_lowercase hostname;
          normalized = (if ends_with ''.'' lc then butlast lc else lc)
      in if normalized \<in> set denied_names then True
         else ends_with ''.localhost'' normalized)"

section \<open>URLs\<close>

datatype scheme = Http | Https

datatype host = HostName string | HostIp ip_addr

datatype url_error = BadScheme | HasUserinfo | NumericHostname | BadHost | BadFormat | DisallowedPort nat

record safe_url =
  url_scheme :: scheme
  url_host :: host
  url_text :: string
  url_port :: nat

definition ALLOWED_PORTS :: "nat list" where
  "ALLOWED_PORTS = [80, 443]"

fun default_port_for_scheme :: "scheme \<Rightarrow> nat" where
  "default_port_for_scheme Http = 80"
| "default_port_for_scheme Https = 443"

definition port_for :: "safe_url \<Rightarrow> nat" where
  "port_for u = url_port u"

definition split_scheme :: "string \<Rightarrow> (scheme \<times> string) option" where
  "split_scheme s =
     (if 8 \<le> length s \<and> eq_ignore_ascii_case (take 8 s) ''https://'' then Some (Https, drop 8 s)
      else if 7 \<le> length s \<and> eq_ignore_ascii_case (take 7 s) ''http://'' then Some (Http, drop 7 s)
      else None)"

definition authority_of :: "string \<Rightarrow> string" where
  "authority_of rest = takeWhile (\<lambda>c. c \<noteq> CHR ''/'' \<and> c \<noteq> CHR ''?'' \<and> c \<noteq> CHR ''#'') rest"

definition parse_port :: "string \<Rightarrow> url_error + nat" where
  "parse_port s = (case parse_unsigned 65535 s of None \<Rightarrow> Inl BadHost | Some p \<Rightarrow> Inr p)"

text \<open>The authority after its \<open>[\<close>: an IPv6 literal, then a port or nothing.\<close>

definition bracketed_host :: "scheme \<Rightarrow> string \<Rightarrow> string \<Rightarrow> url_error + safe_url" where
  "bracketed_host sch input rest =
     (let inner = takeWhile (\<lambda>c. c \<noteq> CHR '']'') rest;
          after = drop (length inner + 1) rest;
          ip = (\<lambda>port. case parse_ipv6 inner of
                  None \<Rightarrow> Inl BadHost
                | Some a \<Rightarrow> Inr \<lparr>url_scheme = sch, url_host = HostIp (V6 a), url_text = input, url_port = port\<rparr>)
      in if CHR '']'' \<notin> set rest then Inl BadHost
         else if after \<noteq> [] \<and> (\<not> starts_with '':'' after \<or> tl after = [] \<or> \<not> list_all is_ascii_digit (tl after)) then Inl BadHost
         else case strip_prefix '':'' after of
           None \<Rightarrow> ip (default_port_for_scheme sch)
         | Some port_str \<Rightarrow>
             (case parse_port port_str of
                Inl e \<Rightarrow> Inl e
              | Inr p \<Rightarrow> if p \<notin> set ALLOWED_PORTS then Inl (DisallowedPort p) else ip p))"

definition split_port :: "string \<Rightarrow> url_error + string \<times> nat option" where
  "split_port authority =
     (case rsplit_once CHR '':'' authority of
        Some (h, port) \<Rightarrow>
          if port \<noteq> [] \<and> list_all is_ascii_digit port
          then (case parse_port port of Inl e \<Rightarrow> Inl e | Inr p \<Rightarrow> Inr (h, Some p))
          else Inr (authority, None)
      | None \<Rightarrow> Inr (authority, None))"

definition classify_host :: "scheme \<Rightarrow> string \<Rightarrow> string \<Rightarrow> nat \<Rightarrow> url_error + safe_url" where
  "classify_host sch input host_str port =
     (case parse_strict_dotted_quad host_str of
        Some ip \<Rightarrow> Inr \<lparr>url_scheme = sch, url_host = HostIp (V4 ip), url_text = input, url_port = port\<rparr>
      | None \<Rightarrow>
          if looks_numeric_hostname host_str \<or> looks_obfuscated_dotted_quad host_str \<or>
             looks_short_numeric_hostname host_str \<or> looks_all_numeric_labels host_str then Inl NumericHostname
          else if \<not> looks_like_hostname host_str then Inl BadHost
          else Inr \<lparr>url_scheme = sch, url_host = HostName (map to_ascii_lowercase host_str), url_text = input,
                 url_port = port\<rparr>)"

definition named_host :: "scheme \<Rightarrow> string \<Rightarrow> string \<Rightarrow> url_error + safe_url" where
  "named_host sch input authority =
     (case split_port authority of
        Inl e \<Rightarrow> Inl e
      | Inr (host_str, explicit_port) \<Rightarrow>
          if host_str = [] then Inl BadHost
          else (case explicit_port of
            Some p \<Rightarrow> if p \<notin> set ALLOWED_PORTS then Inl (DisallowedPort p) else classify_host sch input host_str p
          | None \<Rightarrow> classify_host sch input host_str (default_port_for_scheme sch)))"

definition validate_url :: "string \<Rightarrow> url_error + safe_url" where
  "validate_url input =
     (if 8192 < length input then Inl BadFormat
      else if list_ex forbidden_char (chars input) then Inl BadFormat
      else case split_scheme input of
        None \<Rightarrow> Inl BadScheme
      | Some (sch, rest) \<Rightarrow>
          (let authority = authority_of rest in
           if CHR ''@'' \<in> set authority then Inl HasUserinfo
           else if authority = [] then Inl BadHost
           else case strip_prefix ''['' authority of
             Some inner \<Rightarrow> bracketed_host sch input inner
           | None \<Rightarrow> named_host sch input authority))"

section \<open>The decision\<close>

datatype decision = Allow | Deny string

definition decide :: "safe_url \<Rightarrow> ip_addr list \<Rightarrow> decision" where
  "decide safe resolved =
     (if (case url_host safe of HostName name \<Rightarrow> is_denied_hostname name | HostIp _ \<Rightarrow> False) then Deny ''hostname_denied''
      else if resolved = [] then Deny ''no_addrs''
      else if list_all is_denied_ip resolved then Deny ''all_addrs_denied''
      else Allow)"

section \<open>Redirects\<close>

text \<open>The part of a path up to its last slash, and \<open>/\<close> without one.\<close>

definition path_prefix :: "string \<Rightarrow> string" where
  "path_prefix base_path =
     (if CHR ''/'' \<in> set base_path then rev (dropWhile (\<lambda>c. c \<noteq> CHR ''/'') (rev base_path)) else ''/'')"

definition resolve_relative :: "string \<Rightarrow> string \<Rightarrow> string option" where
  "resolve_relative base location =
     (if 7 \<le> length location \<and> eq_ignore_ascii_case (take 7 location) ''http://'' \<or>
         8 \<le> length location \<and> eq_ignore_ascii_case (take 8 location) ''https://'' then Some location
      else
        let scheme_len = (if 8 \<le> length base \<and> eq_ignore_ascii_case (take 8 base) ''https://'' then 8
              else if 7 \<le> length base \<and> eq_ignore_ascii_case (take 7 base) ''http://'' then 7 else 0 :: nat);
            sch = take scheme_len base;
            after = drop scheme_len base;
            authority = takeWhile (\<lambda>c. c \<noteq> CHR ''/'') after
        in if scheme_len = 0 then None
           else if starts_with ''//'' location then Some ((if ends_with ''//'' sch then butlast (butlast sch) else sch) @ location)
           else case strip_prefix ''/'' location of
             Some stripped \<Rightarrow> Some (sch @ authority @ ''/'' @ stripped)
           | None \<Rightarrow> Some (sch @ authority @ path_prefix (drop (length authority) after) @ location))"

section \<open>What validation gives\<close>

lemma parse_port_digits: "parse_port s = Inr p \<Longrightarrow> parse_unsigned 65535 s = Some p"
  by (auto simp: parse_port_def split: option.splits)

lemma default_port_allowed: "default_port_for_scheme sch \<in> set ALLOWED_PORTS"
  by (cases sch) (simp_all add: ALLOWED_PORTS_def)

lemma bracketed_host_ok:
  assumes "bracketed_host sch input rest = Inr u"
  shows "url_scheme u = sch" "url_text u = input" "url_port u \<in> set ALLOWED_PORTS" "\<exists>a. url_host u = HostIp (V6 a)"
  using assms default_port_allowed [of sch]
  by (auto simp: bracketed_host_def Let_def split: option.splits sum.splits if_splits)

lemma classify_host_ok:
  assumes "classify_host sch input h p = Inr u"
  shows "url_scheme u = sch" "url_text u = input" "url_port u = p"
    "(\<exists>a. url_host u = HostIp (V4 a)) \<or>
     url_host u = HostName (map to_ascii_lowercase h) \<and> looks_like_hostname h \<and>
       \<not> looks_numeric_hostname h \<and> \<not> looks_all_numeric_labels h"
  using assms by (auto simp: classify_host_def split: option.splits if_splits)

lemma named_host_ok:
  assumes "named_host sch input authority = Inr u"
  obtains h where "classify_host sch input h (url_port u) = Inr u" "url_port u \<in> set ALLOWED_PORTS"
proof -
  from assms obtain h e where s: "split_port authority = Inr (h, e)"
    by (auto simp: named_host_def split: sum.splits)
  show ?thesis
  proof (cases e)
    case None
    with assms s have c: "classify_host sch input h (default_port_for_scheme sch) = Inr u"
      by (auto simp: named_host_def split: if_splits)
    show ?thesis using that [of h] c classify_host_ok(3) [OF c] default_port_allowed [of sch] by simp
  next
    case (Some p)
    with assms s have c: "classify_host sch input h p = Inr u" "p \<in> set ALLOWED_PORTS"
      by (auto simp: named_host_def split: if_splits)
    show ?thesis using that [of h] c classify_host_ok(3) [OF c(1)] by simp
  qed
qed

lemma lower_cases:
  "is_ascii_uppercase c \<and> is_ascii_lowercase (to_ascii_lowercase c) \<or> \<not> is_ascii_uppercase c \<and> to_ascii_lowercase c = c"
  by (simp add: to_ascii_lowercase_def is_ascii_lowercase_def is_ascii_uppercase_def code_char_of)

lemma not_both_cases: "\<not> (is_ascii_lowercase c \<and> is_ascii_uppercase c)"
  by (auto simp: is_ascii_lowercase_def is_ascii_uppercase_def)

lemma lower_eq_iff:
  "\<not> is_ascii_lowercase d \<Longrightarrow> \<not> is_ascii_uppercase d \<Longrightarrow> to_ascii_lowercase c = d \<longleftrightarrow> c = d"
  using lower_cases [of c] by auto

lemma lower_lower: "to_ascii_lowercase (to_ascii_lowercase c) = to_ascii_lowercase c"
  using lower_cases [of c] lower_cases [of "to_ascii_lowercase c"] not_both_cases [of "to_ascii_lowercase c"] by auto

lemma digit_not_letter: "is_ascii_digit c \<Longrightarrow> \<not> is_ascii_lowercase c \<and> \<not> is_ascii_uppercase c"
  by (auto simp: is_ascii_digit_def is_ascii_lowercase_def is_ascii_uppercase_def)

lemma digit_lower: "is_ascii_digit (to_ascii_lowercase c) \<longleftrightarrow> is_ascii_digit c"
  using lower_cases [of c] digit_not_letter [of c] digit_not_letter [of "to_ascii_lowercase c"] by auto

lemma alnum_lower: "is_ascii_alphanumeric (to_ascii_lowercase c) \<longleftrightarrow> is_ascii_alphanumeric c"
  using lower_cases [of c] by (auto simp: is_ascii_alphanumeric_def)

lemma punctuation_lower:
  "to_ascii_lowercase c = CHR ''.'' \<longleftrightarrow> c = CHR ''.''" "to_ascii_lowercase c = CHR ''-'' \<longleftrightarrow> c = CHR ''-''"
  by (rule lower_eq_iff; simp add: is_ascii_lowercase_def is_ascii_uppercase_def code_def)+

lemma all_digits_lower: "all_digits (map to_ascii_lowercase s) \<longleftrightarrow> all_digits s"
  by (simp add: all_digits_def list_all_iff digit_lower)

lemma split_on_lower:
  "split_on CHR ''.'' (map to_ascii_lowercase s) = map (map to_ascii_lowercase) (split_on CHR ''.'' s)"
  by (induction s) (auto simp: punctuation_lower split: list.splits)

lemma hostname_label_lower: "hostname_label (map to_ascii_lowercase p) \<longleftrightarrow> hostname_label p"
  by (cases "p = []")
    (simp_all add: hostname_label_def hd_map last_map punctuation_lower list_all_iff alnum_lower)

lemma looks_like_hostname_lower: "looks_like_hostname (map to_ascii_lowercase s) \<longleftrightarrow> looks_like_hostname s"
  by (simp add: looks_like_hostname_def split_on_lower list_all_iff hostname_label_lower)

lemma split_on_not_Nil [simp]: "split_on c s \<noteq> []"
  by (induction s) (auto split: list.splits)

lemma split_on_single: "split_on c s = [p] \<Longrightarrow> p = s"
  by (induction s arbitrary: p) (auto split: list.splits if_splits)

text \<open>A host that got past the numeric gates has a label that is not a number.\<close>

lemma some_label_not_numeric:
  assumes "\<not> looks_numeric_hostname h" "\<not> looks_all_numeric_labels h"
  shows "\<exists>p \<in> set (split_on CHR ''.'' h). \<not> all_digits p"
proof (cases "length (split_on CHR ''.'' h) < 2")
  case True
  then obtain p where p: "split_on CHR ''.'' h = [p]"
    by (cases "split_on CHR ''.'' h") (simp_all add: less_Suc_eq numeral_2_eq_2)
  then have "p = h" by (rule split_on_single)
  then show ?thesis using assms(1) p by (auto simp: looks_numeric_hostname_def Let_def split: if_splits)
next
  case False
  then show ?thesis using assms(2) by (auto simp: looks_all_numeric_labels_def Let_def list_all_iff)
qed

lemma validate_url_parts:
  assumes "validate_url s = Inr u"
  obtains rest where "split_scheme s = Some (url_scheme u, rest)" "CHR ''@'' \<notin> set (authority_of rest)"
    "authority_of rest \<noteq> []" "url_text u = s"
    "case strip_prefix ''['' (authority_of rest) of
       Some inner \<Rightarrow> bracketed_host (url_scheme u) s inner = Inr u
     | None \<Rightarrow> named_host (url_scheme u) s (authority_of rest) = Inr u"
proof -
  obtain sch rest where s: "split_scheme s = Some (sch, rest)" "CHR ''@'' \<notin> set (authority_of rest)" "authority_of rest \<noteq> []"
    and h: "case strip_prefix ''['' (authority_of rest) of
       Some inner \<Rightarrow> bracketed_host sch s inner = Inr u
     | None \<Rightarrow> named_host sch s (authority_of rest) = Inr u"
    using assms unfolding validate_url_def Let_def by (auto split: if_splits option.splits)
  have e: "sch = url_scheme u" "url_text u = s"
    using h by (auto split: option.splits dest: bracketed_host_ok elim!: named_host_ok dest: classify_host_ok)
  show thesis
    using s h e(2) unfolding e(1) by (intro that)
qed

text \<open>C36: 
  An accepted URL is used as it was given and names no user. It goes to port 80 or 443. A host name in it is in lower
  case, made of labels of 1 to 63 letters, digits and inner hyphens, and at least one label is not a decimal number,
  so that no resolver reads it as a dotted or shortened decimal address.
\<close>

theorem validated_url:
  assumes "validate_url s = Inr u"
  shows "url_text u = s \<and> port_for u \<in> {80, 443} \<and>
    (\<exists>rest. split_scheme s = Some (url_scheme u, rest) \<and> CHR ''@'' \<notin> set (authority_of rest)) \<and>
    (case url_host u of
       HostIp a \<Rightarrow> True
     | HostName n \<Rightarrow> map to_ascii_lowercase n = n \<and> looks_like_hostname n \<and>
         (\<exists>p \<in> set (split_on CHR ''.'' n). hostname_label p \<and> \<not> all_digits p))"
proof -
  from assms obtain rest where s: "split_scheme s = Some (url_scheme u, rest)" "CHR ''@'' \<notin> set (authority_of rest)"
      "url_text u = s"
    and h: "case strip_prefix ''['' (authority_of rest) of
       Some inner \<Rightarrow> bracketed_host (url_scheme u) s inner = Inr u
     | None \<Rightarrow> named_host (url_scheme u) s (authority_of rest) = Inr u"
    by (rule validate_url_parts)
  have "url_port u \<in> set ALLOWED_PORTS \<and> (case url_host u of
       HostIp a \<Rightarrow> True
     | HostName n \<Rightarrow> map to_ascii_lowercase n = n \<and> looks_like_hostname n \<and>
         (\<exists>p \<in> set (split_on CHR ''.'' n). hostname_label p \<and> \<not> all_digits p))"
  proof (cases "strip_prefix ''['' (authority_of rest)")
    case (Some inner)
    with h have "bracketed_host (url_scheme u) s inner = Inr u" by simp
    from bracketed_host_ok [OF this] show ?thesis by auto
  next
    case None
    with h have "named_host (url_scheme u) s (authority_of rest) = Inr u" by simp
    then obtain n where c: "classify_host (url_scheme u) s n (url_port u) = Inr u" "url_port u \<in> set ALLOWED_PORTS"
      by (rule named_host_ok)
    from classify_host_ok(4) [OF c(1)] show ?thesis
    proof
      assume n: "url_host u = HostName (map to_ascii_lowercase n) \<and> looks_like_hostname n \<and>
        \<not> looks_numeric_hostname n \<and> \<not> looks_all_numeric_labels n"
      then obtain p where p: "p \<in> set (split_on CHR ''.'' n)" "\<not> all_digits p"
        using some_label_not_numeric [of n] by blast
      moreover from n p(1) have "hostname_label p"
        by (auto simp: looks_like_hostname_def list_all_iff split: if_splits)
      ultimately show ?thesis
        using n c(2) by (auto simp: lower_lower looks_like_hostname_lower split_on_lower hostname_label_lower all_digits_lower
            intro!: bexI [of _ p])
    qed (use c(2) in auto)
  qed
  then show ?thesis using s by (auto simp: port_for_def ALLOWED_PORTS_def)
qed

theorem validated_url_witness:
  "port_for \<lparr>url_scheme = Http, url_host = HostName ''ex-a.com'', url_text = ''http://Ex-a.com#@'', url_port = 80\<rparr> = 80 \<and>
   validate_url ''http://Ex-a.com#@'' =
     Inr \<lparr>url_scheme = Http, url_host = HostName ''ex-a.com'', url_text = ''http://Ex-a.com#@'', url_port = 80\<rparr>"
proof -
  have v: "validate_url ''http://Ex-a.com#@'' =
     Inr \<lparr>url_scheme = Http, url_host = HostName ''ex-a.com'', url_text = ''http://Ex-a.com#@'', url_port = 80\<rparr>" by code_simp
  from validated_url [OF v] v show ?thesis by (simp add: port_for_def)
qed

section \<open>Redirects stay where they are\<close>

lemma bracketed_input_irrelevant:
  "bracketed_host sch s x = map_sum id (url_text_update (\<lambda>_. s)) (bracketed_host sch t x)"
  by (simp add: bracketed_host_def Let_def split: option.split sum.split)

lemma classify_input_irrelevant:
  "classify_host sch s x p = map_sum id (url_text_update (\<lambda>_. s)) (classify_host sch t x p)"
  by (simp add: classify_host_def split: option.split)

lemma named_input_irrelevant:
  "named_host sch s x = map_sum id (url_text_update (\<lambda>_. s)) (named_host sch t x)"
proof (cases "split_port x")
  case (Inr y)
  obtain h e where y: "y = (h, e)" by force
  show ?thesis
    using classify_input_irrelevant [of sch s h _ t]
    by (cases e) (simp_all add: named_host_def Inr y)
qed (simp add: named_host_def)

lemma strip_prefix_drop: "strip_prefix p s = Some t \<Longrightarrow> s = p @ t"
  by (auto simp: strip_prefix_def split: if_splits) (metis append_take_drop_id)

lemma takeWhile_shorter:
  assumes "\<And>c. p c \<Longrightarrow> q c" "\<not> p x"
  shows "takeWhile p (takeWhile q s @ x # t) = takeWhile p s"
  using assms by (induction s) auto

lemma authority_spliced: "authority_of (takeWhile (\<lambda>c. c \<noteq> CHR ''/'') rest @ CHR ''/'' # t) = authority_of rest"
  unfolding authority_of_def by (rule takeWhile_shorter) auto

lemma not_both_schemes:
  assumes "eq_ignore_ascii_case (take 7 s) ''http://''"
  shows "\<not> eq_ignore_ascii_case (take 8 s) ''https://''"
proof
  assume "eq_ignore_ascii_case (take 8 s) ''https://''"
  then have "map to_ascii_lowercase (take 8 s) ! 4 = CHR ''s''" by (simp add: eq_ignore_ascii_case_def)
      (simp add: to_ascii_lowercase_def is_ascii_uppercase_def code_def)
  moreover have "map to_ascii_lowercase (take 7 s) ! 4 = CHR '':''"
    using assms by (simp add: eq_ignore_ascii_case_def) (simp add: to_ascii_lowercase_def is_ascii_uppercase_def code_def)
  moreover have "4 < length (take 7 s)" using arg_cong [OF assms [unfolded eq_ignore_ascii_case_def], of length] by simp
  ultimately show False by simp
qed

lemma split_scheme_splice:
  assumes "split_scheme s = Some (sch, rest)"
  obtains pre where "s = pre @ rest" "\<And>t. split_scheme (pre @ t) = Some (sch, t)"
    "length pre = (if 8 \<le> length s \<and> eq_ignore_ascii_case (take 8 s) ''https://'' then 8
       else if 7 \<le> length s \<and> eq_ignore_ascii_case (take 7 s) ''http://'' then 7 else 0)" "pre \<noteq> []"
proof (cases "8 \<le> length s \<and> eq_ignore_ascii_case (take 8 s) ''https://''")
  case True
  with assms have "sch = Https" "rest = drop 8 s" by (auto simp: split_scheme_def)
  with True show thesis by (intro that [of "take 8 s"]) (auto simp: split_scheme_def)
next
  case False
  with assms have h: "sch = Http" "rest = drop 7 s" "7 \<le> length s" "eq_ignore_ascii_case (take 7 s) ''http://''"
    by (auto simp: split_scheme_def split: if_splits)
  have "split_scheme (take 7 s @ t) = Some (sch, t)" for t
  proof -
    have "take 7 (take 7 s @ t) = take 7 s" using h(3) by simp
    then show ?thesis using h not_both_schemes [of "take 7 s @ t"] by (simp add: split_scheme_def)
  qed
  with False h show thesis by (intro that [of "take 7 s"]) auto
qed

lemma after_takeWhile:
  "drop (length (takeWhile (\<lambda>x. x \<noteq> c) s)) s = [] \<or> (\<exists>y. drop (length (takeWhile (\<lambda>x. x \<noteq> c) s)) s = c # y)"
  by (induction s) auto

lemma path_prefix_slash:
  assumes "s = [] \<or> (\<exists>t. s = CHR ''/'' # t)"
  shows "\<exists>p. path_prefix s = CHR ''/'' # p"
proof (cases "CHR ''/'' \<in> set s")
  case True
  then obtain t where s: "s = CHR ''/'' # t" using assms by auto
  have "dropWhile (\<lambda>c. c \<noteq> CHR ''/'') (rev t @ [CHR ''/'']) = dropWhile (\<lambda>c. c \<noteq> CHR ''/'') (rev t) @ [CHR ''/'']"
    by (induction "rev t" arbitrary: t) (auto simp: dropWhile_append)
  then show ?thesis using True s by (simp add: path_prefix_def)
qed (simp add: path_prefix_def)

lemma resolve_relative_path:
  assumes "resolve_relative (pre @ rest) loc = Some t" "split_scheme loc = None" "\<not> starts_with ''//'' loc"
    "length pre = (if 8 \<le> length (pre @ rest) \<and> eq_ignore_ascii_case (take 8 (pre @ rest)) ''https://'' then 8
       else if 7 \<le> length (pre @ rest) \<and> eq_ignore_ascii_case (take 7 (pre @ rest)) ''http://'' then 7 else 0)"
    "pre \<noteq> []"
  obtains x where "t = pre @ takeWhile (\<lambda>c. c \<noteq> CHR ''/'') rest @ CHR ''/'' # x"
proof -
  define auth where "auth = takeWhile (\<lambda>c. c \<noteq> CHR ''/'') rest"
  have rel: "\<not> (7 \<le> length loc \<and> eq_ignore_ascii_case (take 7 loc) ''http://'' \<or>
      8 \<le> length loc \<and> eq_ignore_ascii_case (take 8 loc) ''https://'')"
    using assms(2) by (auto simp: split_scheme_def split: if_splits)
  have cut: "take (length pre) (pre @ rest) = pre" "drop (length pre) (pre @ rest) = rest" by simp_all
  have res: "Some t = (case strip_prefix ''/'' loc of
        Some stripped \<Rightarrow> Some (pre @ auth @ ''/'' @ stripped)
      | None \<Rightarrow> Some (pre @ auth @ path_prefix (drop (length auth) rest) @ loc))"
    using assms(1,3,5) rel
    unfolding resolve_relative_def Let_def assms(4) [symmetric] cut auth_def by simp
  show thesis
  proof (cases "strip_prefix ''/'' loc")
    case (Some stripped)
    with res have "t = pre @ auth @ CHR ''/'' # stripped" by simp
    then show thesis unfolding auth_def by (rule that)
  next
    case None
    have "drop (length auth) rest = [] \<or> (\<exists>y. drop (length auth) rest = CHR ''/'' # y)"
      unfolding auth_def by (rule after_takeWhile)
    then obtain p where "path_prefix (drop (length auth) rest) = CHR ''/'' # p"
      using path_prefix_slash by blast
    with None res have "t = pre @ auth @ CHR ''/'' # p @ loc" by simp
    then show thesis unfolding auth_def by (rule that)
  qed
qed

text \<open>
  A redirect to a path, absolute or relative, stays at the authority of the page that sent it: whatever the location
  says, scheme, host and port of the next request are those of the last one.
\<close>

theorem path_redirect_same_host:
  assumes "validate_url base = Inr u" "resolve_relative base loc = Some t" "validate_url t = Inr v"
    "split_scheme loc = None" "\<not> starts_with ''//'' loc"
  shows "url_scheme v = url_scheme u \<and> url_host v = url_host u \<and> port_for v = port_for u"
proof -
  from assms(1) obtain rest where b: "split_scheme base = Some (url_scheme u, rest)" "url_text u = base"
    and bh: "case strip_prefix ''['' (authority_of rest) of
       Some inner \<Rightarrow> bracketed_host (url_scheme u) base inner = Inr u
     | None \<Rightarrow> named_host (url_scheme u) base (authority_of rest) = Inr u"
    by (rule validate_url_parts)
  from b(1) obtain pre where pre: "base = pre @ rest" "\<And>t. split_scheme (pre @ t) = Some (url_scheme u, t)"
    and len: "length pre = (if 8 \<le> length base \<and> eq_ignore_ascii_case (take 8 base) ''https://'' then 8
       else if 7 \<le> length base \<and> eq_ignore_ascii_case (take 7 base) ''http://'' then 7 else 0)" "pre \<noteq> []"
    by (rule split_scheme_splice) blast
  define auth where "auth = takeWhile (\<lambda>c. c \<noteq> CHR ''/'') rest"
  from assms(2,4,5) len obtain x where t: "t = pre @ auth @ CHR ''/'' # x"
    unfolding pre(1) auth_def by (rule resolve_relative_path)
  from assms(3) obtain rest' where r': "split_scheme t = Some (url_scheme v, rest')"
    and th: "case strip_prefix ''['' (authority_of rest') of
       Some inner \<Rightarrow> bracketed_host (url_scheme v) t inner = Inr v
     | None \<Rightarrow> named_host (url_scheme v) t (authority_of rest') = Inr v"
    by (rule validate_url_parts)
  from r' have e: "url_scheme v = url_scheme u" "rest' = auth @ CHR ''/'' # x"
    unfolding t pre(2) by auto
  have a: "authority_of (auth @ CHR ''/'' # x) = authority_of rest"
    unfolding auth_def by (rule authority_spliced)
  have "case strip_prefix ''['' (authority_of rest) of
       Some inner \<Rightarrow> bracketed_host (url_scheme u) t inner = Inr v
     | None \<Rightarrow> named_host (url_scheme u) t (authority_of rest) = Inr v"
    using th unfolding e a .
  with bh have "v = u\<lparr>url_text := t\<rparr>"
    by (cases "strip_prefix ''['' (authority_of rest)")
      (simp_all add: bracketed_input_irrelevant [of _ t _ base] named_input_irrelevant [of _ t _ base])
  then show ?thesis by (simp add: port_for_def)
qed

theorem path_redirect_same_host_witness:
  "validate_url ''http://a.com/y'' =
     Inr \<lparr>url_scheme = Http, url_host = HostName ''a.com'', url_text = ''http://a.com/y'', url_port = 80\<rparr> \<and>
   resolve_relative ''http://a.com/x'' ''y'' = Some ''http://a.com/y'' \<and>
   port_for \<lparr>url_scheme = Http, url_host = HostName ''a.com'', url_text = ''http://a.com/y'', url_port = 80\<rparr> =
   port_for \<lparr>url_scheme = Http, url_host = HostName ''a.com'', url_text = ''http://a.com/x'', url_port = 80\<rparr>"
proof -
  have v: "validate_url ''http://a.com/y'' =
     Inr \<lparr>url_scheme = Http, url_host = HostName ''a.com'', url_text = ''http://a.com/y'', url_port = 80\<rparr>" by code_simp
  have u: "validate_url ''http://a.com/x'' =
     Inr \<lparr>url_scheme = Http, url_host = HostName ''a.com'', url_text = ''http://a.com/x'', url_port = 80\<rparr>" by code_simp
  have r: "resolve_relative ''http://a.com/x'' ''y'' = Some ''http://a.com/y''" by code_simp
  have l: "split_scheme ''y'' = None" "\<not> starts_with ''//'' ''y''" by code_simp+
  from path_redirect_same_host [OF u r v l] v r show ?thesis by blast
qed

text \<open>
  Numeric forms with hexadecimal labels are host names to the gate: \<open>0x7f.1\<close> and \<open>0x7f.0.0.1\<close>, which the classic
  address readers take for 127.0.0.1, are left to the check of the resolved address.
\<close>

theorem hex_labels_accepted:
  "map_sum id url_host (validate_url ''http://0x7f.1/'') = Inr (HostName ''0x7f.1'') \<and>
   map_sum id url_host (validate_url ''http://0x7f.0.0.1/'') = Inr (HostName ''0x7f.0.0.1'') \<and>
   validate_url ''http://0x7f000001/'' = Inl NumericHostname \<and> validate_url ''http://0177.0.0.1/'' = Inl NumericHostname"
  by code_simp

text \<open>
  A relative location is spliced after the last slash of everything behind the authority, the query included: from a page
  whose query has a slash, or that has a query and no path, the next request is not the one the location names.
\<close>

theorem redirect_keeps_query:
  "resolve_relative ''http://a.com/x?u=/q'' ''b'' = Some ''http://a.com/x?u=/b'' \<and>
   resolve_relative ''http://a.com?q=1'' ''/b'' = Some ''http://a.com?q=1/b''"
  by code_simp

end
