(* ===== verification/Web_Text.thy ===== *)
theory Web_Text
  imports Web_Guard
begin

text \<open>
  What a fetched page becomes before the model sees it, \<^verbatim>\<open>src/chat/web.rs\<close>: bytes are read as UTF-8, markup and the
  bodies of script-like elements are dropped, white space is collapsed and a few entities are decoded. The position of
  each loop of the source is the rest of the input here.
\<close>

section \<open>Bytes to text\<close>

text \<open>
  \<open>String::from_utf8_lossy\<close>: a valid character is kept, a maximal invalid prefix is replaced by U+FFFD. The number of
  bytes a step takes and whether they are a character.
\<close>

definition cont_byte :: "nat \<Rightarrow> bool" where
  "cont_byte b \<longleftrightarrow> 128 \<le> b \<and> b \<le> 191"

definition second_byte :: "nat \<Rightarrow> nat \<Rightarrow> bool" where
  "second_byte a b \<longleftrightarrow>
     (if a = 224 then 160 \<le> b \<and> b \<le> 191 else if a = 237 then 128 \<le> b \<and> b \<le> 159
      else if a = 240 then 144 \<le> b \<and> b \<le> 191 else if a = 244 then 128 \<le> b \<and> b \<le> 143 else cont_byte b)"

definition utf8_sequence :: "nat \<Rightarrow> nat \<Rightarrow> nat \<Rightarrow> nat \<Rightarrow> nat \<times> bool" where
  "utf8_sequence a b c d =
     (if a < 128 then (1, True)
      else if 194 \<le> a \<and> a \<le> 223 then (if cont_byte b then (2, True) else (1, False))
      else if 224 \<le> a \<and> a \<le> 239 then
        (if \<not> second_byte a b then (1, False) else if \<not> cont_byte c then (2, False) else (3, True))
      else if 240 \<le> a \<and> a \<le> 244 then
        (if \<not> second_byte a b then (1, False) else if \<not> cont_byte c then (2, False)
         else if \<not> cont_byte d then (3, False) else (4, True))
      else (1, False))"

definition byte_at :: "string \<Rightarrow> nat \<Rightarrow> nat" where
  "byte_at s i = (if i < length s then code (s ! i) else 0)"

definition utf8_step :: "string \<Rightarrow> nat \<times> bool" where
  "utf8_step s = utf8_sequence (byte_at s 0) (byte_at s 1) (byte_at s 2) (byte_at s 3)"

lemma utf8_step_positive: "0 < fst (utf8_step s)"
  by (auto simp: utf8_step_def utf8_sequence_def)

lemma utf8_step_nonzero: "(k, v) = utf8_step s \<Longrightarrow> 0 < k"
  using utf8_step_positive [of s] by (metis fst_conv)

definition replacement_char :: string where
  "replacement_char = map char_of [239 :: nat, 191, 189]"

function from_utf8_lossy :: "string \<Rightarrow> string" where
  "from_utf8_lossy [] = []"
| "from_utf8_lossy (c # cs) =
     (case utf8_step (c # cs) of (k, valid) \<Rightarrow>
        (if valid then take k (c # cs) else replacement_char) @ from_utf8_lossy (drop k (c # cs)))"
  by pat_completeness auto
termination by (relation "measure length") (auto dest!: utf8_step_nonzero)

section \<open>Searching\<close>

text \<open>\<open>find_subslice\<close> and \<open>memchr\<close> give the offset of the first match.\<close>

fun find_subslice :: "string \<Rightarrow> string \<Rightarrow> nat option" where
  "find_subslice [] needle = None"
| "find_subslice (c # cs) needle =
     (if needle = [] \<or> Suc (length cs) < length needle then None
      else if starts_with needle (c # cs) then Some 0
      else map_option Suc (find_subslice cs needle))"

fun memchr :: "char \<Rightarrow> string \<Rightarrow> nat option" where
  "memchr n [] = None"
| "memchr n (c # cs) = (if c = n then Some 0 else map_option Suc (memchr n cs))"

definition is_ascii_whitespace :: "char \<Rightarrow> bool" where
  "is_ascii_whitespace c \<longleftrightarrow> code c \<in> {32, 9, 10, 12, 13}"

definition SKIP_BLOCK_TAGS :: "string list" where
  "SKIP_BLOCK_TAGS = [''script'', ''style'', ''noscript'', ''template'', ''iframe'', ''svg'', ''math'']"

definition is_skip_block :: "string \<Rightarrow> bool" where
  "is_skip_block name \<longleftrightarrow> list_ex (\<lambda>t. eq_ignore_ascii_case t name) SKIP_BLOCK_TAGS"

text \<open>The rest of the input after the closing tag \<open></name>\<close>.\<close>

function find_close_tag :: "string \<Rightarrow> string \<Rightarrow> string option" where
  "find_close_tag name s =
     (if \<not> 2 < length s then None
      else case memchr CHR ''<'' s of
        None \<Rightarrow> None
      | Some rel \<Rightarrow>
          (let t = drop rel s in
           if \<not> 2 < length t then None
           else if t ! 1 \<noteq> CHR ''/'' then find_close_tag name (tl t)
           else let rest = drop 2 t in
             if length rest < length name then None
             else if \<not> eq_ignore_ascii_case (take (length name) rest) name then find_close_tag name (tl t)
             else case dropWhile is_ascii_whitespace (drop (length name) rest) of
               c # after \<Rightarrow> if c = CHR ''>'' then Some after else find_close_tag name (tl t)
             | [] \<Rightarrow> find_close_tag name (tl t)))"
  by pat_completeness auto
termination by (relation "measure (\<lambda>(_, s). length s)") auto

declare find_close_tag.simps [simp del]

section \<open>Stripping\<close>

definition tag_name_end :: "char \<Rightarrow> bool" where
  "tag_name_end c \<longleftrightarrow> c = CHR ''>'' \<or> c = CHR ''/'' \<or> is_ascii_whitespace c"

text \<open>
  One round of the loop at a \<open><\<close>: what is written and where it goes on; \<open>None\<close> drops the rest of the document.
\<close>

definition skip_tag :: "string \<Rightarrow> (string \<times> string) option" where
  "skip_tag after_lt =
     (let is_close = starts_with ''/'' after_lt;
          name_start = (if is_close then tl after_lt else after_lt);
          name = takeWhile (\<lambda>c. \<not> tag_name_end c) name_start;
          rest = dropWhile (\<lambda>c. \<not> tag_name_end c) name_start
      in case memchr CHR ''>'' rest of
           None \<Rightarrow> None
         | Some rel \<Rightarrow>
             (let body = drop (rel + 1) rest in
              if \<not> is_close \<and> is_skip_block name
              then (case find_close_tag name body of None \<Rightarrow> None | Some after \<Rightarrow> Some ('' '', after))
              else Some ([], body)))"

definition skip_markup :: "string \<Rightarrow> (string \<times> string) option" where
  "skip_markup s =
     (if starts_with ''<!--'' s then
        (case find_subslice (drop 4 s) ''-->'' of None \<Rightarrow> None | Some rel \<Rightarrow> Some ([], drop (4 + rel + 3) s))
      else if starts_with ''<![CDATA['' s then
        (case find_subslice (drop 9 s) '']]>'' of None \<Rightarrow> None | Some rel \<Rightarrow> Some ([], drop (9 + rel + 3) s))
      else if starts_with ''<!'' s \<or> starts_with ''<?'' s then
        (case memchr CHR ''>'' s of None \<Rightarrow> None | Some rel \<Rightarrow> Some ([], drop (rel + 1) s))
      else skip_tag (tl s))"

lemma memchr_bound: "memchr n s = Some k \<Longrightarrow> k < length s"
  by (induction s arbitrary: k) (auto split: if_splits)

lemma find_subslice_bound: "find_subslice s needle = Some k \<Longrightarrow> k < length s"
  by (induction s arbitrary: k) (auto split: if_splits)

lemma length_dropWhile_lt: "dropWhile p s = c # t \<Longrightarrow> length t < length s"
  using length_dropWhile_le [of p s] by simp

lemma find_close_tag_shorter: "find_close_tag name s = Some t \<Longrightarrow> length t < length s"
proof (induction "length s" arbitrary: s rule: less_induct)
  case less
  from less.prems have l: "2 < length s" by (auto simp: find_close_tag.simps [of name s] split: if_splits)
  from less.prems l obtain rel where rel: "memchr CHR ''<'' s = Some rel"
    by (auto simp: find_close_tag.simps [of name s] split: option.splits)
  define u where "u = drop rel s"
  have u: "length u \<le> length s" by (simp add: u_def)
  have f: "2 < length u" "find_close_tag name (tl u) = Some t \<or> (\<exists>c. dropWhile is_ascii_whitespace (drop (length name) (drop 2 u)) = c # t)"
    using less.prems l rel unfolding find_close_tag.simps [of name s] Let_def
    by (auto simp flip: u_def split: if_splits list.splits)
  have "length (tl u) < length s" using u f(1) by simp
  then have "length t < length s" if "find_close_tag name (tl u) = Some t"
    using less.hyps that by fastforce
  then show ?case using f u length_dropWhile_lt [of is_ascii_whitespace "drop (length name) (drop 2 u)" _ t] by fastforce
qed

lemma skip_tag_cases:
  assumes "skip_tag cs = Some (out, rest)"
  obtains p w rel where "w = cs \<or> w = tl cs" "memchr CHR ''>'' (dropWhile p w) = Some rel" "out = []"
        "rest = drop (Suc rel) (dropWhile p w)"
    | p w rel name where "w = cs \<or> w = tl cs" "memchr CHR ''>'' (dropWhile p w) = Some rel" "out = '' ''"
        "find_close_tag name (drop (Suc rel) (dropWhile p w)) = Some rest"
proof -
  define p where "p = (\<lambda>c. \<not> tag_name_end c)"
  define w where "w = (if starts_with ''/'' cs then tl cs else cs)"
  obtain rel where rel: "memchr CHR ''>'' (dropWhile p w) = Some rel"
    using assms unfolding skip_tag_def Let_def p_def [symmetric] w_def [symmetric] by (auto split: option.splits)
  have w: "w = cs \<or> w = tl cs" by (simp add: w_def)
  show thesis
  proof (cases "\<not> starts_with ''/'' cs \<and> is_skip_block (takeWhile p w)")
    case True
    then have "out = '' ''" "find_close_tag (takeWhile p w) (drop (Suc rel) (dropWhile p w)) = Some rest"
      using assms rel unfolding skip_tag_def Let_def p_def [symmetric] w_def [symmetric]
      by (simp_all split: option.splits)
    then show thesis using that(2) w rel by blast
  next
    case False
    then have "out = []" "rest = drop (Suc rel) (dropWhile p w)"
      using assms rel unfolding skip_tag_def Let_def p_def [symmetric] w_def [symmetric] by auto
    then show thesis using that(1) w rel by blast
  qed
qed

lemma skip_markup_cases:
  assumes "skip_markup s = Some (out, rest)"
  obtains rel where "find_subslice (drop 4 s) ''-->'' = Some rel" "out = []" "rest = drop (4 + rel + 3) s"
    | rel where "find_subslice (drop 9 s) '']]>'' = Some rel" "out = []" "rest = drop (9 + rel + 3) s"
    | rel where "memchr CHR ''>'' s = Some rel" "out = []" "rest = drop (Suc rel) s"
    | "skip_tag (tl s) = Some (out, rest)"
proof -
  consider "starts_with ''<!--'' s" | "\<not> starts_with ''<!--'' s" "starts_with ''<![CDATA['' s"
    | "\<not> starts_with ''<!--'' s" "\<not> starts_with ''<![CDATA['' s" "starts_with ''<!'' s \<or> starts_with ''<?'' s"
    | "\<not> starts_with ''<!--'' s" "\<not> starts_with ''<![CDATA['' s" "\<not> (starts_with ''<!'' s \<or> starts_with ''<?'' s)"
    by blast
  then show thesis
  proof cases
    case 1
    then show thesis using assms that(1) by (auto simp: skip_markup_def split: option.splits)
  next
    case 2
    then show thesis using assms that(2) by (auto simp: skip_markup_def split: option.splits)
  next
    case 3
    then have "(case memchr CHR ''>'' s of None \<Rightarrow> None | Some rel \<Rightarrow> Some ([], drop (rel + 1) s)) = Some (out, rest)"
      using assms by (simp add: skip_markup_def)
    then show thesis using that(3) by (auto split: option.splits)
  next
    case 4
    then show thesis using assms that(4) by (simp add: skip_markup_def)
  qed
qed

lemma skip_markup_shorter:
  assumes "s \<noteq> []" "skip_markup s = Some (out, rest)"
  shows "length rest < length s"
  using assms(2)
proof (cases rule: skip_markup_cases)
  case 4
  have drop_le: "length (dropWhile p w) < length s" if "w = tl s \<or> w = tl (tl s)" for p w
    using that assms(1) length_dropWhile_le [of p w] by (cases s) auto
  from 4 show ?thesis
  proof (cases rule: skip_tag_cases)
    case (1 p w rel)
    then show ?thesis using drop_le [of w p] by simp
  next
    case (2 p w rel name)
    then show ?thesis using drop_le [of w p] find_close_tag_shorter [OF 2(4)] by simp
  qed
qed (use assms(1) in auto)

function strip_loop :: "string \<Rightarrow> string" where
  "strip_loop [] = []"
| "strip_loop (c # cs) =
     (if c \<noteq> CHR ''<'' then take (char_width c) (c # cs) @ strip_loop (drop (char_width c) (c # cs))
      else case skip_markup (c # cs) of None \<Rightarrow> [] | Some (out, rest) \<Rightarrow> out @ strip_loop rest)"
  by pat_completeness auto
termination
proof (relation "measure length")
  fix c :: char and cs
  show "(drop (char_width c) (c # cs), c # cs) \<in> measure length" by (simp add: char_width_def)
next
  fix c cs x out rest
  assume "skip_markup (c # cs) = Some x" "(out, rest) = x"
  then show "(rest, c # cs) \<in> measure length" using skip_markup_shorter [of "c # cs" out rest] by simp
qed simp

text \<open>Runs of white space become one blank; \<open>str::trim\<close>.\<close>

definition is_white :: "string \<Rightarrow> bool" where
  "is_white c \<longleftrightarrow> ws_len c \<noteq> 0"

fun collapse :: "bool \<Rightarrow> string list \<Rightarrow> string" where
  "collapse prev_ws [] = []"
| "collapse prev_ws (c # cs) =
     (if is_white c then (if prev_ws then [] else '' '') @ collapse True cs else c @ collapse False cs)"

definition str_trim :: "string \<Rightarrow> string" where
  "str_trim s = concat (rev (dropWhile is_white (rev (dropWhile is_white (chars s)))))"

text \<open>The UTF-8 encoding of a code point.\<close>

definition encode_utf8 :: "nat \<Rightarrow> string" where
  "encode_utf8 n = map char_of
     (if n < 128 then [n]
      else if n < 2048 then [192 + n div 64, 128 + n mod 64]
      else if n < 65536 then [224 + n div 4096, 128 + n div 64 mod 64, 128 + n mod 64]
      else [240 + n div 262144, 128 + n div 4096 mod 64, 128 + n div 64 mod 64, 128 + n mod 64])"

definition decode_numeric_entity :: "string \<Rightarrow> string option" where
  "decode_numeric_entity body =
     (case strip_prefix ''#'' body of
        None \<Rightarrow> None
      | Some rest \<Rightarrow>
          (let hex = (case strip_prefix ''x'' rest of Some h \<Rightarrow> Some h | None \<Rightarrow> strip_prefix ''X'' rest);
               cp = (case hex of
                   Some h \<Rightarrow> if h = [] \<or> \<not> list_all is_ascii_hexdigit h then None
                     else (let v = foldl (\<lambda>n c. n * 16 + digit_of c) 0 h in if v \<le> u32_top then Some v else None)
                 | None \<Rightarrow> if rest = [] \<or> \<not> list_all is_ascii_digit rest then None else parse_unsigned u32_top rest)
           in case cp of
                None \<Rightarrow> None
              | Some v \<Rightarrow>
                  if 0x10FFFF < v \<or> 0xD800 \<le> v \<and> v \<le> 0xDFFF then None
                  else if v < 32 \<or> v = 127 then None
                  else Some (encode_utf8 v)))"

definition decode_entity :: "string \<Rightarrow> string option" where
  "decode_entity body =
     (if body = ''amp'' then Some ''&''
      else if body = ''lt'' then Some ''<''
      else if body = ''gt'' then Some ''>''
      else if body = ''quot'' then Some [CHR 0x22]
      else if body = ''apos'' then Some [CHR 0x27]
      else if body = ''nbsp'' then Some (map char_of [194 :: nat, 160])
      else decode_numeric_entity body)"

function decode_entities :: "string \<Rightarrow> string" where
  "decode_entities [] = []"
| "decode_entities (c # cs) =
     (if c \<noteq> CHR ''&'' then take (char_width c) (c # cs) @ decode_entities (drop (char_width c) (c # cs))
      else case memchr CHR '';'' (take 11 cs) of
        None \<Rightarrow> ''&'' @ decode_entities cs
      | Some rel \<Rightarrow>
          (case decode_entity (take rel cs) of
             Some d \<Rightarrow> d @ decode_entities (drop (rel + 1) cs)
           | None \<Rightarrow> ''&'' @ decode_entities cs))"
  by pat_completeness auto
termination by (relation "measure length") (auto simp: char_width_def)

definition finalize_strip :: "string \<Rightarrow> string" where
  "finalize_strip stripped = decode_entities (str_trim (collapse False (chars stripped)))"

definition strip_html_tags :: "string \<Rightarrow> string" where
  "strip_html_tags input = finalize_strip (strip_loop input)"

section \<open>Valid UTF-8\<close>

function valid_utf8 :: "string \<Rightarrow> bool" where
  "valid_utf8 [] = True"
| "valid_utf8 (c # cs) =
     (case utf8_step (c # cs) of (k, ok) \<Rightarrow> ok \<and> valid_utf8 (drop k (c # cs)))"
  by pat_completeness auto
termination by (relation "measure length") (auto dest!: utf8_step_nonzero)

text \<open>One character at the front of a valid string: its width, and the bytes after the first are not ASCII.\<close>

lemma utf8_step_char:
  assumes "utf8_step (c # cs) = (k, True)"
  shows "char_width c = k" "k \<le> length (c # cs)" "\<And>b. b \<in> set (take (k - 1) cs) \<Longrightarrow> 128 \<le> code b"
    "128 \<le> code c \<longleftrightarrow> k \<noteq> 1" "0 < k"
proof -
  have c: "byte_at (c # cs) 0 = code c" by (simp add: byte_at_def)
  show "char_width c = k" "128 \<le> code c \<longleftrightarrow> k \<noteq> 1" "0 < k"
    using assms unfolding utf8_step_def c by (auto simp: utf8_sequence_def char_width_def split: if_splits)
  have bytes: "128 \<le> byte_at (c # cs) i" if "i < k" "0 < i" for i
  proof -
    have "i = 1 \<or> i = 2 \<or> i = 3"
      using assms that unfolding utf8_step_def by (auto simp: utf8_sequence_def split: if_splits)
    then show ?thesis
      using assms that unfolding utf8_step_def
      by (elim disjE) (auto simp: utf8_sequence_def second_byte_def cont_byte_def split: if_splits)
  qed
  show "k \<le> length (c # cs)"
  proof (rule ccontr)
    assume "\<not> k \<le> length (c # cs)"
    then show False using bytes [of "length (c # cs)"] by (simp add: byte_at_def)
  qed
  fix b assume "b \<in> set (take (k - 1) cs)"
  then obtain i where i: "i < k - 1" "i < length cs" "b = cs ! i"
    by (auto simp: in_set_conv_nth)
  then show "128 \<le> code b" using bytes [of "Suc i"] by (simp add: byte_at_def)
qed

lemma utf8_sequence_cong:
  "utf8_sequence a x y z = (k, True) \<Longrightarrow> (1 < k \<Longrightarrow> x' = x) \<Longrightarrow> (2 < k \<Longrightarrow> y' = y) \<Longrightarrow> (3 < k \<Longrightarrow> z' = z) \<Longrightarrow>
     utf8_sequence a x' y' z' = (k, True)"
  by (auto simp: utf8_sequence_def split: if_splits)

lemma utf8_step_prefix:
  assumes "utf8_step (c # cs) = (k, True)"
  shows "utf8_step (take k (c # cs) @ t) = (k, True)"
proof -
  have k: "0 < k" "k \<le> length (c # cs)" using utf8_step_char [OF assms] by simp_all
  have same: "byte_at (take k (c # cs) @ t) i = byte_at (c # cs) i" if "i < k" for i
  proof -
    have "(take k (c # cs) @ t) ! i = (c # cs) ! i" using that k(2) by (simp only: nth_append length_take) simp
    then show ?thesis using that k(2) by (simp add: byte_at_def)
  qed
  show ?thesis
    using assms unfolding utf8_step_def same [OF k(1)] by (elim utf8_sequence_cong) (simp_all add: same)
qed

lemma valid_utf8_append:
  assumes "c # cs = u" "utf8_step u = (length u, True)" "valid_utf8 t"
  shows "valid_utf8 (u @ t)"
proof -
  have "utf8_step (u @ t) = (length u, True)"
    using utf8_step_prefix [of c cs "length u" t] assms(1,2) by auto
  then show ?thesis using assms by (cases u) auto
qed

lemma lossy_valid: "valid_utf8 (from_utf8_lossy s)"
proof (induction s rule: from_utf8_lossy.induct)
  case (2 c cs)
  obtain k v where s: "utf8_step (c # cs) = (k, v)" by force
  have IH: "valid_utf8 (from_utf8_lossy (drop k (c # cs)))" using "2.IH" s by simp
  show ?case
  proof (cases v)
    case True
    then have st: "utf8_step (c # cs) = (k, True)" using s by simp
    have "0 < k" "k \<le> length (c # cs)" using utf8_step_char [OF st] by simp_all
    then obtain d ds where d: "take k (c # cs) = d # ds" "length (take k (c # cs)) = k" by (cases k) simp_all
    show ?thesis
      using valid_utf8_append [OF d(1) [symmetric] _ IH] utf8_step_prefix [OF st, of "[]"] d(2) st by simp
  next
    case False
    have "utf8_step replacement_char = (length replacement_char, True)" by code_simp
    from valid_utf8_append [OF _ this IH] show ?thesis using s False by (simp add: replacement_char_def)
  qed
qed simp

lemma valid_utf8_uncons:
  assumes "valid_utf8 (c # cs)"
  shows "valid_utf8 (drop (char_width c) (c # cs))" "char_width c \<le> length (c # cs)" "0 < char_width c"
    "\<And>b. b \<in> set (take (char_width c - 1) cs) \<Longrightarrow> 128 \<le> code b" "128 \<le> code c \<longleftrightarrow> char_width c \<noteq> 1"
proof -
  obtain k where k: "utf8_step (c # cs) = (k, True)" "valid_utf8 (drop k (c # cs))"
    using assms by (auto split: prod.splits)
  show "valid_utf8 (drop (char_width c) (c # cs))" "char_width c \<le> length (c # cs)" "0 < char_width c"
    "128 \<le> code c \<longleftrightarrow> char_width c \<noteq> 1"
    using utf8_step_char [OF k(1)] k(2) by simp_all
  show "\<And>b. b \<in> set (take (char_width c - 1) cs) \<Longrightarrow> 128 \<le> code b"
    using utf8_step_char(1,3) [OF k(1)] by simp
qed

text \<open>An ASCII byte is a character of its own: what follows it is valid again.\<close>

lemma valid_utf8_from: "valid_utf8 (a @ c # b) \<Longrightarrow> code c < 128 \<Longrightarrow> valid_utf8 (c # b)"
proof (induction "length a" arbitrary: a rule: less_induct)
  case less
  show ?case
  proof (cases a)
    case (Cons d ds)
    from less.prems(1) have "valid_utf8 (d # (ds @ c # b))" using Cons by simp
    note v = valid_utf8_uncons [OF this]
    have w: "char_width d \<le> length a"
    proof (rule ccontr)
      assume "\<not> char_width d \<le> length a"
      then have "c \<in> set (take (char_width d - 1) (ds @ c # b))"
        using Cons by (auto simp: take_Cons' )
      with v(4) less.prems(2) show False by fastforce
    qed
    then have "drop (char_width d) (a @ c # b) = drop (char_width d) a @ c # b" by simp
    then show ?thesis using less.hyps [of "drop (char_width d) a"] v(1,3) w less.prems(2) Cons by simp
  qed (use less.prems in simp)
qed

lemma valid_utf8_after:
  assumes "valid_utf8 (a @ c # b)" "code c < 128"
  shows "valid_utf8 b"
proof -
  from valid_utf8_from [OF assms] have "valid_utf8 (c # b)" .
  then show ?thesis using valid_utf8_uncons(1,5) [of c b] assms(2) by simp
qed

section \<open>No markup in the text\<close>

lemma memchr_split: "memchr n s = Some k \<Longrightarrow> \<exists>a. s = a @ n # drop (Suc k) s"
proof (induction s arbitrary: k)
  case (Cons c cs)
  show ?case
  proof (cases "c = n")
    case False
    with Cons.prems obtain j where j: "k = Suc j" "memchr n cs = Some j" by auto
    from Cons.IH [OF j(2)] obtain a where "cs = a @ n # drop (Suc j) cs" ..
    then have "c # cs = (c # a) @ n # drop (Suc k) (c # cs)" using j(1) by simp
    then show ?thesis ..
  qed (use Cons.prems in \<open>auto intro: exI [of _ "[]"]\<close>)
qed simp

lemma find_subslice_split:
  "find_subslice s needle = Some k \<Longrightarrow> length needle = m \<Longrightarrow> \<exists>a. s = a @ needle @ drop (k + m) s"
proof (induction s arbitrary: k)
  case (Cons c cs)
  show ?case
  proof (cases "starts_with needle (c # cs)")
    case True
    with Cons.prems have "k = 0" by (auto split: if_splits)
    moreover have "c # cs = [] @ needle @ drop m (c # cs)"
      using True Cons.prems(2) unfolding starts_with_def by (metis append_Nil append_take_drop_id)
    ultimately show ?thesis by (intro exI [of _ "[]"]) simp
  next
    case False
    with Cons.prems obtain j where j: "k = Suc j" "find_subslice cs needle = Some j" by (auto split: if_splits)
    from Cons.IH [OF j(2) Cons.prems(2)] obtain a where "cs = a @ needle @ drop (j + m) cs" ..
    then have "c # cs = (c # a) @ needle @ drop (k + m) (c # cs)" using j(1) by simp
    then show ?thesis ..
  qed
qed simp

lemma find_close_tag_split: "find_close_tag name s = Some t \<Longrightarrow> \<exists>a. s = a @ CHR ''>'' # t"
proof (induction "length s" arbitrary: s rule: less_induct)
  case less
  from less.prems have l: "2 < length s" by (auto simp: find_close_tag.simps [of name s] split: if_splits)
  from less.prems l obtain rel where rel: "memchr CHR ''<'' s = Some rel"
    by (auto simp: find_close_tag.simps [of name s] split: option.splits)
  define u where "u = drop rel s"
  have s: "s = take rel s @ u" by (simp add: u_def)
  have f: "2 < length u" "find_close_tag name (tl u) = Some t \<or>
      dropWhile is_ascii_whitespace (drop (length name) (drop 2 u)) = CHR ''>'' # t"
    using less.prems l rel unfolding find_close_tag.simps [of name s] Let_def
    by (auto simp flip: u_def split: if_splits list.splits)
  from f(2) show ?case
  proof
    assume "find_close_tag name (tl u) = Some t"
    moreover have "length (tl u) < length s" using f(1) by (simp add: u_def)
    ultimately obtain a where "tl u = a @ CHR ''>'' # t" using less.hyps by blast
    then have "s = (take rel s @ hd u # a) @ CHR ''>'' # t" using s f(1) by (cases u) auto
    then show ?thesis ..
  next
    assume d: "dropWhile is_ascii_whitespace (drop (length name) (drop 2 u)) = CHR ''>'' # t"
    have "s = take rel s @ take (length name + 2) u @ drop (length name) (drop 2 u)"
      using s by (simp add: add.commute)
    also have "drop (length name) (drop 2 u) =
        takeWhile is_ascii_whitespace (drop (length name) (drop 2 u)) @ CHR ''>'' # t"
      by (metis d takeWhile_dropWhile_id)
    finally have "s = (take rel s @ take (length name + 2) u @
        takeWhile is_ascii_whitespace (drop (length name) (drop 2 u))) @ CHR ''>'' # t" by simp
    then show ?thesis ..
  qed
qed

lemma skip_markup_split:
  assumes "skip_markup (c # cs) = Some (out, rest)"
  shows "set out \<subseteq> {CHR '' ''} \<and> (\<exists>a. c # cs = a @ CHR ''>'' # rest)"
proof -
  let ?s = "c # cs"
  have gap: "\<exists>a. ?s = a @ CHR ''>'' # drop (n + rel + 3) ?s"
    if sub: "find_subslice (drop n ?s) [x, y, CHR ''>''] = Some rel" for n rel x y
  proof -
    have "length [x, y, CHR ''>''] = 3" by simp
    from find_subslice_split [OF sub this] obtain a where
      "drop n ?s = a @ [x, y, CHR ''>''] @ drop (rel + 3) (drop n ?s)" by blast
    moreover have e: "drop (rel + 3) (drop n ?s) = drop (n + rel + 3) ?s"
      by (simp only: drop_drop) (simp only: ac_simps)
    ultimately have "drop n ?s = a @ [x, y, CHR ''>''] @ drop (n + rel + 3) ?s" unfolding e by blast
    then have "take n ?s @ drop n ?s = (take n ?s @ a @ [x, y]) @ CHR ''>'' # drop (n + rel + 3) ?s" by simp
    then have "?s = (take n ?s @ a @ [x, y]) @ CHR ''>'' # drop (n + rel + 3) ?s" unfolding append_take_drop_id .
    then show ?thesis ..
  qed
  have tag: "\<exists>a. ?s = a @ CHR ''>'' # drop (Suc rel) (dropWhile p w)"
    if m: "memchr CHR ''>'' (dropWhile p w) = Some rel" and w: "w = cs \<or> w = tl cs" for p w rel
  proof -
    obtain b where b: "?s = b @ w" using w by (metis append_Cons append_Nil list.collapse tl_Nil)
    from memchr_split [OF m] obtain a where "dropWhile p w = a @ CHR ''>'' # drop (Suc rel) (dropWhile p w)" ..
    then have "w = (takeWhile p w @ a) @ CHR ''>'' # drop (Suc rel) (dropWhile p w)"
      by (metis append.assoc takeWhile_dropWhile_id)
    then have "?s = (b @ takeWhile p w @ a) @ CHR ''>'' # drop (Suc rel) (dropWhile p w)" using b by simp
    then show ?thesis ..
  qed
  have close: "\<exists>a. ?s = a @ CHR ''>'' # rest" if d: "find_close_tag name w = Some rest" and w: "\<exists>a. ?s = a @ w" for name w
  proof -
    from w obtain a where a: "?s = a @ w" ..
    from find_close_tag_split [OF d] obtain b where "w = b @ CHR ''>'' # rest" ..
    with a have "?s = (a @ b) @ CHR ''>'' # rest" by simp
    then show ?thesis ..
  qed
  from assms show ?thesis
  proof (cases rule: skip_markup_cases)
    case (1 rel)
    then show ?thesis using gap [of 4] by simp
  next
    case (2 rel)
    then show ?thesis using gap [of 9] by simp
  next
    case (3 rel)
    then show ?thesis using memchr_split [of "CHR ''>''" ?s rel] by auto
  next
    case 4
    then have "skip_tag cs = Some (out, rest)" by simp
    then show ?thesis
    proof (cases rule: skip_tag_cases)
      case (1 p w rel)
      then show ?thesis using tag by simp
    next
      case (2 p w rel name)
      from tag [OF 2(2,1)] obtain a where "?s = (a @ ''>'') @ drop (Suc rel) (dropWhile p w)" by auto
      with close [OF 2(4)] 2(3) show ?thesis by auto
    qed
  qed
qed

text \<open>Whatever page is given, no opening bracket is left when the markup is gone; only a decoded entity can bring one back.\<close>

lemma strip_loop_no_markup: "valid_utf8 s \<Longrightarrow> CHR ''<'' \<notin> set (strip_loop s)"
proof (induction s rule: strip_loop.induct)
  case (2 c cs)
  show ?case
  proof (cases "c = CHR ''<''")
    case False
    have nb: "code b \<noteq> code CHR ''<''" if "128 \<le> code b" for b using that by (simp add: code_def)
    note v = valid_utf8_uncons [OF "2.prems"]
    have "CHR ''<'' \<notin> set (take (char_width c) (c # cs))"
      using v(3,4) nb False by (auto simp: take_Cons')
    then show ?thesis using "2.IH"(1) [OF False v(1)] False by simp
  next
    case True
    show ?thesis
    proof (cases "skip_markup (c # cs)")
      case (Some x)
      obtain out rest where x: "x = (out, rest)" by force
      from skip_markup_split Some x obtain a where a: "set out \<subseteq> {CHR '' ''}" "c # cs = a @ CHR ''>'' # rest" by blast
      from "2.prems" have "valid_utf8 rest" unfolding a(2) by (rule valid_utf8_after) (simp add: code_def)
      then have "CHR ''<'' \<notin> set (strip_loop rest)" using "2.IH"(2) [OF _ Some x [symmetric]] True by simp
      moreover have "strip_loop (c # cs) = out @ strip_loop rest" using Some x True by simp
      ultimately show ?thesis using a(1) by (simp only: set_append) auto
    qed (use True in simp)
  qed
qed simp

section \<open>Bodies of scripts\<close>

text \<open>A body has no closing tag of its own.\<close>

fun no_close_tag :: "string \<Rightarrow> bool" where
  "no_close_tag (c # d # cs) = (\<not> (c = CHR ''<'' \<and> d = CHR ''/'') \<and> no_close_tag (d # cs))"
| "no_close_tag [c] = (c \<noteq> CHR ''<'')"
| "no_close_tag [] = True"

lemma find_close_tag_skip:
  assumes "c \<noteq> CHR ''<''" "2 < length s"
  shows "find_close_tag name (c # s) = find_close_tag name s"
proof -
  have l: "2 < length (c # s)" using assms(2) by simp
  have m: "memchr CHR ''<'' (c # s) = map_option Suc (memchr CHR ''<'' s)" using assms(1) by simp
  show ?thesis
    unfolding find_close_tag.simps [of name "c # s"] find_close_tag.simps [of name s] m
    using assms(2) l by (cases "memchr CHR ''<'' s") simp_all
qed

lemma find_close_tag_found:
  "eq_ignore_ascii_case t name \<Longrightarrow> list_all is_ascii_whitespace ws \<Longrightarrow>
     find_close_tag name (''</'' @ t @ ws @ ''>'' @ post) = Some post"
proof -
  assume t: "eq_ignore_ascii_case t name" and ws: "list_all is_ascii_whitespace ws"
  from arg_cong [OF t [unfolded eq_ignore_ascii_case_def], of length] have l: "length t = length name" by simp
  have "dropWhile is_ascii_whitespace (ws @ ''>'' @ post) = CHR ''>'' # post"
    using ws by (subst dropWhile_append2) (auto simp: list_all_iff is_ascii_whitespace_def code_def)
  then show ?thesis
    using t l by (simp add: find_close_tag.simps [of name "CHR ''<'' # _"] Let_def)
qed

lemma find_close_tag_body:
  assumes "eq_ignore_ascii_case t name" "list_all is_ascii_whitespace ws"
  shows "no_close_tag body \<Longrightarrow> find_close_tag name (body @ ''</'' @ t @ ws @ ''>'' @ post) = Some post"
proof (induction body rule: no_close_tag.induct)
  case (1 c d cs)
  let ?s = "(d # cs) @ ''</'' @ t @ ws @ ''>'' @ post"
  have IH: "find_close_tag name ?s = Some post" using 1 by simp
  have "find_close_tag name (c # ?s) = find_close_tag name ?s"
  proof (cases "c = CHR ''<''")
    case True
    with "1.prems" have "d \<noteq> CHR ''/''" by simp
    then show ?thesis using True by (simp add: find_close_tag.simps [of name "CHR ''<'' # _"] Let_def)
  qed (auto intro: find_close_tag_skip)
  with IH show ?case by simp
next
  case (2 c)
  have "find_close_tag name (c # ''</'' @ t @ ws @ ''>'' @ post) = find_close_tag name (''</'' @ t @ ws @ ''>'' @ post)"
    using 2 by (intro find_close_tag_skip) simp_all
  then show ?case using find_close_tag_found [OF assms] by simp
next
  case 3
  then show ?case using find_close_tag_found [OF assms] by simp
qed

lemma skip_block_names:
  assumes "is_skip_block name"
  shows "name \<noteq> []" "list_all (\<lambda>c. \<not> tag_name_end c) name" "hd name \<notin> {CHR ''!'', CHR ''?'', CHR ''/''}"
proof -
  obtain t where t: "t \<in> set SKIP_BLOCK_TAGS" "map to_ascii_lowercase t = map to_ascii_lowercase name"
    using assms by (auto simp: is_skip_block_def list_ex_iff eq_ignore_ascii_case_def)
  have "list_all (\<lambda>t. t \<noteq> [] \<and> list_all is_ascii_alphanumeric t) SKIP_BLOCK_TAGS" by code_simp
  with t(1) have ta: "t \<noteq> []" "\<forall>c \<in> set t. is_ascii_alphanumeric c" by (auto simp: list_all_iff)
  have "is_ascii_alphanumeric c" if "c \<in> set name" for c
  proof -
    from that have "to_ascii_lowercase c \<in> set (map to_ascii_lowercase t)" unfolding t(2) by simp
    then obtain d where "d \<in> set t" "to_ascii_lowercase c = to_ascii_lowercase d" by auto
    then show ?thesis using ta(2) alnum_lower by metis
  qed
  moreover have "\<not> is_ascii_alphanumeric c" if "tag_name_end c \<or> c \<in> {CHR ''!'', CHR ''?'', CHR ''/''}" for c
    using that by (auto simp: tag_name_end_def is_ascii_whitespace_def is_ascii_alphanumeric_def is_ascii_lowercase_def
        is_ascii_uppercase_def is_ascii_digit_def code_def)
  moreover show "name \<noteq> []" using ta(1) t(2) by auto
  ultimately show "list_all (\<lambda>c. \<not> tag_name_end c) name" "hd name \<notin> {CHR ''!'', CHR ''?'', CHR ''/''}"
    using hd_in_set [of name] unfolding list_all_iff by blast+
qed

lemma memchr_here: "n \<notin> set a \<Longrightarrow> memchr n (a @ n # s) = Some (length a)"
  by (induction a) auto

lemma skip_markup_script:
  assumes "is_skip_block name" "eq_ignore_ascii_case t name" "attrs = [] \<or> is_ascii_whitespace (hd attrs)"
    "CHR ''>'' \<notin> set attrs" "no_close_tag body" "list_all is_ascii_whitespace ws"
  shows "skip_markup (''<'' @ name @ attrs @ ''>'' @ body @ ''</'' @ t @ ws @ ''>'' @ post) = Some ('' '', post)"
proof -
  note name = skip_block_names [OF assms(1)]
  define r where "r = body @ ''</'' @ t @ ws @ ''>'' @ post"
  define ar where "ar = attrs @ CHR ''>'' # r"
  obtain d ds where d: "name = d # ds" using name(1) by (cases name) auto
  have hd_ar: "tag_name_end (hd ar)" "ar \<noteq> []"
    using assms(3) unfolding ar_def by (cases attrs; simp add: tag_name_end_def)+
  have tw: "takeWhile (\<lambda>c. \<not> tag_name_end c) (name @ ar) = name" "dropWhile (\<lambda>c. \<not> tag_name_end c) (name @ ar) = ar"
    using name(2) hd_ar by (cases ar; simp add: list_all_iff)+
  have m: "memchr CHR ''>'' ar = Some (length attrs)" "drop (length attrs + 1) ar = r"
    using assms(4) by (simp_all add: ar_def memchr_here)
  have c: "find_close_tag name r = Some post"
    unfolding r_def by (rule find_close_tag_body [OF assms(2,6,5)])
  have ns: "\<not> starts_with ''<!--'' (CHR ''<'' # name @ ar)" "\<not> starts_with ''<![CDATA['' (CHR ''<'' # name @ ar)"
    "\<not> starts_with ''<!'' (CHR ''<'' # name @ ar)" "\<not> starts_with ''<?'' (CHR ''<'' # name @ ar)"
    "\<not> starts_with ''/'' (name @ ar)"
    using name(3) by (simp_all add: starts_with_def d)
  have "skip_tag (name @ ar) = Some ('' '', post)"
    using ns(5) tw m c assms(1) unfolding skip_tag_def Let_def by simp
  then have "skip_markup (CHR ''<'' # name @ ar) = Some ('' '', post)"
    using ns(1-4) by (simp add: skip_markup_def)
  then show ?thesis by (simp add: ar_def r_def)
qed

lemma strip_loop_text:
  "valid_utf8 pre \<Longrightarrow> CHR ''<'' \<notin> set pre \<Longrightarrow> strip_loop (pre @ s) = pre @ strip_loop s"
proof (induction pre rule: valid_utf8.induct)
  case (2 c cs)
  note v = valid_utf8_uncons [OF "2.prems"(1)]
  let ?w = "char_width c"
  have w: "take ?w (c # cs @ s) = take ?w (c # cs)" "drop ?w (c # cs @ s) = drop ?w (c # cs) @ s"
    using v(2) by (cases ?w, simp_all)+
  have "CHR ''<'' \<notin> set (drop ?w (c # cs))" using "2.prems"(2) by (meson in_set_dropD)
  moreover obtain k where "utf8_step (c # cs) = (k, True)" "?w = k"
    using "2.prems"(1) utf8_step_char(1) by (auto split: prod.splits)
  ultimately have "strip_loop (drop ?w (c # cs) @ s) = drop ?w (c # cs) @ strip_loop s"
    using "2.IH" v(1) by auto
  moreover have "c \<noteq> CHR ''<''" using "2.prems"(2) by auto
  ultimately show ?case using w append_take_drop_id [of ?w "c # cs"] by simp
qed simp

text \<open>C37: 
  A script, style, template or similar element is dropped whole: whatever its attributes and its body, the document is
  stripped as if a blank stood in its place.
\<close>

theorem script_dropped:
  assumes "valid_utf8 pre" "CHR ''<'' \<notin> set pre" "is_skip_block name" "eq_ignore_ascii_case t name"
    "attrs = [] \<or> is_ascii_whitespace (hd attrs)" "CHR ''>'' \<notin> set attrs"
    "no_close_tag body" "list_all is_ascii_whitespace ws"
  shows "strip_html_tags (pre @ ''<'' @ name @ attrs @ ''>'' @ body @ ''</'' @ t @ ws @ ''>'' @ post) =
    finalize_strip (pre @ '' '' @ strip_loop post)"
proof -
  let ?tag = "''<'' @ name @ attrs @ ''>'' @ body @ ''</'' @ t @ ws @ ''>'' @ post"
  have "skip_markup ?tag = Some ('' '', post)"
    using assms(3-8) by (rule skip_markup_script)
  then have "strip_loop ?tag = '' '' @ strip_loop post" by simp
  then show ?thesis
    unfolding strip_html_tags_def strip_loop_text [OF assms(1,2)] by simp
qed

theorem script_dropped_witness:
  "strip_html_tags ''a<SVG x=1>b<c>&lt;</svg >d'' = finalize_strip ''a d''"
proof -
  have "valid_utf8 ''a''" "is_skip_block ''SVG''" "eq_ignore_ascii_case ''svg'' ''SVG''" "no_close_tag ''b<c>&lt;''"
    "is_ascii_whitespace (hd '' x=1'')" "list_all is_ascii_whitespace '' ''" "strip_loop ''d'' = ''d''"
    by code_simp+
  with script_dropped [of "''a''" "''SVG''" "''svg''" "'' x=1''" "''b<c>&lt;''" "'' ''" "''d''"]
  show ?thesis by simp
qed

section \<open>Control characters\<close>

definition control_byte :: "char \<Rightarrow> bool" where
  "control_byte b \<longleftrightarrow> code b < 32 \<or> code b = 127"

lemma strip_loop_valid: "valid_utf8 s \<Longrightarrow> valid_utf8 (strip_loop s)"
proof (induction s rule: strip_loop.induct)
  case (2 c cs)
  show ?case
  proof (cases "c = CHR ''<''")
    case False
    note v = valid_utf8_uncons [OF "2.prems"]
    have IH: "valid_utf8 (strip_loop (drop (char_width c) (c # cs)))" using "2.IH"(1) False v(1) by simp
    obtain k where k: "utf8_step (c # cs) = (k, True)" "char_width c = k"
      using "2.prems" utf8_step_char(1) by (auto split: prod.splits)
    have "0 < k" "k \<le> length (c # cs)" using v(2,3) k(2) by simp_all
    then obtain d ds where d: "take k (c # cs) = d # ds" "length (take k (c # cs)) = k" by (cases k) simp_all
    from utf8_step_prefix [OF k(1), of "[]"] d(2) have "utf8_step (take k (c # cs)) = (length (take k (c # cs)), True)"
      by simp
    from valid_utf8_append [OF d(1) [symmetric] this IH [unfolded k(2)]] show ?thesis using False k(2) by simp
  next
    case True
    show ?thesis
    proof (cases "skip_markup (c # cs)")
      case (Some x)
      obtain out rest where x: "x = (out, rest)" by force
      from skip_markup_split Some x obtain a where a: "c # cs = a @ CHR ''>'' # rest" by blast
      from "2.prems" have "valid_utf8 rest" unfolding a by (rule valid_utf8_after) (simp add: code_def)
      then have IH: "valid_utf8 (strip_loop rest)" using "2.IH"(2) [OF _ Some x [symmetric]] True by simp
      have "utf8_step '' '' = (length '' '', True)" by code_simp
      from valid_utf8_append [OF refl this IH] have "valid_utf8 ('' '' @ strip_loop rest)" .
      moreover have "out = [] \<or> out = '' ''" using Some x
        by (auto elim!: skip_markup_cases skip_tag_cases)
      moreover have "strip_loop (c # cs) = out @ strip_loop rest" using Some x True by simp
      ultimately show ?thesis using IH by auto
    qed (use True in simp)
  qed
qed simp

lemma chars_valid: "valid_utf8 s \<Longrightarrow> u \<in> set (chars s) \<Longrightarrow> b \<in> set u \<Longrightarrow> code b < 128 \<Longrightarrow> u = [b]"
proof (induction s rule: chars.induct)
  case (2 c cs)
  note v = valid_utf8_uncons [OF "2.prems"(1)]
  from "2.prems"(2) consider "u = take (char_width c) (c # cs)" | "u \<in> set (chars (drop (char_width c) (c # cs)))"
    by auto
  then show ?case
  proof cases
    case 1
    then have "b = c \<or> b \<in> set (take (char_width c - 1) cs)" using "2.prems"(3) by (auto simp: take_Cons' split: if_splits)
    then have "b = c" using v(4) "2.prems"(4) by fastforce
    then show ?thesis using 1 v(5) "2.prems"(4) by simp
  qed (use "2.IH" v(1) "2.prems" in blast)
qed simp

lemma concat_chars: "concat (chars s) = s"
  by (induction s rule: chars.induct) simp_all

lemma collapse_bytes: "b \<in> set (collapse p us) \<Longrightarrow> b = CHR '' '' \<or> (\<exists>u \<in> set us. b \<in> set u \<and> \<not> is_white u)"
  by (induction p us rule: collapse.induct) (auto split: if_splits)

lemma str_trim_bytes: "set (str_trim s) \<subseteq> set s"
proof -
  have "set (concat (rev (dropWhile p (rev (dropWhile p us))))) \<subseteq> set (concat us)" for p and us :: "string list"
    by (auto dest!: set_dropWhileD)
  from this [of is_white "chars s"] show ?thesis unfolding str_trim_def concat_chars .
qed

lemma encode_utf8_bytes:
  assumes "\<not> n < 32" "n \<noteq> 127" "n \<le> 0x10FFFF" "b \<in> set (encode_utf8 n)"
  shows "\<not> control_byte b"
proof (cases "n < 128")
  case True
  then have "b = char_of n" using assms(4) by (simp add: encode_utf8_def)
  then show ?thesis using assms(1,2) True by (simp add: control_byte_def code_char_of)
next
  case False
  have r: "n div 64 < 64" if "n < 2048" using that by (simp add: div_less_iff_less_mult)
  have r3: "n div 4096 < 32" if "n < 65536" using that by (simp add: div_less_iff_less_mult)
  have r4: "n div 262144 < 8" using assms(3) by (simp add: div_less_iff_less_mult)
  have m: "k mod 64 < 128" for k :: nat by (rule less_trans [of _ 64]) simp_all
  define ns where "ns = (if n < 2048 then [192 + n div 64, 128 + n mod 64]
      else if n < 65536 then [224 + n div 4096, 128 + n div 64 mod 64, 128 + n mod 64]
      else [240 + n div 262144, 128 + n div 4096 mod 64, 128 + n div 64 mod 64, 128 + n mod 64])"
  have "\<forall>k \<in> set ns. 128 \<le> k \<and> k < 256"
    using r r3 r4 m [of n] m [of "n div 64"] m [of "n div 4096"] unfolding ns_def by simp
  moreover have "b \<in> set (map char_of ns)" using assms(4) False unfolding encode_utf8_def ns_def by simp
  ultimately obtain k :: nat where "b = char_of k" "128 \<le> k" "k < 256" by auto
  then show ?thesis by (auto simp: control_byte_def code_char_of)
qed

lemma decode_entity_bytes:
  assumes "decode_entity body = Some d" "b \<in> set d"
  shows "\<not> control_byte b"
proof (cases "decode_numeric_entity body = Some d")
  case True
  then obtain v where "d = encode_utf8 v" "\<not> v < 32" "v \<noteq> 127" "v \<le> 0x10FFFF"
    by (auto simp: decode_numeric_entity_def Let_def split: option.splits if_splits)
  then show ?thesis using encode_utf8_bytes assms(2) by simp
next
  case False
  with assms have "d \<in> {''&'', ''<'', ''>'', [CHR 0x22], [CHR 0x27], map char_of [194 :: nat, 160]}"
    by (auto simp: decode_entity_def split: if_splits)
  moreover have "list_all (list_all (\<lambda>b. \<not> control_byte b)) [''&'', ''<'', ''>'', [CHR 0x22], [CHR 0x27], map char_of [194 :: nat, 160]]"
    by code_simp
  ultimately show ?thesis using assms(2) by (auto simp: list_all_iff)
qed

lemma decode_entities_control: "b \<in> set (decode_entities s) \<Longrightarrow> control_byte b \<Longrightarrow> b \<in> set s"
proof (induction s rule: decode_entities.induct)
  case (2 c cs)
  have amp: "\<not> control_byte CHR ''&''" by code_simp
  show ?case
  proof (cases "c = CHR ''&''")
    case False
    then have "b \<in> set (take (char_width c) (c # cs)) \<or> b \<in> set (decode_entities (drop (char_width c) (c # cs)))"
      using "2.prems"(1) by simp
    then show ?thesis using "2.IH"(1) [OF False _ "2.prems"(2)] by (meson in_set_dropD in_set_takeD)
  next
    case True
    show ?thesis
    proof (cases "memchr CHR '';'' (take 11 cs)")
      case None
      then have "b \<in> set (decode_entities cs)" using "2.prems" True amp by auto
      then show ?thesis using "2.IH"(2) [OF _ None] True "2.prems"(2) by simp
    next
      case (Some rel)
      show ?thesis
      proof (cases "decode_entity (take rel cs)")
        case None
        then have "b \<in> set (decode_entities cs)" using "2.prems" True amp Some by auto
        then show ?thesis using "2.IH"(3) [OF _ Some None] True "2.prems"(2) by simp
      next
        case d: (Some d)
        then have "b \<in> set (decode_entities (drop (rel + 1) cs))"
          using "2.prems" True Some decode_entity_bytes [OF d] by auto
        then have "b \<in> set (drop (rel + 1) cs)" using "2.IH"(4) [OF _ Some d] True "2.prems"(2) by simp
        then show ?thesis by (auto dest: in_set_dropD)
      qed
    qed
  qed
qed simp

lemma strip_loop_bytes: "b \<in> set (strip_loop s) \<Longrightarrow> b = CHR '' '' \<or> b \<in> set s"
proof (induction s rule: strip_loop.induct)
  case (2 c cs)
  show ?case
  proof (cases "c = CHR ''<''")
    case False
    then have "b \<in> set (take (char_width c) (c # cs)) \<or> b \<in> set (strip_loop (drop (char_width c) (c # cs)))"
      using "2.prems"(1) by simp
    then show ?thesis using "2.IH"(1) [OF False] by (meson in_set_dropD in_set_takeD)
  next
    case True
    with "2.prems" obtain x where x: "skip_markup (c # cs) = Some x"
      by (cases "skip_markup (c # cs)") simp_all
    obtain out rest where o: "x = (out, rest)" by force
    from skip_markup_split x o obtain a where a: "set out \<subseteq> {CHR '' ''}" "c # cs = a @ CHR ''>'' # rest" by blast
    have "b \<in> set out \<or> b \<in> set (strip_loop rest)" using "2.prems" True x o by simp
    then have "b = CHR '' '' \<or> b \<in> set rest" using "2.IH"(2) [OF _ x o [symmetric]] True a(1) by auto
    then show ?thesis unfolding a(2) by auto
  qed
qed simp

text \<open>
  Whatever bytes a server sends, the text handed to the model has no tab, line feed or carriage return, and a
  control character in it stood in the page as such: no entity decodes to one.
\<close>

theorem page_control_characters:
  assumes "b \<in> set (strip_html_tags (from_utf8_lossy body))" "code b < 32 \<or> code b = 127"
  shows "b \<in> set (from_utf8_lossy body) \<and> code b \<notin> {9..13}"
proof -
  let ?s = "strip_loop (from_utf8_lossy body)"
  have v: "valid_utf8 ?s" by (intro strip_loop_valid lossy_valid)
  have c: "control_byte b" using assms(2) by (simp add: control_byte_def)
  from assms(1) have "b \<in> set (str_trim (collapse False (chars ?s)))"
    unfolding strip_html_tags_def finalize_strip_def using decode_entities_control c by blast
  then have "b \<in> set (collapse False (chars ?s))" using str_trim_bytes by blast
  moreover have "b \<noteq> CHR '' ''" using assms(2) by (auto simp: code_def)
  ultimately obtain u where u: "u \<in> set (chars ?s)" "b \<in> set u" "\<not> is_white u" using collapse_bytes by blast
  have "u = [b]" using chars_valid [OF v u(1,2)] assms(2) by auto
  then have "code b \<notin> {9..13}" using u(3) by (auto simp: is_white_def ws_len_def split: if_splits)
  moreover have "b \<in> set ?s" using u(1,2) concat_chars [of ?s] by (metis UN_I set_concat)
  ultimately show ?thesis using strip_loop_bytes \<open>b \<noteq> CHR '' ''\<close> by blast
qed

theorem page_control_characters_witness:
  "CHR 0x01 \<in> set (from_utf8_lossy ''x<b>'' @ [CHR 0x01])  \<and> code CHR 0x01 \<notin> {9..13}"
proof -
  have "CHR 0x01 \<in> set (strip_html_tags (from_utf8_lossy [CHR ''x'', CHR 0x01]))" "code CHR 0x01 < 32" by code_simp+
  with page_control_characters [of "CHR 0x01" "[CHR ''x'', CHR 0x01]"] show ?thesis by simp
qed

end
