(* ===== verification/Web_Fetch.thy ===== *)
theory Web_Fetch
  imports Web_Text
begin

text \<open>
  The fetch of \<^verbatim>\<open>src/chat/web.rs\<close> with the tool of \<^verbatim>\<open>src/chat/tools.rs\<close> in front of it. The name service, the HTTP
  client and the clock are scripts: the answers of the resolver, whether a client can be built, the outcome of each
  request, and the remaining milliseconds where the code looks at them. The requests made are a log. \<open>lookup_host\<close> and
  the pinned client use the port of the query, and the client connects to a pinned address only.
\<close>

section \<open>The outside\<close>

text \<open>A response header is missing, or present with a value that may not be readable text.\<close>

type_synonym header = "string option option"

datatype chunk = Chunk string | ChunkError | ChunkTimeout

record response =
  status :: nat
  location :: header
  content_type :: header
  content_length :: header
  content_encoding :: header
  chunks :: "chunk list"

datatype send_result = Response response | TransportError (is_connect: bool) (is_timeout: bool) (is_body: bool)

datatype dns_answer = Resolved "ip_addr list" | DnsError | DnsTimeout

record request =
  target :: safe_url
  pinned :: "(ip_addr \<times> nat) list"

record web =
  clock :: "nat list"
  resolver :: "dns_answer list"
  builds :: "bool list"
  sends :: "send_result list"
  requests :: "request list"

datatype fetch_error =
    DeadlineExceeded | UrlRejected url_error | Downgrade | HostnameDenied | AddressDenied | DnsFailed | DnsTimedOut
  | AllDenied | BuildFailed | SendFailed | NoLocation nat | TooManyRedirects | NoBaseScheme | BadStatus nat
  | UnsupportedType string | TooLong nat | RejectedEncoding string | BodyDeadline | BodyTooLong | ChunkFailed
  | LoopEnded

definition MAX_REDIRECTS :: nat where
  "MAX_REDIRECTS = 3"

text \<open>A script that has run out reads as no time, no answer, no client and no connection.\<close>

definition remaining :: "web \<Rightarrow> nat \<times> web" where
  "remaining w = (case clock w of [] \<Rightarrow> (0, w) | t # ts \<Rightarrow> (t, w\<lparr>clock := ts\<rparr>))"

definition lookup_host :: "web \<Rightarrow> dns_answer \<times> web" where
  "lookup_host w = (case resolver w of [] \<Rightarrow> (DnsError, w) | a # as \<Rightarrow> (a, w\<lparr>resolver := as\<rparr>))"

definition build_client :: "web \<Rightarrow> bool \<times> web" where
  "build_client w = (case builds w of [] \<Rightarrow> (False, w) | b # bs \<Rightarrow> (b, w\<lparr>builds := bs\<rparr>))"

definition send_get :: "safe_url \<Rightarrow> (ip_addr \<times> nat) list \<Rightarrow> web \<Rightarrow> send_result \<times> web" where
  "send_get safe addrs w =
     (let w1 = w\<lparr>requests := requests w @ [\<lparr>target = safe, pinned = addrs\<rparr>]\<rparr> in
      case sends w of
        [] \<Rightarrow> (TransportError True False False, w1)
      | r # rs \<Rightarrow> (r, w1\<lparr>sends := rs\<rparr>))"

section \<open>One hop\<close>

definition resolve_target :: "safe_url \<Rightarrow> web \<Rightarrow> (fetch_error + (ip_addr \<times> nat) list) \<times> web" where
  "resolve_target safe w =
     (case url_host safe of
        HostIp ip \<Rightarrow> if is_denied_ip ip then (Inl AddressDenied, w) else (Inr [(ip, port_for safe)], w)
      | HostName name \<Rightarrow>
          (case lookup_host w of
             (DnsError, w1) \<Rightarrow> (Inl DnsFailed, w1)
           | (DnsTimeout, w1) \<Rightarrow> (Inl DnsTimedOut, w1)
           | (Resolved ips, w1) \<Rightarrow>
               (let accepted = filter (\<lambda>a. \<not> is_denied_ip (fst a)) (map (\<lambda>ip. (ip, port_for safe)) ips) in
                if accepted = [] then (Inl AllDenied, w1) else (Inr accepted, w1))))"

text \<open>The first hop is tried again once, when no body was sent and a second is left.\<close>

definition send_with_retry :: "nat \<Rightarrow> safe_url \<Rightarrow> (ip_addr \<times> nat) list \<Rightarrow> web \<Rightarrow> (fetch_error + response) \<times> web" where
  "send_with_retry hop safe addrs w =
     (case send_get safe addrs w of
        (Response r, w1) \<Rightarrow> (Inr r, w1)
      | (TransportError c t b, w1) \<Rightarrow>
          if hop = 0 \<and> (c \<or> t) \<and> \<not> b then
            (case remaining w1 of (left, w2) \<Rightarrow>
               if 1000 \<le> left then
                 (case send_get safe addrs w2 of
                    (Response r, w3) \<Rightarrow> (Inr r, w3)
                  | (TransportError _ _ _, w3) \<Rightarrow> (Inl SendFailed, w3))
               else (Inl SendFailed, w2))
          else (Inl SendFailed, w1))"

fun header_text :: "string option \<Rightarrow> string" where
  "header_text None = []"
| "header_text (Some s) = s"

definition allowed_type :: "string \<Rightarrow> bool" where
  "allowed_type ct \<longleftrightarrow> starts_with ''text/'' ct \<or>
     ct \<in> {''application/json'', ''application/xml'', ''application/xhtml+xml'', ''application/rss+xml'', ''application/atom+xml''}"

definition type_refused :: "header \<Rightarrow> fetch_error option" where
  "type_refused h =
     (case h of
        None \<Rightarrow> None
      | Some raw \<Rightarrow>
          (let ct = map to_ascii_lowercase (str_trim (takeWhile (\<lambda>c. c \<noteq> CHR '';'') (header_text raw))) in
           if allowed_type ct then None else Some (UnsupportedType ct)))"

definition length_refused :: "nat \<Rightarrow> header \<Rightarrow> fetch_error option" where
  "length_refused max_bytes h =
     (case h of
        Some (Some s) \<Rightarrow>
          (case parse_unsigned u64_top (str_trim s) of
             Some cl \<Rightarrow> if max_bytes < cl then Some (TooLong cl) else None
           | None \<Rightarrow> None)
      | _ \<Rightarrow> None)"

definition encoding_refused :: "header \<Rightarrow> fetch_error option" where
  "encoding_refused h =
     (case h of
        None \<Rightarrow> None
      | Some raw \<Rightarrow>
          (let v = header_text raw in
           if v \<noteq> [] \<and> \<not> eq_ignore_ascii_case v ''identity'' then Some (RejectedEncoding v) else None))"

text \<open>The streaming loop with its counter.\<close>

fun read_body :: "nat \<Rightarrow> nat \<Rightarrow> string \<Rightarrow> chunk list \<Rightarrow> fetch_error + string" where
  "read_body max_bytes seen body [] = Inr body"
| "read_body max_bytes seen body (ChunkTimeout # cs) = Inl BodyDeadline"
| "read_body max_bytes seen body (ChunkError # cs) = Inl ChunkFailed"
| "read_body max_bytes seen body (Chunk c # cs) =
     (let seen1 = min u64_max (seen + length c) in
      if max_bytes < seen1 then Inl BodyTooLong else read_body max_bytes seen1 (body @ c) cs)"

definition read_response :: "nat \<Rightarrow> response \<Rightarrow> fetch_error + string" where
  "read_response max_bytes resp =
     (case type_refused (content_type resp) of
        Some e \<Rightarrow> Inl e
      | None \<Rightarrow>
          (case length_refused max_bytes (content_length resp) of
             Some e \<Rightarrow> Inl e
           | None \<Rightarrow>
               (case encoding_refused (content_encoding resp) of
                  Some e \<Rightarrow> Inl e
                | None \<Rightarrow>
                    (case read_body max_bytes 0 [] (chunks resp) of
                       Inl e \<Rightarrow> Inl e
                     | Inr body \<Rightarrow> Inr (strip_html_tags (from_utf8_lossy body))))))"

text \<open>What a hop does before it has a response: the gates, the addresses, the client.\<close>

definition open_target :: "nat \<Rightarrow> string \<Rightarrow> scheme option \<Rightarrow> web \<Rightarrow> (fetch_error + safe_url \<times> response) \<times> web" where
  "open_target hop current prev w =
     (case remaining w of (left, w1) \<Rightarrow>
        if left = 0 then (Inl DeadlineExceeded, w1)
        else (case validate_url current of
          Inl e \<Rightarrow> (Inl (UrlRejected e), w1)
        | Inr safe \<Rightarrow>
            if prev = Some Https \<and> url_scheme safe = Http then (Inl Downgrade, w1)
            else if (case url_host safe of HostName n \<Rightarrow> n \<noteq> [] \<and> is_denied_hostname n | HostIp _ \<Rightarrow> False)
            then (Inl HostnameDenied, w1)
            else (case resolve_target safe w1 of
              (Inl e, w2) \<Rightarrow> (Inl e, w2)
            | (Inr addrs, w2) \<Rightarrow>
                (case build_client w2 of (built, w3) \<Rightarrow>
                   if \<not> built then (Inl BuildFailed, w3)
                   else (case send_with_retry hop safe addrs w3 of
                     (Inl e, w4) \<Rightarrow> (Inl e, w4)
                   | (Inr resp, w4) \<Rightarrow> (Inr (safe, resp), w4))))))"

section \<open>The loop\<close>

fun fetch_loop :: "nat list \<Rightarrow> string \<Rightarrow> scheme option \<Rightarrow> nat \<Rightarrow> web \<Rightarrow> (fetch_error + string) \<times> web" where
  "fetch_loop [] current prev max_bytes w = (Inl LoopEnded, w)"
| "fetch_loop (hop # hops) current prev max_bytes w =
     (case open_target hop current prev w of
        (Inl e, w1) \<Rightarrow> (Inl e, w1)
      | (Inr (safe, resp), w1) \<Rightarrow>
          if 300 \<le> status resp \<and> status resp < 400 then
            (case location resp of
               Some (Some loc) \<Rightarrow>
                 if MAX_REDIRECTS \<le> hop then (Inl TooManyRedirects, w1)
                 else (case resolve_relative (url_text safe) loc of
                   None \<Rightarrow> (Inl NoBaseScheme, w1)
                 | Some next_url \<Rightarrow> fetch_loop hops next_url (Some (url_scheme safe)) max_bytes w1)
             | _ \<Rightarrow> (Inl (NoLocation (status resp)), w1))
          else if \<not> (200 \<le> status resp \<and> status resp < 300) then (Inl (BadStatus (status resp)), w1)
          else (read_response max_bytes resp, w1))"

definition fetch :: "string \<Rightarrow> nat \<Rightarrow> web \<Rightarrow> (fetch_error + string) \<times> web" where
  "fetch url max_bytes w = fetch_loop [0..<Suc MAX_REDIRECTS] url None max_bytes w"

text \<open>The tool the model calls; its daily budget is counted by the caller.\<close>

datatype tool_error = UrlRequired | FetchFailed fetch_error

datatype tool_answer = BudgetExhausted | Page string

definition web_fetch_tool ::
  "nat \<Rightarrow> nat \<Rightarrow> nat \<Rightarrow> string option \<Rightarrow> web \<Rightarrow> (tool_error + tool_answer) \<times> web" where
  "web_fetch_tool fetches_today daily_max max_bytes url w =
     (if daily_max \<le> fetches_today then (Inr BudgetExhausted, w)
      else case url of
        None \<Rightarrow> (Inl UrlRequired, w)
      | Some u \<Rightarrow> (case fetch u max_bytes w of (r, w1) \<Rightarrow> (map_sum FetchFailed Page r, w1)))"

section \<open>Every request is guarded\<close>

definition guarded :: "request \<Rightarrow> bool" where
  "guarded q \<longleftrightarrow> validate_url (url_text (target q)) = Inr (target q) \<and> pinned q \<noteq> [] \<and>
     (\<forall>a \<in> set (pinned q). \<not> is_denied_ip (fst a) \<and> snd a = port_for (target q)) \<and>
     port_for (target q) \<in> {80, 443} \<and> decide (target q) (map fst (pinned q)) = Allow"

lemma remaining_requests: "remaining w = (t, w') \<Longrightarrow> requests w' = requests w"
  by (auto simp: remaining_def split: list.splits)

lemma build_client_requests: "build_client w = (b, w') \<Longrightarrow> requests w' = requests w"
  by (auto simp: build_client_def split: list.splits)

lemma send_get_requests:
  "send_get safe addrs w = (r, w') \<Longrightarrow> requests w' = requests w @ [\<lparr>target = safe, pinned = addrs\<rparr>]"
  by (auto simp: send_get_def Let_def split: list.splits)

lemma resolve_target_requests: "resolve_target safe w = (r, w') \<Longrightarrow> requests w' = requests w"
  by (auto simp: resolve_target_def lookup_host_def Let_def split: host.splits dns_answer.splits list.splits if_splits prod.splits)

lemma resolve_target_accepts:
  assumes "resolve_target safe w = (Inr addrs, w')"
  shows "addrs \<noteq> [] \<and> (\<forall>a \<in> set addrs. \<not> is_denied_ip (fst a) \<and> snd a = port_for safe)"
  using assms
  by (auto simp: resolve_target_def Let_def split: host.splits dns_answer.splits if_splits prod.splits)

lemma send_with_retry_requests:
  assumes "send_with_retry hop safe addrs w = (r, w')"
  shows "requests w' = requests w @ [\<lparr>target = safe, pinned = addrs\<rparr>] \<or>
    hop = 0 \<and> requests w' = requests w @ [\<lparr>target = safe, pinned = addrs\<rparr>, \<lparr>target = safe, pinned = addrs\<rparr>]"
proof -
  obtain x w1 where x: "send_get safe addrs w = (x, w1)" by force
  obtain left w2 where y: "remaining w1 = (left, w2)" by force
  obtain z w3 where z: "send_get safe addrs w2 = (z, w3)" by force
  note logs = send_get_requests [OF x] remaining_requests [OF y] send_get_requests [OF z]
  show ?thesis
    using assms logs x y z
    by (cases x; cases z; simp add: send_with_retry_def split: if_splits; force)
qed

definition opened ::
  "nat \<Rightarrow> scheme option \<Rightarrow> request list \<Rightarrow> fetch_error + safe_url \<times> response \<Rightarrow> request list \<Rightarrow> bool" where
  "opened hop prev before r after \<longleftrightarrow>
     (\<exists>n q. after = before @ replicate n q \<and> n \<le> (if hop = 0 then 2 else 1) \<and>
        (0 < n \<longrightarrow> guarded q \<and> (prev = Some Https \<longrightarrow> url_scheme (target q) = Https)) \<and>
        (\<forall>safe resp. r = Inr (safe, resp) \<longrightarrow> 0 < n \<and> target q = safe))"

lemma opened_none: "(\<And>safe resp. r \<noteq> Inr (safe, resp)) \<Longrightarrow> opened hop prev rs r rs"
  unfolding opened_def by (intro exI [of _ 0]) simp

lemma open_target_requests:
  assumes "open_target hop current prev w = (r, w')"
  shows "opened hop prev (requests w) r (requests w')"
proof -
  obtain left w1 where left: "remaining w = (left, w1)" by force
  note l1 = remaining_requests [OF left]
  show ?thesis
  proof (cases "left = 0 \<or> (\<exists>e. validate_url current = Inl e)")
    case True
    then have "requests w' = requests w \<and> (\<forall>x. r \<noteq> Inr x)"
      using assms left l1 by (auto simp: open_target_def split: if_splits)
    then show ?thesis by (simp add: opened_none)
  next
    case False
    then obtain safe where safe: "left \<noteq> 0" "validate_url current = Inr safe" by (cases "validate_url current") auto
    let ?denied = "case url_host safe of HostName n \<Rightarrow> n \<noteq> [] \<and> is_denied_hostname n | HostIp _ \<Rightarrow> False"
    show ?thesis
    proof (cases "prev = Some Https \<and> url_scheme safe = Http \<or> ?denied")
      case True
      then have "requests w' = requests w \<and> (\<forall>x. r \<noteq> Inr x)"
        using assms left safe l1 by (auto simp: open_target_def split: if_splits)
      then show ?thesis by (simp add: opened_none)
    next
      case gates: False
      obtain x w2 where x: "resolve_target safe w1 = (x, w2)" by force
      obtain built w3 where built: "build_client w2 = (built, w3)" by force
      note l2 = l1 resolve_target_requests [OF x] build_client_requests [OF built]
      have run: "(r, w') = (case x of Inl e \<Rightarrow> (Inl e, w2)
          | Inr addrs \<Rightarrow> if \<not> built then (Inl BuildFailed, w3)
              else (case send_with_retry hop safe addrs w3 of
                     (Inl e, w4) \<Rightarrow> (Inl e, w4)
                   | (Inr resp, w4) \<Rightarrow> (Inr (safe, resp), w4)))"
      proof -
        have c: "(prev = Some Https \<and> url_scheme safe = Http) = False" "?denied = False" using gates by blast+
        show ?thesis
          using assms safe(1) unfolding open_target_def left prod.case safe(2) sum.case c if_False x built
          by (cases x) simp_all
      qed
      show ?thesis
      proof (cases "\<exists>addrs. x = Inr addrs \<and> built")
        case False
        then have "requests w' = requests w \<and> (\<forall>x. r \<noteq> Inr x)"
          using run l2 by (cases x) auto
        then show ?thesis by (simp add: opened_none)
      next
        case True
        then obtain addrs where addrs: "x = Inr addrs" "built" by blast
        obtain y w4 where y: "send_with_retry hop safe addrs w3 = (y, w4)" by force
        let ?q = "\<lparr>target = safe, pinned = addrs\<rparr>"
        have "w' = w4" "\<And>s resp. r = Inr (s, resp) \<Longrightarrow> s = safe"
          using run addrs y by (cases y; simp)+
        moreover obtain n where "requests w4 = requests w @ replicate n ?q" "0 < n" "n \<le> (if hop = 0 then 2 else 1)"
          using send_with_retry_requests [OF y] l2
          by (elim disjE) (auto intro: that [of 1] that [of 2] simp: numeral_2_eq_2)
        moreover have "guarded ?q"
        proof -
          note v = validated_url [OF safe(2)]
          from resolve_target_accepts [of safe w1 addrs w2] x addrs
          have a: "addrs \<noteq> []" "\<forall>a \<in> set addrs. \<not> is_denied_ip (fst a) \<and> snd a = port_for safe" by simp_all
          have "\<not> (case url_host safe of HostName name \<Rightarrow> is_denied_hostname name | HostIp _ \<Rightarrow> False)"
            using gates v by (auto simp: looks_like_hostname_def split: host.splits)
          moreover have "\<not> list_all is_denied_ip (map fst addrs)" "map fst addrs \<noteq> []" using a by (cases addrs; simp)+
          ultimately have "decide safe (map fst addrs) = Allow" by (simp add: decide_def)
          then show ?thesis using v safe(2) a unfolding guarded_def by simp
        qed
        moreover have "prev = Some Https \<longrightarrow> url_scheme safe = Https" using gates by (cases "url_scheme safe") auto
        ultimately show ?thesis unfolding opened_def by (intro exI [of _ n] exI [of _ ?q]) auto
      qed
    qed
  qed
qed

lemma fetch_loop_requests:
  assumes "fetch_loop hops current prev max_bytes w = (r, w')"
  shows "\<exists>new. requests w' = requests w @ new \<and> list_all guarded new \<and>
    length new \<le> length hops + count_list hops 0 \<and>
    sorted_wrt (\<lambda>p q. url_scheme (target p) = Https \<longrightarrow> url_scheme (target q) = Https) new \<and>
    (prev = Some Https \<longrightarrow> list_all (\<lambda>q. url_scheme (target q) = Https) new)"
  using assms
proof (induction hops arbitrary: current prev w)
  case (Cons hop hops)
  obtain x w1 where x: "open_target hop current prev w = (x, w1)" by force
  from open_target_requests [OF x] obtain n q where n: "requests w1 = requests w @ replicate n q"
      "n \<le> (if hop = 0 then 2 else 1)" "0 < n \<longrightarrow> guarded q \<and> (prev = Some Https \<longrightarrow> url_scheme (target q) = Https)"
    and t: "\<And>safe resp. x = Inr (safe, resp) \<Longrightarrow> 0 < n \<and> target q = safe"
    unfolding opened_def by blast
  have here: "list_all guarded (replicate n q)" "length (replicate n q) \<le> 1 + count_list [hop] 0"
      "sorted_wrt (\<lambda>p q. url_scheme (target p) = Https \<longrightarrow> url_scheme (target q) = Https) (replicate n q)"
      "prev = Some Https \<longrightarrow> list_all (\<lambda>q. url_scheme (target q) = Https) (replicate n q)"
    using n(2,3) by (auto simp: list_all_iff sorted_wrt_iff_nth_less split: if_splits)
  consider "w' = w1" | safe resp next_url where "x = Inr (safe, resp)"
      "fetch_loop hops next_url (Some (url_scheme safe)) max_bytes w1 = (r, w')"
    using Cons.prems x by (auto split: sum.splits prod.splits if_splits option.splits)
  then show ?case
  proof cases
    case 1
    then show ?thesis using n(1) here by (intro exI [of _ "replicate n q"]) auto
  next
    case 2
    from Cons.IH [OF 2(2)] obtain new where new: "requests w' = requests w1 @ new" "list_all guarded new"
      "length new \<le> length hops + count_list hops 0"
      "sorted_wrt (\<lambda>p q. url_scheme (target p) = Https \<longrightarrow> url_scheme (target q) = Https) new"
      "url_scheme safe = Https \<longrightarrow> list_all (\<lambda>q. url_scheme (target q) = Https) new" by auto
    from t [OF 2(1)] have tq: "0 < n" "target q = safe" by auto
    have "sorted_wrt (\<lambda>p q. url_scheme (target p) = Https \<longrightarrow> url_scheme (target q) = Https) (replicate n q @ new)"
      using here(3) new(4,5) tq(2) by (auto simp: sorted_wrt_append list_all_iff)
    moreover have "prev = Some Https \<longrightarrow> list_all (\<lambda>q. url_scheme (target q) = Https) (replicate n q @ new)"
      using here(4) n(3) tq new(5) by auto
    ultimately show ?thesis
      using n(1) new here(1,2) by (intro exI [of _ "replicate n q @ new"]) (auto simp: list_all_iff)
  qed
qed simp

lemma read_body_bound:
  "read_body m seen body cs = Inr b \<Longrightarrow> seen = length body \<Longrightarrow> length body \<le> m \<Longrightarrow> m < u64_max \<Longrightarrow> length b \<le> m"
proof (induction m seen body cs rule: read_body.induct)
  case (4 m seen body c cs)
  from "4.prems"(1) have l: "min u64_max (seen + length c) \<le> m"
    and r: "read_body m (min u64_max (seen + length c)) (body @ c) cs = Inr b" by (auto simp: Let_def split: if_splits)
  from l "4.prems"(2,4) have e: "min u64_max (seen + length c) = length (body @ c)" by simp
  show ?case
    using "4.IH" [OF refl _ r e _ "4.prems"(4)] l e by simp
qed auto

lemma read_response_bound:
  assumes "read_response m resp = Inr text" "m < u64_max"
  shows "\<exists>body. length body \<le> m \<and> text = strip_html_tags (from_utf8_lossy body)"
proof -
  from assms(1) obtain body where b: "read_body m 0 [] (chunks resp) = Inr body"
      "text = strip_html_tags (from_utf8_lossy body)"
    by (auto simp: read_response_def split: option.splits sum.splits)
  from read_body_bound [OF b(1)] assms(2) b(2) show ?thesis by auto
qed

lemma fetch_loop_text:
  "fetch_loop hops current prev m w = (Inr text, w') \<Longrightarrow> m < u64_max \<Longrightarrow>
     \<exists>body. length body \<le> m \<and> text = strip_html_tags (from_utf8_lossy body)"
proof (induction hops arbitrary: current prev w)
  case (Cons hop hops)
  then show ?case
    by (auto dest!: read_response_bound split: sum.splits prod.splits if_splits option.splits)
qed simp

lemma read_body_errors: "read_body m seen body cs = Inl e \<Longrightarrow> e \<noteq> LoopEnded"
  by (induction m seen body cs rule: read_body.induct) (auto simp: Let_def split: if_splits)

lemma read_response_errors: "read_response m resp \<noteq> Inl LoopEnded"
  using read_body_errors [of m 0 "[]" "chunks resp" LoopEnded]
  by (auto simp: read_response_def type_refused_def length_refused_def encoding_refused_def Let_def
      split: option.splits sum.splits if_splits)

lemma open_target_errors: "open_target hop current prev w \<noteq> (Inl LoopEnded, w')"
proof -
  have "resolve_target safe w1 \<noteq> (Inl LoopEnded, w2)" for safe w1 w2
    by (auto simp: resolve_target_def Let_def split: host.splits dns_answer.splits if_splits prod.splits)
  moreover have "send_with_retry hop safe addrs w1 \<noteq> (Inl LoopEnded, w2)" for safe addrs w1 w2
    by (auto simp: send_with_retry_def split: send_result.splits if_splits prod.splits)
  ultimately show ?thesis
    by (auto simp: open_target_def split: sum.splits if_splits prod.splits)
qed

lemma fetch_loop_ends: "h \<le> MAX_REDIRECTS \<Longrightarrow> fetch_loop [h..<Suc MAX_REDIRECTS] current prev m w \<noteq> (Inl LoopEnded, w')"
proof (induction "MAX_REDIRECTS - h" arbitrary: h current prev w)
  case 0
  then have "[h..<Suc MAX_REDIRECTS] = [MAX_REDIRECTS]" by simp
  then show ?case
    using open_target_errors read_response_errors by (auto split: sum.splits prod.splits if_splits option.splits)
next
  case (Suc k)
  then have "[h..<Suc MAX_REDIRECTS] = h # [Suc h..<Suc MAX_REDIRECTS]" by (simp add: upt_conv_Cons)
  moreover have "fetch_loop [Suc h..<Suc MAX_REDIRECTS] c p m v \<noteq> (Inl LoopEnded, w')" for c p v
    using Suc by (intro Suc.hyps(1)) simp_all
  ultimately show ?case
    using open_target_errors read_response_errors by (auto simp del: upt_Suc split: sum.splits prod.splits if_splits option.splits)
qed

text \<open>C5: 
  A fetch talks only to places the gate lets through, whatever the resolver and the servers answer: the URL of each
  request is validated, its addresses are pinned, none of them is on the deny-list, the port is 80 or 443. It makes at
  most five requests, never leaves https for http, always ends with a text or an error of its own, and the text comes
  from a body of at most \<open>max_bytes\<close> bytes.
\<close>

theorem fetch_guarded:
  assumes "fetch url max_bytes w = (r, w')" "requests w = []" "max_bytes < u64_max"
  shows "list_all guarded (requests w') \<and> length (requests w') \<le> 5 \<and>
    sorted_wrt (\<lambda>p q. url_scheme (target p) = Https \<longrightarrow> url_scheme (target q) = Https) (requests w') \<and>
    r \<noteq> Inl LoopEnded \<and>
    (\<forall>text. r = Inr text \<longrightarrow> (\<exists>body. length body \<le> max_bytes \<and> text = strip_html_tags (from_utf8_lossy body)))"
proof -
  have "length [0..<Suc MAX_REDIRECTS] + count_list [0..<Suc MAX_REDIRECTS] 0 = 5" by code_simp
  moreover have "r \<noteq> Inl LoopEnded" using fetch_loop_ends [of 0] assms(1) by (auto simp: fetch_def)
  moreover have "\<exists>body. length body \<le> max_bytes \<and> page = strip_html_tags (from_utf8_lossy body)" if "r = Inr page" for page
    using fetch_loop_text assms(1,3) that by (simp add: fetch_def)
  ultimately show ?thesis
    using fetch_loop_requests [OF assms(1) [unfolded fetch_def]] assms(2) by auto
qed

definition sample_response :: response where
  "sample_response = \<lparr>status = 200, location = None, content_type = Some (Some ''text/html; charset=utf-8''),
     content_length = None, content_encoding = None, chunks = [Chunk ''<b>h'', Chunk ''i</b>'']\<rparr>"

definition sample_web :: web where
  "sample_web = \<lparr>clock = [5000], resolver = [Resolved [V4 (IPv4 10 0 0 1), V4 (IPv4 1 1 1 1)]], builds = [True],
     sends = [Response sample_response], requests = []\<rparr>"

definition sample_request :: request where
  "sample_request = \<lparr>target = \<lparr>url_scheme = Http, url_host = HostName ''a.com'', url_text = ''http://a.com/'', url_port = 80\<rparr>,
     pinned = [(V4 (IPv4 1 1 1 1), 80)]\<rparr>"

lemma sample_hop:
  "open_target 0 ''http://a.com/'' None sample_web =
     (Inr (target sample_request, sample_response),
      \<lparr>clock = [], resolver = [], builds = [], sends = [], requests = [sample_request]\<rparr>)"
  by code_simp

lemma sample_body: "read_response 100 sample_response = Inr ''hi''"
proof -
  have "read_body 100 0 [] (chunks sample_response) = Inr ''<b>hi</b>''"
    by (simp add: sample_response_def u64_max_def Let_def)
  moreover have "type_refused (content_type sample_response) = None" "length_refused 100 (content_length sample_response) = None"
    "encoding_refused (content_encoding sample_response) = None" "strip_html_tags (from_utf8_lossy ''<b>hi</b>'') = ''hi''"
    by code_simp+
  ultimately show ?thesis by (simp add: read_response_def)
qed

lemma sample_fetch:
  "fetch ''http://a.com/'' 100 sample_web =
     (Inr ''hi'', \<lparr>clock = [], resolver = [], builds = [], sends = [], requests = [sample_request]\<rparr>)"
proof -
  have "[0..<Suc MAX_REDIRECTS] = [0, 1, 2, 3]" by code_simp
  then show ?thesis by (simp add: fetch_def sample_hop sample_body) (simp add: sample_response_def)
qed

theorem fetch_guarded_witness:
  "guarded sample_request \<and> fst (fetch ''http://a.com/'' 100 sample_web) = Inr ''hi''"
proof -
  have "requests sample_web = []" "100 < u64_max" by (simp_all add: sample_web_def u64_max_def)
  from fetch_guarded [OF sample_fetch this] show ?thesis by (simp add: sample_fetch)
qed

text \<open>Once the daily budget is spent, the tool makes no request at all.\<close>

lemma spent_budget: "daily_max \<le> today \<Longrightarrow> web_fetch_tool today daily_max m url w = (Inr BudgetExhausted, w)"
  by (simp add: web_fetch_tool_def)

end
