(* ===== verification/Bot_Trade.thy ===== *)
theory Bot_Trade
  imports Orders
begin

text \<open>
  The trade with a player, \<^verbatim>\<open>src/bot/trade.rs\<close>: what the store's instruction \<open>TradeTask\<close> makes the bot do. The trade
  window is a container of 54 slots; the game server and the Minecraft client behind it are a state of any type with
  the calls the code makes on it, collected in the record \<open>client\<close>. Sleeping is a call too, so everything that happens
  meanwhile, the player's moves included, is part of it. Inventory housekeeping before and after is one call each.
\<close>

section \<open>Slots\<close>

definition trade_bot_offer_slots :: "nat list" where
  "trade_bot_offer_slots = concat (map (\<lambda>row. map (\<lambda>col. row * 9 + col) [0..<4]) [0..<3])"

definition trade_player_offer_slots :: "nat list" where
  "trade_player_offer_slots = concat (map (\<lambda>row. map (\<lambda>col. row * 9 + col) [5..<9]) [0..<3])"

definition trade_player_status_slots :: "nat list" where
  "trade_player_status_slots = concat (map (\<lambda>row. map (\<lambda>col. row * 9 + col) [5..<9]) [4..<6])"

definition trade_accept_slots :: "nat list" where
  "trade_accept_slots = [4 * 9, 4 * 9 + 1, 5 * 9, 5 * 9 + 1]"

definition trade_cancel_slots :: "nat list" where
  "trade_cancel_slots = [4 * 9 + 2, 4 * 9 + 3, 5 * 9 + 2, 5 * 9 + 3]"

text \<open>A stack of the game: its kind and its count; a slot without items has count 0.\<close>

record stack =
  st_kind :: string
  st_count :: i32

definition stack_at :: "stack list \<Rightarrow> nat \<Rightarrow> stack option" where
  "stack_at box i = (if i < length box then Some (box ! i) else None)"

text \<open>The items in some stacks, added up by kind; the additions wrap.\<close>

definition count_up :: "(string, i32) hmap \<Rightarrow> stack \<Rightarrow> (string, i32) hmap" where
  "count_up m st =
     (if 0 < st_count st then
        let k = normalize_item_id (st_kind st)
        in hput m k (wrap_i32 ((case hget m k of Some n \<Rightarrow> n | None \<Rightarrow> 0) + st_count st))
      else m)"

definition stacks_at :: "stack list \<Rightarrow> nat list \<Rightarrow> stack list" where
  "stacks_at box slots = List.map_filter (stack_at box) slots"

definition tally :: "stack list \<Rightarrow> (string, i32) hmap" where
  "tally sts = foldl count_up [] sts"

section \<open>Validation of the player's items\<close>

datatype validation_error =
    UnexpectedItem string | UnexpectedType string | NoneFound string
  | TooMany string i32 i32 | Insufficient string i32 i32

definition expected_items :: "trade_item list \<Rightarrow> (string, i32) hmap" where
  "expected_items offers = foldl (\<lambda>m ti. hput m (normalize_item_id (ti_item ti)) (ti_amount ti)) [] offers"

definition check_amount :: "bool \<Rightarrow> bool \<Rightarrow> (string, i32) hmap \<Rightarrow> string \<times> i32 \<Rightarrow> validation_error list" where
  "check_amount require_exact flexible found e =
     (case e of (k, n) \<Rightarrow>
        let got = (case hget found k of Some g \<Rightarrow> g | None \<Rightarrow> 0) in
        if flexible then (if got < 1 then [NoneFound k] else [])
        else if n < got then (if require_exact then [TooMany k n got] else [])
        else if got < n then [Insufficient k n got]
        else [])"

definition validate_player_items ::
  "stack list \<Rightarrow> nat list \<Rightarrow> trade_item list \<Rightarrow> bool \<Rightarrow> bool \<Rightarrow> (string, i32) hmap \<times> validation_error list" where
  "validate_player_items box player_slots player_offers require_exact flexible =
     (let here = filter (\<lambda>st. 0 < st_count st) (stacks_at box player_slots) in
      if player_offers = [] then ([], map (\<lambda>st. UnexpectedItem (normalize_item_id (st_kind st))) here)
      else
        let expected = expected_items player_offers;
            found = tally here
        in (found,
            map (\<lambda>st. UnexpectedType (normalize_item_id (st_kind st)))
              (filter (\<lambda>st. \<not> has_key expected (normalize_item_id (st_kind st))) here) @
            concat (map (check_amount require_exact flexible found) expected)))"

section \<open>The client\<close>

datatype click = LeftClick nat | RightClick nat | LeftOutside

text \<open>
  \<open>c_now\<close> is the clock in milliseconds, \<open>c_wait\<close> a sleep, \<open>c_menu_open\<close> whether a container window is open,
  \<open>c_contents\<close> its slots and \<open>c_slots\<close> these followed by the bot's own, \<open>c_cursor\<close> the carried stack, \<open>c_own\<close> the own
  inventory when no window is open, \<open>c_line\<close> the next chat line. \<open>c_prepare\<close> waits for the entity and empties the
  inventory into the buffer chest, \<open>c_tidy\<close> moves the hotbar into the inventory; its failure is ignored. Reads without a
  sleep between them see the same state; where the code looks again, a sleep of 0 stands between.
\<close>

record 'g client =
  c_now :: "'g \<Rightarrow> nat"
  c_wait :: "nat \<Rightarrow> 'g \<Rightarrow> 'g"
  c_menu_open :: "'g \<Rightarrow> bool"
  c_contents :: "'g \<Rightarrow> stack list option"
  c_slots :: "'g \<Rightarrow> stack list option"
  c_cursor :: "'g \<Rightarrow> stack"
  c_click :: "click \<Rightarrow> 'g \<Rightarrow> 'g"
  c_own :: "'g \<Rightarrow> stack list option"
  c_line :: "'g \<Rightarrow> string option \<times> 'g"
  c_close :: "'g \<Rightarrow> 'g"
  c_prepare :: "'g \<Rightarrow> bool \<times> 'g"
  c_tidy :: "'g \<Rightarrow> 'g"
  c_say :: "string \<Rightarrow> 'g \<Rightarrow> bool \<times> 'g"

datatype trade_failure =
    NotPrepared | NotSent | NotAccepted | Aborted | RequestTimedOut
  | MenuClosed | CursorNotCleared | ItemsMissing i32 | OffersFull | PickupFailed | PlacementFailed
  | OfferMismatch string i32 | ReturnedItems string i32 | CancelledByPlayer | ClosedUnvalidated
  | ValidationFailed "validation_error list" | ClosedAtTimeout | NotConfirmed

section \<open>Waiting for the window\<close>

text \<open>Neither phrase has a letter that a character outside ASCII has as its lower case, so \<open>to_lowercase\<close> is that of ASCII.\<close>

fun contains_text :: "string \<Rightarrow> string \<Rightarrow> bool" where
  "contains_text needle [] = (needle = [])"
| "contains_text needle (c # cs) = (starts_with needle (c # cs) \<or> contains_text needle cs)"

definition refusal :: "string option \<Rightarrow> trade_failure option" where
  "refusal line =
     (case line of
        None \<Rightarrow> None
      | Some msg \<Rightarrow>
          (let msg_l = map to_ascii_lowercase msg in
           if contains_text ''not been accepted'' msg_l then Some NotAccepted
           else if contains_text ''aborted the trade'' msg_l \<or> contains_text ''aborted the trade message'' msg_l then Some Aborted
           else None))"

definition kind_at :: "stack list \<Rightarrow> string list \<Rightarrow> nat \<Rightarrow> bool" where
  "kind_at box kinds i = (case stack_at box i of Some st \<Rightarrow> st_kind st \<in> set kinds | None \<Rightarrow> False)"

definition is_trade_menu :: "stack list \<Rightarrow> bool" where
  "is_trade_menu box \<longleftrightarrow>
     list_all (kind_at box [''minecraft:lime_wool'']) trade_accept_slots \<and>
     list_all (kind_at box [''minecraft:red_wool'']) trade_cancel_slots \<and>
     list_all (kind_at box [''minecraft:gray_dye'', ''minecraft:magenta_dye'', ''minecraft:lime_dye'']) trade_player_status_slots"

definition trade_menu_shown :: "'g client \<Rightarrow> 'g \<Rightarrow> bool" where
  "trade_menu_shown env g \<longleftrightarrow>
     c_menu_open env g \<and>
     (case c_contents env g of
        None \<Rightarrow> False
      | Some box \<Rightarrow> length box = DOUBLE_CHEST_SLOTS \<and> is_trade_menu box)"

partial_function (option) wait_for_trade_menu_or_failure ::
  "'g client \<Rightarrow> nat \<Rightarrow> nat \<Rightarrow> 'g \<Rightarrow> (trade_failure option \<times> 'g) option" where
  "wait_for_trade_menu_or_failure env timeout start g =
     (if \<not> c_now env g - start < timeout then Some (Some RequestTimedOut, g)
      else case c_line env g of (line, g1) \<Rightarrow>
        (case refusal line of
           Some e \<Rightarrow> Some (Some e, g1)
         | None \<Rightarrow>
             if trade_menu_shown env g1 then Some (None, g1)
             else wait_for_trade_menu_or_failure env timeout start (c_wait env 100 g1)))"

section \<open>Placing the bot's items\<close>

definition better_stack :: "i32 \<Rightarrow> i32 \<Rightarrow> i32 \<Rightarrow> bool" where
  "better_stack remaining bc c = (if c \<le> remaining then remaining < bc \<or> bc < c else remaining < bc \<and> c < bc)"

definition best_stack :: "string \<Rightarrow> i32 \<Rightarrow> nat \<Rightarrow> stack list \<Rightarrow> (nat \<times> i32) option" where
  "best_stack target_id remaining box_len sts =
     foldl (\<lambda>best (i, st).
         if st_count st \<le> 0 then best
         else if normalize_item_id (st_kind st) \<noteq> target_id then best
         else case best of
           None \<Rightarrow> Some (i, st_count st)
         | Some (bs, bc) \<Rightarrow> if better_stack remaining bc (st_count st) then Some (i, st_count st) else Some (bs, bc))
       None (drop box_len (enumerate 0 sts))"

definition free_offer_slot :: "stack list \<Rightarrow> nat option" where
  "free_offer_slot box =
     List.find (\<lambda>i. case stack_at box i of Some st \<Rightarrow> st_count st \<le> 0 | None \<Rightarrow> True) trade_bot_offer_slots"

definition carries_item :: "'g client \<Rightarrow> string \<Rightarrow> 'g \<Rightarrow> bool" where
  "carries_item env target_id g \<longleftrightarrow>
     0 < st_count (c_cursor env g) \<and> normalize_item_id (st_kind (c_cursor env g)) = target_id"

definition pick_up :: "'g client \<Rightarrow> string \<Rightarrow> nat \<Rightarrow> 'g \<Rightarrow> (trade_failure + i32) \<times> 'g" where
  "pick_up env target_id inv_slot g =
     (let g1 = c_wait env 250 (c_click env (LeftClick inv_slot) g);
          g2 = (if carries_item env target_id g1 then g1 else c_wait env 200 g1)
      in if carries_item env target_id g2 then (Inr (st_count (c_cursor env g2)), g2)
         else (Inl PickupFailed, c_wait env 200 (c_click env (LeftClick inv_slot) g2)))"

definition place_whole :: "'g client \<Rightarrow> string \<Rightarrow> nat \<Rightarrow> nat \<Rightarrow> i32 \<Rightarrow> 'g \<Rightarrow> (trade_failure + i32) \<times> 'g" where
  "place_whole env target_id inv_slot offer carried g =
     (let g1 = c_wait env 350 (c_click env (LeftClick offer) g);
          after = c_cursor env g1
      in if st_count after = 0 then (Inr carried, g1)
         else if normalize_item_id (st_kind after) = target_id then
           (let g2 = c_wait env 300 g1 in
            if st_count (c_cursor env g2) = 0 then (Inr carried, g2)
            else (Inl PlacementFailed, c_wait env 250 (c_click env (LeftClick inv_slot) g2)))
         else (Inr carried, g1))"

fun right_clicks :: "'g client \<Rightarrow> nat \<Rightarrow> nat \<Rightarrow> 'g \<Rightarrow> 'g" where
  "right_clicks env offer 0 g = g"
| "right_clicks env offer (Suc n) g = right_clicks env offer n (c_wait env 100 (c_click env (RightClick offer) g))"

definition place_part :: "'g client \<Rightarrow> nat \<Rightarrow> nat \<Rightarrow> i32 \<Rightarrow> i32 \<Rightarrow> 'g \<Rightarrow> (trade_failure + i32) \<times> 'g" where
  "place_part env inv_slot offer carried remaining g =
     (let g1 = c_wait env 300 (right_clicks env offer (nat remaining) g);
          after = st_count (c_cursor env g1);
          placed = wrap_i32 (carried - after);
          g2 = (if 0 < after then c_wait env 300 (c_click env (LeftClick inv_slot) g1) else g1)
      in if 0 < placed then (Inr placed, g2) else (Inl PlacementFailed, g2))"

text \<open>An item left on the cursor goes to the first empty slot of the inventory, or back where it came from.\<close>

definition empty_own_slot :: "nat \<Rightarrow> stack list \<Rightarrow> nat option" where
  "empty_own_slot box_len sts = map_option fst (List.find (\<lambda>(i, st). st_count st = 0) (drop box_len (enumerate 0 sts)))"

definition settle_cursor :: "'g client \<Rightarrow> nat \<Rightarrow> nat \<Rightarrow> 'g \<Rightarrow> trade_failure option \<times> 'g" where
  "settle_cursor env box_len inv_slot g =
     (if 0 < st_count (c_cursor env g) then
        (case c_slots env g of
           None \<Rightarrow> (Some MenuClosed, g)
         | Some sts \<Rightarrow>
             (let target = (case empty_own_slot box_len sts of Some i \<Rightarrow> i | None \<Rightarrow> inv_slot);
                  g1 = c_wait env 250 (c_click env (LeftClick target) g)
              in if 0 < st_count (c_cursor env g1) then (Some CursorNotCleared, g1) else (None, g1)))
      else (None, g))"

text \<open>One round: how many items it placed.\<close>

definition place_round :: "'g client \<Rightarrow> string \<Rightarrow> nat \<Rightarrow> i32 \<Rightarrow> 'g \<Rightarrow> (trade_failure + i32) \<times> 'g" where
  "place_round env target_id box_len remaining g =
     (let g1 = c_wait env 200 g in
      case c_slots env g1 of
        None \<Rightarrow> (Inl MenuClosed, g1)
      | Some sts \<Rightarrow>
          (case best_stack target_id remaining box_len sts of
             None \<Rightarrow> (Inl (ItemsMissing remaining), g1)
           | Some (inv_slot, _) \<Rightarrow>
               (case c_contents env g1 of
                  None \<Rightarrow> (Inl MenuClosed, g1)
                | Some box \<Rightarrow>
                    (case free_offer_slot box of
                       None \<Rightarrow> (Inl OffersFull, g1)
                     | Some offer \<Rightarrow>
                         (case pick_up env target_id inv_slot g1 of
                            (Inl e, g2) \<Rightarrow> (Inl e, g2)
                          | (Inr carried, g2) \<Rightarrow>
                              (case (if carried \<le> remaining then place_whole env target_id inv_slot offer carried g2
                                     else place_part env inv_slot offer carried remaining g2) of
                                 (Inl e, g3) \<Rightarrow> (Inl e, g3)
                               | (Inr placed, g3) \<Rightarrow>
                                   (case settle_cursor env box_len inv_slot (c_wait env 200 g3) of
                                      (Some e, g4) \<Rightarrow> (Inl e, g4)
                                    | (None, g4) \<Rightarrow> (Inr placed, g4))))))))"

lemma pick_up_positive: "pick_up env target_id inv_slot g = (Inr carried, g') \<Longrightarrow> 0 < carried"
  by (auto simp: pick_up_def carries_item_def Let_def split: if_splits)

lemma place_round_positive:
  assumes "place_round env target_id box_len remaining g = (Inr placed, g')"
  shows "0 < placed"
proof -
  obtain carried inv_slot offer g2 g3 where "pick_up env target_id inv_slot (c_wait env 200 g) = (Inr carried, g2)"
    "(if carried \<le> remaining then place_whole env target_id inv_slot offer carried g2
      else place_part env inv_slot offer carried remaining g2) = (Inr placed, g3)"
    using assms unfolding place_round_def Let_def
    by (auto split: option.splits prod.splits sum.splits)
  then show ?thesis
    using pick_up_positive by (fastforce simp: place_whole_def place_part_def Let_def split: if_splits)
qed

function place_loop :: "'g client \<Rightarrow> string \<Rightarrow> nat \<Rightarrow> i32 \<Rightarrow> 'g \<Rightarrow> trade_failure option \<times> 'g" where
  "place_loop env target_id box_len remaining g =
     (if remaining \<le> 0 then (None, g)
      else case place_round env target_id box_len remaining g of
        (Inl e, g1) \<Rightarrow> (Some e, g1)
      | (Inr placed, g1) \<Rightarrow> place_loop env target_id box_len (remaining - placed) g1)"
  by pat_completeness auto
termination
  by (relation "measure (\<lambda>(_, _, _, remaining, _). nat remaining)") (auto dest: place_round_positive [OF sym])

declare place_loop.simps [simp del]

definition place_items_from_inventory_into_trade ::
  "'g client \<Rightarrow> trade_item \<Rightarrow> 'g \<Rightarrow> trade_failure option \<times> 'g" where
  "place_items_from_inventory_into_trade env ti g =
     (if ti_amount ti \<le> 0 then (None, g)
      else case c_contents env g of
        None \<Rightarrow> (Some MenuClosed, g)
      | Some box \<Rightarrow>
          (let occupied = 0 < st_count (c_cursor env g);
               g1 = (if occupied then c_wait env 200 (c_click env LeftOutside g) else g)
           in if occupied \<and> 0 < st_count (c_cursor env g1) then (Some CursorNotCleared, g1)
              else let g2 = c_wait env 450 g1 in
                if c_slots env g2 = None then (Some MenuClosed, g2)
                else place_loop env (normalize_item_id (ti_item ti)) (length box) (ti_amount ti) g2))"

fun place_offers :: "'g client \<Rightarrow> trade_item list \<Rightarrow> 'g \<Rightarrow> trade_failure option \<times> 'g" where
  "place_offers env [] g = (None, g)"
| "place_offers env (ti # tis) g =
     (case place_items_from_inventory_into_trade env ti g of
        (Some e, g1) \<Rightarrow> (Some e, g1)
      | (None, g1) \<Rightarrow> place_offers env tis g1)"

section \<open>Checking the exchange\<close>

text \<open>The first offer whose items in the window are not exactly the promised amount.\<close>

definition offer_mismatch :: "stack list \<Rightarrow> trade_item list \<Rightarrow> (string \<times> i32) option" where
  "offer_mismatch box offers =
     (let total_offered = tally (stacks_at box trade_bot_offer_slots);
          actual = (\<lambda>ti. case hget total_offered (normalize_item_id (ti_item ti)) of Some n \<Rightarrow> n | None \<Rightarrow> 0)
      in map_option (\<lambda>ti. (ti_item ti, actual ti)) (List.find (\<lambda>ti. actual ti \<noteq> ti_amount ti) offers))"

definition found_in_inventory :: "string \<Rightarrow> stack list \<Rightarrow> i32" where
  "found_in_inventory item sts =
     foldl (\<lambda>n st. if 0 < st_count st \<and> normalize_item_id (st_kind st) = item then wrap_i32 (n + st_count st) else n) 0 sts"

text \<open>Four fifths of what was placed, computed in binary64, and at least 1.\<close>

definition rejection_threshold :: "i32 \<Rightarrow> i32" where
  "rejection_threshold amount = max (f_to_i32 (f_mul (f_of_int amount) (to_f64 (8 / 10)))) 1"

definition returned_item :: "trade_item list \<Rightarrow> stack list \<Rightarrow> (string \<times> i32) option" where
  "returned_item placed sts =
     map_option (\<lambda>ti. (ti_item ti, found_in_inventory (ti_item ti) sts))
       (List.find (\<lambda>ti. \<not> ti_amount ti \<le> 0 \<and> rejection_threshold (ti_amount ti) \<le> found_in_inventory (ti_item ti) sts) placed)"

text \<open>After the window has closed behind an accepted trade: the exchange failed if the bot still has what it placed.\<close>

definition verify_exchange ::
  "'g client \<Rightarrow> trade_item list \<Rightarrow> trade_item list \<Rightarrow> 'g \<Rightarrow> (trade_failure + trade_item list) \<times> 'g" where
  "verify_exchange env placed received g =
     (let g1 = c_wait env 300 g in
      case (case c_own env g1 of None \<Rightarrow> None | Some sts \<Rightarrow> returned_item placed sts) of
        Some (item, n) \<Rightarrow> (Inl (ReturnedItems item n), c_tidy env g1)
      | None \<Rightarrow> (Inr received, c_tidy env g1))"

section \<open>The loop\<close>

record trade_loop =
  last_click :: nat
  received_items :: "trade_item list"
  accepted :: bool
  validated :: bool

record trade_terms =
  bot_side :: "trade_item list"
  player_side :: "trade_item list"
  require_exact :: bool
  flexible :: bool

definition placed_items :: "trade_terms \<Rightarrow> trade_item list" where
  "placed_items t = map (\<lambda>ti. \<lparr>ti_item = normalize_item_id (ti_item ti), ti_amount = ti_amount ti\<rparr>) (bot_side t)"

type_synonym 'g outcome = "(trade_failure + trade_item list) \<times> 'g"

definition window_closed :: "'g client \<Rightarrow> trade_terms \<Rightarrow> trade_failure \<Rightarrow> trade_loop \<Rightarrow> 'g \<Rightarrow> 'g outcome" where
  "window_closed env t failure l g =
     (if accepted l \<and> validated l then verify_exchange env (placed_items t) (received_items l) g
      else (Inl failure, g))"

definition player_ready :: "stack list \<Rightarrow> bool" where
  "player_ready box \<longleftrightarrow>
     list_all (\<lambda>i. case stack_at box i of Some st \<Rightarrow> st_kind st \<noteq> ''minecraft:gray_dye'' | None \<Rightarrow> True) trade_player_status_slots"

definition as_items :: "(string, i32) hmap \<Rightarrow> trade_item list" where
  "as_items m = map (\<lambda>(k, n). \<lparr>ti_item = k, ti_amount = n\<rparr>) m"

text \<open>The player is ready: validate what is there now, and click accept at most every 250 milliseconds.\<close>

definition accept_round ::
  "'g client \<Rightarrow> trade_terms \<Rightarrow> trade_loop \<Rightarrow> stack list \<Rightarrow> 'g \<Rightarrow> 'g outcome + trade_loop \<times> 'g" where
  "accept_round env t l box g =
     (case validate_player_items box trade_player_offer_slots (player_side t) (require_exact t) (flexible t) of
        (found, errors) \<Rightarrow>
          if errors \<noteq> [] then Inl (Inl (ValidationFailed errors), c_close env g)
          else
            let l1 = l\<lparr>received_items := as_items found, validated := True\<rparr> in
            if 250 \<le> c_now env g - last_click l then
              let g1 = c_click env (LeftClick (hd trade_accept_slots)) g;
                  l2 = l1\<lparr>last_click := c_now env g1, accepted := True\<rparr>;
                  g2 = c_wait env 100 g1
              in if \<not> c_menu_open env g2 then Inl (verify_exchange env (placed_items t) (received_items l2) g2)
                 else Inr (l2, c_wait env 100 g2)
            else Inr (l1, c_wait env 100 g))"

definition trade_round :: "'g client \<Rightarrow> trade_terms \<Rightarrow> trade_loop \<Rightarrow> 'g \<Rightarrow> 'g outcome + trade_loop \<times> 'g" where
  "trade_round env t l g =
     (if \<not> c_menu_open env g then
        Inl (window_closed env t (if validated l then CancelledByPlayer else ClosedUnvalidated) l g)
      else
        let g1 = c_wait env 0 g in
        case c_contents env g1 of
          None \<Rightarrow>
            (let g2 = c_wait env 0 g1 in
             if \<not> c_menu_open env g2 then Inl (window_closed env t ClosedUnvalidated l g2)
             else Inr (l, c_wait env 100 g2))
        | Some box \<Rightarrow>
            if player_ready box then accept_round env t l box g1
            else Inr (l, c_wait env 100 g1))"

definition trade_timeout :: "'g client \<Rightarrow> trade_terms \<Rightarrow> trade_loop \<Rightarrow> 'g \<Rightarrow> 'g outcome" where
  "trade_timeout env t l g =
     (if \<not> c_menu_open env g then window_closed env t ClosedAtTimeout l g
      else (Inl NotConfirmed, c_close env g))"

partial_function (option) trade_rounds ::
  "'g client \<Rightarrow> trade_terms \<Rightarrow> nat \<Rightarrow> nat \<Rightarrow> trade_loop \<Rightarrow> 'g \<Rightarrow> 'g outcome option" where
  "trade_rounds env t timeout start l g =
     (if \<not> c_now env g - start < timeout then Some (trade_timeout env t l g)
      else case trade_round env t l g of
        Inl out \<Rightarrow> Some out
      | Inr (l1, g1) \<Rightarrow> trade_rounds env t timeout start l1 g1)"

definition confirm_trade :: "'g client \<Rightarrow> trade_terms \<Rightarrow> nat \<Rightarrow> 'g \<Rightarrow> 'g outcome option" where
  "confirm_trade env t timeout g =
     (case c_contents env g of
        None \<Rightarrow> Some (Inl MenuClosed, g)
      | Some box \<Rightarrow>
          (case offer_mismatch box (bot_side t) of
             Some (item, n) \<Rightarrow> Some (Inl (OfferMismatch item n), c_close env g)
           | None \<Rightarrow>
               trade_rounds env t timeout (c_now env g)
                 \<lparr>last_click = c_now env g, received_items = [], accepted = False, validated = False\<rparr> g))"

definition offer_and_confirm :: "'g client \<Rightarrow> trade_terms \<Rightarrow> nat \<Rightarrow> 'g \<Rightarrow> 'g outcome option" where
  "offer_and_confirm env t timeout g =
     (case place_offers env (bot_side t) g of
        (Some e, g1) \<Rightarrow> Some (Inl e, g1)
      | (None, g1) \<Rightarrow> confirm_trade env t timeout g1)"

definition execute_trade_with_player :: "'g client \<Rightarrow> nat \<Rightarrow> string \<Rightarrow> trade_terms \<Rightarrow> 'g \<Rightarrow> 'g outcome option" where
  "execute_trade_with_player env timeout target_username t g =
     (case c_prepare env g of
        (False, g1) \<Rightarrow> Some (Inl NotPrepared, g1)
      | (True, g1) \<Rightarrow>
          (let g2 = c_tidy env g1;
               g3 = (if c_menu_open env g2 then c_wait env 250 (c_close env g2) else g2)
           in case c_say env (''/trade '' @ target_username) g3 of
                (False, g4) \<Rightarrow> Some (Inl NotSent, g4)
              | (True, g4) \<Rightarrow>
                  Option.bind (wait_for_trade_menu_or_failure env timeout (c_now env g4) g4)
                    (\<lambda>(failure, g5). case failure of
                       Some e \<Rightarrow> Some (Inl e, g5)
                     | None \<Rightarrow> offer_and_confirm env t timeout g5)))"

section \<open>What a completed trade has shown\<close>

text \<open>The amount of an item among those received.\<close>

definition amount_of :: "trade_item list \<Rightarrow> string \<Rightarrow> i32" where
  "amount_of items k = (case map_of (map (\<lambda>ti. (ti_item ti, ti_amount ti)) items) k of Some n \<Rightarrow> n | None \<Rightarrow> 0)"

definition terms_met :: "trade_terms \<Rightarrow> trade_item list \<Rightarrow> bool" where
  "terms_met t items \<longleftrightarrow>
     (player_side t = [] \<longrightarrow> items = []) \<and>
     list_all (\<lambda>ti. has_key (expected_items (player_side t)) (ti_item ti)) items \<and>
     list_all (\<lambda>(k, n). if flexible t then 1 \<le> amount_of items k
       else n \<le> amount_of items k \<and> (require_exact t \<longrightarrow> amount_of items k = n)) (expected_items (player_side t))"

definition shown :: "trade_terms \<Rightarrow> trade_item list \<Rightarrow> bool" where
  "shown t items \<longleftrightarrow>
     (\<exists>box found. validate_player_items box trade_player_offer_slots (player_side t) (require_exact t) (flexible t) = (found, []) \<and>
        items = as_items found)"

lemma amount_of_as_items: "amount_of (as_items m) k = (case hget m k of Some n \<Rightarrow> n | None \<Rightarrow> 0)"
proof -
  have "map (\<lambda>ti. (ti_item ti, ti_amount ti)) (as_items m) = m" by (induction m) (auto simp: as_items_def)
  then show ?thesis by (simp add: amount_of_def)
qed

lemma count_up_keys: "set (map fst (count_up m st)) \<subseteq> insert (normalize_item_id (st_kind st)) (set (map fst m))"
  unfolding set_map by (auto simp: count_up_def Let_def dom_update)

lemma tally_keys_step:
  "k \<in> set (map fst (foldl count_up m sts)) \<Longrightarrow> k \<in> set (map fst m) \<or> (\<exists>st \<in> set sts. k = normalize_item_id (st_kind st))"
proof (induction sts arbitrary: m)
  case (Cons st sts)
  from Cons.prems have "k \<in> set (map fst (foldl count_up (count_up m st) sts))" by simp
  from Cons.IH [OF this] show ?case using count_up_keys [of m st] by (auto simp del: set_map)
qed simp

lemma tally_keys: "k \<in> set (map fst (tally sts)) \<Longrightarrow> \<exists>st \<in> set sts. k = normalize_item_id (st_kind st)"
  using tally_keys_step [of k "[]" sts] by (simp add: tally_def)

lemma shown_terms_met:
  assumes "shown t items"
  shows "terms_met t items"
proof -
  obtain box found where v: "validate_player_items box trade_player_offer_slots (player_side t) (require_exact t) (flexible t) = (found, [])"
    and items: "items = as_items found" using assms by (auto simp: shown_def)
  define here where "here = filter (\<lambda>st. 0 < st_count st) (stacks_at box trade_player_offer_slots)"
  show ?thesis
  proof (cases "player_side t = []")
    case True
    then show ?thesis using v items
      by (auto simp: validate_player_items_def terms_met_def as_items_def expected_items_def)
  next
    case False
    let ?e = "expected_items (player_side t)"
    have f: "found = tally here"
      and u: "filter (\<lambda>st. \<not> has_key ?e (normalize_item_id (st_kind st))) here = []"
      and c: "\<And>k n. (k, n) \<in> set ?e \<Longrightarrow> check_amount (require_exact t) (flexible t) found (k, n) = []"
      using v False unfolding validate_player_items_def here_def [symmetric] Let_def by auto
    have "has_key ?e (ti_item ti)" if "ti \<in> set items" for ti
    proof -
      from that have "ti_item ti \<in> set (map fst (tally here))" by (force simp: items f as_items_def)
      then obtain st where "st \<in> set here" "ti_item ti = normalize_item_id (st_kind st)" using tally_keys by blast
      then show ?thesis using u by (auto simp: filter_empty_conv)
    qed
    moreover have "if flexible t then 1 \<le> amount_of items k
        else n \<le> amount_of items k \<and> (require_exact t \<longrightarrow> amount_of items k = n)" if "(k, n) \<in> set ?e" for k n
      using c [OF that] unfolding items amount_of_as_items check_amount_def
      by (auto simp: Let_def split: if_splits)
    ultimately show ?thesis using False by (auto simp: terms_met_def list_all_iff)
  qed
qed

definition loop_ok :: "trade_terms \<Rightarrow> trade_loop \<Rightarrow> bool" where
  "loop_ok t l \<longleftrightarrow> (validated l \<longrightarrow> shown t (received_items l)) \<and> (accepted l \<longrightarrow> validated l)"

definition outcome_ok :: "trade_terms \<Rightarrow> trade_failure + trade_item list \<Rightarrow> bool" where
  "outcome_ok t r \<longleftrightarrow> (\<forall>items. r = Inr items \<longrightarrow> shown t items)"

lemma verify_exchange_ok: "shown t items \<Longrightarrow> outcome_ok t (fst (verify_exchange env placed items g))"
  by (auto simp: verify_exchange_def outcome_ok_def Let_def split: option.splits)

lemma window_closed_ok: "loop_ok t l \<Longrightarrow> outcome_ok t (fst (window_closed env t e l g))"
  using verify_exchange_ok [of t "received_items l" env] by (auto simp: window_closed_def loop_ok_def outcome_ok_def)

lemma accept_round_ok:
  assumes "loop_ok t l"
  shows "case accept_round env t l box g of Inl out \<Rightarrow> outcome_ok t (fst out) | Inr (l1, g1) \<Rightarrow> loop_ok t l1"
proof -
  obtain found errors where v: "validate_player_items box trade_player_offer_slots (player_side t) (require_exact t) (flexible t) = (found, errors)"
    by force
  show ?thesis
  proof (cases "errors = []")
    case True
    then have "shown t (as_items found)" using v by (auto simp: shown_def)
    then show ?thesis using v True verify_exchange_ok [of t "as_items found" env]
      by (simp add: accept_round_def Let_def loop_ok_def)
  qed (use v in \<open>simp add: accept_round_def outcome_ok_def\<close>)
qed

lemma trade_round_ok:
  assumes "loop_ok t l"
  shows "case trade_round env t l g of Inl out \<Rightarrow> outcome_ok t (fst out) | Inr (l1, g1) \<Rightarrow> loop_ok t l1"
  using window_closed_ok [OF assms, of env] accept_round_ok [OF assms, of env] assms
  by (simp add: trade_round_def Let_def split: option.split)

lemma trade_rounds_ok: "trade_rounds env t timeout start l g = Some out \<Longrightarrow> loop_ok t l \<longrightarrow> outcome_ok t (fst out)"
proof (rule trade_rounds.raw_induct [of "\<lambda>env t timeout start l g out. loop_ok t l \<longrightarrow> outcome_ok t (fst out)"])
  fix rounds :: "'a client \<Rightarrow> trade_terms \<Rightarrow> nat \<Rightarrow> nat \<Rightarrow> trade_loop \<Rightarrow> 'a \<Rightarrow> 'a outcome option"
    and env t timeout start l g out
  assume IH: "\<And>env t timeout start l g out. rounds env t timeout start l g = Some out \<Longrightarrow> loop_ok t l \<longrightarrow> outcome_ok t (fst out)"
    and s: "(if \<not> c_now env g - start < timeout then Some (trade_timeout env t l g)
      else case trade_round env t l g of Inl out \<Rightarrow> Some out | Inr (l1, g1) \<Rightarrow> rounds env t timeout start l1 g1) = Some out"
  show "loop_ok t l \<longrightarrow> outcome_ok t (fst out)"
  proof
    assume l: "loop_ok t l"
    show "outcome_ok t (fst out)"
    proof (cases "c_now env g - start < timeout")
      case False
      then show ?thesis
        using s window_closed_ok [OF l, of env] by (auto simp: trade_timeout_def outcome_ok_def split: if_splits)
    next
      case True
      show ?thesis
      proof (cases "trade_round env t l g")
        case (Inl o1)
        then show ?thesis using s True trade_round_ok [OF l, of env g] by simp
      next
        case (Inr x)
        obtain l1 g1 where x: "x = (l1, g1)" by force
        have "rounds env t timeout start l1 g1 = Some out" using s True Inr x by simp
        from IH [OF this] show ?thesis using trade_round_ok [OF l, of env g] Inr x by simp
      qed
    qed
  qed
qed

lemma confirm_trade_ok:
  assumes "confirm_trade env t timeout g = Some out" "fst out = Inr items"
  shows "shown t items \<and> (\<exists>box. offer_mismatch box (bot_side t) = None)"
proof -
  obtain box where box: "c_contents env g = Some box" "offer_mismatch box (bot_side t) = None"
    using assms by (auto simp: confirm_trade_def split: option.splits)
  then have r: "trade_rounds env t timeout (c_now env g)
      \<lparr>last_click = c_now env g, received_items = [], accepted = False, validated = False\<rparr> g = Some out"
    using assms(1) by (simp add: confirm_trade_def)
  from trade_rounds_ok [OF r] have "outcome_ok t (fst out)" by (simp add: loop_ok_def)
  then show ?thesis using assms(2) box(2) by (auto simp: outcome_ok_def)
qed

lemma offer_mismatch_None:
  assumes "offer_mismatch box offers = None" "ti \<in> set offers"
  shows "(case hget (tally (stacks_at box trade_bot_offer_slots)) (normalize_item_id (ti_item ti)) of Some n \<Rightarrow> n | None \<Rightarrow> 0) = ti_amount ti"
  using assms by (auto simp: offer_mismatch_def Let_def find_None_iff)


section \<open>A trade ends\<close>

text \<open>Sleeping moves the clock by what was asked for, and nothing turns it back.\<close>

definition clock_runs :: "'g client \<Rightarrow> bool" where
  "clock_runs env \<longleftrightarrow>
     (\<forall>d g. c_now env g + d \<le> c_now env (c_wait env d g)) \<and>
     (\<forall>k g. c_now env g \<le> c_now env (c_click env k g)) \<and>
     (\<forall>g. c_now env g \<le> c_now env (snd (c_line env g)))"

lemma clock_wait: "clock_runs env \<Longrightarrow> c_now env g + d \<le> c_now env (c_wait env d g)"
  and clock_click: "clock_runs env \<Longrightarrow> c_now env g \<le> c_now env (c_click env k g)"
  and clock_line: "clock_runs env \<Longrightarrow> c_line env g = (line, g1) \<Longrightarrow> c_now env g \<le> c_now env g1"
  unfolding clock_runs_def by (blast, blast, metis snd_conv)

lemma wait_ends: "clock_runs env \<Longrightarrow> \<exists>out. wait_for_trade_menu_or_failure env timeout start g = Some out"
proof (induction "start + timeout - c_now env g" arbitrary: g rule: less_induct)
  case less
  obtain line g1 where l: "c_line env g = (line, g1)" by force
  show ?case
  proof (cases "c_now env g - start < timeout")
    case True
    have "c_now env g + 100 \<le> c_now env (c_wait env 100 g1)"
      using clock_line [OF less.prems l] clock_wait [OF less.prems, of g1 100] by simp
    then have "start + timeout - c_now env (c_wait env 100 g1) < start + timeout - c_now env g" using True by linarith
    from less.hyps [OF this less.prems] show ?thesis
      using True l by (subst wait_for_trade_menu_or_failure.simps) (auto split: option.splits)
  qed (subst wait_for_trade_menu_or_failure.simps, simp)
qed

lemma trade_round_advances:
  assumes "clock_runs env" "trade_round env t l g = Inr (l1, g1)"
  shows "c_now env g + 100 \<le> c_now env g1"
proof -
  note w = clock_wait [OF assms(1)] and k = clock_click [OF assms(1)]
  have a: "c_now env h + 100 \<le> c_now env h1" if "accept_round env t l box h = Inr (l1, h1)" for box h h1
  proof -
    let ?c = "c_click env (LeftClick (hd trade_accept_slots)) h"
    have "h1 = c_wait env 100 h \<or> h1 = c_wait env 100 (c_wait env 100 ?c)"
      using that by (auto simp: accept_round_def Let_def split: prod.splits if_splits)
    then show ?thesis
      using w [of h 100] w [of ?c 100] w [of "c_wait env 100 ?c" 100] k [of h "LeftClick (hd trade_accept_slots)"] by auto
  qed
  let ?g1 = "c_wait env 0 g"
  have "c_now env ?g1 + 100 \<le> c_now env g1"
  proof (cases "c_contents env ?g1")
    case None
    then have "g1 = c_wait env 100 (c_wait env 0 ?g1)"
      using assms(2) by (auto simp: trade_round_def Let_def split: if_splits)
    then show ?thesis using w [of ?g1 0] w [of "c_wait env 0 ?g1" 100] by simp
  next
    case (Some box)
    then have "accept_round env t l box ?g1 = Inr (l1, g1) \<or> g1 = c_wait env 100 ?g1"
      using assms(2) by (auto simp: trade_round_def Let_def split: if_splits)
    then show ?thesis using a w [of ?g1 100] by auto
  qed
  then show ?thesis using w [of g 0] by simp
qed

lemma rounds_end: "clock_runs env \<Longrightarrow> \<exists>out. trade_rounds env t timeout start l g = Some out"
proof (induction "start + timeout - c_now env g" arbitrary: l g rule: less_induct)
  case less
  show ?case
  proof (cases "c_now env g - start < timeout")
    case True
    show ?thesis
    proof (cases "trade_round env t l g")
      case (Inr x)
      obtain l1 g1 where x: "x = (l1, g1)" by force
      have "start + timeout - c_now env g1 < start + timeout - c_now env g"
        using trade_round_advances [OF less.prems] Inr x True by fastforce
      from less.hyps [OF this less.prems] show ?thesis using True Inr x by (subst trade_rounds.simps) simp
    qed (use True in \<open>subst trade_rounds.simps, simp\<close>)
  qed (subst trade_rounds.simps, simp)
qed

text \<open>C38: Every trade comes to an end, whatever the player and the server do, as long as the clock runs.\<close>

theorem trade_ends:
  assumes "clock_runs env"
  shows "\<exists>out. execute_trade_with_player env timeout target_username t g = Some out"
proof -
  have c: "\<exists>out. confirm_trade env t timeout g6 = Some out" for g6
    using rounds_end [OF assms] by (simp add: confirm_trade_def split: option.split)
  have o: "\<exists>out. offer_and_confirm env t timeout g5 = Some out" for g5
    using c by (simp add: offer_and_confirm_def split: prod.split option.split)
  have b: "\<exists>out. Option.bind (wait_for_trade_menu_or_failure env timeout (c_now env g4) g4)
      (\<lambda>(failure, g5). case failure of Some e \<Rightarrow> Some (Inl e, g5) | None \<Rightarrow> offer_and_confirm env t timeout g5) = Some out" for g4
  proof -
    obtain failure g5 where "wait_for_trade_menu_or_failure env timeout (c_now env g4) g4 = Some (failure, g5)"
      using wait_ends [OF assms, of timeout "c_now env g4" g4] by force
    then show ?thesis using o [of g5] by (cases failure) simp_all
  qed
  obtain ok g1 where 1: "c_prepare env g = (ok, g1)" by force
  define g3 where "g3 = (if c_menu_open env (c_tidy env g1) then c_wait env 250 (c_close env (c_tidy env g1)) else c_tidy env g1)"
  obtain sent g4 where 2: "c_say env (''/trade '' @ target_username) g3 = (sent, g4)" by force
  show ?thesis
    unfolding execute_trade_with_player_def Let_def 1 prod.case g3_def [symmetric] 2
    using b [of g4] by (cases ok; cases sent) simp_all
qed

section \<open>Returned items\<close>

lemma threshold_bounds:
  assumes "0 < n" "in_i32 n"
  shows "rejection_threshold n \<le> n"
proof -
  have r: "rnd (8 / 10) \<le> 1" using rnd_le_rep [of "8 / 10" 1] rnd_of_int [of 1] by simp
  have r0: "0 \<le> rnd (8 / 10)" by (rule rnd_nonneg) simp
  have "to_f64 (8 / 10) = Fin (rnd (8 / 10))"
    unfolding to_f64_Fin overflows_iff using pow2_less_iff [of 0 1024] r r0 by simp
  then have m: "f_mul (f_of_int n) (to_f64 (8 / 10)) = to_f64 (of_int n * rnd (8 / 10))"
    using assms(2) by simp
  have le: "of_int n * rnd (8 / 10) \<le> of_int n" using assms(1) r by (simp add: mult_left_le)
  have n53: "\<bar>n\<bar> \<le> 2 ^ 53" using assms by (simp add: in_i32_def i32_max_def)
  have rle: "rnd (of_int n * rnd (8 / 10)) \<le> of_int n" using rnd_le_rep [OF le rnd_of_int [OF n53]] .
  moreover have "0 \<le> rnd (of_int n * rnd (8 / 10))" using r0 assms(1) by (intro rnd_nonneg) simp
  ultimately have t: "trunc_rat (rnd (of_int n * rnd (8 / 10))) \<le> n" by (simp add: trunc_rat_def) linarith
  have "\<not> overflows (rnd (of_int n * rnd (8 / 10)))"
  proof -
    have "\<bar>rnd (of_int n * rnd (8 / 10))\<bar> \<le> of_int n"
      using rle r0 assms(1) rnd_nonneg [of "of_int n * rnd (8 / 10)"] by simp
    also have "of_int n \<le> (of_int (2 ^ 53) :: rat)" using n53 assms(1) by linarith
    also have "of_int (2 ^ 53) < pow2 1024" unfolding pow2_53 [symmetric] by simp
    finally show ?thesis by (simp add: overflows_iff)
  qed
  then have "to_f64 (of_int n * rnd (8 / 10)) = Fin (rnd (of_int n * rnd (8 / 10)))" unfolding to_f64_Fin by simp
  then show ?thesis
    using t assms unfolding rejection_threshold_def m by (auto simp: in_i32_def i32_min_def)
qed

text \<open>C39: 
  If the server undid an exchange the bot accepted, the bot notices it: with at least the offered amount of one of its
  items back in the inventory, no completed trade is reported.
\<close>

theorem returned_items_noticed:
  assumes "ti \<in> set placed" "0 < ti_amount ti" "in_i32 (ti_amount ti)"
    "c_own env (c_wait env 300 g) = Some sts" "ti_amount ti \<le> found_in_inventory (ti_item ti) sts"
  shows "\<exists>item n. fst (verify_exchange env placed items g) = Inl (ReturnedItems item n)"
proof -
  have "rejection_threshold (ti_amount ti) \<le> found_in_inventory (ti_item ti) sts"
    using threshold_bounds [OF assms(2,3)] assms(5) by linarith
  then have "returned_item placed sts \<noteq> None"
    using assms(1,2) by (auto simp: returned_item_def find_None_iff)
  then show ?thesis using assms(4) by (auto simp: verify_exchange_def Let_def)
qed

text \<open>C40: 
  A trade in which the bot offers nothing is never found to have failed: once the bot has clicked accept, a window that
  closes counts as a completed trade, also when the player cancelled and kept everything.
\<close>

theorem cancelled_deposit_completed:
  assumes "bot_side t = []" "accepted l" "validated l" "\<not> c_menu_open env g"
  shows "trade_round env t l g = Inl (Inr (received_items l), c_tidy env (c_wait env 300 g))"
  using assms
  by (simp add: trade_round_def window_closed_def verify_exchange_def returned_item_def placed_items_def Let_def split: option.split)

section \<open>A sample trade\<close>

text \<open>A deposit of 64 cobblestone; the window closes when the bot clicks accept. The state is the clock and whether it has.\<close>

definition sample_window :: "stack list" where
  "sample_window = map (\<lambda>i.
     if i = 5 then \<lparr>st_kind = ''minecraft:cobblestone'', st_count = 64\<rparr>
     else if i \<in> set trade_accept_slots then \<lparr>st_kind = ''minecraft:lime_wool'', st_count = 1\<rparr>
     else if i \<in> set trade_cancel_slots then \<lparr>st_kind = ''minecraft:red_wool'', st_count = 1\<rparr>
     else if i \<in> set trade_player_status_slots then \<lparr>st_kind = ''minecraft:lime_dye'', st_count = 1\<rparr>
     else \<lparr>st_kind = ''minecraft:air'', st_count = 0\<rparr>) [0..<54]"

definition sample_client :: "(nat \<times> bool) client" where
  "sample_client =
     \<lparr>c_now = fst, c_wait = (\<lambda>d (n, b). (n + d, b)), c_menu_open = (\<lambda>(n, b). \<not> b), c_contents = (\<lambda>g. Some sample_window),
      c_slots = (\<lambda>g. Some sample_window), c_cursor = (\<lambda>g. \<lparr>st_kind = ''minecraft:air'', st_count = 0\<rparr>),
      c_click = (\<lambda>k (n, b). (n, True)), c_own = (\<lambda>g. Some []), c_line = (\<lambda>g. (None, g)), c_close = (\<lambda>g. g),
      c_prepare = (\<lambda>g. (True, g)), c_tidy = (\<lambda>g. g), c_say = (\<lambda>m g. (True, g))\<rparr>"

definition sample_terms :: trade_terms where
  "sample_terms = \<lparr>bot_side = [], player_side = [\<lparr>ti_item = ''cobblestone'', ti_amount = 1\<rparr>], require_exact = False, flexible = True\<rparr>"

definition sample_loop :: "bool \<Rightarrow> trade_loop" where
  "sample_loop seen = \<lparr>last_click = 250, received_items = (if seen then [\<lparr>ti_item = ''cobblestone'', ti_amount = 64\<rparr>] else []),
     accepted = False, validated = seen\<rparr>"

lemma sample_rounds:
  "trade_round sample_client sample_terms (sample_loop False) (250, False) = Inr (sample_loop True, (350, False))"
  "trade_round sample_client sample_terms (sample_loop True) (350, False) = Inr (sample_loop True, (450, False))"
  "trade_round sample_client sample_terms (sample_loop True) (450, False) = Inr (sample_loop True, (550, False))"
  "trade_round sample_client sample_terms (sample_loop True) (550, False) =
     Inl (Inr [\<lparr>ti_item = ''cobblestone'', ti_amount = 64\<rparr>], (950, True))"
  by code_simp+

lemma sample_wait: "wait_for_trade_menu_or_failure sample_client 5000 250 (250, False) = Some (None, (250, False))"
proof -
  have "trade_menu_shown sample_client (250, False)" by code_simp
  then show ?thesis
    by (subst wait_for_trade_menu_or_failure.simps) (simp add: sample_client_def refusal_def)
qed

lemma sample_confirm:
  "confirm_trade sample_client sample_terms 5000 (250, False) = Some (Inr [\<lparr>ti_item = ''cobblestone'', ti_amount = 64\<rparr>], (950, True))"
proof -
  have now: "c_now sample_client (n, b) = n" for n b by (simp add: sample_client_def)
  have rounds: "trade_rounds sample_client sample_terms 5000 250 (sample_loop False) (250, False) =
      Some (Inr [\<lparr>ti_item = ''cobblestone'', ti_amount = 64\<rparr>], (950, True))"
    by (simp add: trade_rounds.simps [of sample_client sample_terms 5000 250] now sample_rounds)
  have start: "\<lparr>last_click = 250, received_items = [], accepted = False, validated = False\<rparr> = sample_loop False"
    by (simp add: sample_loop_def)
  have "c_contents sample_client (250, False) = Some sample_window" "bot_side sample_terms = []"
    by (simp_all add: sample_client_def sample_terms_def)
  then show ?thesis
    by (simp add: confirm_trade_def offer_mismatch_def now start rounds)
qed

lemma sample_trade:
  "execute_trade_with_player sample_client 5000 ''bob'' sample_terms (0, False) =
     Some (Inr [\<lparr>ti_item = ''cobblestone'', ti_amount = 64\<rparr>], (950, True))"
proof -
  have "c_prepare sample_client (0, False) = (True, (0, False))" "c_tidy sample_client (0, False) = (0, False)"
    "(if c_menu_open sample_client (0, False) then c_wait sample_client 250 (c_close sample_client (0, False)) else (0, False)) = (250, False)"
    "c_say sample_client (''/trade '' @ ''bob'') (250, False) = (True, (250, False))" "c_now sample_client (250, False) = 250"
    "bot_side sample_terms = []"
    by (simp_all add: sample_client_def sample_terms_def)
  then show ?thesis
    by (simp only: execute_trade_with_player_def Let_def prod.case bool.case option.case sample_wait Option.bind.bind_lunit
        offer_and_confirm_def place_offers.simps sample_confirm)
qed


lemma sample_clock: "clock_runs sample_client"
  by (auto simp: clock_runs_def sample_client_def)

theorem trade_ends_witness:
  "\<exists>out. execute_trade_with_player sample_client 5000 ''bob'' sample_terms (7, True) = Some out"
  by (rule trade_ends [OF sample_clock])

theorem returned_items_noticed_witness:
  "\<exists>item n. fst (verify_exchange (sample_client\<lparr>c_own := \<lambda>g. Some [\<lparr>st_kind = ''minecraft:diamond'', st_count = 3\<rparr>]\<rparr>)
     [\<lparr>ti_item = ''diamond'', ti_amount = 3\<rparr>] [] (0, True)) = Inl (ReturnedItems item n)"
proof (rule returned_items_noticed [of "\<lparr>ti_item = ''diamond'', ti_amount = 3\<rparr>" _ _ _ "[\<lparr>st_kind = ''minecraft:diamond'', st_count = 3\<rparr>]"])
  show "ti_amount \<lparr>ti_item = ''diamond'', ti_amount = 3\<rparr>
      \<le> found_in_inventory (ti_item \<lparr>ti_item = ''diamond'', ti_amount = 3\<rparr>) [\<lparr>st_kind = ''minecraft:diamond'', st_count = 3\<rparr>]"
    by code_simp
qed (simp_all add: in_i32_def i32_min_def i32_max_def)

theorem cancelled_deposit_completed_witness:
  "trade_round sample_client sample_terms
     \<lparr>last_click = 0, received_items = [\<lparr>ti_item = ''cobblestone'', ti_amount = 64\<rparr>], accepted = True, validated = True\<rparr> (1000, True) =
   Inl (Inr [\<lparr>ti_item = ''cobblestone'', ti_amount = 64\<rparr>], (1300, True))"
  by (subst cancelled_deposit_completed) (simp_all add: sample_client_def sample_terms_def)

end
