(* ===== verification/Spec2Isabelle.thy ===== *)
theory Spec2Isabelle
  imports Pricing_Properties ItemIds Storage_Growth Order_Processing Buy_Books Commands Payments Loop_Properties Idle_Loop Name_Cache_Properties Journal Web_Fetch Bot_Trade
begin

text \<open>
  Verification development for cj-store, a shop bot for a Minecraft server (Rust, \<^verbatim>\<open>src/src\<close>).

  \<^bold>\<open>The program.\<close> Players whisper commands to a bot. One task, the store (\<^verbatim>\<open>store/mod.rs\<close>), owns all
  state: users with balances, trading pairs with item and currency reserves, the physical storage (nodes of four
  double chests of shulker boxes), the order log and the trade history. Commands that move items
  become orders in a persistent queue; the store executes one order at a time by sending
  instructions (open a chest, trade with a player, whisper) to a second task, the bot, and applies the
  chest reports it answers with.

  \<^bold>\<open>Theories.\<close> \<^verbatim>\<open>Prelude\<close> has the machine integers, hash maps and the contents of a file;
  \<^verbatim>\<open>Constants\<close> \<^verbatim>\<open>constants.rs\<close>; \<^verbatim>\<open>Float64\<close> binary64 as exact rationals with rounding to nearest.
  \<^item> \<^verbatim>\<open>Pricing\<close>, \<^verbatim>\<open>Pricing_Properties\<close>: the quotes of \<^verbatim>\<open>store/pricing.rs\<close>.
  \<^item> \<^verbatim>\<open>ItemIds\<close> (\<^verbatim>\<open>types/item_id.rs\<close>), \<^verbatim>\<open>Errors\<close> (\<^verbatim>\<open>error.rs\<close>).
  \<^item> \<^verbatim>\<open>Node\<close>: positions, chests and nodes (\<^verbatim>\<open>types/position.rs\<close>, \<^verbatim>\<open>chest.rs\<close>, \<^verbatim>\<open>node.rs\<close>).
  \<^item> \<^verbatim>\<open>Storage\<close>, \<^verbatim>\<open>Storage_Plans\<close>, \<^verbatim>\<open>Storage_Growth\<close>: loading, planners and growth of \<^verbatim>\<open>types/storage.rs\<close>.
  \<^item> \<^verbatim>\<open>Order_Queue\<close> (\<^verbatim>\<open>store/queue.rs\<close>), \<^verbatim>\<open>Rate_Limit\<close> (\<^verbatim>\<open>store/rate_limit.rs\<close>), \<^verbatim>\<open>Trade_State\<close>
    (\<^verbatim>\<open>store/trade_state.rs\<close>), each with its file.
  \<^item> \<^verbatim>\<open>Commands\<close>: the parser of whispered commands and its validators (\<^verbatim>\<open>store/command.rs\<close>,
    \<^verbatim>\<open>store/handlers/validation.rs\<close>).
  \<^item> \<^verbatim>\<open>Store_State\<close>, \<^verbatim>\<open>Store_Invariants\<close>: the store record, chest reports, audit, gate and save
    (\<^verbatim>\<open>store/state.rs\<close>, the accessors of \<^verbatim>\<open>store/mod.rs\<close>, \<^verbatim>\<open>store/utils.rs\<close>).
  \<^item> \<^verbatim>\<open>Store_World\<close>: the store together with everything it asks for: the answers of the bot, the outcomes
    of writes and the clock are scripts, the instructions sent are a log. A handler is an \<open>act\<close>, a function
    from a world to a result (value, error, panic) and a world.
  \<^item> \<^verbatim>\<open>Rollback\<close>, \<^verbatim>\<open>Rollback_Properties\<close>: \<^verbatim>\<open>store/rollback.rs\<close>.
  \<^item> \<^verbatim>\<open>Orders\<close> (\<^verbatim>\<open>store/orders.rs\<close>) and \<^verbatim>\<open>Balance_Orders\<close> (\<^verbatim>\<open>store/handlers/deposit.rs\<close>, \<^verbatim>\<open>withdraw.rs\<close>):
    the four order handlers; \<^verbatim>\<open>Order_Plans\<close>, \<^verbatim>\<open>Order_Frames\<close>, \<^verbatim>\<open>Order_Effects\<close>, \<^verbatim>\<open>Transfer_Log\<close>,
    \<^verbatim>\<open>Order_Money\<close>, \<^verbatim>\<open>Buy_Books\<close> prove what they do.
  \<^item> \<^verbatim>\<open>Order_Processing\<close>: \<open>process_next_order\<close> with the queue file and the mirror file.
  \<^item> \<^verbatim>\<open>Operators\<close> (\<^verbatim>\<open>store/handlers/operator.rs\<close>) with \<^verbatim>\<open>Operator_Effects\<close>, \<^verbatim>\<open>Operator_Properties\<close>: the four commands
    that move items and reserves. \<^verbatim>\<open>Player\<close> (\<^verbatim>\<open>player.rs\<close>, \<^verbatim>\<open>info.rs\<close>, \<^verbatim>\<open>buy.rs\<close>, \<^verbatim>\<open>sell.rs\<close> and the enqueue functions) with
    \<^verbatim>\<open>Player_Frames\<close>, \<^verbatim>\<open>Player_Properties\<close>, \<^verbatim>\<open>Payments\<close>: a whisper from the limiter to its handler; \<^verbatim>\<open>Texts\<close> has the numbers
    and lists inside messages.
  \<^item> \<^verbatim>\<open>Terminal\<close>, \<^verbatim>\<open>Terminal_Properties\<close>: the operator's menu (\<^verbatim>\<open>store/handlers/cli.rs\<close>).
  \<^item> \<^verbatim>\<open>Main_Loop\<close>, \<^verbatim>\<open>Loop_Properties\<close>, \<^verbatim>\<open>Idle_Loop\<close>: \<open>Store::run\<close>, one turn at a time, over the inputs of its turns.
  \<^item> \<^verbatim>\<open>Name_Cache\<close>, \<^verbatim>\<open>Name_Cache_Properties\<close>: the name service's cache and its single-flight protocol (\<^verbatim>\<open>mojang.rs\<close>), calls as
    phases and one event per critical section or await.
  \<^item> \<^verbatim>\<open>File_Writes\<close> (\<^verbatim>\<open>fsutil.rs\<close>): a disk whose calls take their outcomes from a script and whose past states are kept, so a
    crash is a choice of one of them; \<^verbatim>\<open>Journal\<close> (\<^verbatim>\<open>store/journal.rs\<close> and the bot's start).
  \<^item> \<^verbatim>\<open>Bot_Trade\<close> (\<^verbatim>\<open>bot/trade.rs\<close>): the trade window with a player, over any client with the calls the code makes.
  \<^item> \<^verbatim>\<open>Web_Address\<close>, \<^verbatim>\<open>Web_Guard\<close>, \<^verbatim>\<open>Web_Text\<close>, \<^verbatim>\<open>Web_Fetch\<close> (\<^verbatim>\<open>chat/web.rs\<close>): what the chat persona may fetch, and what it
    is given of a page.

  \<^bold>\<open>Interfaces.\<close> \<open>fifo_store\<close> (\<^verbatim>\<open>Order_Queue\<close>) is what a client of the queue relies on, \<open>step_invariant\<close> an
  invariant of a step relation. \<open>bot_relation\<close>, \<open>world_relation\<close> and \<open>ledger_relation\<close> are preorders on worlds that
  the primitive actions respect; a frame, an invariant or a refinement of all handlers is one interpretation
  of them (who else's books change, well-formed storage, the trade in flight, the evidence
  of a trade in its mirror, the books during the bot's part). \<open>act_relation\<close>, \<open>player_relation\<close> and \<open>menu_relation\<close> extend them
  to the commands and the menu, \<open>slot_relation\<close> to chest reports, and \<open>loop_relation\<close> to whole turns: operator flags,
  marked changes and the registry of pairs are its instances.

  \<^bold>\<open>What is shown.\<close> Pricing: no quoted trade lowers the product of the reserves, and selling never pays more than
  buying costs. Storage: planners take or place exactly the request or all there is, agree with the mutating planners,
  and loading gives well-formed nodes. Queue: first in first out, bounded, durable. Limiter: bounded and
  honest. Orders: they always keep to their own books and to the trade state machine, a failed
  withdrawal is put back, a rollback accounts for every item, a buy is booked exactly once and at its quote, and
  an order is in the queue file or in the mirror at every step of the handover. Commands: the parser accepts exactly sound
  commands and reads back what they print; players change only their own orders and the two balances of a payment;
  operators leave true stock counts. Loop: a waiting order is served, changes stay marked until a save succeeds, nobody
  gains a right without the terminal, and the invariants hold in every reachable state. Names: one request per name in
  flight, followers are woken. Files: an atomic write survives a crash at any moment, the journal keeps its evidence. Bot: a
  completed trade was seen to meet its terms, and every trade ends. Web: the deny-list is a list of address blocks, every
  request is guarded by it, scripts and line breaks of a page do not pass. The theorems about overpaid buys,
  refused orders, preserved trades, timed-out removals, pairs added over stock, the idle loop, aliased node files, lost
  followers, a blocked journal, cancelled deposits, hexadecimal hosts and redirects with a query describe
  behaviour that looks unintended.

  \<^bold>\<open>Bounds and fuel.\<close> The growth of storage in a rollback is bounded by 16 as in the source (\<open>MAX_GROW\<close>); the mutating
  deposit planner is a partial function whose result is proved to exist; the ring search of a node position uses a
  fuel proved sufficient. Machine integers are written with their wrap-around; the release build
  has no overflow checks and no debug assertions.

  \<^bold>\<open>Not modelled.\<close> Log output is left out, and in the order handlers texts to players are reduced to their fixed part. The
  outcome of file operations and of name resolution is a parameter of the store. \<open>Store::new\<close>, which loads everything at
  start-up, and the configuration are left out. Of the bot, everything but its trades drives a Minecraft client; of the chat
  persona, everything but its web access and the parts named above writes prompts and calls a language model. JSON and HTTP
  are libraries. The watchdog drops the future of an order at an arbitrary
  await: the shop it leaves behind is an input of the turn.
\<close>

end
